(* ===== verification/Prelude.thy ===== *)
theory Prelude
  imports Main "HOL-Library.List_Lexorder" "HOL-Library.Char_ord"
    "HOL-Library.Product_Lexorder" "HOL-Library.Sublist" "HOL-Library.Multiset"
begin

text \<open>
  Shared ground of the development: the collections of rewrite rules the component
  theories extend, the sequencing combinator for results that may be errors, and the
  generic facts on lists, options and sorted association lists several components use.
\<close>

named_theorems result_simps \<open>rewriting of sequenced results\<close>
named_theorems text_simps \<open>evaluation of the string operations\<close>
named_theorems record_rules \<open>the fields a broker operation keeps\<close>

subsection \<open>Sequencing of fallible computations\<close>

definition bindE :: "'e + 'a \<Rightarrow> ('a \<Rightarrow> 'e + 'b) \<Rightarrow> 'e + 'b" where
  "bindE r f = (case r of Inl e \<Rightarrow> Inl e | Inr x \<Rightarrow> f x)"

lemma bindE_simps [simp, result_simps]:
  "bindE (Inl e) f = Inl e"
  "bindE (Inr x) f = f x"
  by (simp_all add: bindE_def)

lemma bindE_Inr_iff [result_simps]:
  "bindE r f = Inr y \<longleftrightarrow> (\<exists>x. r = Inr x \<and> f x = Inr y)"
  by (cases r) auto

lemma bindE_Inl_iff:
  "bindE r f = Inl e \<longleftrightarrow> r = Inl e \<or> (\<exists>x. r = Inr x \<and> f x = Inl e)"
  by (cases r) auto

lemma bindE_assoc: "bindE (bindE r f) g = bindE r (\<lambda>x. bindE (f x) g)"
  by (cases r) simp_all

lemma bindE_cong [fundef_cong]:
  "r = r' \<Longrightarrow> (\<And>x. r' = Inr x \<Longrightarrow> f x = g x) \<Longrightarrow> bindE r f = bindE r' g"
  by (cases r') simp_all

fun mapE :: "('a \<Rightarrow> 'e + 'b) \<Rightarrow> 'a list \<Rightarrow> 'e + 'b list" where
  "mapE f [] = Inr []"
| "mapE f (x # xs) = bindE (f x) (\<lambda>y. bindE (mapE f xs) (\<lambda>ys. Inr (y # ys)))"

lemma mapE_cong [fundef_cong]:
  "xs = ys \<Longrightarrow> (\<And>x. x \<in> set ys \<Longrightarrow> f x = g x) \<Longrightarrow> mapE f xs = mapE g ys"
  by (induction ys arbitrary: xs) (auto simp: bindE_def split: sum.splits)

lemma mapE_map_Inr: "(\<And>x. x \<in> set xs \<Longrightarrow> f (g x) = Inr (h x)) \<Longrightarrow> mapE f (map g xs) = Inr (map h xs)"
  by (induction xs) auto

lemma mapE_Inr_length: "mapE f xs = Inr ys \<Longrightarrow> length ys = length xs"
  by (induction xs arbitrary: ys) (auto simp: bindE_Inr_iff)

text \<open>A sequence of checks, each of which may fail\<close>

definition requireE :: "bool \<Rightarrow> 'e \<Rightarrow> 'e + unit" where
  "requireE b e = (if b then Inr () else Inl e)"

fun checksE :: "('e + unit) list \<Rightarrow> 'e + unit" where
  "checksE [] = Inr ()"
| "checksE (r # rs) = bindE r (\<lambda>_. checksE rs)"

definition voidE :: "'e + 'a \<Rightarrow> 'e + unit" where
  "voidE r = bindE r (\<lambda>_. Inr ())"

lemma requireE_Inr_iff [simp, result_simps]: "requireE b e = Inr x \<longleftrightarrow> b"
  by (simp add: requireE_def)

lemma voidE_Inr_iff [simp, result_simps]: "voidE r = Inr u \<longleftrightarrow> (\<exists>x. r = Inr x)"
  by (simp add: voidE_def bindE_Inr_iff)

lemma checksE_Inr_iff [simp, result_simps]: "checksE rs = Inr x \<longleftrightarrow> (\<forall>r \<in> set rs. r = Inr ())"
  by (induction rs) (auto simp: bindE_Inr_iff)

declare checksE.simps [simp del]

subsection \<open>Lists and sorted association lists\<close>

lemma prefix_append_same: "prefix (a @ b) (a @ c) \<longleftrightarrow> prefix b c"
  by simp

lemma sorted_wrt_less_sort_id: "sorted_wrt (<) (map f xs) \<Longrightarrow> sort_key f xs = xs"
  for f :: "'a \<Rightarrow> 'b::linorder"
  by (rule sort_key_id_if_sorted) (simp add: strict_sorted_imp_sorted)

lemma sorted_wrt_less_distinct: "sorted_wrt (<) xs \<Longrightarrow> distinct xs"
  for xs :: "'a::linorder list"
  by (simp add: strict_sorted_iff)

lemma map_of_sort_key:
  "distinct (map fst xs) \<Longrightarrow> map_of (sort_key fst xs) = map_of xs"
  for xs :: "('a::linorder \<times> 'b) list"
proof -
  assume d: "distinct (map fst xs)"
  have "mset (map fst (sort_key fst xs)) = mset (map fst xs)" by simp
  then have "distinct (map fst (sort_key fst xs))"
    using d by (metis mset_eq_imp_distinct_iff)
  with d show ?thesis
    by (simp add: map_of_inject_set)
qed

lemma strict_sorted_alist_eqI:
  fixes xs ys :: "('a::linorder \<times> 'b) list"
  assumes "sorted_wrt (<) (map fst xs)" and "sorted_wrt (<) (map fst ys)"
    and "map_of xs = map_of ys"
  shows "xs = ys"
proof -
  have dx: "distinct (map fst xs)" and dy: "distinct (map fst ys)"
    using assms(1,2) by (simp_all add: sorted_wrt_less_distinct)
  have "map fst xs = map fst ys"
    using assms by (metis dom_map_of_conv_image_fst set_map strict_sorted_equal)
  moreover have "map (\<lambda>p. (fst p, the (map_of zs (fst p)))) zs = zs"
    if "distinct (map fst zs)" for zs :: "('a \<times> 'b) list"
    by (rule map_idI) (use that in auto)
  then have "zs = map (\<lambda>k. (k, the (map_of zs k))) (map fst zs)"
    if "distinct (map fst zs)" for zs :: "('a \<times> 'b) list"
    using that by (simp add: comp_def)
  ultimately show ?thesis
    using dx dy assms(3) by metis
qed

end
