(* ===== verification/Regex.thy ===== *)
theory Regex
  imports PyStr
begin

text \<open>
  The part of Python's \<^verbatim>\<open>re\<close> the source uses: character classes, sequence, alternation,
  repetition, and the zero-width assertions \<^verbatim>\<open>^\<close>, \<^verbatim>\<open>$\<close> (with and without the multi-line
  flag) and \<^verbatim>\<open>\b\<close>. A position in the subject is the character before it, if any, and the
  text after it. \<open>matches\<close> says which positions a pattern can go from and to, whatever the
  order in which Python tries them; \<open>accept\<close> is a backtracking matcher with a
  continuation, and the two agree. The source asks only whether there is a match
  (\<^verbatim>\<open>search\<close>, \<^verbatim>\<open>fullmatch\<close>), which does not depend on greediness.
\<close>

datatype regex =
    Eps
  | Cls "char \<Rightarrow> bool"
  | Seq regex regex
  | Alt regex regex
  | Star regex
  | LineStart
  | LineEnd
  | TextStart
  | TextEnd
  | WordBoundary

type_synonym position = "char option \<times> string"

subsection \<open>Zero-width assertions\<close>

definition line_start :: "position \<Rightarrow> bool" where
  "line_start p = (case fst p of None \<Rightarrow> True | Some c \<Rightarrow> c = CHR 0x0A)"

definition line_end :: "position \<Rightarrow> bool" where
  "line_end p = (case snd p of [] \<Rightarrow> True | c # _ \<Rightarrow> c = CHR 0x0A)"

definition text_start :: "position \<Rightarrow> bool" where
  "text_start p = (fst p = None)"

text \<open>\<^verbatim>\<open>$\<close> without the multi-line flag: at the end, or before a final newline\<close>

definition text_end :: "position \<Rightarrow> bool" where
  "text_end p = (snd p = [] \<or> snd p = [CHR 0x0A])"

definition word_boundary :: "position \<Rightarrow> bool" where
  "word_boundary p =
     ((case fst p of None \<Rightarrow> False | Some c \<Rightarrow> is_word c)
      \<noteq> (case snd p of [] \<Rightarrow> False | c # _ \<Rightarrow> is_word c))"

subsection \<open>Which positions a pattern connects\<close>

inductive matches :: "regex \<Rightarrow> position \<Rightarrow> position \<Rightarrow> bool" where
  m_eps: "matches Eps p p"
| m_cls: "f c \<Longrightarrow> matches (Cls f) (b, c # s) (Some c, s)"
| m_seq: "matches r p q \<Longrightarrow> matches r' q q' \<Longrightarrow> matches (Seq r r') p q'"
| m_alt1: "matches r p q \<Longrightarrow> matches (Alt r r') p q"
| m_alt2: "matches r' p q \<Longrightarrow> matches (Alt r r') p q"
| m_star0: "matches (Star r) p p"
| m_star1: "matches r p q \<Longrightarrow> matches (Star r) q q' \<Longrightarrow> matches (Star r) p q'"
| m_ls: "line_start p \<Longrightarrow> matches LineStart p p"
| m_le: "line_end p \<Longrightarrow> matches LineEnd p p"
| m_ts: "text_start p \<Longrightarrow> matches TextStart p p"
| m_te: "text_end p \<Longrightarrow> matches TextEnd p p"
| m_wb: "word_boundary p \<Longrightarrow> matches WordBoundary p p"

inductive_simps matches_simps [simp]:
  "matches Eps p q"
  "matches (Cls f) p q"
  "matches (Seq r r') p q"
  "matches (Alt r r') p q"
  "matches LineStart p q"
  "matches LineEnd p q"
  "matches TextStart p q"
  "matches TextEnd p q"
  "matches WordBoundary p q"

lemma matches_length: "matches r p q \<Longrightarrow> length (snd q) \<le> length (snd p)"
  by (induction rule: matches.induct) auto

lemma matches_suffix: "matches r p q \<Longrightarrow> suffix (snd q) (snd p)"
  by (induction rule: matches.induct) (auto intro: suffix_ConsI suffix_order.trans)

subsection \<open>The matcher\<close>

function accept :: "regex \<Rightarrow> char option \<Rightarrow> string \<Rightarrow> (char option \<Rightarrow> string \<Rightarrow> bool) \<Rightarrow> bool" where
  "accept Eps b s k = k b s"
| "accept (Cls f) b s k = (case s of [] \<Rightarrow> False | c # cs \<Rightarrow> if f c then k (Some c) cs else False)"
| "accept (Seq r r') b s k = accept r b s (\<lambda>b' s'. accept r' b' s' k)"
| "accept (Alt r r') b s k = (if accept r b s k then True else accept r' b s k)"
| "accept (Star r) b s k =
     (if accept r b s (\<lambda>b' s'. if length s' < length s then accept (Star r) b' s' k else False)
      then True else k b s)"
| "accept LineStart b s k = (if line_start (b, s) then k b s else False)"
| "accept LineEnd b s k = (if line_end (b, s) then k b s else False)"
| "accept TextStart b s k = (if text_start (b, s) then k b s else False)"
| "accept TextEnd b s k = (if text_end (b, s) then k b s else False)"
| "accept WordBoundary b s k = (if word_boundary (b, s) then k b s else False)"
  by pat_completeness auto
termination
  by (relation "measures [\<lambda>(r, b, s, k). size r, \<lambda>(r, b, s, k). length s]") auto

declare accept.simps(5) [simp del]

lemma matches_progress: "matches r p q \<Longrightarrow> p = q \<or> length (snd q) < length (snd p)"
  by (induction rule: matches.induct) auto

lemma star_progress:
  assumes "matches (Star r) p q"
  shows "p = q \<or> (\<exists>p'. matches r p p' \<and> length (snd p') < length (snd p) \<and> matches (Star r) p' q)"
  using assms
proof (induction "Star r" p q rule: matches.induct)
  case (m_star1 p q q')
  then show ?case
    using matches_progress [OF m_star1(1)] by blast
qed simp

theorem accept_iff_matches:
  "accept r b s k \<longleftrightarrow> (\<exists>b' s'. matches r (b, s) (b', s') \<and> k b' s')"
proof (induction r b s k rule: accept.induct)
  case (5 r b s k)
  have "accept (Star r) b s k \<longleftrightarrow>
      k b s \<or> (\<exists>b1 s1. matches r (b, s) (b1, s1) \<and> length s1 < length s \<and> accept (Star r) b1 s1 k)"
    using 5(2) by (subst accept.simps(5)) (auto split: if_splits)
  also have "\<dots> \<longleftrightarrow> k b s \<or> (\<exists>b1 s1. matches r (b, s) (b1, s1) \<and> length s1 < length s \<and>
      (\<exists>b' s'. matches (Star r) (b1, s1) (b', s') \<and> k b' s'))"
    using 5(1) by blast
  also have "\<dots> \<longleftrightarrow> (\<exists>b' s'. matches (Star r) (b, s) (b', s') \<and> k b' s')" (is "?L \<longleftrightarrow> ?R")
  proof
    show "?L \<Longrightarrow> ?R" by (blast intro: m_star0 m_star1)
    assume ?R
    then obtain b' s' where m: "matches (Star r) (b, s) (b', s')" and k: "k b' s'" by blast
    from star_progress [OF m] k show ?L by force
  qed
  finally show ?case .
qed (auto split: list.splits)

subsection \<open>\<^verbatim>\<open>Pattern.search\<close> and \<^verbatim>\<open>Pattern.fullmatch\<close>\<close>

fun search_from :: "regex \<Rightarrow> char option \<Rightarrow> string \<Rightarrow> bool" where
  "search_from r b [] = accept r b [] (\<lambda>_ _. True)"
| "search_from r b (c # cs) =
     (if accept r b (c # cs) (\<lambda>_ _. True) then True else search_from r (Some c) cs)"

definition re_search :: "regex \<Rightarrow> string \<Rightarrow> bool" where
  "re_search r s = search_from r None s"

definition re_fullmatch :: "regex \<Rightarrow> string \<Rightarrow> bool" where
  "re_fullmatch r s = accept r None s (\<lambda>_ s'. s' = [])"

text \<open>The positions of a subject string\<close>

fun positions :: "char option \<Rightarrow> string \<Rightarrow> position list" where
  "positions b [] = [(b, [])]"
| "positions b (c # cs) = (b, c # cs) # positions (Some c) cs"

theorem re_search_iff: "re_search r s \<longleftrightarrow> (\<exists>p \<in> set (positions None s). \<exists>q. matches r p q)"
proof -
  have "search_from r b s \<longleftrightarrow> (\<exists>p \<in> set (positions b s). \<exists>q. matches r p q)" for b
    by (induction s arbitrary: b) (auto simp: accept_iff_matches)
  then show ?thesis by (simp add: re_search_def)
qed

theorem re_fullmatch_iff: "re_fullmatch r s \<longleftrightarrow> (\<exists>b. matches r (None, s) (b, []))"
  by (simp add: re_fullmatch_def accept_iff_matches)

subsection \<open>Building patterns\<close>

text \<open>
  A literal character or class under \<^verbatim>\<open>IGNORECASE\<close> matches when the lower-case forms agree;
  \<open>lit\<close> builds case-sensitive text, \<open>ilit\<close> case-insensitive text.
\<close>

definition chr :: "char \<Rightarrow> regex" where
  "chr c = Cls (\<lambda>d. d = c)"

definition ichr :: "char \<Rightarrow> regex" where
  "ichr c = Cls (\<lambda>d. lower_char d = lower_char c)"

definition one_of :: "string \<Rightarrow> regex" where
  "one_of cs = Cls (\<lambda>d. d \<in> set cs)"

definition none_of :: "string \<Rightarrow> regex" where
  "none_of cs = Cls (\<lambda>d. d \<notin> set cs)"

definition space :: regex where
  "space = Cls is_space"

fun seqs :: "regex list \<Rightarrow> regex" where
  "seqs [] = Eps"
| "seqs [r] = r"
| "seqs (r # rs) = Seq r (seqs rs)"

fun alts :: "regex list \<Rightarrow> regex" where
  "alts [] = Cls (\<lambda>_. False)"
| "alts [r] = r"
| "alts (r # rs) = Alt r (alts rs)"

definition lit :: "string \<Rightarrow> regex" where
  "lit w = seqs (map chr w)"

definition ilit :: "string \<Rightarrow> regex" where
  "ilit w = seqs (map ichr w)"

definition opt :: "regex \<Rightarrow> regex" where
  "opt r = Alt r Eps"

definition plus1 :: "regex \<Rightarrow> regex" where
  "plus1 r = Seq r (Star r)"

text \<open>\<^verbatim>\<open>r{m,n}\<close>: \<open>m\<close> copies and up to \<open>n - m\<close> more\<close>

fun upto_times :: "nat \<Rightarrow> regex \<Rightarrow> regex" where
  "upto_times 0 r = Eps"
| "upto_times (Suc n) r = opt (Seq r (upto_times n r))"

fun exactly :: "nat \<Rightarrow> regex \<Rightarrow> regex" where
  "exactly 0 r = Eps"
| "exactly (Suc n) r = Seq r (exactly n r)"

definition rep :: "nat \<Rightarrow> nat \<Rightarrow> regex \<Rightarrow> regex" where
  "rep m n r = Seq (exactly m r) (upto_times (n - m) r)"

subsection \<open>Counted repetition of a character class\<close>

definition after :: "char option \<Rightarrow> string \<Rightarrow> char option" where
  "after b w = (if w = [] then b else Some (last w))"

lemma after_Cons [simp]: "after b (c # w) = after (Some c) w"
  by (simp add: after_def)

lemma after_Nil [simp]: "after b [] = b"
  by (simp add: after_def)

lemma matches_exactly_Cls:
  "matches (exactly n (Cls f)) (b, s) (b', s') \<longleftrightarrow>
    (\<exists>w. s = w @ s' \<and> length w = n \<and> (\<forall>c \<in> set w. f c) \<and> b' = after b w)"
proof (induction n arbitrary: b s)
  case (Suc n)
  show ?case
    by (auto simp: Suc.IH length_Suc_conv)
qed auto

lemma matches_upto_Cls:
  "matches (upto_times n (Cls f)) (b, s) (b', s') \<longleftrightarrow>
    (\<exists>w. s = w @ s' \<and> length w \<le> n \<and> (\<forall>c \<in> set w. f c) \<and> b' = after b w)"
proof (induction n arbitrary: b s)
  case (Suc n)
  have "(\<exists>w. s = w @ s' \<and> length w \<le> Suc n \<and> (\<forall>c \<in> set w. f c) \<and> b' = after b w) \<longleftrightarrow>
      (s = s' \<and> b' = b) \<or> (\<exists>c t. f c \<and> s = c # t \<and>
        (\<exists>w. t = w @ s' \<and> length w \<le> n \<and> (\<forall>c \<in> set w. f c) \<and> b' = after (Some c) w))" (is "?L \<longleftrightarrow> ?R")
  proof
    assume ?L
    then obtain w where w: "s = w @ s'" "length w \<le> Suc n" "\<forall>c \<in> set w. f c" "b' = after b w" by blast
    then show ?R by (cases w) auto
  next
    assume ?R
    then show ?L
    proof
      assume "s = s' \<and> b' = b"
      then show ?L by (intro exI [of _ "[]"]) simp
    next
      assume "\<exists>c t. f c \<and> s = c # t \<and>
        (\<exists>w. t = w @ s' \<and> length w \<le> n \<and> (\<forall>c \<in> set w. f c) \<and> b' = after (Some c) w)"
      then obtain c w where "f c" "s = c # w @ s'" "length w \<le> n" "\<forall>c \<in> set w. f c"
        "b' = after (Some c) w" by blast
      then show ?L by (intro exI [of _ "c # w"]) simp
    qed
  qed
  then show ?case by (auto simp: opt_def Suc.IH)
qed auto

lemma matches_rep_Cls:
  assumes "m \<le> n"
  shows "matches (rep m n (Cls f)) (b, s) (b', s') \<longleftrightarrow>
    (\<exists>w. s = w @ s' \<and> m \<le> length w \<and> length w \<le> n \<and> (\<forall>c \<in> set w. f c) \<and> b' = after b w)"
    (is "_ \<longleftrightarrow> ?R")
proof
  assume "matches (rep m n (Cls f)) (b, s) (b', s')"
  then obtain u v where "s = u @ v @ s'" "length u = m" "length v \<le> n - m"
    "\<forall>c \<in> set u. f c" "\<forall>c \<in> set v. f c" "b' = after (after b u) v"
    by (auto simp: rep_def matches_exactly_Cls matches_upto_Cls)
  then show ?R using assms by (intro exI [of _ "u @ v"]) (auto simp: after_def)
next
  assume ?R
  then obtain w where w: "s = w @ s'" "m \<le> length w" "length w \<le> n" "\<forall>c \<in> set w. f c" "b' = after b w"
    by blast
  have "\<forall>c \<in> set (take m w). f c" "\<forall>c \<in> set (drop m w). f c"
    using w(4) by (meson in_set_takeD in_set_dropD)+
  moreover have "after (after b (take m w)) (drop m w) = after b w"
    by (cases "drop m w = []") (auto simp: after_def)
  moreover have "s = take m w @ drop m w @ s'" using w(1) by simp
  ultimately show "matches (rep m n (Cls f)) (b, s) (b', s')"
    using w(2,3,5) unfolding rep_def matches_simps
    by (intro exI [of _ "after b (take m w)"] exI [of _ "drop m w @ s'"])
      (auto simp: matches_exactly_Cls matches_upto_Cls)
qed

end
