(* ===== verification/Errors.thy ===== *)
theory Errors
  imports Prelude
begin

text \<open>
  The failures of \<^verbatim>\<open>errors.py\<close>, one constructor per exception class, with the message
  as argument (the text the code puts in the exception; interpolated values are left out of
  it), and two constructors for the exceptions of Python itself that the code lets through:
  an \<open>OSError\<close> raised by the operating system and any other built-in exception.
\<close>

datatype error =
    GuardError string
  | PolicyDenied string
  | StalePlan string
  | ApprovalError string
  | IntegrityError string
  | UnsafePath string
  | OSError string
  | PyError string

type_synonym 'a result = "error + 'a"

text \<open>\<^verbatim>\<open>except GuardError\<close> catches the base class and the five classes derived from it.\<close>

fun is_guard_error :: "error \<Rightarrow> bool" where
  "is_guard_error (OSError _) = False"
| "is_guard_error (PyError _) = False"
| "is_guard_error _ = True"

fun message :: "error \<Rightarrow> string" where
  "message (GuardError m) = m"
| "message (PolicyDenied m) = m"
| "message (StalePlan m) = m"
| "message (ApprovalError m) = m"
| "message (IntegrityError m) = m"
| "message (UnsafePath m) = m"
| "message (OSError m) = m"
| "message (PyError m) = m"

text \<open>
  \<^verbatim>\<open>try: r except GuardError as exc: raise K(str(exc)) from exc\<close>
\<close>

definition rewrap :: "(string \<Rightarrow> error) \<Rightarrow> 'a result \<Rightarrow> 'a result" where
  "rewrap K r = (case r of Inl e \<Rightarrow> Inl (if is_guard_error e then K (message e) else e) | Inr x \<Rightarrow> Inr x)"

lemma rewrap_Inr [simp]: "rewrap K (Inr x) = Inr x"
  by (simp add: rewrap_def)

lemma rewrap_Inr_iff [result_simps]: "rewrap K r = Inr x \<longleftrightarrow> r = Inr x"
  by (cases r) (simp_all add: rewrap_def)

end
