(* ===== verification/Json.thy ===== *)
theory Json
  imports PyStr Errors
begin

text \<open>
  The values Python's \<^verbatim>\<open>json\<close> module reads and writes, \<^verbatim>\<open>canonical_json\<close> of
  \<^verbatim>\<open>util.py\<close> as a function to UTF-8 bytes, and the reader \<^verbatim>\<open>json.loads\<close> as a recursive
  descent parser. An object is an association list in the insertion order of the Python
  dictionary. A float is kept as the text Python's \<^verbatim>\<open>repr\<close> gives it.
\<close>

datatype json =
    JNull
  | JBool bool
  | JInt int
  | JFloat string
  | JStr string
  | JList "json list"
  | JObj "(string \<times> json) list"

subsection \<open>\<^verbatim>\<open>json.dumps(data, sort_keys=True, separators=(",", ":"), ensure_ascii=False)\<close>\<close>

definition hex_digit :: "nat \<Rightarrow> char" where
  "hex_digit n = (if n < 10 then digit_char n else char_of (87 + n))"

definition escape_char :: "char \<Rightarrow> string" where
  "escape_char c =
     (if c = CHR 0x22 then [CHR 0x5C, CHR 0x22]
      else if c = CHR 0x5C then [CHR 0x5C, CHR 0x5C]
      else if c = CHR 0x0A then [CHR 0x5C, CHR ''n'']
      else if c = CHR 0x0D then [CHR 0x5C, CHR ''r'']
      else if c = CHR 0x09 then [CHR 0x5C, CHR ''t'']
      else if c = CHR 0x0C then [CHR 0x5C, CHR ''f'']
      else if c = CHR 0x08 then [CHR 0x5C, CHR ''b'']
      else if c < CHR '' '' then
        [CHR 0x5C, CHR ''u'', CHR ''0'', CHR ''0'', hex_digit (code c div 16), hex_digit (code c mod 16)]
      else [c])"

definition quote :: "string \<Rightarrow> string" where
  "quote s = CHR 0x22 # concat (map escape_char s) @ [CHR 0x22]"

text \<open>\<^verbatim>\<open>sort_keys=True\<close>: every object in the order of its keys\<close>

primrec sort_keys :: "json \<Rightarrow> json" where
  "sort_keys JNull = JNull"
| "sort_keys (JBool b) = JBool b"
| "sort_keys (JInt i) = JInt i"
| "sort_keys (JFloat t) = JFloat t"
| "sort_keys (JStr s) = JStr s"
| "sort_keys (JList vs) = JList (map sort_keys vs)"
| "sort_keys (JObj kvs) = JObj (sort_key fst (map (map_prod id sort_keys) kvs))"

primrec render :: "json \<Rightarrow> string" where
  "render JNull = ''null''"
| "render (JBool b) = (if b then ''true'' else ''false'')"
| "render (JInt i) = int_str i"
| "render (JFloat t) = t"
| "render (JStr s) = quote s"
| "render (JList vs) = ''['' @ join_with '','' (map render vs) @ '']''"
| "render (JObj kvs) =
     ''{'' @ join_with '','' (map (\<lambda>(k, t). quote k @ '':'' @ t) (map (map_prod id render) kvs)) @ ''}''"

definition dumps :: "json \<Rightarrow> string" where
  "dumps v = render (sort_keys v)"

text \<open>\<^verbatim>\<open>str.encode("utf-8")\<close> and its inverse\<close>

definition utf8_char :: "char \<Rightarrow> string" where
  "utf8_char c =
     (if code c < 128 then [c] else [char_of (192 + code c div 64), char_of (128 + code c mod 64)])"

definition utf8_encode :: "string \<Rightarrow> string" where
  "utf8_encode s = concat (map utf8_char s)"

text \<open>
  Decoding stops with \<open>None\<close> at bytes that are not UTF-8, and at the code points of three
  and four bytes, which lie outside the range of the model.
\<close>

fun utf8_decode :: "string \<Rightarrow> string option" where
  "utf8_decode [] = Some []"
| "utf8_decode (b # bs) =
     (if code b < 128 then map_option ((#) b) (utf8_decode bs)
      else if code b = 194 \<or> code b = 195 then
        (case bs of
           [] \<Rightarrow> None
         | b' # bs' \<Rightarrow>
             if code b' div 64 = 2
             then map_option ((#) (char_of ((code b - 192) * 64 + code b' mod 64))) (utf8_decode bs')
             else None)
      else None)"

definition canonical_json :: "json \<Rightarrow> string" where
  "canonical_json v = utf8_encode (dumps v)"

lemma utf8_decode_encode: "utf8_decode (utf8_encode s) = Some s"
proof (induction s)
  case (Cons c s)
  have b: "code c < 256" by (rule code_less)
  show ?case
  proof (cases "code c < 128")
    case True
    with Cons show ?thesis by (simp add: utf8_encode_def utf8_char_def)
  next
    case False
    then have "code c div 64 = 2 \<or> code c div 64 = 3" using b by arith
    then obtain h where h: "code c = h * 64 + code c mod 64" "h = 2 \<or> h = 3"
      by (metis div_mult_mod_eq)
    define m where "m = code c mod 64"
    have m: "m < 64" "code c = h * 64 + m" using h(1) by (simp_all add: m_def)
    then have enc: "utf8_char c = [char_of (192 + h), char_of (128 + m)]"
      using False by (simp add: utf8_char_def)
    have c: "c = char_of (h * 64 + m)" using m(2) by (metis char_of_char)
    have bytes: "code (char_of (192 + h)) = 192 + h" "code (char_of (128 + m)) = 128 + m"
      using m(1) h(2) by auto
    have low: "(128 + m) div 64 = 2" "(128 + m) mod 64 = m"
      using m(1) mod_mult_self2 [of m 64 2] by (simp_all add: add.commute)
    have "utf8_decode (utf8_encode (c # s)) =
        utf8_decode (char_of (192 + h) # char_of (128 + m) # utf8_encode s)"
      by (simp add: utf8_encode_def enc)
    also have "\<dots> = Some (char_of (h * 64 + m) # s)"
      using h(2) by (elim disjE) (simp_all only: utf8_decode.simps bytes low Cons list.case, simp_all)
    finally show ?thesis using c by simp
  qed
qed (simp add: utf8_encode_def)

lemma utf8_encode_inject: "utf8_encode s = utf8_encode t \<longleftrightarrow> s = t"
  by (metis option.inject utf8_decode_encode)

end
