(* ===== verification/Util.thy ===== *)
theory Util
  imports Regex Json
begin

text \<open>
  The validators and path operations of \<^verbatim>\<open>util.py\<close>. A value whose Python type the code
  checks at run time is a \<^typ>\<open>json\<close>, the type of the values the broker reads. A
  \<^verbatim>\<open>pathlib\<close> path is the tuple of its \<^verbatim>\<open>parts\<close> on a POSIX host: an anchor, if the path is
  absolute, and the components between slashes, without the empty and dot ones.
\<close>

subsection \<open>Identifiers, text fields, leases and digests\<close>

definition lower_alpha :: "char \<Rightarrow> bool" where
  "lower_alpha c \<longleftrightarrow> CHR ''a'' \<le> c \<and> c \<le> CHR ''z''"

definition upper_alpha :: "char \<Rightarrow> bool" where
  "upper_alpha c \<longleftrightarrow> CHR ''A'' \<le> c \<and> c \<le> CHR ''Z''"

definition id_prefix_char :: "char \<Rightarrow> bool" where
  "id_prefix_char c \<longleftrightarrow> lower_alpha c \<or> is_digit c \<or> c = CHR ''-''"

definition id_body_char :: "char \<Rightarrow> bool" where
  "id_body_char c \<longleftrightarrow> upper_alpha c \<or> lower_alpha c \<or> is_digit c \<or> c = CHR ''_'' \<or> c = CHR ''-''"

definition hex_lower :: "char \<Rightarrow> bool" where
  "hex_lower c \<longleftrightarrow> is_digit c \<or> (CHR ''a'' \<le> c \<and> c \<le> CHR ''f'')"

definition object_id_re :: regex where
  "object_id_re = seqs [TextStart, Cls lower_alpha, rep 0 31 (Cls id_prefix_char), chr (CHR ''_''),
     rep 16 128 (Cls id_body_char), TextEnd]"

definition sha256_re :: regex where
  "sha256_re = seqs [TextStart, rep 64 64 (Cls hex_lower), TextEnd]"

definition validate_object_id :: "json \<Rightarrow> string \<Rightarrow> string result" where
  "validate_object_id value expected_prefix =
     (case value of
        JStr s \<Rightarrow>
          if \<not> re_fullmatch object_id_re s
          then Inl (UnsafePath ''invalid broker object identifier'')
          else if \<not> startswith s (expected_prefix @ ''_'')
          then Inl (UnsafePath ''broker object identifier has the wrong type'')
          else Inr s
      | _ \<Rightarrow> Inl (UnsafePath ''invalid broker object identifier''))"

definition validate_text_field :: "json \<Rightarrow> string \<Rightarrow> nat \<Rightarrow> string result" where
  "validate_text_field value name max_length =
     (case value of
        JStr s \<Rightarrow>
          let normalized = strip s
          in if normalized = [] then Inl (GuardError (name @ '' must be non-empty''))
             else if length normalized > max_length
             then Inl (GuardError (name @ '' exceeds the character limit''))
             else if \<exists>c \<in> set normalized. code c < (32::nat) \<or> code c = (127::nat)
             then Inl (GuardError (name @ '' may not contain control characters''))
             else Inr normalized
      | _ \<Rightarrow> Inl (GuardError (name @ '' must be a string'')))"

definition validate_ttl :: "json \<Rightarrow> string \<Rightarrow> int \<Rightarrow> int result" where
  "validate_ttl value name maximum =
     (case value of
        JInt i \<Rightarrow>
          if i < 1 \<or> i > maximum then Inl (GuardError (name @ '' must be between 1 and the maximum''))
          else Inr i
      | _ \<Rightarrow> Inl (GuardError (name @ '' must be an integer number of seconds'')))"

definition validate_sha256 :: "json \<Rightarrow> string \<Rightarrow> string result" where
  "validate_sha256 value name =
     (case value of
        JStr s \<Rightarrow>
          if re_fullmatch sha256_re s then Inr s
          else Inl (GuardError (name @ '' must be a lowercase SHA-256 digest''))
      | _ \<Rightarrow> Inl (GuardError (name @ '' must be a lowercase SHA-256 digest'')))"

subsection \<open>\<^verbatim>\<open>pathlib\<close>\<close>

type_synonym path = "string list"

text \<open>\<^verbatim>\<open>posixpath.splitroot\<close>: one or two leading slashes are an anchor, three or more count as one\<close>

definition anchor_of :: "string \<Rightarrow> string" where
  "anchor_of s =
     (if \<not> prefix ''/'' s then ''''
      else if prefix ''//'' s \<and> \<not> prefix ''///'' s then ''//'' else ''/'')"

definition names_of :: "string \<Rightarrow> string list" where
  "names_of s = filter (\<lambda>w. w \<noteq> [] \<and> w \<noteq> ''.'') (split_on (CHR ''/'') s)"

text \<open>\<^verbatim>\<open>Path(s).parts\<close>\<close>

definition path_of :: "string \<Rightarrow> path" where
  "path_of s = (if anchor_of s = [] then [] else [anchor_of s]) @ names_of s"

definition is_absolute :: "path \<Rightarrow> bool" where
  "is_absolute p = (case p of [] \<Rightarrow> False | a # _ \<Rightarrow> prefix ''/'' a)"

text \<open>\<^verbatim>\<open>str(path)\<close> and \<^verbatim>\<open>path.as_posix()\<close>\<close>

definition path_str :: "path \<Rightarrow> string" where
  "path_str p =
     (case p of
        [] \<Rightarrow> ''.''
      | a # ns \<Rightarrow> if prefix ''/'' a then a @ join_with ''/'' ns else join_with ''/'' p)"

definition joinpath :: "path \<Rightarrow> path \<Rightarrow> path" where
  "joinpath p q = (if is_absolute q then q else p @ q)"

definition parent :: "path \<Rightarrow> path" where
  "parent p = (if tl p = [] \<and> is_absolute p then p else butlast p)"

definition path_name :: "path \<Rightarrow> string" where
  "path_name p = (if p = [] \<or> (tl p = [] \<and> is_absolute p) then '''' else last p)"

text \<open>\<^verbatim>\<open>path.suffix\<close>: from the last dot of the name, unless it is the first or last character\<close>

definition path_suffix :: "path \<Rightarrow> string" where
  "path_suffix p =
     (let n = path_name p;
          tail = takeWhile (\<lambda>c. c \<noteq> CHR ''.'') (rev n)
      in if length tail < length n \<and> tail \<noteq> [] \<and> length tail + 1 < length n
         then CHR ''.'' # rev tail else '''')"

text \<open>\<^verbatim>\<open>PureWindowsPath(s).drive\<close> for a text that begins with neither slash\<close>

definition windows_drive :: "string \<Rightarrow> string" where
  "windows_drive s = (case s of a # b # _ \<Rightarrow> if b = CHR '':'' then [a, b] else '''' | _ \<Rightarrow> '''')"

definition is_relative_to :: "path \<Rightarrow> path \<Rightarrow> bool" where
  "is_relative_to p q = prefix q p"

definition assert_disjoint :: "path \<Rightarrow> path \<Rightarrow> unit result" where
  "assert_disjoint left right =
     (if left = right \<or> is_relative_to left right \<or> is_relative_to right left
      then Inl (UnsafePath ''roots must be disjoint'') else Inr ())"

definition validate_relative_path :: "json \<Rightarrow> path result" where
  "validate_relative_path value =
     (case value of
        JStr s \<Rightarrow>
          if s = [] \<or> CHR 0x00 \<in> set s
          then Inl (UnsafePath ''path must be a non-empty relative string without NUL bytes'')
          else if startswith s ''/'' \<or> startswith s [CHR 0x5C] \<or> startswith s ''//''
          then Inl (UnsafePath ''absolute or UNC paths are forbidden'')
          else if windows_drive s \<noteq> []
          then Inl (UnsafePath ''Windows drive-qualified paths are forbidden'')
          else if is_absolute (path_of s)
          then Inl (UnsafePath ''absolute paths are forbidden'')
          else if \<exists>part \<in> set (path_of s). part \<in> {'''', ''.'', ''..''}
          then Inl (UnsafePath ''non-normalized path is forbidden'')
          else Inr (path_of s)
      | _ \<Rightarrow> Inl (UnsafePath ''path must be a non-empty relative string without NUL bytes''))"

definition safe_join :: "path \<Rightarrow> string \<Rightarrow> path result" where
  "safe_join root relative =
     bindE (validate_relative_path (JStr relative)) (\<lambda>rel.
       let candidate = joinpath root rel
       in if candidate = root \<or> \<not> is_relative_to candidate root
          then Inl (UnsafePath ''path escapes root'') else Inr candidate)"

definition reject_dangerous_workspace_root :: "path \<Rightarrow> path \<Rightarrow> unit result" where
  "reject_dangerous_workspace_root home p =
     (if p = take 1 p \<and> is_absolute p
      then Inl (UnsafePath ''filesystem roots cannot be used as workspaces'')
      else if p = home \<or> is_relative_to home p
      then Inl (UnsafePath ''the user home directory or one of its ancestors cannot be used'')
      else Inr ())"

subsection \<open>Components of a path\<close>

text \<open>What every component of a parsed relative path satisfies\<close>

definition is_component :: "string \<Rightarrow> bool" where
  "is_component w \<longleftrightarrow> w \<noteq> [] \<and> w \<noteq> ''.'' \<and> CHR ''/'' \<notin> set w"

lemma names_of_component: "w \<in> set (names_of s) \<Longrightarrow> is_component w"
  by (auto simp: names_of_def is_component_def dest: split_on_no_sep)

lemma not_slash_anchor: "\<not> prefix ''/'' s \<Longrightarrow> anchor_of s = []"
  by (simp add: anchor_of_def)

lemma component_not_absolute: "is_component w \<Longrightarrow> \<not> prefix ''/'' w"
  by (cases w) (auto simp: is_component_def)

lemma names_not_absolute: "\<forall>w \<in> set ns. is_component w \<Longrightarrow> \<not> is_absolute ns"
  by (cases ns) (auto simp: is_absolute_def component_not_absolute)

lemma path_of_relative: "\<not> prefix ''/'' s \<Longrightarrow> path_of s = names_of s"
  by (simp add: path_of_def not_slash_anchor)

text \<open>A text the relative-path validator accepts\<close>

definition relative_text :: "string \<Rightarrow> bool" where
  "relative_text s \<longleftrightarrow> s \<noteq> [] \<and> CHR 0x00 \<notin> set s \<and> \<not> prefix ''/'' s \<and> \<not> prefix [CHR 0x5C] s
     \<and> windows_drive s = [] \<and> ''..'' \<notin> set (names_of s)"

lemma validate_relative_path_Inr_iff:
  "validate_relative_path v = Inr p \<longleftrightarrow> (\<exists>s. v = JStr s \<and> relative_text s \<and> p = names_of s)"
proof (cases v)
  case (JStr s)
  show ?thesis
  proof (cases "prefix ''/'' s")
    case True
    then show ?thesis using JStr
      by (auto simp: validate_relative_path_def relative_text_def startswith_def)
  next
    case False
    then have "path_of s = names_of s" by (rule path_of_relative)
    moreover have "\<not> is_absolute (names_of s)"
      by (rule names_not_absolute) (simp add: names_of_component)
    moreover have "\<not> prefix ''//'' s" using False by (cases s) auto
    moreover have "w \<in> set (names_of s) \<Longrightarrow> w \<noteq> '''' \<and> w \<noteq> ''.''" for w
      using names_of_component [of w s] by (auto simp: is_component_def)
    ultimately show ?thesis using JStr False
      by (auto simp: validate_relative_path_def relative_text_def startswith_def)
  qed
qed (simp_all add: validate_relative_path_def)

lemma safe_join_Inr_iff:
  "safe_join root s = Inr p \<longleftrightarrow> relative_text s \<and> names_of s \<noteq> [] \<and> p = root @ names_of s"
proof -
  have "\<not> is_absolute (names_of s)"
    by (rule names_not_absolute) (simp add: names_of_component)
  then show ?thesis
    by (auto simp: safe_join_def bindE_Inr_iff validate_relative_path_Inr_iff joinpath_def
        is_relative_to_def Let_def split: if_splits)
qed

text \<open>
  C12. \<^verbatim>\<open>safe_join\<close> never leaves its root: a path it returns is the root followed by at least one
  component, and none of these components is empty, a dot, a double dot, or contains a slash.
\<close>

theorem safe_join_contained:
  assumes "safe_join root rel = Inr p"
  shows "strict_prefix root p \<and>
    (\<forall>w \<in> set (drop (length root) p). is_component w \<and> w \<noteq> ''..'')"
  using assms names_of_component [of _ rel]
  by (auto simp: safe_join_Inr_iff relative_text_def strict_prefix_def)

theorem safe_join_contained_witness:
  "safe_join [''/'', ''w''] ''a//./b'' = Inr [''/'', ''w'', ''a'', ''b''] \<and>
   strict_prefix [''/'', ''w''] [''/'', ''w'', ''a'', ''b'']"
proof -
  have h: "safe_join [''/'', ''w''] ''a//./b'' = Inr [''/'', ''w'', ''a'', ''b'']" by code_simp
  show ?thesis using h safe_join_contained [OF h] by simp
qed

subsection \<open>Identifiers\<close>

lemma object_id_re_iff:
  "re_fullmatch object_id_re s \<longleftrightarrow> (\<exists>c u v. s = c # u @ CHR ''_'' # v \<and> lower_alpha c
     \<and> length u \<le> 31 \<and> (\<forall>x \<in> set u. id_prefix_char x)
     \<and> 16 \<le> length v \<and> length v \<le> 128 \<and> (\<forall>x \<in> set v. id_body_char x))"
  by (auto simp: re_fullmatch_iff object_id_re_def chr_def matches_rep_Cls text_start_def text_end_def)
    blast

lemma sha256_re_iff: "re_fullmatch sha256_re s \<longleftrightarrow> length s = 64 \<and> (\<forall>x \<in> set s. hex_lower x)"
  by (auto simp: re_fullmatch_iff sha256_re_def matches_rep_Cls text_start_def text_end_def)

lemma validate_object_id_Inr_iff:
  "validate_object_id v pre = Inr s \<longleftrightarrow>
    v = JStr s \<and> re_fullmatch object_id_re s \<and> prefix (pre @ ''_'') s"
  by (auto simp: validate_object_id_def startswith_def split: json.splits if_splits)

lemma validate_sha256_Inr_iff:
  "validate_sha256 v name = Inr s \<longleftrightarrow> v = JStr s \<and> length s = 64 \<and> (\<forall>x \<in> set s. hex_lower x)"
  by (auto simp: validate_sha256_def sha256_re_iff split: json.splits if_splits)

end
