(* ===== verification/FileTree.thy ===== *)
theory FileTree
  imports Util
begin

text \<open>
  The file system as a tree. A node is what \<^verbatim>\<open>lstat\<close> and the operation that reads it give:
  the device, the permission bits, and the content of a regular file, the target of a
  symbolic link, the mode and device number of a special file, or the entries of a directory
  by name. A path into the tree is a list of names; no component of it is followed through
  a symbolic link. Directory entries are kept in the order of their names, so that two trees
  with the same nodes at the same paths are equal.
\<close>

datatype node =
    FileN int int string
  | LinkN int int string
  | SpecialN int int int int
  | DirN int int "(string \<times> node) list"

fun node_dev :: "node \<Rightarrow> int" where
  "node_dev (FileN d _ _) = d"
| "node_dev (LinkN d _ _) = d"
| "node_dev (SpecialN d _ _ _) = d"
| "node_dev (DirN d _ _) = d"

text \<open>\<^verbatim>\<open>stat.S_IMODE(st_mode)\<close>\<close>

fun node_mode :: "node \<Rightarrow> int" where
  "node_mode (FileN _ m _) = m"
| "node_mode (LinkN _ m _) = m"
| "node_mode (SpecialN _ m _ _) = m"
| "node_mode (DirN _ m _) = m"

fun kids :: "node \<Rightarrow> (string \<times> node) list" where
  "kids (DirN _ _ ks) = ks"
| "kids _ = []"

fun is_dir :: "node \<Rightarrow> bool" where
  "is_dir (DirN _ _ _) = True"
| "is_dir _ = False"

subsection \<open>Directories as sorted association lists\<close>

fun ins :: "string \<Rightarrow> 'a \<Rightarrow> (string \<times> 'a) list \<Rightarrow> (string \<times> 'a) list" where
  "ins k v [] = [(k, v)]"
| "ins k v ((k', v') # xs) =
     (if k = k' then (k, v) # xs
      else if k < k' then (k, v) # (k', v') # xs else (k', v') # ins k v xs)"

fun del :: "string \<Rightarrow> (string \<times> 'a) list \<Rightarrow> (string \<times> 'a) list" where
  "del k [] = []"
| "del k ((k', v') # xs) = (if k = k' then xs else (k', v') # del k xs)"

abbreviation sorted_dir :: "(string \<times> 'a) list \<Rightarrow> bool" where
  "sorted_dir xs \<equiv> sorted_wrt (<) (map fst xs)"

lemma ins_keys: "fst ` set (ins k v xs) = insert k (fst ` set xs)"
  by (induction k v xs rule: ins.induct) (simp_all add: insert_commute)

lemma ins_sorted: "sorted_dir xs \<Longrightarrow> sorted_dir (ins k v xs)"
proof (induction xs)
  case (Cons p xs)
  obtain k' v' where p: "p = (k', v')" by fastforce
  show ?case
  proof (cases "k < k' \<or> k = k'")
    case True
    with Cons p show ?thesis by (auto intro: order.strict_trans)
  next
    case False
    then have "k' < k" by auto
    with Cons p False show ?thesis using ins_keys [of k v xs] by auto
  qed
qed simp

lemma map_of_ins: "map_of (ins k v xs) = (map_of xs)(k \<mapsto> v)"
  by (induction xs) (auto simp: fun_eq_iff)

lemma del_keys: "fst ` set (del k xs) \<subseteq> fst ` set xs"
  by (induction k xs rule: del.induct) (simp_all add: subset_insertI subset_insertI2 insert_mono)

lemma del_sorted: "sorted_dir xs \<Longrightarrow> sorted_dir (del k xs)"
  by (induction xs) (use del_keys in \<open>fastforce simp: image_iff\<close>)+

lemma map_of_notin: "k \<notin> fst ` set xs \<Longrightarrow> map_of xs k = None"
  by (simp add: map_of_eq_None_iff)

lemma map_of_del: "sorted_dir xs \<Longrightarrow> map_of (del k xs) = (map_of xs)(k := None)"
proof (induction xs)
  case (Cons p xs)
  obtain k' v' where p: "p = (k', v')" by fastforce
  have "map_of xs k' = None" using Cons.prems p by (auto intro!: map_of_notin)
  with Cons p show ?case by (auto simp: fun_eq_iff)
qed simp

text \<open>
  A directory as the interface a path operation needs: what a name maps to after an entry
  was put or taken out, with the order of names kept.
\<close>

locale directory =
  fixes lookup_entry :: "'d \<Rightarrow> string \<Rightarrow> 'v option"
    and put_entry :: "string \<Rightarrow> 'v \<Rightarrow> 'd \<Rightarrow> 'd"
    and drop_entry :: "string \<Rightarrow> 'd \<Rightarrow> 'd"
    and valid :: "'d \<Rightarrow> bool"
  assumes lookup_put: "valid d \<Longrightarrow> lookup_entry (put_entry k v d) = (lookup_entry d)(k \<mapsto> v)"
    and lookup_drop: "valid d \<Longrightarrow> lookup_entry (drop_entry k d) = (lookup_entry d)(k := None)"
    and valid_put: "valid d \<Longrightarrow> valid (put_entry k v d)"
    and valid_drop: "valid d \<Longrightarrow> valid (drop_entry k d)"
    and extensional: "valid d \<Longrightarrow> valid d' \<Longrightarrow> lookup_entry d = lookup_entry d' \<Longrightarrow> d = d'"
begin

text \<open>Taking an entry out and putting it back, and the other way round\<close>

lemma put_drop: "valid d \<Longrightarrow> lookup_entry d k = Some v \<Longrightarrow> put_entry k v (drop_entry k d) = d"
  by (intro extensional) (auto simp: lookup_put lookup_drop valid_put valid_drop fun_eq_iff)

lemma drop_put: "valid d \<Longrightarrow> lookup_entry d k = None \<Longrightarrow> drop_entry k (put_entry k v d) = d"
  by (intro extensional) (auto simp: lookup_put lookup_drop valid_put valid_drop fun_eq_iff)

lemma put_same: "valid d \<Longrightarrow> lookup_entry d k = Some v \<Longrightarrow> put_entry k v d = d"
  by (intro extensional) (auto simp: lookup_put valid_put fun_eq_iff)

lemma put_put: "valid d \<Longrightarrow> put_entry k v (put_entry k u d) = put_entry k v d"
  by (intro extensional) (auto simp: lookup_put valid_put fun_eq_iff)

lemma put_commute: "valid d \<Longrightarrow> k \<noteq> l \<Longrightarrow> put_entry k v (put_entry l u d) = put_entry l u (put_entry k v d)"
  by (intro extensional) (auto simp: lookup_put valid_put fun_eq_iff)

end

interpretation dir: directory map_of ins del sorted_dir
  by unfold_locales (auto simp: map_of_ins map_of_del ins_sorted del_sorted intro: strict_sorted_alist_eqI)

subsection \<open>Well-formed trees\<close>

text \<open>
  What every tree of a file system satisfies: the names of a directory are distinct (they are
  kept in order), and a name is not empty, a dot or a double dot and has no slash and no NUL.
\<close>

definition is_name :: "string \<Rightarrow> bool" where
  "is_name w \<longleftrightarrow> is_component w \<and> w \<noteq> ''..'' \<and> CHR 0x00 \<notin> set w"

primrec wf_node :: "node \<Rightarrow> bool" where
  "wf_node (FileN d m c) \<longleftrightarrow> True"
| "wf_node (LinkN d m t) \<longleftrightarrow> True"
| "wf_node (SpecialN d m s r) \<longleftrightarrow> True"
| "wf_node (DirN d m ks) \<longleftrightarrow> sorted_dir ks \<and> list_all (\<lambda>p. is_name (fst p) \<and> snd p) (map (map_prod id wf_node) ks)"

lemma wf_dir_iff [simp]:
  "wf_node (DirN d m ks) \<longleftrightarrow> sorted_dir ks \<and> (\<forall>(a, n) \<in> set ks. is_name a \<and> wf_node n)"
  by (auto simp: list_all_iff)

declare wf_node.simps(4) [simp del]

lemma wf_sorted: "wf_node n \<Longrightarrow> sorted_dir (kids n)"
  by (cases n) simp_all

lemma wf_kid: "wf_node n \<Longrightarrow> map_of (kids n) a = Some k \<Longrightarrow> wf_node k \<and> is_name a"
  by (cases n) (auto dest!: map_of_SomeD)

lemma set_ins: "set (ins k v xs) \<subseteq> insert (k, v) (set xs)"
  by (induction k v xs rule: ins.induct) auto

lemma set_del: "set (del k xs) \<subseteq> set xs"
  by (induction k xs rule: del.induct) auto

subsection \<open>Reading and changing a tree at a path\<close>

fun get :: "path \<Rightarrow> node \<Rightarrow> node option" where
  "get [] n = Some n"
| "get (a # p) n = (case map_of (kids n) a of None \<Rightarrow> None | Some k \<Rightarrow> get p k)"

text \<open>
  \<open>upd p (Some v)\<close> puts \<open>v\<close> at the path and \<open>upd p None\<close> removes what is there; the
  directory the path is in must be there, and nothing changes otherwise.
\<close>

fun upd :: "path \<Rightarrow> node option \<Rightarrow> node \<Rightarrow> node" where
  "upd [] x n = (case x of None \<Rightarrow> n | Some v \<Rightarrow> v)"
| "upd (a # p) x (DirN d m ks) =
     (if p = []
      then DirN d m (case x of None \<Rightarrow> del a ks | Some v \<Rightarrow> ins a v ks)
      else (case map_of ks a of None \<Rightarrow> DirN d m ks | Some k \<Rightarrow> DirN d m (ins a (upd p x k) ks)))"
| "upd (a # p) x n = n"

definition dir_at :: "path \<Rightarrow> node \<Rightarrow> bool" where
  "dir_at p t = (case get p t of None \<Rightarrow> False | Some n \<Rightarrow> is_dir n)"

lemma get_append: "get (p @ q) t = (case get p t of None \<Rightarrow> None | Some n \<Rightarrow> get q n)"
  by (induction p t rule: get.induct) (auto split: option.splits)

lemma get_wf: "wf_node t \<Longrightarrow> get p t = Some n \<Longrightarrow> wf_node n \<and> (\<forall>a \<in> set p. is_name a)"
  by (induction p t rule: get.induct) (auto split: option.splits dest: wf_kid)

lemma get_below_file: "get p t = Some n \<Longrightarrow> \<not> is_dir n \<Longrightarrow> q \<noteq> [] \<Longrightarrow> get (p @ q) t = None"
  by (cases q; cases n) (simp_all add: get_append)

lemma get_prefix_dir: "get (p @ a # q) t \<noteq> None \<Longrightarrow> dir_at p t"
  by (cases "get p t"; cases "the (get p t)") (auto simp: get_append dir_at_def)

lemma map_of_in_set: "map_of ks a = Some k \<Longrightarrow> (a, k) \<in> set ks"
  by (rule map_of_SomeD)

lemma wf_upd: "wf_node t \<Longrightarrow> \<forall>v. x = Some v \<longrightarrow> wf_node v \<Longrightarrow> \<forall>a \<in> set p. is_name a \<Longrightarrow> wf_node (upd p x t)"
proof (induction p x t rule: upd.induct)
  case (2 a p x d m ks)
  show ?case
  proof (cases "p = []")
    case True
    with 2 show ?thesis
      using set_del [of a ks] set_ins [of a "the x" ks]
      by (auto simp: ins_sorted del_sorted split: option.splits)
  next
    case False
    show ?thesis
    proof (cases "map_of ks a")
      case (Some k)
      then have "wf_node (upd p x k)" using 2 False wf_kid [of "DirN d m ks" a k] by auto
      then show ?thesis using 2 False Some set_ins [of a "upd p x k" ks]
        by (auto simp: ins_sorted)
    qed (use 2 False in auto)
  qed
qed (auto split: option.splits)

lemma is_dirE: "is_dir n \<Longrightarrow> \<exists>d m ks. n = DirN d m ks"
  by (cases n) simp_all

lemma get_upd_above: "get q t = Some n \<Longrightarrow> wf_node t \<Longrightarrow> p \<noteq> [] \<Longrightarrow> get q (upd (q @ p) x t) = Some (upd p x n)"
proof (induction q arbitrary: t)
  case (Cons a q)
  then obtain k where k: "map_of (kids t) a = Some k" "get q k = Some n"
    by (auto split: option.splits)
  then obtain d m ks where t: "t = DirN d m ks" by (cases t) simp_all
  show ?case using Cons k wf_kid [of t a k] by (simp add: t map_of_ins)
qed simp

lemma get_upd_at:
  assumes "wf_node t" "dir_at q t"
  shows "get (q @ [a]) (upd (q @ [a]) x t) = x"
proof -
  obtain d m ks where g: "get q t = Some (DirN d m ks)"
    using assms(2) by (auto simp: dir_at_def split: option.splits dest!: is_dirE)
  have "wf_node (DirN d m ks)" using get_wf [OF assms(1) g] by blast
  with get_upd_above [OF g assms(1), of "[a]" x] show ?thesis
    by (auto simp: get_append map_of_ins map_of_del split: option.splits)
qed

lemma get_upd_same:
  assumes "wf_node t" "dir_at (butlast p) t" "p \<noteq> []"
  shows "get p (upd p x t) = x"
  using get_upd_at [OF assms(1,2), of "last p" x] assms(3) by simp

lemma get_upd_below:
  assumes "wf_node t" "dir_at (butlast p) t" "p \<noteq> []"
  shows "get (p @ q) (upd p x t) = (case x of None \<Rightarrow> None | Some v \<Rightarrow> get q v)"
  by (simp add: get_append get_upd_same [OF assms])

lemma get_upd_other: "p \<parallel> q \<Longrightarrow> wf_node t \<Longrightarrow> get q (upd p x t) = get q t"
proof (induction p x t arbitrary: q rule: upd.induct)
  case (2 a p x d m ks)
  then obtain b q' where q: "q = b # q'" by (cases q) auto
  show ?case
  proof (cases "p = []")
    case True
    with 2 q show ?thesis
      by (auto simp: map_of_ins map_of_del parallel_def split: option.splits)
  next
    case False
    show ?thesis
    proof (cases "map_of ks a")
      case (Some k)
      then have "wf_node k" using 2 wf_kid [of "DirN d m ks" a k] by auto
      then show ?thesis using 2 False Some q by (auto simp: map_of_ins parallel_def)
    qed (use 2 False in simp)
  qed
qed (auto split: option.splits)

lemma dir_at_iff: "dir_at p t \<longleftrightarrow> (\<exists>d m ks. get p t = Some (DirN d m ks))"
  by (auto simp: dir_at_def split: option.splits dest: is_dirE)

text \<open>A directory that is not at or below the changed path stays one.\<close>

lemma dir_at_upd:
  assumes "wf_node t" "dir_at r t" "\<not> prefix p r"
  shows "dir_at r (upd p x t)"
proof (cases "prefix r p")
  case True
  then obtain q where q: "p = r @ q" "q \<noteq> []" using assms(3) by (auto elim: prefixE)
  obtain d m ks where g: "get r t = Some (DirN d m ks)" using assms(2) by (auto simp: dir_at_iff)
  show ?thesis
    using get_upd_above [OF g assms(1) q(2), of x] q
    by (cases q) (auto simp: dir_at_def split: option.splits)
next
  case False
  then have "p \<parallel> r" using assms(3) by (simp add: parallel_def)
  then show ?thesis using get_upd_other [OF _ assms(1)] assms(2) by (simp add: dir_at_def)
qed

lemma upd_none_id: "get p t = None \<Longrightarrow> wf_node t \<Longrightarrow> upd p None t = t"
proof (induction p t rule: get.induct)
  case (2 a p n)
  show ?case
  proof (cases n)
    case (DirN d m ks)
    have del: "map_of ks a = None \<Longrightarrow> del a ks = ks"
      by (rule strict_sorted_alist_eqI)
        (use 2 DirN in \<open>auto simp: del_sorted map_of_del fun_eq_iff\<close>)
    show ?thesis
    proof (cases "map_of ks a")
      case (Some k)
      then have "wf_node k" "p \<noteq> []" "get p k = None" using 2 DirN wf_kid [of n a k] by auto
      then show ?thesis using 2 DirN Some by (auto simp: dir.put_same)
    qed (use DirN del in auto)
  qed simp_all
qed simp

lemma upd_same_id: "get p t = Some v \<Longrightarrow> wf_node t \<Longrightarrow> upd p (Some v) t = t"
proof (induction p t rule: get.induct)
  case (2 a p n)
  then obtain k where k: "map_of (kids n) a = Some k" "get p k = Some v"
    by (auto split: option.splits)
  then obtain d m ks where n: "n = DirN d m ks" by (cases n) simp_all
  have "wf_node k" using 2 k wf_kid by blast
  then show ?case using 2 k n by (auto simp: dir.put_same)
qed simp

lemma upd_upd: "wf_node t \<Longrightarrow> p \<noteq> [] \<Longrightarrow> upd p x (upd p y t) = upd p x t"
proof (induction p y t rule: upd.induct)
  case (2 a p y d m ks)
  show ?case
  proof (cases "p = []")
    case True
    have "ins a v (del a ks) = ins a v ks" "del a (ins a v ks) = del a ks" "del a (del a ks) = del a ks" for v
      by (rule strict_sorted_alist_eqI,
          use 2 in \<open>simp_all add: ins_sorted del_sorted map_of_ins map_of_del fun_eq_iff\<close>)+
    then show ?thesis using 2 True by (auto simp: dir.put_put split: option.splits)
  next
    case False
    show ?thesis
    proof (cases "map_of ks a")
      case (Some k)
      then have "wf_node k" using 2 wf_kid [of "DirN d m ks" a k] by auto
      then show ?thesis using 2 False Some by (auto simp: map_of_ins dir.put_put)
    qed (use 2 False in simp)
  qed
qed (auto split: option.splits)

text \<open>The change of one entry of a directory\<close>

fun set_entry :: "string \<Rightarrow> 'a option \<Rightarrow> (string \<times> 'a) list \<Rightarrow> (string \<times> 'a) list" where
  "set_entry a None ks = del a ks"
| "set_entry a (Some v) ks = ins a v ks"

lemma set_entry_commute:
  "sorted_dir ks \<Longrightarrow> a \<noteq> b \<Longrightarrow> set_entry a x (set_entry b y ks) = set_entry b y (set_entry a x ks)"
  by (cases x; cases y; intro strict_sorted_alist_eqI)
    (simp_all add: ins_sorted del_sorted map_of_ins map_of_del fun_upd_twist)

lemma map_of_set_entry: "sorted_dir ks \<Longrightarrow> map_of (set_entry a x ks) = (map_of ks)(a := x)"
  by (cases x) (simp_all add: map_of_ins map_of_del)

text \<open>What \<open>upd\<close> does to the entry its path begins with\<close>

lemma upd_dir:
  assumes "sorted_dir ks"
  shows "upd (a # p) x (DirN d m ks) =
    DirN d m (set_entry a (if p = [] then x else map_option (upd p x) (map_of ks a)) ks)"
proof (cases "p = []")
  case False
  have "map_of ks a = None \<Longrightarrow> del a ks = ks"
    by (rule strict_sorted_alist_eqI) (use assms in \<open>auto simp: del_sorted map_of_del fun_eq_iff\<close>)
  with False show ?thesis by (cases "map_of ks a") auto
qed (cases x; simp)

lemma set_entry_twice: "sorted_dir ks \<Longrightarrow> set_entry a x (set_entry a y ks) = set_entry a x ks"
  by (cases x; cases y; intro strict_sorted_alist_eqI)
    (simp_all add: ins_sorted del_sorted map_of_ins map_of_del fun_eq_iff)

lemma set_entry_sorted: "sorted_dir ks \<Longrightarrow> sorted_dir (set_entry a x ks)"
  by (cases x) (simp_all add: ins_sorted del_sorted)

lemma upd_commute: "p \<parallel> q \<Longrightarrow> wf_node t \<Longrightarrow> upd p x (upd q y t) = upd q y (upd p x t)"
proof (induction p arbitrary: q t)
  case (Cons a p)
  then obtain b q' where q: "q = b # q'" by (cases q) auto
  show ?case
  proof (cases t)
    case (DirN d m ks)
    then have s: "sorted_dir ks" using Cons.prems by simp
    show ?thesis
    proof (cases "a = b")
      case False
      then show ?thesis
        using s by (simp add: DirN q upd_dir map_of_set_entry set_entry_sorted set_entry_commute
            del: upd.simps(2))
    next
      case True
      then have pq: "p \<parallel> q'" using Cons.prems q by (auto simp: parallel_def)
      then have ne: "p \<noteq> []" "q' \<noteq> []" by auto
      have "map_of ks a = Some k \<Longrightarrow> upd p x (upd q' y k) = upd q' y (upd p x k)" for k
        using Cons.IH [OF pq] Cons.prems wf_kid [of t a k] by (simp add: DirN)
      then have "map_option (upd p x) (map_option (upd q' y) (map_of ks a)) =
          map_option (upd q' y) (map_option (upd p x) (map_of ks a))"
        by (cases "map_of ks a") simp_all
      then show ?thesis
        using s ne True by (simp add: DirN q upd_dir map_of_set_entry set_entry_sorted set_entry_twice
            del: upd.simps(2))
    qed
  qed (simp_all add: q)
qed simp

lemma upd_restore: "wf_node t \<Longrightarrow> p \<noteq> [] \<Longrightarrow> upd p (get p t) (upd p x t) = t"
  by (cases "get p t") (simp_all add: upd_upd upd_none_id upd_same_id)

lemma is_dir_upd: "p \<noteq> [] \<Longrightarrow> is_dir (upd p x t) = is_dir t"
  by (induction p x t rule: upd.induct) (auto split: option.splits)

lemma upd_missing: "get p t = None \<Longrightarrow> wf_node t \<Longrightarrow> q \<noteq> [] \<Longrightarrow> upd (p @ q) x t = t"
proof (induction p t rule: get.induct)
  case (2 a p n)
  show ?case
  proof (cases n)
    case (DirN d m ks)
    show ?thesis
    proof (cases "map_of ks a")
      case (Some k)
      then have "get p k = None" "wf_node k" using 2 DirN wf_kid [of n a k] by auto
      then have "upd (p @ q) x k = k" using 2 DirN Some by simp
      then show ?thesis using 2 DirN Some by (simp add: dir.put_same)
    qed (use DirN 2 in auto)
  qed simp_all
qed simp

end
