(* ===== verification/JsonParse.thy ===== *)
theory JsonParse
  imports Json
begin

text \<open>
  \<^verbatim>\<open>json.loads\<close> as the reader of broker state: string, number, array and object scanners
  in the order CPython's decoder tries them. Fuel bounds the nesting of calls; twice the
  length of the input is enough for every text the writer produces. A \<^verbatim>\<open>\u\<close> escape beyond
  the range of the model is refused like a syntax error, and a float is kept as its text.
\<close>

definition is_json_space :: "char \<Rightarrow> bool" where
  "is_json_space c \<longleftrightarrow> c = CHR '' '' \<or> c = CHR 0x09 \<or> c = CHR 0x0A \<or> c = CHR 0x0D"

definition skip_ws :: "string \<Rightarrow> string" where
  "skip_ws s = dropWhile is_json_space s"

subsection \<open>Strings\<close>

definition hex_val :: "char \<Rightarrow> nat option" where
  "hex_val c =
     (if is_digit c then Some (digit_val c)
      else if CHR ''a'' \<le> c \<and> c \<le> CHR ''f'' then Some (code c - 87)
      else if CHR ''A'' \<le> c \<and> c \<le> CHR ''F'' then Some (code c - 55)
      else None)"

definition hex4 :: "char \<Rightarrow> char \<Rightarrow> char \<Rightarrow> char \<Rightarrow> nat option" where
  "hex4 a b c d =
     (case (hex_val a, hex_val b, hex_val c, hex_val d) of
        (Some x, Some y, Some z, Some w) \<Rightarrow> Some (((x * 16 + y) * 16 + z) * 16 + w)
      | _ \<Rightarrow> None)"

definition unescape :: "char \<Rightarrow> char option" where
  "unescape e =
     (if e = CHR 0x22 \<or> e = CHR 0x5C \<or> e = CHR ''/'' then Some e
      else if e = CHR ''b'' then Some (CHR 0x08)
      else if e = CHR ''f'' then Some (CHR 0x0C)
      else if e = CHR ''n'' then Some (CHR 0x0A)
      else if e = CHR ''r'' then Some (CHR 0x0D)
      else if e = CHR ''t'' then Some (CHR 0x09)
      else None)"

definition prepend :: "char \<Rightarrow> (string \<times> string) option \<Rightarrow> (string \<times> string) option" where
  "prepend c r = map_option (\<lambda>(t, rest). (c # t, rest)) r"

text \<open>The text after an opening quotation mark; control characters are refused.\<close>

fun scan_string :: "string \<Rightarrow> (string \<times> string) option" where
  "scan_string [] = None"
| "scan_string (c # cs) =
     (if c = CHR 0x22 then Some ([], cs)
      else if c = CHR 0x5C then
        (case cs of
           [] \<Rightarrow> None
         | e # es \<Rightarrow>
             if e = CHR ''u'' then
               (case es of
                  h1 # h2 # h3 # h4 # r \<Rightarrow>
                    (case hex4 h1 h2 h3 h4 of
                       None \<Rightarrow> None
                     | Some n \<Rightarrow> if n < 256 then prepend (char_of n) (scan_string r) else None)
                | _ \<Rightarrow> None)
             else (case unescape e of None \<Rightarrow> None | Some x \<Rightarrow> prepend x (scan_string es)))
      else if c < CHR '' '' then None
      else prepend c (scan_string cs))"

subsection \<open>Numbers\<close>

definition scan_sign :: "string \<Rightarrow> string \<times> string" where
  "scan_sign s = (case s of c # cs \<Rightarrow> if c = CHR ''-'' then (''-'', cs) else ([], s) | [] \<Rightarrow> ([], s))"

definition scan_digits :: "string \<Rightarrow> string \<times> string" where
  "scan_digits s = (takeWhile is_digit s, dropWhile is_digit s)"

definition scan_int :: "string \<Rightarrow> (string \<times> string) option" where
  "scan_int s =
     (case s of
        [] \<Rightarrow> None
      | c # cs \<Rightarrow>
          if c = CHR ''0'' then Some (''0'', cs)
          else if is_digit c then Some (scan_digits s) else None)"

definition scan_frac :: "string \<Rightarrow> string \<times> string" where
  "scan_frac s =
     (case s of
        c # d # _ \<Rightarrow>
          if c = CHR ''.'' \<and> is_digit d then (c # fst (scan_digits (tl s)), snd (scan_digits (tl s))) else ([], s)
      | _ \<Rightarrow> ([], s))"

definition scan_exp :: "string \<Rightarrow> string \<times> string" where
  "scan_exp s =
     (case s of
        c # d # r \<Rightarrow>
          if c = CHR ''e'' \<or> c = CHR ''E'' then
            (if is_digit d then (c # fst (scan_digits (d # r)), snd (scan_digits (d # r)))
             else if d = CHR ''+'' \<or> d = CHR ''-'' then
               (case r of
                  x # _ \<Rightarrow>
                    if is_digit x then (c # d # fst (scan_digits r), snd (scan_digits r)) else ([], s)
                | [] \<Rightarrow> ([], s))
             else ([], s))
          else ([], s)
      | _ \<Rightarrow> ([], s))"

definition int_of_text :: "string \<Rightarrow> string \<Rightarrow> int" where
  "int_of_text sg ds = (if sg = ''-'' then - int (digits_val ds) else int (digits_val ds))"

definition scan_number :: "string \<Rightarrow> (json \<times> string) option" where
  "scan_number s =
     (case scan_int (snd (scan_sign s)) of
        None \<Rightarrow> None
      | Some (ip, r) \<Rightarrow>
          let sg = fst (scan_sign s); fp = scan_frac r; ep = scan_exp (snd fp)
          in if fst fp = [] \<and> fst ep = [] then Some (JInt (int_of_text sg ip), r)
             else Some (JFloat (sg @ ip @ fst fp @ fst ep), snd ep))"

subsection \<open>Values\<close>

text \<open>A Python dictionary built from pairs: a repeated key keeps its place and takes the last value\<close>

fun dict_put :: "'k \<Rightarrow> 'v \<Rightarrow> ('k \<times> 'v) list \<Rightarrow> ('k \<times> 'v) list" where
  "dict_put k v [] = [(k, v)]"
| "dict_put k v ((k', v') # d) = (if k = k' then (k', v) # d else (k', v') # dict_put k v d)"

definition dict_of :: "('k \<times> 'v) list \<Rightarrow> ('k \<times> 'v) list" where
  "dict_of kvs = foldl (\<lambda>d (k, v). dict_put k v d) [] kvs"

definition literal :: "string \<Rightarrow> json \<Rightarrow> string \<Rightarrow> (json \<times> string) option" where
  "literal w v s = (if prefix w s then Some (v, drop (length w) s) else None)"

text \<open>The alternatives after the structural ones: number first, then the three float names\<close>

definition scan_atom :: "string \<Rightarrow> (json \<times> string) option" where
  "scan_atom s =
     (case literal ''null'' JNull s of Some r \<Rightarrow> Some r | None \<Rightarrow>
      case literal ''true'' (JBool True) s of Some r \<Rightarrow> Some r | None \<Rightarrow>
      case literal ''false'' (JBool False) s of Some r \<Rightarrow> Some r | None \<Rightarrow>
      case scan_number s of Some r \<Rightarrow> Some r | None \<Rightarrow>
      case literal ''NaN'' (JFloat ''NaN'') s of Some r \<Rightarrow> Some r | None \<Rightarrow>
      case literal ''Infinity'' (JFloat ''Infinity'') s of Some r \<Rightarrow> Some r | None \<Rightarrow>
      literal ''-Infinity'' (JFloat ''-Infinity'') s)"

text \<open>
  \<open>scan_value\<close> reads one value at the front of the text, \<open>scan_items\<close> the elements of a
  non-empty array and \<open>scan_pairs\<close> the members of a non-empty object up to the closing
  bracket.
\<close>

fun scan_value :: "nat \<Rightarrow> string \<Rightarrow> (json \<times> string) option"
  and scan_items :: "nat \<Rightarrow> string \<Rightarrow> (json list \<times> string) option"
  and scan_pairs :: "nat \<Rightarrow> string \<Rightarrow> ((string \<times> json) list \<times> string) option"
where
  "scan_value 0 s = None"
| "scan_value (Suc n) s =
     (case s of
        [] \<Rightarrow> None
      | c # cs \<Rightarrow>
          if c = CHR 0x22 then map_option (\<lambda>(t, r). (JStr t, r)) (scan_string cs)
          else if c = CHR ''{'' then
            (case skip_ws cs of
               [] \<Rightarrow> None
             | d # ds \<Rightarrow>
                 if d = CHR ''}'' then Some (JObj [], ds)
                 else if d = CHR 0x22 then map_option (\<lambda>(kvs, r). (JObj (dict_of kvs), r)) (scan_pairs n ds)
                 else None)
          else if c = CHR ''['' then
            (case skip_ws cs of
               [] \<Rightarrow> None
             | d # ds \<Rightarrow>
                 if d = CHR '']'' then Some (JList [], ds)
                 else map_option (\<lambda>(vs, r). (JList vs, r)) (scan_items n (d # ds)))
          else scan_atom s)"
| "scan_items 0 s = None"
| "scan_items (Suc n) s =
     (case scan_value n s of
        None \<Rightarrow> None
      | Some (v, r) \<Rightarrow>
          (case skip_ws r of
             [] \<Rightarrow> None
           | c # cs \<Rightarrow>
               if c = CHR '']'' then Some ([v], cs)
               else if c = CHR '','' then
                 map_option (\<lambda>(vs, r'). (v # vs, r')) (scan_items n (skip_ws cs))
               else None))"
| "scan_pairs 0 s = None"
| "scan_pairs (Suc n) s =
     (case scan_string s of
        None \<Rightarrow> None
      | Some (k, r) \<Rightarrow>
          (case skip_ws r of
             [] \<Rightarrow> None
           | c # cs \<Rightarrow>
               if c \<noteq> CHR '':'' then None
               else (case scan_value n (skip_ws cs) of
                       None \<Rightarrow> None
                     | Some (v, r') \<Rightarrow>
                         (case skip_ws r' of
                            [] \<Rightarrow> None
                          | d # ds \<Rightarrow>
                              if d = CHR ''}'' then Some ([(k, v)], ds)
                              else if d = CHR '','' then
                                (case skip_ws ds of
                                   [] \<Rightarrow> None
                                 | q # qs \<Rightarrow>
                                     if q = CHR 0x22 then
                                       map_option (\<lambda>(kvs, r''). ((k, v) # kvs, r'')) (scan_pairs n qs)
                                     else None)
                              else None))))"

definition loads :: "string \<Rightarrow> json option" where
  "loads s =
     (case scan_value (2 * length s + 2) (skip_ws s) of
        None \<Rightarrow> None
      | Some (v, r) \<Rightarrow> if skip_ws r = [] then Some v else None)"

end
