(* ===== verification/JsonRoundtrip.thy ===== *)
theory JsonRoundtrip
  imports JsonParse
begin

text \<open>
  Reading back what \<open>canonical_json\<close> wrote gives the value with its keys sorted, so the
  canonical text determines the value: \<open>canonical_json\<close> is injective up to the order of
  keys. Hypotheses: an object has each key once (a Python dictionary), and a float's text is
  one the number scanner reads as a float.
\<close>

definition float_text :: "string \<Rightarrow> bool" where
  "float_text t \<longleftrightarrow> scan_number t = Some (JFloat t, [])"

primrec json_ok :: "json \<Rightarrow> bool" where
  "json_ok JNull \<longleftrightarrow> True"
| "json_ok (JBool b) \<longleftrightarrow> True"
| "json_ok (JInt i) \<longleftrightarrow> True"
| "json_ok (JFloat t) \<longleftrightarrow> float_text t"
| "json_ok (JStr s) \<longleftrightarrow> True"
| "json_ok (JList vs) \<longleftrightarrow> list_all id (map json_ok vs)"
| "json_ok (JObj kvs) \<longleftrightarrow> distinct (map fst kvs) \<and> list_all snd (map (map_prod id json_ok) kvs)"

subsection \<open>Strings\<close>

lemma hex_val_hex_digit: "n < 16 \<Longrightarrow> hex_val (hex_digit n) = Some n"
proof -
  assume n: "n < 16"
  show ?thesis
  proof (cases "n < 10")
    case True
    then show ?thesis
      by (simp add: hex_val_def hex_digit_def is_digit_digit_char digit_val_digit_char)
  next
    case False
    then have "code (char_of (87 + n) :: char) = 87 + n" using n by simp
    then show ?thesis
      using False n by (simp del: of_char_of add: hex_val_def hex_digit_def is_digit_code less_eq_char_def)
  qed
qed

lemma scan_string_escape: "scan_string (escape_char c @ r) = prepend c (scan_string r)"
proof (cases "c < CHR '' ''")
  case True
  then have b: "code c < 32" by (simp add: less_char_def)
  then have h: "hex_val (hex_digit (code c div 16)) = Some (code c div 16)"
    "hex_val (hex_digit (code c mod 16)) = Some (code c mod 16)"
    by (simp_all add: hex_val_hex_digit)
  have "hex_val (CHR ''0'') = Some 0" by (simp add: hex_val_def is_digit_def digit_val_def)
  then have "hex4 (CHR ''0'') (CHR ''0'') (hex_digit (code c div 16)) (hex_digit (code c mod 16)) = Some (code c)"
    by (simp add: hex4_def h)
  with b show ?thesis by (simp add: escape_char_def unescape_def)
next
  case False
  then show ?thesis by (simp add: escape_char_def unescape_def)
qed

lemma scan_string_quoted: "scan_string (concat (map escape_char s) @ CHR 0x22 # rest) = Some (s, rest)"
  by (induction s) (simp_all add: scan_string_escape prepend_def)

subsection \<open>Numbers\<close>

definition follow :: "string \<Rightarrow> bool" where
  "follow rest \<longleftrightarrow> (case rest of [] \<Rightarrow> True
     | c # _ \<Rightarrow> \<not> is_digit c \<and> c \<notin> {CHR ''.'', CHR ''e'', CHR ''E'', CHR ''+'', CHR ''-''})"

lemma follow_simps [simp]: "follow []"
  "follow (CHR '','' # s)" "follow (CHR '']'' # s)" "follow (CHR ''}'' # s)" "follow (CHR 0x0A # s)"
  by (simp_all add: follow_def is_digit_def)

lemma scan_digits_append:
  "follow rest \<Longrightarrow> scan_digits (s @ rest) = (fst (scan_digits s), snd (scan_digits s) @ rest)"
  by (induction s) (auto simp: scan_digits_def follow_def split: list.splits)

lemma scan_int_append:
  "follow rest \<Longrightarrow> scan_int s = Some (a, r) \<Longrightarrow> scan_int (s @ rest) = Some (a, r @ rest)"
  using scan_digits_append [of rest s]
  by (auto simp: scan_int_def split: list.splits if_splits)

lemma scan_frac_append:
  "follow rest \<Longrightarrow> scan_frac (s @ rest) = (fst (scan_frac s), snd (scan_frac s) @ rest)"
  using scan_digits_append [of rest "tl s"]
  by (cases s; cases "tl s") (auto simp: scan_frac_def follow_def split: list.splits)

lemma scan_exp_append:
  assumes "follow rest"
  shows "scan_exp (s @ rest) = (fst (scan_exp s), snd (scan_exp s) @ rest)"
proof (cases s)
  case Nil
  with assms show ?thesis by (auto simp: scan_exp_def follow_def split: list.splits)
next
  case (Cons c s1)
  show ?thesis
  proof (cases s1)
    case Nil
    with assms Cons show ?thesis by (auto simp: scan_exp_def follow_def split: list.splits)
  next
    case (Cons d s2)
    with assms \<open>s = c # s1\<close> scan_digits_append [OF assms, of "d # s2"] scan_digits_append [OF assms, of s2]
    show ?thesis by (auto simp: scan_exp_def follow_def split: list.splits)
  qed
qed

lemma scan_int_Nil [simp]: "scan_int [] = None"
  by (simp add: scan_int_def)

lemma scan_sign_append: "snd (scan_sign s) \<noteq> [] \<Longrightarrow>
    scan_sign (s @ rest) = (fst (scan_sign s), snd (scan_sign s) @ rest)"
  by (cases s) (auto simp: scan_sign_def)

lemma scan_number_append:
  assumes f: "follow rest" and s: "scan_number s = Some (v, r)"
  shows "scan_number (s @ rest) = Some (v, r @ rest)"
proof -
  obtain a q where i: "scan_int (snd (scan_sign s)) = Some (a, q)"
    using s by (auto simp: scan_number_def split: option.splits)
  then have "snd (scan_sign s) \<noteq> []" by auto
  note sg = scan_sign_append [OF this, of rest]
  note ii = scan_int_append [OF f i]
  show ?thesis
    using s i ii sg scan_frac_append [OF f, of q] scan_exp_append [OF f, of "snd (scan_frac q)"]
    by (auto simp: scan_number_def Let_def split: if_splits)
qed

lemma digit_not_minus: "is_digit c \<Longrightarrow> c \<noteq> CHR ''-''"
  by (auto simp: is_digit_def)

lemma scan_digits_all: "(\<And>c. c \<in> set s \<Longrightarrow> is_digit c) \<Longrightarrow> scan_digits s = (s, [])"
  by (simp add: scan_digits_def)

lemma digit_char_0: "digit_char 0 = CHR ''0''"
  by code_simp

lemma is_digit_zero [simp]: "is_digit (CHR ''0'')"
  by (simp add: is_digit_def)

lemma scan_int_nat_str: "scan_int (nat_str n) = Some (nat_str n, [])"
proof -
  obtain c cs where c: "nat_str n = c # cs" by (cases "nat_str n") auto
  have d: "is_digit c" using nat_str_digits [of c n] c by simp
  show ?thesis
  proof (cases "c = CHR ''0''")
    case True
    then have "n = 0" using nat_str_hd [of n] c by simp
    then show ?thesis by (simp add: nat_str.simps scan_int_def digit_char_0)
  next
    case False
    moreover have "scan_digits (nat_str n) = (nat_str n, [])"
      by (rule scan_digits_all) (rule nat_str_digits)
    ultimately show ?thesis using d c by (auto simp: scan_int_def)
  qed
qed

lemma scan_int_no_minus: "scan_sign (nat_str n) = ([], nat_str n)"
proof -
  obtain c cs where c: "nat_str n = c # cs" by (cases "nat_str n") auto
  have "is_digit c" using nat_str_digits [of c n] c by simp
  then show ?thesis using c digit_not_minus by (simp add: scan_sign_def)
qed

lemma scan_number_int_str: "scan_number (int_str i) = Some (JInt i, [])"
proof -
  have nil: "scan_frac [] = ([], [])" "scan_exp [] = ([], [])"
    by (simp_all add: scan_frac_def scan_exp_def)
  show ?thesis
  proof (cases "i < 0")
    case True
    then have "scan_sign (int_str i) = (''-'', nat_str (nat (- i)))"
      by (simp add: int_str_def scan_sign_def)
    with True show ?thesis
      by (simp add: scan_number_def scan_int_nat_str nil int_of_text_def digits_val_nat_str)
  next
    case False
    then show ?thesis
      by (simp add: scan_number_def scan_int_no_minus scan_int_nat_str nil int_of_text_def
          digits_val_nat_str int_str_def)
  qed
qed

lemma scan_number_hd: "scan_number (c # s) \<noteq> None \<Longrightarrow> is_digit c \<or> c = CHR ''-''"
  by (auto simp: scan_number_def scan_sign_def scan_int_def split: if_splits option.splits)

lemma scan_number_Nil [simp]: "scan_number [] = None"
  by (simp add: scan_number_def scan_sign_def)

lemma scan_atom_number:
  assumes "scan_number s = Some (v, r)"
  shows "scan_atom s = Some (v, r)"
proof -
  obtain c t where s: "s = c # t" using assms by (cases s) auto
  then have "is_digit c \<or> c = CHR ''-''" using assms scan_number_hd by fastforce
  then have "CHR ''n'' \<noteq> c" "CHR ''t'' \<noteq> c" "CHR ''f'' \<noteq> c" by (auto simp: is_digit_def)
  then show ?thesis using assms s by (simp add: scan_atom_def literal_def)
qed

subsection \<open>Values\<close>

text \<open>The first character of a rendered value starts no white space and closes no bracket.\<close>

definition value_start :: "char \<Rightarrow> bool" where
  "value_start c \<longleftrightarrow> is_digit c \<or> c \<in> {CHR ''-'', CHR ''n'', CHR ''t'', CHR ''f'', CHR 0x22, CHR ''['', CHR ''{''}"

lemma render_start:
  assumes "json_ok v"
  obtains c s where "render v = c # s" "value_start c"
proof -
  have "\<exists>c s. render v = c # s \<and> value_start c"
  proof (cases v)
    case (JInt i)
    obtain c s where c: "int_str i = c # s"
      using scan_number_int_str [of i] by (cases "int_str i") auto
    with JInt show ?thesis
      using scan_number_hd [of c s] scan_number_int_str [of i] by (auto simp: value_start_def)
  next
    case (JFloat t)
    with assms obtain c s where c: "t = c # s" by (cases t) (auto simp: float_text_def)
    with JFloat assms show ?thesis
      using scan_number_hd [of c s] by (auto simp: value_start_def float_text_def)
  qed (auto simp: value_start_def quote_def)
  then show ?thesis using that by blast
qed

lemma skip_ws_start: "value_start c \<or> c \<in> {CHR '']'', CHR ''}'', CHR '','', CHR '':''} \<Longrightarrow> skip_ws (c # s) = c # s"
  by (auto simp: skip_ws_def value_start_def is_json_space_def is_digit_def)

text \<open>
  One member of the list and object cases each: reading the remaining elements, given that
  every element reads back.
\<close>

definition reads_back :: "json \<Rightarrow> bool" where
  "reads_back v \<longleftrightarrow> (\<forall>n rest. follow rest \<longrightarrow> 2 * length (render v @ rest) < n \<longrightarrow>
     scan_value n (render v @ rest) = Some (v, rest))"

lemma reads_backD:
  "reads_back v \<Longrightarrow> follow rest \<Longrightarrow> 2 * length (render v @ rest) < n \<Longrightarrow>
    scan_value n (render v @ rest) = Some (v, rest)"
  by (simp add: reads_back_def)

lemma scan_items_render:
  assumes "vs \<noteq> []" "\<forall>v \<in> set vs. json_ok v \<and> reads_back v"
    and "2 * length (join_with '','' (map render vs) @ CHR '']'' # rest) + 1 < n"
  shows "scan_items n (join_with '','' (map render vs) @ CHR '']'' # rest) = Some (vs, rest)"
  using assms
proof (induction vs arbitrary: n)
  case (Cons v vs)
  from Cons.prems(3) obtain m where n: "n = Suc m" by (cases n) auto
  from Cons.prems have v: "json_ok v" "reads_back v" by auto
  show ?case
  proof (cases vs)
    case Nil
    then show ?thesis
      using Cons.prems n reads_backD [OF v(2), of "CHR '']'' # rest" m] by (simp add: skip_ws_start)
  next
    case (Cons w ws)
    define tail where "tail = join_with '','' (map render vs) @ CHR '']'' # rest"
    have split: "join_with '','' (map render (v # vs)) @ CHR '']'' # rest = render v @ CHR '','' # tail"
      using Cons by (simp add: tail_def)
    obtain c s where c: "render w = c # s" "value_start c"
      using render_start [of w] Cons.prems Cons by auto
    have "scan_value m (render v @ CHR '','' # tail) = Some (v, CHR '','' # tail)"
      using Cons.prems(3) n by (intro reads_backD [OF v(2)]) (simp_all only: split, simp_all)
    moreover have "skip_ws tail = tail"
    proof -
      have "\<exists>s'. tail = c # s'" using Cons c by (cases ws) (auto simp: tail_def)
      then show ?thesis using c(2) by (auto simp: skip_ws_start)
    qed
    moreover have "scan_items m tail = Some (vs, rest)"
    proof -
      have "2 * length tail + 1 < m" using Cons.prems(3) n unfolding split by simp
      then show ?thesis
        using Cons.IH [of m] Cons Cons.prems(2) by (auto simp: tail_def)
    qed
    ultimately show ?thesis unfolding split n by (simp add: skip_ws_start)
  qed
qed simp

lemma scan_pairs_render:
  assumes "kvs \<noteq> []" "\<forall>(k, v) \<in> set kvs. json_ok v \<and> reads_back v"
    and "2 * length (join_with '','' (map (\<lambda>(k, v). quote k @ '':'' @ render v) kvs) @ CHR ''}'' # rest) < n"
  shows "scan_pairs n (tl (join_with '','' (map (\<lambda>(k, v). quote k @ '':'' @ render v) kvs)) @ CHR ''}'' # rest)
    = Some (kvs, rest)"
  using assms
proof (induction kvs arbitrary: n)
  case (Cons p kvs)
  obtain k v where p: "p = (k, v)" by fastforce
  define r where "r = (if kvs = [] then CHR ''}'' # rest
    else CHR '','' # join_with '','' (map (\<lambda>(k, v). quote k @ '':'' @ render v) kvs) @ CHR ''}'' # rest)"
  have all: "join_with '','' (map (\<lambda>(k, v). quote k @ '':'' @ render v) (p # kvs)) @ CHR ''}'' # rest
      = CHR 0x22 # concat (map escape_char k) @ CHR 0x22 # CHR '':'' # render v @ r"
    by (cases kvs) (auto simp: p r_def quote_def)
  then have tl: "tl (join_with '','' (map (\<lambda>(k, v). quote k @ '':'' @ render v) (p # kvs))) @ CHR ''}'' # rest
      = concat (map escape_char k) @ CHR 0x22 # CHR '':'' # render v @ r"
    by (cases kvs) (auto simp: p quote_def)
  from Cons.prems(3) obtain m where n: "n = Suc m" by (cases n) auto
  from Cons.prems p have v: "json_ok v" "reads_back v" by auto
  obtain c s where c: "render v = c # s" "value_start c" using render_start [OF v(1)] .
  have m: "2 * length (render v @ r) < m" using Cons.prems(3) unfolding all n by simp
  have sv: "scan_value m (render v @ r) = Some (v, r)"
    by (rule reads_backD [OF v(2) _ m]) (simp add: r_def)
  have ws: "skip_ws (render v @ r) = render v @ r" using c by (simp add: skip_ws_start)
  show ?case
  proof (cases kvs)
    case Nil
    then have "r = CHR ''}'' # rest" by (simp add: r_def)
    with sv ws Nil show ?thesis unfolding tl n
      by (simp add: scan_string_quoted skip_ws_start p)
  next
    case (Cons q qs)
    obtain k' v' where q: "q = (k', v')" by fastforce
    define t where "t = join_with '','' (map (\<lambda>(k, v). quote k @ '':'' @ render v) kvs)"
    have t: "t = CHR 0x22 # tl t" using Cons q by (cases qs) (auto simp: t_def quote_def)
    have r: "r = CHR '','' # CHR 0x22 # tl t @ CHR ''}'' # rest"
    proof -
      have "kvs \<noteq> []" using Cons by simp
      then have "r = CHR '','' # t @ CHR ''}'' # rest" by (simp add: r_def t_def)
      with t show ?thesis by (metis append_Cons)
    qed
    have "length t = Suc (length (tl t))" using t by (metis length_Cons)
    then have "2 * length (t @ CHR ''}'' # rest) < m" using m r by simp
    then have "scan_pairs m (tl t @ CHR ''}'' # rest) = Some (kvs, rest)"
      using Cons.IH [of m] Cons Cons.prems(2) by (simp add: t_def)
    with sv [unfolded r] ws [unfolded r] show ?thesis unfolding tl n r
      by (simp add: scan_string_quoted skip_ws_start p value_start_def)
  qed
qed simp

lemma dict_put_new: "k \<notin> set (map fst d) \<Longrightarrow> dict_put k v d = d @ [(k, v)]"
  by (induction d) auto

lemma dict_of_distinct:
  assumes "distinct (map fst kvs)"
  shows "dict_of kvs = kvs"
proof -
  have "foldl (\<lambda>d (k, v). dict_put k v d) d kvs = d @ kvs" if "distinct (map fst (d @ kvs))"
    for d :: "('a \<times> 'b) list"
    using that by (induction kvs arbitrary: d) (auto simp: dict_put_new)
  from this [of "[]"] assms show ?thesis by (simp add: dict_of_def)
qed

lemma reads_backI:
  "(\<And>n rest. follow rest \<Longrightarrow> 2 * length (render v @ rest) < Suc n \<Longrightarrow>
      scan_value (Suc n) (render v @ rest) = Some (v, rest)) \<Longrightarrow> reads_back v"
  unfolding reads_back_def by (metis not_less_zero old.nat.exhaust)

lemma reads_back_atom:
  assumes "\<And>rest. follow rest \<Longrightarrow> scan_atom (render v @ rest) = Some (v, rest)"
    and "render v = c # s" "c \<notin> {CHR 0x22, CHR ''{'', CHR ''[''}"
  shows "reads_back v"
proof (rule reads_backI)
  fix n rest assume "follow rest"
  then show "scan_value (Suc n) (render v @ rest) = Some (v, rest)"
    using assms(1) [of rest] assms(2,3) by simp
qed

lemma reads_back_number:
  assumes "scan_number (render v) = Some (v, [])"
  shows "reads_back v"
proof -
  obtain c s where c: "render v = c # s" using assms by (cases "render v") auto
  then have "c \<notin> {CHR 0x22, CHR ''{'', CHR ''[''}"
    using scan_number_hd [of c s] assms by (auto simp: is_digit_def)
  moreover have "scan_atom (render v @ rest) = Some (v, rest)" if "follow rest" for rest
    using scan_number_append [OF that assms] by (simp add: scan_atom_number)
  ultimately show ?thesis using reads_back_atom c by blast
qed

lemma scan_value_render: "json_ok v \<Longrightarrow> reads_back v"
proof (induction v)
  case JNull
  show ?case by (rule reads_back_atom) (auto simp: scan_atom_def literal_def)
next
  case (JBool b)
  show ?case by (cases b; rule reads_back_atom) (auto simp: scan_atom_def literal_def)
next
  case (JInt i)
  show ?case by (rule reads_back_number) (simp add: scan_number_int_str)
next
  case (JFloat t)
  then show ?case by (intro reads_back_number) (simp add: float_text_def)
next
  case (JStr s)
  show ?case by (rule reads_backI) (simp add: quote_def scan_string_quoted)
next
  case (JList vs)
  show ?case
  proof (rule reads_backI)
    fix n rest
    assume f: "2 * length (render (JList vs) @ rest) < Suc n"
    show "scan_value (Suc n) (render (JList vs) @ rest) = Some (JList vs, rest)"
    proof (cases vs)
      case Nil
      then show ?thesis by (simp add: skip_ws_start)
    next
      case (Cons w ws)
      have ok: "\<forall>v \<in> set vs. json_ok v \<and> reads_back v"
        using JList by (auto simp: list_all_iff)
      obtain c s where c: "render w = c # s" "value_start c"
        using render_start [of w] ok Cons by auto
      have "scan_items n (join_with '','' (map render vs) @ CHR '']'' # rest) = Some (vs, rest)"
        using f ok Cons by (intro scan_items_render) auto
      moreover obtain t where "join_with '','' (map render vs) = c # t"
        using Cons c by (cases ws) auto
      ultimately show ?thesis
        using c(2) by (auto simp: skip_ws_start value_start_def is_digit_def)
    qed
  qed
next
  case (JObj kvs)
  show ?case
  proof (rule reads_backI)
    fix n rest
    assume f: "2 * length (render (JObj kvs) @ rest) < Suc n"
    have r: "render (JObj kvs) =
        ''{'' @ join_with '','' (map (\<lambda>(k, v). quote k @ '':'' @ render v) kvs) @ ''}''"
      by (simp add: case_prod_unfold comp_def)
    show "scan_value (Suc n) (render (JObj kvs) @ rest) = Some (JObj kvs, rest)"
    proof (cases kvs)
      case Nil
      then show ?thesis by (simp add: skip_ws_start)
    next
      case (Cons p ps)
      define t where "t = join_with '','' (map (\<lambda>(k, v). quote k @ '':'' @ render v) kvs)"
      have ok: "\<forall>(k, v) \<in> set kvs. json_ok v \<and> reads_back v" and d: "distinct (map fst kvs)"
        using JObj by (force simp: list_all_iff)+
      have t: "t = CHR 0x22 # tl t" using Cons by (cases p; cases ps) (auto simp: t_def quote_def)
      have "scan_pairs n (tl t @ CHR ''}'' # rest) = Some (kvs, rest)"
        unfolding t_def using f r ok Cons by (intro scan_pairs_render) auto
      moreover have "render (JObj kvs) @ rest = CHR ''{'' # CHR 0x22 # tl t @ CHR ''}'' # rest"
      proof -
        have "render (JObj kvs) @ rest = CHR ''{'' # t @ CHR ''}'' # rest"
          unfolding r t_def by simp
        with t show ?thesis by (metis append_Cons)
      qed
      ultimately show ?thesis
        by (simp del: render.simps add: skip_ws_start value_start_def dict_of_distinct [OF d])
    qed
  qed
qed

subsection \<open>The canonical text of a value\<close>

lemma json_ok_sort_keys: "json_ok v \<Longrightarrow> json_ok (sort_keys v)"
proof (induction v)
  case (JObj kvs)
  have "distinct (map fst (sort_key fst (map (map_prod id sort_keys) kvs)))"
  proof -
    have "mset (map fst (sort_key fst (map (map_prod id sort_keys) kvs))) = mset (map fst kvs)"
      by (simp add: multiset.map_comp comp_def)
    then show ?thesis using JObj.prems by (metis json_ok.simps(7) mset_eq_imp_distinct_iff)
  qed
  then show ?case using JObj by (force simp: list_all_iff)
qed (auto simp: list_all_iff)

theorem loads_dumps:
  assumes "json_ok v" shows "loads (dumps v @ [CHR 0x0A]) = Some (sort_keys v)"
proof -
  let ?w = "sort_keys v"
  have ok: "json_ok ?w" using assms by (rule json_ok_sort_keys)
  obtain c s where c: "render ?w = c # s" "value_start c" using render_start [OF ok] .
  have "scan_value (2 * length (render ?w @ [CHR 0x0A]) + 2) (render ?w @ [CHR 0x0A]) = Some (?w, [CHR 0x0A])"
    using scan_value_render [OF ok] by (intro reads_backD) auto
  then show ?thesis
    using c by (simp add: loads_def dumps_def skip_ws_start) (simp add: skip_ws_def is_json_space_def)
qed

theorem canonical_json_inject:
  assumes "json_ok v" "json_ok w" "canonical_json v = canonical_json w"
  shows "sort_keys v = sort_keys w"
  using assms loads_dumps [of v] loads_dumps [of w]
  by (simp add: canonical_json_def utf8_encode_inject)

end
