(* ===== verification/PyValue.thy ===== *)
theory PyValue
  imports JsonRoundtrip
begin

text \<open>
  How the \<^verbatim>\<open>from_dict\<close> class methods read a JSON value: subscription of a dictionary,
  \<^verbatim>\<open>str\<close>, \<^verbatim>\<open>int\<close>, \<^verbatim>\<open>bool\<close> and the lookup of an enumeration member by value. A failure
  is the built-in exception Python raises. The locale \<open>json_codec\<close> is the contract between
  a record that is stored as JSON and the code that stores and signs it.
\<close>

subsection \<open>Dictionaries\<close>

text \<open>\<^verbatim>\<open>data[key]\<close>, and \<^verbatim>\<open>data.get(key)\<close> with \<open>JNull\<close> for a missing key\<close>

definition field :: "string \<Rightarrow> json \<Rightarrow> json result" where
  "field k d =
     (case d of
        JObj kvs \<Rightarrow> (case map_of kvs k of None \<Rightarrow> Inl (PyError ''KeyError'') | Some v \<Rightarrow> Inr v)
      | _ \<Rightarrow> Inl (PyError ''TypeError''))"

definition field_get :: "string \<Rightarrow> json \<Rightarrow> json result" where
  "field_get k d =
     (case d of
        JObj kvs \<Rightarrow> (case map_of kvs k of None \<Rightarrow> Inr JNull | Some v \<Rightarrow> Inr v)
      | _ \<Rightarrow> Inl (PyError ''AttributeError''))"

subsection \<open>\<^verbatim>\<open>str(v)\<close>\<close>

definition repr_char :: "char \<Rightarrow> char \<Rightarrow> string" where
  "repr_char q c =
     (if c = q \<or> c = CHR 0x5C then [CHR 0x5C, c]
      else if c = CHR 0x09 then [CHR 0x5C, CHR ''t'']
      else if c = CHR 0x0A then [CHR 0x5C, CHR ''n'']
      else if c = CHR 0x0D then [CHR 0x5C, CHR ''r'']
      else if c < CHR '' '' \<or> (CHR 0x7F \<le> c \<and> c \<le> CHR 0xA0) \<or> c = CHR 0xAD
      then [CHR 0x5C, CHR ''x'', hex_digit (code c div 16), hex_digit (code c mod 16)]
      else [c])"

definition repr_str :: "string \<Rightarrow> string" where
  "repr_str s =
     (let q = (if CHR 0x27 \<in> set s \<and> CHR 0x22 \<notin> set s then CHR 0x22 else CHR 0x27)
      in q # concat (map (repr_char q) s) @ [q])"

primrec py_repr :: "json \<Rightarrow> string" where
  "py_repr JNull = ''None''"
| "py_repr (JBool b) = (if b then ''True'' else ''False'')"
| "py_repr (JInt i) = int_str i"
| "py_repr (JFloat t) = t"
| "py_repr (JStr s) = repr_str s"
| "py_repr (JList vs) = ''['' @ join_with '', '' (map py_repr vs) @ '']''"
| "py_repr (JObj kvs) =
     ''{'' @ join_with '', '' (map (\<lambda>(k, t). repr_str k @ '': '' @ t) (map (map_prod id py_repr) kvs)) @ ''}''"

definition py_str :: "json \<Rightarrow> string" where
  "py_str v = (case v of JStr s \<Rightarrow> s | _ \<Rightarrow> py_repr v)"

subsection \<open>\<^verbatim>\<open>int(v)\<close>\<close>

text \<open>Decimal digits with single underscores between them\<close>

fun digits_text :: "string \<Rightarrow> string option" where
  "digits_text [] = None"
| "digits_text [c] = (if is_digit c then Some [c] else None)"
| "digits_text (c # d # cs) =
     (if \<not> is_digit c then None
      else if d = CHR ''_'' then map_option ((#) c) (digits_text cs)
      else map_option ((#) c) (digits_text (d # cs)))"

definition int_of_str :: "string \<Rightarrow> int result" where
  "int_of_str s =
     (let t = strip s;
          sg = (case t of c # _ \<Rightarrow> if c = CHR ''-'' \<or> c = CHR ''+'' then [c] else [] | [] \<Rightarrow> [])
      in case digits_text (drop (length sg) t) of
           None \<Rightarrow> Inl (PyError ''ValueError'')
         | Some ds \<Rightarrow> Inr (int_of_text sg ds))"

text \<open>
  The integer part of a float's text: exact on the decimal text, where Python first rounds it
  to a double.
\<close>

definition int_of_float :: "string \<Rightarrow> int result" where
  "int_of_float t =
     (case scan_int (snd (scan_sign t)) of
        None \<Rightarrow> Inl (PyError ''ValueError'')
      | Some (ip, r) \<Rightarrow>
          let fp = fst (scan_frac r); ep = fst (scan_exp (snd (scan_frac r)));
              m = digits_val (ip @ tl fp);
              e = (case ep of [] \<Rightarrow> 0
                   | _ # x # ds \<Rightarrow> if is_digit x then int (digits_val (x # ds)) else int_of_text [x] ds
                   | _ \<Rightarrow> 0) - int (length (tl fp));
              n = (if 0 \<le> e then m * 10 ^ nat e else m div 10 ^ nat (- e))
          in Inr (if fst (scan_sign t) = ''-'' then - int n else int n))"

definition py_int :: "json \<Rightarrow> int result" where
  "py_int v =
     (case v of
        JInt i \<Rightarrow> Inr i
      | JBool b \<Rightarrow> Inr (if b then 1 else 0)
      | JStr s \<Rightarrow> int_of_str s
      | JFloat t \<Rightarrow> int_of_float t
      | _ \<Rightarrow> Inl (PyError ''TypeError''))"

subsection \<open>\<^verbatim>\<open>bool(v)\<close>, and an optional string\<close>

definition py_truthy :: "json \<Rightarrow> bool" where
  "py_truthy v =
     (case v of
        JNull \<Rightarrow> False
      | JBool b \<Rightarrow> b
      | JInt i \<Rightarrow> i \<noteq> 0
      | JFloat t \<Rightarrow> (\<exists>c \<in> set (takeWhile (\<lambda>c. c \<noteq> CHR ''e'' \<and> c \<noteq> CHR ''E'') t). c \<notin> {CHR ''0'', CHR ''.'', CHR ''-''})
      | JStr s \<Rightarrow> s \<noteq> []
      | JList vs \<Rightarrow> vs \<noteq> []
      | JObj kvs \<Rightarrow> kvs \<noteq> [])"

text \<open>
  A field declared \<^verbatim>\<open>str | None\<close> that the code copies as it is; a value of another type,
  which Python would keep, is a type error here.
\<close>

definition opt_str :: "json \<Rightarrow> string option result" where
  "opt_str v = (case v of JNull \<Rightarrow> Inr None | JStr s \<Rightarrow> Inr (Some s) | _ \<Rightarrow> Inl (PyError ''TypeError''))"

definition of_opt_str :: "string option \<Rightarrow> json" where
  "of_opt_str o' = (case o' of None \<Rightarrow> JNull | Some s \<Rightarrow> JStr s)"

text \<open>\<^verbatim>\<open>str(data[k])\<close>, \<^verbatim>\<open>int(data[k])\<close>\<close>

definition fstr :: "string \<Rightarrow> json \<Rightarrow> string result" where
  "fstr k d = bindE (field k d) (\<lambda>v. Inr (py_str v))"

definition fint :: "string \<Rightarrow> json \<Rightarrow> int result" where
  "fint k d = bindE (field k d) py_int"

text \<open>
  Iteration over a value the code expects to be a list, and \<^verbatim>\<open>dict(v).items()\<close>, where a
  non-empty list of pairs, which Python would accept, is a type error.
\<close>

definition py_list :: "json \<Rightarrow> json list result" where
  "py_list v =
     (case v of
        JList vs \<Rightarrow> Inr vs
      | JObj kvs \<Rightarrow> Inr (map (\<lambda>(k, _). JStr k) kvs)
      | JStr s \<Rightarrow> Inr (map (\<lambda>c. JStr [c]) s)
      | _ \<Rightarrow> Inl (PyError ''TypeError''))"

definition py_items :: "json \<Rightarrow> (string \<times> json) list result" where
  "py_items v =
     (case v of
        JObj kvs \<Rightarrow> Inr kvs
      | JList [] \<Rightarrow> Inr []
      | JStr [] \<Rightarrow> Inr []
      | _ \<Rightarrow> Inl (PyError ''TypeError''))"

subsection \<open>Reading a value whose keys were sorted\<close>

lemma map_of_map_prod_id: "map_of (map (map_prod id f) kvs) k = map_option f (map_of kvs k)"
  by (induction kvs) auto

lemma map_of_sorted_keys:
  assumes "distinct (map fst kvs)"
  shows "map_of (sort_key fst (map (map_prod id sort_keys) kvs)) k = map_option sort_keys (map_of kvs k)"
proof -
  have "distinct (map fst (map (map_prod id sort_keys) kvs))"
    using assms by (simp add: comp_def)
  then show ?thesis by (simp add: map_of_sort_key map_of_map_prod_id)
qed

lemma field_sorted:
  "distinct (map fst kvs) \<Longrightarrow> field k (sort_keys (JObj kvs)) =
    (case map_of kvs k of None \<Rightarrow> Inl (PyError ''KeyError'') | Some v \<Rightarrow> Inr (sort_keys v))"
  by (simp add: field_def map_of_sorted_keys split: option.splits)

lemma field_get_sorted:
  "distinct (map fst kvs) \<Longrightarrow> field_get k (sort_keys (JObj kvs)) =
    (case map_of kvs k of None \<Rightarrow> Inr JNull | Some v \<Rightarrow> Inr (sort_keys v))"
  by (simp add: field_get_def map_of_sorted_keys split: option.splits)

lemma sort_keys_obj_eqD:
  assumes "sort_keys (JObj a) = sort_keys (JObj b)" "distinct (map fst a)" "distinct (map fst b)"
  shows "map_option sort_keys (map_of a k) = map_option sort_keys (map_of b k)"
  using assms map_of_sorted_keys [of a k] map_of_sorted_keys [of b k] by simp

lemma sort_keys_atom [simp]: "sort_keys (of_opt_str x) = of_opt_str x"
  by (simp add: of_opt_str_def split: option.splits)

lemma opt_str_of [simp]: "opt_str (of_opt_str x) = Inr x"
  by (simp add: opt_str_def of_opt_str_def split: option.splits)

lemma json_ok_opt_str [simp]: "json_ok (of_opt_str x)"
  by (simp add: of_opt_str_def split: option.splits)

lemma py_simps [simp]:
  "py_str (JStr s) = s" "py_int (JInt i) = Inr i"
  "py_list (JList vs) = Inr vs" "py_items (JObj kvs) = Inr kvs"
  by (simp_all add: py_str_def py_int_def py_list_def py_items_def)

subsection \<open>The contract of a stored record\<close>

text \<open>
  \<open>enc\<close> is the record's \<^verbatim>\<open>to_dict\<close>, \<open>dec\<close> its \<^verbatim>\<open>from_dict\<close>, \<open>ok\<close> what the records the
  broker builds satisfy, and \<open>norm\<close> what storing does to a record: it sorts the keys of the
  dictionaries inside it.
\<close>

locale json_codec =
  fixes enc :: "'a \<Rightarrow> json" and dec :: "json \<Rightarrow> 'a result"
    and ok :: "'a \<Rightarrow> bool" and norm :: "'a \<Rightarrow> 'a"
  assumes enc_ok: "ok x \<Longrightarrow> json_ok (enc x)"
    and dec_enc: "ok x \<Longrightarrow> dec (sort_keys (enc x)) = Inr (norm x)"
begin

text \<open>What is written to a state file reads back.\<close>

lemma stored:
  "ok x \<Longrightarrow> loads (dumps (enc x) @ [CHR 0x0A]) = Some (sort_keys (enc x)) \<and>
    dec (sort_keys (enc x)) = Inr (norm x)"
  by (simp add: loads_dumps enc_ok dec_enc)

lemma sorted_inject: "ok x \<Longrightarrow> ok y \<Longrightarrow> sort_keys (enc x) = sort_keys (enc y) \<Longrightarrow> norm x = norm y"
  using dec_enc [of x] dec_enc [of y] by simp

text \<open>The canonical bytes determine the record.\<close>

lemma canonical_inject:
  "ok x \<Longrightarrow> ok y \<Longrightarrow> canonical_json (enc x) = canonical_json (enc y) \<Longrightarrow> norm x = norm y"
  by (blast intro: sorted_inject canonical_json_inject enc_ok)

lemma mapE_dec: "\<forall>x \<in> set xs. ok x \<Longrightarrow> mapE dec (map sort_keys (map enc xs)) = Inr (map norm xs)"
  by (induction xs) (simp_all add: dec_enc)

lemma list_ok: "\<forall>x \<in> set xs. ok x \<Longrightarrow> json_ok (JList (map enc xs))"
  by (simp add: list_all_iff enc_ok)

lemma list_inject:
  assumes "\<forall>x \<in> set xs. ok x" "\<forall>y \<in> set ys. ok y"
    and "map sort_keys (map enc xs) = map sort_keys (map enc ys)"
  shows "map norm xs = map norm ys"
proof -
  have "(Inr (map norm xs) :: 'a list result) = Inr (map norm ys)"
    using mapE_dec [OF assms(1)] mapE_dec [OF assms(2)] assms(3) by simp
  then show ?thesis by simp
qed

end

text \<open>An enumeration stored by value\<close>

locale enum_codec =
  fixes val :: "'a \<Rightarrow> string" and of_val :: "json \<Rightarrow> 'a result"
  assumes of_val_val: "of_val (JStr (val x)) = Inr x"
    and val_of_val: "of_val v = Inr x \<Longrightarrow> v = JStr (val x)"
begin

lemma val_inject: "val x = val y \<longleftrightarrow> x = y"
  using of_val_val by (metis Inr_inject)

lemma of_val_iff: "of_val v = Inr x \<longleftrightarrow> v = JStr (val x)"
  using of_val_val val_of_val by blast

end

sublocale enum_codec \<subseteq> json_codec "\<lambda>x. JStr (val x)" of_val "\<lambda>_. True" "\<lambda>x. x"
  by unfold_locales (simp_all add: of_val_val)

end
