(* ===== verification/Models.thy ===== *)
theory Models
  imports PyValue
begin

text \<open>
  The domain model of \<^verbatim>\<open>models.py\<close>: the enumerations as datatypes with their stored values,
  the data classes as records with the prefix of their class on every field, and for every
  class the methods \<^verbatim>\<open>to_dict\<close>, \<^verbatim>\<open>from_dict\<close>, \<^verbatim>\<open>core_dict\<close> and \<^verbatim>\<open>signing_dict\<close> it has. A
  Python dictionary inside a record is an association list in insertion order.
\<close>

subsection \<open>Enumerations\<close>

datatype decision = ALLOW | REQUIRE_APPROVAL | DENY
datatype transaction_state = TX_OPEN | TX_PLANNED | TX_COMMITTED | TX_DISCARDED
datatype plan_state = PLAN_PENDING | PLAN_COMMITTED | PLAN_INVALIDATED
datatype change_kind = ADD | MODIFY | DELETE | TYPE_CHANGE
datatype entry_kind = FILE | DIRECTORY | SYMLINK | SPECIAL

fun decision_value :: "decision \<Rightarrow> string" where
  "decision_value ALLOW = ''allow''"
| "decision_value REQUIRE_APPROVAL = ''require_approval''"
| "decision_value DENY = ''deny''"

fun transaction_state_value :: "transaction_state \<Rightarrow> string" where
  "transaction_state_value TX_OPEN = ''open''"
| "transaction_state_value TX_PLANNED = ''planned''"
| "transaction_state_value TX_COMMITTED = ''committed''"
| "transaction_state_value TX_DISCARDED = ''discarded''"

fun plan_state_value :: "plan_state \<Rightarrow> string" where
  "plan_state_value PLAN_PENDING = ''pending''"
| "plan_state_value PLAN_COMMITTED = ''committed''"
| "plan_state_value PLAN_INVALIDATED = ''invalidated''"

fun change_kind_value :: "change_kind \<Rightarrow> string" where
  "change_kind_value ADD = ''add''"
| "change_kind_value MODIFY = ''modify''"
| "change_kind_value DELETE = ''delete''"
| "change_kind_value TYPE_CHANGE = ''type_change''"

fun entry_kind_value :: "entry_kind \<Rightarrow> string" where
  "entry_kind_value FILE = ''file''"
| "entry_kind_value DIRECTORY = ''directory''"
| "entry_kind_value SYMLINK = ''symlink''"
| "entry_kind_value SPECIAL = ''special''"

text \<open>\<^verbatim>\<open>Enum(value)\<close>: the member with this value, or a \<^verbatim>\<open>ValueError\<close>\<close>

definition enum_of :: "('a \<Rightarrow> string) \<Rightarrow> 'a list \<Rightarrow> json \<Rightarrow> 'a result" where
  "enum_of val members v =
     (case find (\<lambda>m. v = JStr (val m)) members of
        None \<Rightarrow> Inl (PyError ''ValueError'') | Some m \<Rightarrow> Inr m)"

definition decision_of :: "json \<Rightarrow> decision result" where
  "decision_of = enum_of decision_value [ALLOW, REQUIRE_APPROVAL, DENY]"

definition transaction_state_of :: "json \<Rightarrow> transaction_state result" where
  "transaction_state_of = enum_of transaction_state_value [TX_OPEN, TX_PLANNED, TX_COMMITTED, TX_DISCARDED]"

definition plan_state_of :: "json \<Rightarrow> plan_state result" where
  "plan_state_of = enum_of plan_state_value [PLAN_PENDING, PLAN_COMMITTED, PLAN_INVALIDATED]"

definition change_kind_of :: "json \<Rightarrow> change_kind result" where
  "change_kind_of = enum_of change_kind_value [ADD, MODIFY, DELETE, TYPE_CHANGE]"

definition entry_kind_of :: "json \<Rightarrow> entry_kind result" where
  "entry_kind_of = enum_of entry_kind_value [FILE, DIRECTORY, SYMLINK, SPECIAL]"

lemma find_eq_Some_iff: "find P xs = Some x \<Longrightarrow> P x \<and> x \<in> set xs"
  by (induction xs) (auto split: if_splits)

lemma enum_codecI:
  assumes "\<And>m. m \<in> set members" "inj val"
  shows "enum_codec val (enum_of val members)"
proof
  fix x
  have "find (\<lambda>m. JStr (val x) = JStr (val m)) members = Some x"
  proof -
    have "find (\<lambda>m. JStr (val x) = JStr (val m)) members \<noteq> None"
      using assms(1) by (auto simp: find_None_iff)
    then show ?thesis using find_eq_Some_iff [of _ members] assms(2) by (auto simp: inj_eq)
  qed
  then show "enum_of val members (JStr (val x)) = Inr x" by (simp add: enum_of_def)
next
  fix v x
  assume "enum_of val members v = Inr x"
  then show "v = JStr (val x)"
    by (auto simp: enum_of_def dest: find_eq_Some_iff split: option.splits)
qed

interpretation decision_enum: enum_codec decision_value decision_of
  unfolding decision_of_def
proof (rule enum_codecI)
  show "m \<in> set [ALLOW, REQUIRE_APPROVAL, DENY]" for m by (cases m) auto
  show "inj decision_value" by (rule injI) (case_tac x; case_tac y; simp)
qed

interpretation transaction_state_enum: enum_codec transaction_state_value transaction_state_of
  unfolding transaction_state_of_def
proof (rule enum_codecI)
  show "m \<in> set [TX_OPEN, TX_PLANNED, TX_COMMITTED, TX_DISCARDED]" for m by (cases m) auto
  show "inj transaction_state_value" by (rule injI) (case_tac x; case_tac y; simp)
qed

interpretation plan_state_enum: enum_codec plan_state_value plan_state_of
  unfolding plan_state_of_def
proof (rule enum_codecI)
  show "m \<in> set [PLAN_PENDING, PLAN_COMMITTED, PLAN_INVALIDATED]" for m by (cases m) auto
  show "inj plan_state_value" by (rule injI) (case_tac x; case_tac y; simp)
qed

interpretation change_kind_enum: enum_codec change_kind_value change_kind_of
  unfolding change_kind_of_def
proof (rule enum_codecI)
  show "m \<in> set [ADD, MODIFY, DELETE, TYPE_CHANGE]" for m by (cases m) auto
  show "inj change_kind_value" by (rule injI) (case_tac x; case_tac y; simp)
qed

interpretation entry_kind_enum: enum_codec entry_kind_value entry_kind_of
  unfolding entry_kind_of_def
proof (rule enum_codecI)
  show "m \<in> set [FILE, DIRECTORY, SYMLINK, SPECIAL]" for m by (cases m) auto
  show "inj entry_kind_value" by (rule injI) (case_tac x; case_tac y; simp)
qed

lemmas enum_simps [simp] =
  decision_enum.of_val_val transaction_state_enum.of_val_val plan_state_enum.of_val_val
  change_kind_enum.of_val_val entry_kind_enum.of_val_val

subsection \<open>Manifest entries and manifests\<close>

record manifest_entry =
  e_path :: string
  e_kind :: entry_kind
  e_mode :: int
  e_size :: int
  e_digest :: string
  e_link :: "string option"

definition entry_to_dict :: "manifest_entry \<Rightarrow> json" where
  "entry_to_dict e = JObj
     [(''path'', JStr (e_path e)),
      (''kind'', JStr (entry_kind_value (e_kind e))),
      (''mode'', JInt (e_mode e)),
      (''size'', JInt (e_size e)),
      (''digest'', JStr (e_digest e)),
      (''link_target'', of_opt_str (e_link e))]"

definition entry_from_dict :: "json \<Rightarrow> manifest_entry result" where
  "entry_from_dict d =
     bindE (fstr ''path'' d) (\<lambda>path.
     bindE (bindE (field ''kind'' d) entry_kind_of) (\<lambda>kind.
     bindE (fint ''mode'' d) (\<lambda>mode.
     bindE (fint ''size'' d) (\<lambda>size.
     bindE (fstr ''digest'' d) (\<lambda>digest.
     bindE (bindE (field_get ''link_target'' d) opt_str) (\<lambda>link.
     Inr \<lparr>e_path = path, e_kind = kind, e_mode = mode, e_size = size, e_digest = digest,
          e_link = link\<rparr>))))))"

record tree_manifest =
  m_root :: string
  m_entries :: "(string \<times> manifest_entry) list"
  m_digest :: string
  m_total_files :: int
  m_total_bytes :: int

definition manifest_to_dict :: "tree_manifest \<Rightarrow> json" where
  "manifest_to_dict m = JObj
     [(''root'', JStr (m_root m)),
      (''entries'', JObj (map (map_prod id entry_to_dict) (m_entries m))),
      (''digest'', JStr (m_digest m)),
      (''total_files'', JInt (m_total_files m)),
      (''total_bytes'', JInt (m_total_bytes m))]"

definition manifest_from_dict :: "json \<Rightarrow> tree_manifest result" where
  "manifest_from_dict d =
     bindE (fstr ''root'' d) (\<lambda>root.
     bindE (bindE (bindE (field ''entries'' d) py_items)
       (mapE (\<lambda>(k, v). bindE (entry_from_dict v) (\<lambda>e. Inr (k, e))))) (\<lambda>entries.
     bindE (fstr ''digest'' d) (\<lambda>digest.
     bindE (fint ''total_files'' d) (\<lambda>total_files.
     bindE (fint ''total_bytes'' d) (\<lambda>total_bytes.
     Inr \<lparr>m_root = root, m_entries = entries, m_digest = digest, m_total_files = total_files,
          m_total_bytes = total_bytes\<rparr>)))))"

text \<open>A manifest whose entry dictionary is ordered by key\<close>

definition sort_entries :: "tree_manifest \<Rightarrow> tree_manifest" where
  "sort_entries m = m\<lparr>m_entries := sort_key fst (m_entries m)\<rparr>"

text \<open>Evaluation of the readers on a dictionary just written\<close>

lemmas reader_simps = fstr_def fint_def field_sorted field_get_sorted

interpretation entry_codec: json_codec entry_to_dict entry_from_dict "\<lambda>_. True" "\<lambda>x. x"
proof
  fix x :: manifest_entry
  show "json_ok (entry_to_dict x)" by (simp add: entry_to_dict_def)
  show "entry_from_dict (sort_keys (entry_to_dict x)) = Inr x"
    by (simp del: sort_keys.simps(7) add: entry_to_dict_def entry_from_dict_def reader_simps)
qed

lemma sort_key_map_prod: "sort_key fst (map (map_prod id f) kvs) = map (map_prod id f) (sort_key fst kvs)"
proof (rule properties_for_sort_key)
  show "mset (map (map_prod id f) (sort_key fst kvs)) = mset (map (map_prod id f) kvs)" by simp
  show "sorted (map fst (map (map_prod id f) (sort_key fst kvs)))" by (simp add: comp_def)
  fix k assume "k \<in> set (map (map_prod id f) (sort_key fst kvs))"
  show "filter (\<lambda>x. fst k = fst x) (map (map_prod id f) (sort_key fst kvs)) =
      filter (\<lambda>x. fst k = fst x) (map (map_prod id f) kvs)"
    by (simp add: filter_map comp_def eq_commute [of "fst k"] sort_key_stable)
qed

interpretation manifest_codec: json_codec manifest_to_dict manifest_from_dict
  "\<lambda>m. distinct (map fst (m_entries m))" sort_entries
proof
  fix x :: tree_manifest
  assume d: "distinct (map fst (m_entries x))"
  show "json_ok (manifest_to_dict x)"
    using d by (auto simp: manifest_to_dict_def list_all_iff comp_def entry_codec.enc_ok)
  have "mapE (\<lambda>(k, v). bindE (entry_from_dict v) (\<lambda>e. Inr (k, e)))
      (map (map_prod id sort_keys) (map (map_prod id entry_to_dict) kvs)) = Inr kvs"
    for kvs :: "(string \<times> manifest_entry) list"
    by (induction kvs) (auto simp: entry_codec.dec_enc)
  then have "mapE (\<lambda>(k, v). bindE (entry_from_dict v) (\<lambda>e. Inr (k, e)))
      (sort_key fst (map (map_prod id sort_keys) (map (map_prod id entry_to_dict) (m_entries x))))
      = Inr (sort_key fst (m_entries x))"
    by (simp only: sort_key_map_prod)
  then show "manifest_from_dict (sort_keys (manifest_to_dict x)) = Inr (sort_entries x)"
    by (simp del: map_map sort_keys.simps(7) add: manifest_to_dict_def manifest_from_dict_def reader_simps)
      (simp del: map_map add: sort_entries_def)
qed

subsection \<open>Changes and findings\<close>

record change =
  c_path :: string
  c_kind :: change_kind
  c_before :: "manifest_entry option"
  c_after :: "manifest_entry option"

definition opt_entry_to_dict :: "manifest_entry option \<Rightarrow> json" where
  "opt_entry_to_dict x = (case x of None \<Rightarrow> JNull | Some e \<Rightarrow> entry_to_dict e)"

text \<open>\<^verbatim>\<open>ManifestEntry.from_dict(data[k]) if data.get(k) else None\<close>\<close>

definition opt_entry_from_dict :: "string \<Rightarrow> json \<Rightarrow> manifest_entry option result" where
  "opt_entry_from_dict k d =
     bindE (field_get k d) (\<lambda>v.
       if py_truthy v then bindE (entry_from_dict v) (\<lambda>e. Inr (Some e)) else Inr None)"

definition change_to_dict :: "change \<Rightarrow> json" where
  "change_to_dict c = JObj
     [(''path'', JStr (c_path c)),
      (''kind'', JStr (change_kind_value (c_kind c))),
      (''before'', opt_entry_to_dict (c_before c)),
      (''after'', opt_entry_to_dict (c_after c))]"

definition change_from_dict :: "json \<Rightarrow> change result" where
  "change_from_dict d =
     bindE (fstr ''path'' d) (\<lambda>path.
     bindE (bindE (field ''kind'' d) change_kind_of) (\<lambda>kind.
     bindE (opt_entry_from_dict ''before'' d) (\<lambda>earlier.
     bindE (opt_entry_from_dict ''after'' d) (\<lambda>after.
     Inr \<lparr>c_path = path, c_kind = kind, c_before = earlier, c_after = after\<rparr>))))"

record finding =
  f_code :: string
  f_severity :: string
  f_message :: string
  f_path :: "string option"

definition finding_to_dict :: "finding \<Rightarrow> json" where
  "finding_to_dict f = JObj
     [(''code'', JStr (f_code f)),
      (''severity'', JStr (f_severity f)),
      (''message'', JStr (f_message f)),
      (''path'', of_opt_str (f_path f))]"

definition finding_from_dict :: "json \<Rightarrow> finding result" where
  "finding_from_dict d =
     bindE (fstr ''code'' d) (\<lambda>code.
     bindE (fstr ''severity'' d) (\<lambda>severity.
     bindE (fstr ''message'' d) (\<lambda>message.
     bindE (bindE (field_get ''path'' d) opt_str) (\<lambda>path.
     Inr \<lparr>f_code = code, f_severity = severity, f_message = message, f_path = path\<rparr>))))"

lemma py_truthy_obj: "kvs \<noteq> [] \<Longrightarrow> py_truthy (sort_keys (JObj kvs))"
  by (simp add: py_truthy_def) (metis length_0_conv length_map length_sort)

lemma sort_keys_truthy [simp]: "py_truthy (sort_keys (entry_to_dict e))"
  by (simp del: sort_keys.simps(7) add: entry_to_dict_def py_truthy_obj)

lemma opt_entry_sorted:
  assumes "distinct (map fst kvs)" "map_of kvs k = Some (opt_entry_to_dict x)"
  shows "opt_entry_from_dict k (sort_keys (JObj kvs)) = Inr x"
  using assms
  by (cases x) (simp_all del: sort_keys.simps(7)
      add: opt_entry_from_dict_def field_get_sorted opt_entry_to_dict_def entry_codec.dec_enc,
      simp add: py_truthy_def)

interpretation change_codec: json_codec change_to_dict change_from_dict "\<lambda>_. True" "\<lambda>x. x"
proof
  fix x :: change
  show "json_ok (change_to_dict x)"
    by (simp add: change_to_dict_def opt_entry_to_dict_def entry_codec.enc_ok split: option.splits)
  show "change_from_dict (sort_keys (change_to_dict x)) = Inr x"
    by (simp del: sort_keys.simps(7)
        add: change_to_dict_def change_from_dict_def reader_simps opt_entry_sorted)
qed

interpretation finding_codec: json_codec finding_to_dict finding_from_dict "\<lambda>_. True" "\<lambda>x. x"
proof
  fix x :: finding
  show "json_ok (finding_to_dict x)" by (simp add: finding_to_dict_def)
  show "finding_from_dict (sort_keys (finding_to_dict x)) = Inr x"
    by (simp del: sort_keys.simps(7) add: finding_to_dict_def finding_from_dict_def reader_simps)
qed

subsection \<open>Transactions\<close>

record transaction =
  t_id :: string
  t_task_id :: string
  t_workspace_root :: string
  t_transaction_root :: string
  t_worktree_root :: string
  t_home_root :: string
  t_temp_root :: string
  t_baseline_path :: string
  t_baseline_digest :: string
  t_created_at :: int
  t_workspace_device :: int
  t_state :: transaction_state
  t_signature :: string

definition transaction_core :: "transaction \<Rightarrow> (string \<times> json) list" where
  "transaction_core t =
     [(''transaction_id'', JStr (t_id t)),
      (''task_id'', JStr (t_task_id t)),
      (''workspace_root'', JStr (t_workspace_root t)),
      (''transaction_root'', JStr (t_transaction_root t)),
      (''worktree_root'', JStr (t_worktree_root t)),
      (''home_root'', JStr (t_home_root t)),
      (''temp_root'', JStr (t_temp_root t)),
      (''baseline_path'', JStr (t_baseline_path t)),
      (''baseline_digest'', JStr (t_baseline_digest t)),
      (''created_at'', JInt (t_created_at t)),
      (''workspace_device'', JInt (t_workspace_device t))]"

definition transaction_signing_dict :: "transaction \<Rightarrow> json" where
  "transaction_signing_dict t =
     JObj (transaction_core t @ [(''state'', JStr (transaction_state_value (t_state t)))])"

definition transaction_to_dict :: "transaction \<Rightarrow> json" where
  "transaction_to_dict t =
     JObj (transaction_core t @ [(''state'', JStr (transaction_state_value (t_state t))),
       (''signature'', JStr (t_signature t))])"

definition transaction_from_dict :: "json \<Rightarrow> transaction result" where
  "transaction_from_dict d =
     bindE (fstr ''transaction_id'' d) (\<lambda>transaction_id.
     bindE (fstr ''task_id'' d) (\<lambda>task_id.
     bindE (fstr ''workspace_root'' d) (\<lambda>workspace_root.
     bindE (fstr ''transaction_root'' d) (\<lambda>transaction_root.
     bindE (fstr ''worktree_root'' d) (\<lambda>worktree_root.
     bindE (fstr ''home_root'' d) (\<lambda>home_root.
     bindE (fstr ''temp_root'' d) (\<lambda>temp_root.
     bindE (fstr ''baseline_path'' d) (\<lambda>baseline_path.
     bindE (fstr ''baseline_digest'' d) (\<lambda>baseline_digest.
     bindE (fint ''created_at'' d) (\<lambda>created_at.
     bindE (fint ''workspace_device'' d) (\<lambda>workspace_device.
     bindE (bindE (field ''state'' d) transaction_state_of) (\<lambda>state.
     bindE (fstr ''signature'' d) (\<lambda>signature.
     Inr \<lparr>t_id = transaction_id, t_task_id = task_id, t_workspace_root = workspace_root,
          t_transaction_root = transaction_root, t_worktree_root = worktree_root,
          t_home_root = home_root, t_temp_root = temp_root, t_baseline_path = baseline_path,
          t_baseline_digest = baseline_digest, t_created_at = created_at,
          t_workspace_device = workspace_device, t_state = state, t_signature = signature\<rparr>)))))))))))))"

interpretation transaction_codec: json_codec transaction_to_dict transaction_from_dict "\<lambda>_. True" "\<lambda>x. x"
proof
  fix x :: transaction
  show "json_ok (transaction_to_dict x)" by (simp add: transaction_to_dict_def transaction_core_def)
  show "transaction_from_dict (sort_keys (transaction_to_dict x)) = Inr x"
    by (simp del: sort_keys.simps(7)
        add: transaction_to_dict_def transaction_core_def transaction_from_dict_def reader_simps)
qed

subsection \<open>Commit plans\<close>

record commit_plan =
  p_protocol_version :: int
  p_id :: string
  p_transaction_id :: string
  p_task_id :: string
  p_workspace_root :: string
  p_baseline_digest :: string
  p_staged_digest :: string
  p_policy_digest :: string
  p_changes :: "change list"
  p_findings :: "finding list"
  p_decision :: decision
  p_fingerprint :: string
  p_created_at :: int
  p_expires_at :: int
  p_signature :: string
  p_state :: plan_state
  p_summary :: "(string \<times> int) list"

definition plan_core :: "commit_plan \<Rightarrow> (string \<times> json) list" where
  "plan_core p =
     [(''protocol_version'', JInt (p_protocol_version p)),
      (''plan_id'', JStr (p_id p)),
      (''transaction_id'', JStr (p_transaction_id p)),
      (''task_id'', JStr (p_task_id p)),
      (''workspace_root'', JStr (p_workspace_root p)),
      (''baseline_digest'', JStr (p_baseline_digest p)),
      (''staged_digest'', JStr (p_staged_digest p)),
      (''policy_digest'', JStr (p_policy_digest p)),
      (''changes'', JList (map change_to_dict (p_changes p))),
      (''findings'', JList (map finding_to_dict (p_findings p))),
      (''decision'', JStr (decision_value (p_decision p))),
      (''created_at'', JInt (p_created_at p)),
      (''expires_at'', JInt (p_expires_at p)),
      (''summary'', JObj (map (map_prod id JInt) (p_summary p)))]"

definition plan_signing_dict :: "commit_plan \<Rightarrow> json" where
  "plan_signing_dict p = JObj
     [(''fingerprint'', JStr (p_fingerprint p)),
      (''state'', JStr (plan_state_value (p_state p))),
      (''core'', JObj (plan_core p))]"

definition plan_to_dict :: "commit_plan \<Rightarrow> json" where
  "plan_to_dict p = JObj (plan_core p @
     [(''fingerprint'', JStr (p_fingerprint p)),
      (''signature'', JStr (p_signature p)),
      (''state'', JStr (plan_state_value (p_state p)))])"

definition plan_from_dict :: "json \<Rightarrow> commit_plan result" where
  "plan_from_dict d =
     bindE (fint ''protocol_version'' d) (\<lambda>protocol_version.
     bindE (fstr ''plan_id'' d) (\<lambda>plan_id.
     bindE (fstr ''transaction_id'' d) (\<lambda>transaction_id.
     bindE (fstr ''task_id'' d) (\<lambda>task_id.
     bindE (fstr ''workspace_root'' d) (\<lambda>workspace_root.
     bindE (fstr ''baseline_digest'' d) (\<lambda>baseline_digest.
     bindE (fstr ''staged_digest'' d) (\<lambda>staged_digest.
     bindE (fstr ''policy_digest'' d) (\<lambda>policy_digest.
     bindE (bindE (bindE (field ''changes'' d) py_list) (mapE change_from_dict)) (\<lambda>changes.
     bindE (bindE (bindE (field ''findings'' d) py_list) (mapE finding_from_dict)) (\<lambda>findings.
     bindE (bindE (field ''decision'' d) decision_of) (\<lambda>decision.
     bindE (fstr ''fingerprint'' d) (\<lambda>fingerprint.
     bindE (fint ''created_at'' d) (\<lambda>created_at.
     bindE (fint ''expires_at'' d) (\<lambda>expires_at.
     bindE (fstr ''signature'' d) (\<lambda>signature.
     bindE (bindE (field ''state'' d) plan_state_of) (\<lambda>state.
     bindE (bindE (case d of
         JObj kvs \<Rightarrow> (case map_of kvs ''summary'' of None \<Rightarrow> Inr [] | Some v \<Rightarrow> py_items v)
       | _ \<Rightarrow> Inl (PyError ''AttributeError''))
       (mapE (\<lambda>(k, v). bindE (py_int v) (\<lambda>i. Inr (k, i))))) (\<lambda>summary.
     Inr \<lparr>p_protocol_version = protocol_version, p_id = plan_id, p_transaction_id = transaction_id,
          p_task_id = task_id, p_workspace_root = workspace_root, p_baseline_digest = baseline_digest,
          p_staged_digest = staged_digest, p_policy_digest = policy_digest, p_changes = changes,
          p_findings = findings, p_decision = decision, p_fingerprint = fingerprint,
          p_created_at = created_at, p_expires_at = expires_at, p_signature = signature,
          p_state = state, p_summary = summary\<rparr>)))))))))))))))))"

definition plan_norm :: "commit_plan \<Rightarrow> commit_plan" where
  "plan_norm p = p\<lparr>p_summary := sort_key fst (p_summary p)\<rparr>"

lemma summary_reader:
  "mapE (\<lambda>(k, v). bindE (py_int v) (\<lambda>i. Inr (k, i)))
    (sort_key fst (map (map_prod id sort_keys) (map (map_prod id JInt) kvs))) = Inr (sort_key fst kvs)"
  for kvs :: "(string \<times> int) list"
proof -
  have r: "mapE (\<lambda>(k, v). bindE (py_int v) (\<lambda>i. Inr (k, i)))
      (map (map_prod id sort_keys) (map (map_prod id JInt) kvs)) = Inr kvs"
    for kvs :: "(string \<times> int) list"
    by (induction kvs) auto
  show ?thesis by (simp only: sort_key_map_prod r)
qed

interpretation plan_codec: json_codec plan_to_dict plan_from_dict
  "\<lambda>p. distinct (map fst (p_summary p))" plan_norm
proof
  fix x :: commit_plan
  assume d: "distinct (map fst (p_summary x))"
  show "json_ok (plan_to_dict x)"
    using d by (auto simp: plan_to_dict_def plan_core_def list_all_iff comp_def
        change_codec.enc_ok finding_codec.enc_ok)
  let ?kvs = "plan_core x @ [(''fingerprint'', JStr (p_fingerprint x)),
      (''signature'', JStr (p_signature x)), (''state'', JStr (plan_state_value (p_state x)))]"
  have k: "distinct (map fst ?kvs)" by (simp add: plan_core_def)
  have s: "map_of (sort_key fst (map (map_prod id sort_keys) ?kvs)) ''summary''
      = Some (sort_keys (JObj (map (map_prod id JInt) (p_summary x))))"
    by (simp only: map_of_sorted_keys [OF k]) (simp add: plan_core_def)
  have sorted: "(case sort_keys (JObj ?kvs) of
         JObj kvs \<Rightarrow> (case map_of kvs ''summary'' of None \<Rightarrow> Inr [] | Some v \<Rightarrow> py_items v)
       | _ \<Rightarrow> Inl (PyError ''AttributeError'')) =
      Inr (sort_key fst (map (map_prod id sort_keys) (map (map_prod id JInt) (p_summary x))))"
    by (simp only: sort_keys.simps(7) json.case s option.case) simp
  show "plan_from_dict (sort_keys (plan_to_dict x)) = Inr (plan_norm x)"
    unfolding plan_from_dict_def plan_to_dict_def sorted
    by (simp only: summary_reader result_simps)
      (simp del: sort_keys.simps(7) map_map add: plan_core_def reader_simps,
       simp del: map_map add: change_codec.mapE_dec finding_codec.mapE_dec plan_norm_def)
qed

subsection \<open>Approval tokens\<close>

record approval_token =
  a_token_id :: string
  a_plan_id :: string
  a_plan_fingerprint :: string
  a_actor :: string
  a_created_at :: int
  a_expires_at :: int
  a_signature :: string

definition token_core :: "approval_token \<Rightarrow> (string \<times> json) list" where
  "token_core a =
     [(''token_id'', JStr (a_token_id a)),
      (''plan_id'', JStr (a_plan_id a)),
      (''plan_fingerprint'', JStr (a_plan_fingerprint a)),
      (''actor'', JStr (a_actor a)),
      (''created_at'', JInt (a_created_at a)),
      (''expires_at'', JInt (a_expires_at a))]"

definition token_to_dict :: "approval_token \<Rightarrow> json" where
  "token_to_dict a = JObj (token_core a @ [(''signature'', JStr (a_signature a))])"

definition token_from_dict :: "json \<Rightarrow> approval_token result" where
  "token_from_dict d =
     bindE (fstr ''token_id'' d) (\<lambda>token_id.
     bindE (fstr ''plan_id'' d) (\<lambda>plan_id.
     bindE (fstr ''plan_fingerprint'' d) (\<lambda>plan_fingerprint.
     bindE (fstr ''actor'' d) (\<lambda>actor.
     bindE (fint ''created_at'' d) (\<lambda>created_at.
     bindE (fint ''expires_at'' d) (\<lambda>expires_at.
     bindE (fstr ''signature'' d) (\<lambda>signature.
     Inr \<lparr>a_token_id = token_id, a_plan_id = plan_id, a_plan_fingerprint = plan_fingerprint,
          a_actor = actor, a_created_at = created_at, a_expires_at = expires_at,
          a_signature = signature\<rparr>)))))))"

interpretation token_codec: json_codec token_to_dict token_from_dict "\<lambda>_. True" "\<lambda>x. x"
proof
  fix x :: approval_token
  show "json_ok (token_to_dict x)" by (simp add: token_to_dict_def token_core_def)
  show "token_from_dict (sort_keys (token_to_dict x)) = Inr x"
    by (simp del: sort_keys.simps(7) add: token_to_dict_def token_core_def token_from_dict_def reader_simps)
qed

subsection \<open>Commit operations and commit records\<close>

record commit_operation =
  o_path :: string
  o_change_kind :: change_kind
  o_before_kind :: "entry_kind option"
  o_after_kind :: "entry_kind option"
  o_backup_path :: "string option"
  o_installed :: bool
  o_backup_moved :: bool
  o_phase :: string

definition opt_kind_to_dict :: "entry_kind option \<Rightarrow> json" where
  "opt_kind_to_dict x = (case x of None \<Rightarrow> JNull | Some k \<Rightarrow> JStr (entry_kind_value k))"

definition opt_kind_from_dict :: "string \<Rightarrow> json \<Rightarrow> entry_kind option result" where
  "opt_kind_from_dict k d =
     bindE (field_get k d) (\<lambda>v.
       if py_truthy v then bindE (entry_kind_of v) (\<lambda>e. Inr (Some e)) else Inr None)"

definition operation_to_dict :: "commit_operation \<Rightarrow> json" where
  "operation_to_dict q = JObj
     [(''path'', JStr (o_path q)),
      (''change_kind'', JStr (change_kind_value (o_change_kind q))),
      (''before_kind'', opt_kind_to_dict (o_before_kind q)),
      (''after_kind'', opt_kind_to_dict (o_after_kind q)),
      (''backup_path'', of_opt_str (o_backup_path q)),
      (''installed'', JBool (o_installed q)),
      (''backup_moved'', JBool (o_backup_moved q)),
      (''phase'', JStr (o_phase q))]"

text \<open>\<^verbatim>\<open>data.get("phase", "pending")\<close>\<close>

definition field_default :: "string \<Rightarrow> json \<Rightarrow> json \<Rightarrow> json result" where
  "field_default k x d =
     (case d of
        JObj kvs \<Rightarrow> (case map_of kvs k of None \<Rightarrow> Inr x | Some v \<Rightarrow> Inr v)
      | _ \<Rightarrow> Inl (PyError ''AttributeError''))"

definition operation_from_dict :: "json \<Rightarrow> commit_operation result" where
  "operation_from_dict d =
     bindE (fstr ''path'' d) (\<lambda>path.
     bindE (bindE (field ''change_kind'' d) change_kind_of) (\<lambda>change_kind.
     bindE (opt_kind_from_dict ''before_kind'' d) (\<lambda>before_kind.
     bindE (opt_kind_from_dict ''after_kind'' d) (\<lambda>after_kind.
     bindE (bindE (field_get ''backup_path'' d) opt_str) (\<lambda>backup_path.
     bindE (field_default ''installed'' (JBool False) d) (\<lambda>installed.
     bindE (field_default ''backup_moved'' (JBool False) d) (\<lambda>backup_moved.
     bindE (field_default ''phase'' (JStr ''pending'') d) (\<lambda>phase.
     Inr \<lparr>o_path = path, o_change_kind = change_kind, o_before_kind = before_kind,
          o_after_kind = after_kind, o_backup_path = backup_path,
          o_installed = py_truthy installed, o_backup_moved = py_truthy backup_moved,
          o_phase = py_str phase\<rparr>))))))))"

lemma field_default_sorted:
  "distinct (map fst kvs) \<Longrightarrow> field_default k x (sort_keys (JObj kvs)) =
    (case map_of kvs k of None \<Rightarrow> Inr x | Some v \<Rightarrow> Inr (sort_keys v))"
  by (simp add: field_default_def map_of_sorted_keys split: option.splits)

lemma entry_kind_value_truthy: "py_truthy (JStr (entry_kind_value k))"
  by (cases k) (simp_all add: py_truthy_def)

lemma opt_kind_sorted:
  assumes "distinct (map fst kvs)" "map_of kvs k = Some (opt_kind_to_dict x)"
  shows "opt_kind_from_dict k (sort_keys (JObj kvs)) = Inr x"
  using assms entry_kind_value_truthy
  by (cases x) (simp_all del: sort_keys.simps(7)
      add: opt_kind_from_dict_def field_get_sorted opt_kind_to_dict_def, simp add: py_truthy_def)

interpretation operation_codec: json_codec operation_to_dict operation_from_dict "\<lambda>_. True" "\<lambda>x. x"
proof
  fix x :: commit_operation
  show "json_ok (operation_to_dict x)"
    by (simp add: operation_to_dict_def opt_kind_to_dict_def split: option.splits)
  show "operation_from_dict (sort_keys (operation_to_dict x)) = Inr x"
    by (simp del: sort_keys.simps(7) add: operation_to_dict_def operation_from_dict_def reader_simps
        field_default_sorted opt_kind_sorted, simp add: py_truthy_def)
qed

record commit_record =
  r_commit_id :: string
  r_plan_id :: string
  r_transaction_id :: string
  r_workspace_root :: string
  r_quarantine_root :: string
  r_apply_root :: string
  r_operations :: "commit_operation list"
  r_before_digest :: string
  r_after_digest :: string
  r_created_at :: int
  r_status :: string
  r_signature :: string

definition record_core :: "commit_record \<Rightarrow> (string \<times> json) list" where
  "record_core r =
     [(''commit_id'', JStr (r_commit_id r)),
      (''plan_id'', JStr (r_plan_id r)),
      (''transaction_id'', JStr (r_transaction_id r)),
      (''workspace_root'', JStr (r_workspace_root r)),
      (''quarantine_root'', JStr (r_quarantine_root r)),
      (''apply_root'', JStr (r_apply_root r)),
      (''operations'', JList (map operation_to_dict (r_operations r))),
      (''before_digest'', JStr (r_before_digest r)),
      (''after_digest'', JStr (r_after_digest r)),
      (''created_at'', JInt (r_created_at r)),
      (''status'', JStr (r_status r))]"

definition record_to_dict :: "commit_record \<Rightarrow> json" where
  "record_to_dict r = JObj (record_core r @ [(''signature'', JStr (r_signature r))])"

definition record_from_dict :: "json \<Rightarrow> commit_record result" where
  "record_from_dict d =
     bindE (fstr ''commit_id'' d) (\<lambda>commit_id.
     bindE (fstr ''plan_id'' d) (\<lambda>plan_id.
     bindE (fstr ''transaction_id'' d) (\<lambda>transaction_id.
     bindE (fstr ''workspace_root'' d) (\<lambda>workspace_root.
     bindE (fstr ''quarantine_root'' d) (\<lambda>quarantine_root.
     bindE (fstr ''apply_root'' d) (\<lambda>apply_root.
     bindE (bindE (bindE (field ''operations'' d) py_list) (mapE operation_from_dict)) (\<lambda>operations.
     bindE (fstr ''before_digest'' d) (\<lambda>before_digest.
     bindE (fstr ''after_digest'' d) (\<lambda>after_digest.
     bindE (fint ''created_at'' d) (\<lambda>created_at.
     bindE (fstr ''status'' d) (\<lambda>status.
     bindE (field_default ''signature'' (JStr '''') d) (\<lambda>signature.
     Inr \<lparr>r_commit_id = commit_id, r_plan_id = plan_id, r_transaction_id = transaction_id,
          r_workspace_root = workspace_root, r_quarantine_root = quarantine_root,
          r_apply_root = apply_root, r_operations = operations, r_before_digest = before_digest,
          r_after_digest = after_digest, r_created_at = created_at, r_status = status,
          r_signature = py_str signature\<rparr>))))))))))))"

interpretation record_codec: json_codec record_to_dict record_from_dict "\<lambda>_. True" "\<lambda>x. x"
proof
  fix x :: commit_record
  show "json_ok (record_to_dict x)"
    by (simp add: record_to_dict_def record_core_def list_all_iff operation_codec.enc_ok)
  show "record_from_dict (sort_keys (record_to_dict x)) = Inr x"
    by (simp del: sort_keys.simps(7) map_map add: record_to_dict_def record_core_def record_from_dict_def
        reader_simps field_default_sorted, simp del: map_map add: operation_codec.mapE_dec)
qed

subsection \<open>Command inspections\<close>

record command_inspection =
  i_decision :: decision
  i_findings :: "finding list"
  i_shell :: string
  i_command_sha256 :: string
  i_command_length :: int
  i_boundary_note :: string

definition inspection_to_dict :: "command_inspection \<Rightarrow> json" where
  "inspection_to_dict i = JObj
     [(''decision'', JStr (decision_value (i_decision i))),
      (''findings'', JList (map finding_to_dict (i_findings i))),
      (''shell'', JStr (i_shell i)),
      (''command_sha256'', JStr (i_command_sha256 i)),
      (''command_length'', JInt (i_command_length i)),
      (''boundary_note'', JStr (i_boundary_note i))]"

end
