(* ===== verification/ModelFacts.thy ===== *)
theory ModelFacts
  imports Models
begin

text \<open>
  Storage and signing of the domain records. Storage: what \<^verbatim>\<open>atomic_write_json\<close> writes for a
  record, \<^verbatim>\<open>read_json\<close> and \<^verbatim>\<open>from_dict\<close> read back. Signing: the canonical bytes of the
  dictionary that is signed or fingerprinted determine every field in it, so two records
  with the same signed bytes differ at most in the fields left out of it.
\<close>

subsection \<open>Objects equal up to the order of keys\<close>

lemma distinct_fst_sort_key: "distinct (map fst (sort_key fst xs)) \<longleftrightarrow> distinct (map fst xs)"
  for xs :: "('a::linorder \<times> 'b) list"
  by (rule mset_eq_imp_distinct_iff) simp

lemma sorted_keys_strict:
  fixes kvs :: "(string \<times> 'a) list"
  assumes "distinct (map fst kvs)"
  shows "sorted_wrt (<) (map fst (sort_key fst (map (map_prod id f) kvs)))"
proof -
  have "distinct (map fst (map (map_prod id f) kvs))" using assms by (simp add: comp_def)
  then show ?thesis by (simp del: map_map add: strict_sorted_iff distinct_fst_sort_key)
qed

lemma sort_keys_obj_eqI:
  assumes "distinct (map fst a)" "distinct (map fst b)"
    and "\<And>k. map_option sort_keys (map_of a k) = map_option sort_keys (map_of b k)"
  shows "sort_keys (JObj a) = sort_keys (JObj b)"
  using assms by (auto simp del: map_map intro!: strict_sorted_alist_eqI sorted_keys_strict
      simp: map_of_sorted_keys fun_eq_iff)

lemma sort_keys_append_cong:
  assumes "sort_keys (JObj a) = sort_keys (JObj b)"
    and "distinct (map fst (a @ c))" "distinct (map fst (b @ c))"
  shows "sort_keys (JObj (a @ c)) = sort_keys (JObj (b @ c))"
proof (rule sort_keys_obj_eqI)
  fix k
  have "map_option sort_keys (map_of a k) = map_option sort_keys (map_of b k)"
    using assms by (intro sort_keys_obj_eqD) auto
  then show "map_option sort_keys (map_of (a @ c) k) = map_option sort_keys (map_of (b @ c) k)"
    by (cases "map_of a k"; cases "map_of b k") (simp_all add: map_add_def)
qed (use assms in auto)

lemma canonical_obj_inject:
  assumes "json_ok (JObj a)" "json_ok (JObj b)" "canonical_json (JObj a) = canonical_json (JObj b)"
  shows "sort_keys (JObj a) = sort_keys (JObj b)"
  using assms by (rule canonical_json_inject)

lemma canonical_obj_member:
  assumes "json_ok (JObj a)" "json_ok (JObj b)" "canonical_json (JObj a) = canonical_json (JObj b)"
  shows "map_option sort_keys (map_of a k) = map_option sort_keys (map_of b k)"
  using assms canonical_obj_inject [OF assms] by (intro sort_keys_obj_eqD) auto

subsection \<open>Well-formed dictionaries\<close>

abbreviation plan_ok :: "commit_plan \<Rightarrow> bool" where
  "plan_ok p \<equiv> distinct (map fst (p_summary p))"

lemma core_ok [simp]:
  "json_ok (JObj (transaction_core t))"
  "json_ok (JObj (token_core a))"
  "json_ok (JObj (record_core r))"
  "plan_ok p \<Longrightarrow> json_ok (JObj (plan_core p))"
  "json_ok (transaction_signing_dict t)"
  by (auto simp: transaction_core_def token_core_def record_core_def plan_core_def comp_def
      transaction_signing_dict_def list_all_iff operation_codec.enc_ok change_codec.enc_ok finding_codec.enc_ok)

lemma plan_signing_ok [simp]: "plan_ok p \<Longrightarrow> json_ok (plan_signing_dict p)"
  using core_ok(4) [of p] by (simp add: plan_signing_dict_def)

subsection \<open>What the signed bytes determine\<close>

text \<open>
  Give the second record the unsigned fields of the first: then it is the first.
\<close>

lemma plan_core_determines:
  assumes "plan_ok p" "plan_ok q"
    and "canonical_json (JObj (plan_core p)) = canonical_json (JObj (plan_core q))"
  shows "plan_norm (q\<lparr>p_fingerprint := p_fingerprint p, p_signature := p_signature p, p_state := p_state p\<rparr>)
    = plan_norm p"
proof -
  let ?q = "q\<lparr>p_fingerprint := p_fingerprint p, p_signature := p_signature p, p_state := p_state p\<rparr>"
  have core: "plan_core ?q = plan_core q" by (simp add: plan_core_def)
  have "sort_keys (JObj (plan_core p)) = sort_keys (JObj (plan_core ?q))"
    unfolding core using assms by (intro canonical_obj_inject) (simp_all only: core_ok)
  then have "sort_keys (plan_to_dict p) = sort_keys (plan_to_dict ?q)"
    unfolding plan_to_dict_def by (auto intro: sort_keys_append_cong simp: plan_core_def)
  then show ?thesis using assms plan_codec.sorted_inject [of p ?q] by simp
qed

lemma plan_signing_determines:
  assumes "plan_ok p" "plan_ok q"
    and "canonical_json (plan_signing_dict p) = canonical_json (plan_signing_dict q)"
  shows "plan_norm (q\<lparr>p_signature := p_signature p\<rparr>) = plan_norm p"
proof -
  have member: "map_option sort_keys (map_of [(''fingerprint'', JStr (p_fingerprint p)),
        (''state'', JStr (plan_state_value (p_state p))), (''core'', JObj (plan_core p))] k) =
      map_option sort_keys (map_of [(''fingerprint'', JStr (p_fingerprint q)),
        (''state'', JStr (plan_state_value (p_state q))), (''core'', JObj (plan_core q))] k)" for k
    using assms plan_signing_ok [of p] plan_signing_ok [of q]
    unfolding plan_signing_dict_def by (intro canonical_obj_member)
  have "p_fingerprint p = p_fingerprint q" using member [of "''fingerprint''"] by simp
  moreover have "p_state p = p_state q"
    using member [of "''state''"] by (simp add: plan_state_enum.val_inject)
  moreover have "sort_keys (JObj (plan_core p)) = sort_keys (JObj (plan_core q))"
    using member [of "''core''"] by (simp del: sort_keys.simps)
  then have "canonical_json (JObj (plan_core p)) = canonical_json (JObj (plan_core q))"
    by (simp only: canonical_json_def dumps_def)
  from plan_core_determines [OF assms(1,2) this]
  have "plan_norm (q\<lparr>p_fingerprint := p_fingerprint p, p_signature := p_signature p, p_state := p_state p\<rparr>)
    = plan_norm p" .
  ultimately show ?thesis by simp
qed

lemma token_core_determines:
  assumes "canonical_json (JObj (token_core a)) = canonical_json (JObj (token_core b))"
  shows "b\<lparr>a_signature := a_signature a\<rparr> = a"
proof -
  let ?b = "b\<lparr>a_signature := a_signature a\<rparr>"
  have core: "token_core ?b = token_core b" by (simp add: token_core_def)
  have "sort_keys (JObj (token_core a)) = sort_keys (JObj (token_core ?b))"
    unfolding core using assms by (intro canonical_obj_inject) (simp_all only: core_ok)
  then have "sort_keys (token_to_dict a) = sort_keys (token_to_dict ?b)"
    unfolding token_to_dict_def
    by (auto dest: sort_keys_append_cong [where c = "[(''signature'', JStr (a_signature a))]"]
        simp del: sort_keys.simps simp: token_core_def)
  then show ?thesis by (metis token_codec.sorted_inject)
qed

lemma transaction_signing_determines:
  assumes "canonical_json (transaction_signing_dict t) = canonical_json (transaction_signing_dict u)"
  shows "u\<lparr>t_signature := t_signature t\<rparr> = t"
proof -
  let ?u = "u\<lparr>t_signature := t_signature t\<rparr>"
  have core: "transaction_signing_dict ?u = transaction_signing_dict u"
    by (simp add: transaction_signing_dict_def transaction_core_def)
  have "sort_keys (transaction_signing_dict t) = sort_keys (transaction_signing_dict ?u)"
    unfolding core using assms by (intro canonical_json_inject) (simp_all only: core_ok)
  then have "sort_keys (transaction_to_dict t) = sort_keys (transaction_to_dict ?u)"
    unfolding transaction_signing_dict_def transaction_to_dict_def
    by (auto dest: sort_keys_append_cong [where c = "[(''signature'', JStr (t_signature t))]"]
        simp del: sort_keys.simps simp: transaction_core_def)
  then show ?thesis by (metis transaction_codec.sorted_inject)
qed

lemma record_core_determines:
  assumes "canonical_json (JObj (record_core r)) = canonical_json (JObj (record_core s))"
  shows "s\<lparr>r_signature := r_signature r\<rparr> = r"
proof -
  let ?s = "s\<lparr>r_signature := r_signature r\<rparr>"
  have core: "record_core ?s = record_core s" by (simp add: record_core_def)
  have "sort_keys (JObj (record_core r)) = sort_keys (JObj (record_core ?s))"
    unfolding core using assms by (intro canonical_obj_inject) (simp_all only: core_ok)
  then have "sort_keys (record_to_dict r) = sort_keys (record_to_dict ?s)"
    unfolding record_to_dict_def
    by (auto dest: sort_keys_append_cong [where c = "[(''signature'', JStr (r_signature r))]"]
        simp del: sort_keys.simps simp: record_core_def)
  then show ?thesis by (metis record_codec.sorted_inject)
qed

subsection \<open>Round trips through a state file\<close>

text \<open>
  C13. A commit plan that was written to its state file reads back: the text is valid JSON, and
  \<^verbatim>\<open>CommitPlan.from_dict\<close> returns the plan, with the summary dictionary in key order. The
  hypothesis is that the summary is a dictionary, with each key once.
\<close>

theorem plan_storage_roundtrip:
  assumes "distinct (map fst (p_summary p))"
  shows "\<exists>j. loads (dumps (plan_to_dict p) @ [CHR 0x0A]) = Some j \<and> plan_from_dict j = Inr (plan_norm p)"
  using plan_codec.stored [OF assms] by blast

definition sample_plan :: commit_plan where
  "sample_plan = \<lparr>p_protocol_version = 1, p_id = ''plan_x'', p_transaction_id = ''tx_x'', p_task_id = ''t'',
     p_workspace_root = ''/w'', p_baseline_digest = ''b'', p_staged_digest = ''s'', p_policy_digest = ''p'',
     p_changes = [\<lparr>c_path = ''a'', c_kind = ADD, c_before = None,
       c_after = Some \<lparr>e_path = ''a'', e_kind = FILE, e_mode = 420, e_size = 1, e_digest = ''d'', e_link = None\<rparr>\<rparr>],
     p_findings = [], p_decision = ALLOW, p_fingerprint = ''f'', p_created_at = 5, p_expires_at = 9,
     p_signature = ''g'', p_state = PLAN_PENDING, p_summary = [(''b'', 2), (''a'', 1)]\<rparr>"

theorem plan_storage_roundtrip_witness:
  "distinct (map fst (p_summary sample_plan)) \<and>
   (\<exists>j. loads (dumps (plan_to_dict sample_plan) @ [CHR 0x0A]) = Some j \<and>
     plan_from_dict j = Inr (sample_plan\<lparr>p_summary := [(''a'', 1), (''b'', 2)]\<rparr>))"
proof -
  have h: "distinct (map fst (p_summary sample_plan))" by (simp add: sample_plan_def)
  have n: "plan_norm sample_plan = sample_plan\<lparr>p_summary := [(''a'', 1), (''b'', 2)]\<rparr>"
    by (simp add: plan_norm_def sample_plan_def)
  show ?thesis using h plan_storage_roundtrip [OF h] by (simp only: n)
qed

text \<open>
  C14. Transactions, approval tokens and commit records come back from their state files exactly
  as they were written.
\<close>

theorem record_storage_roundtrip:
  "(\<exists>j. loads (dumps (transaction_to_dict t) @ [CHR 0x0A]) = Some j \<and> transaction_from_dict j = Inr t) \<and>
   (\<exists>j. loads (dumps (token_to_dict a) @ [CHR 0x0A]) = Some j \<and> token_from_dict j = Inr a) \<and>
   (\<exists>j. loads (dumps (record_to_dict r) @ [CHR 0x0A]) = Some j \<and> record_from_dict j = Inr r)"
  using transaction_codec.stored [of t] token_codec.stored [of a] record_codec.stored [of r] by blast

text \<open>
  The fingerprint of a plan covers every field but the fingerprint, the signature and the
  state: plans with the same canonical core agree on all the others.
\<close>

theorem plan_fingerprint_covers:
  assumes "distinct (map fst (p_summary p))" and "distinct (map fst (p_summary q))"
    and "canonical_json (JObj (plan_core p)) = canonical_json (JObj (plan_core q))"
  shows "plan_norm (q\<lparr>p_fingerprint := p_fingerprint p, p_signature := p_signature p, p_state := p_state p\<rparr>)
    = plan_norm p"
  using assms by (rule plan_core_determines)

theorem plan_fingerprint_covers_witness:
  "\<exists>q. q \<noteq> sample_plan \<and>
     canonical_json (JObj (plan_core sample_plan)) = canonical_json (JObj (plan_core q)) \<and>
     plan_norm (q\<lparr>p_fingerprint := p_fingerprint sample_plan, p_signature := p_signature sample_plan,
       p_state := p_state sample_plan\<rparr>) = plan_norm sample_plan"
proof -
  let ?q = "sample_plan\<lparr>p_state := PLAN_COMMITTED\<rparr>"
  have core: "plan_core ?q = plan_core sample_plan" by (simp add: plan_core_def)
  have d: "distinct (map fst (p_summary sample_plan))" "distinct (map fst (p_summary ?q))"
    by (simp_all add: sample_plan_def)
  have n: "?q \<noteq> sample_plan" by (simp add: sample_plan_def)
  have c: "canonical_json (JObj (plan_core sample_plan)) = canonical_json (JObj (plan_core ?q))"
    by (simp only: core)
  show ?thesis using n c plan_fingerprint_covers [OF d c] by blast
qed

end
