(* ===== verification/Crypto.thy ===== *)
theory Crypto
  imports ModelFacts Util
begin

text \<open>
  \<^verbatim>\<open>StateSigner\<close> of \<^verbatim>\<open>crypto.py\<close> (signing and verification; the key file is in the theory
  of the file system), \<^verbatim>\<open>digest_json\<close> and \<^verbatim>\<open>random_id\<close> of \<^verbatim>\<open>util.py\<close>. The two hash
  primitives are parameters, fields of a record: SHA-256 as a function from bytes to the
  hexadecimal digest, and HMAC-SHA-256 from a key and bytes to 32 bytes. What is used of
  them is named where it is used; nothing here assumes them free of collisions.
\<close>

record crypto =
  sha256 :: "string \<Rightarrow> string"
  hmac :: "string \<Rightarrow> string \<Rightarrow> string"

definition digest_json :: "crypto \<Rightarrow> json \<Rightarrow> string" where
  "digest_json cr data = sha256 cr (canonical_json data)"

subsection \<open>\<^verbatim>\<open>base64.urlsafe_b64encode\<close> without padding\<close>

definition b64_alphabet :: string where
  "b64_alphabet = ''ABCDEFGHIJKLMNOPQRSTUVWXYZabcdefghijklmnopqrstuvwxyz0123456789-_''"

definition b64_char :: "nat \<Rightarrow> char" where
  "b64_char n = b64_alphabet ! n"

fun b64 :: "string \<Rightarrow> string" where
  "b64 [] = []"
| "b64 [a] = [b64_char (code a div 4), b64_char (code a mod 4 * 16)]"
| "b64 [a, b] =
     [b64_char (code a div 4), b64_char (code a mod 4 * 16 + code b div 16), b64_char (code b mod 16 * 4)]"
| "b64 (a # b # c # r) =
     b64_char (code a div 4) # b64_char (code a mod 4 * 16 + code b div 16) #
     b64_char (code b mod 16 * 4 + code c div 64) # b64_char (code c mod 64) # b64 r"

text \<open>\<^verbatim>\<open>f"{prefix}_{secrets.token_urlsafe(18)}"\<close> for the 18 bytes drawn\<close>

definition random_id :: "string \<Rightarrow> string \<Rightarrow> string" where
  "random_id pre bytes = pre @ ''_'' @ b64 bytes"

subsection \<open>Signing\<close>

definition sign :: "crypto \<Rightarrow> string \<Rightarrow> json \<Rightarrow> string" where
  "sign cr key payload = b64 (hmac cr key (canonical_json payload))"

text \<open>\<^verbatim>\<open>hmac.compare_digest\<close> raises on a string with a character that is not ASCII.\<close>

definition verify :: "crypto \<Rightarrow> string \<Rightarrow> json \<Rightarrow> string \<Rightarrow> unit result" where
  "verify cr key payload signature =
     (if \<exists>c \<in> set signature. 128 \<le> code c then Inl (PyError ''TypeError'')
      else if sign cr key payload = signature then Inr ()
      else Inl (IntegrityError ''signed broker state failed integrity verification''))"

text \<open>The payloads the broker signs: a kind and a record\<close>

definition signed_record :: "string \<Rightarrow> json \<Rightarrow> json" where
  "signed_record kind v = JObj [(''kind'', JStr kind), (''record'', v)]"

definition signed_core :: "string \<Rightarrow> json \<Rightarrow> json" where
  "signed_core kind v = JObj [(''kind'', JStr kind), (''core'', v)]"

subsection \<open>Facts on the encoding\<close>

lemma b64_alphabet_length: "length b64_alphabet = 64"
  by (simp add: b64_alphabet_def)

lemma b64_alphabet_distinct: "distinct b64_alphabet"
  by (simp add: b64_alphabet_def)

lemma b64_char_inject: "m < 64 \<Longrightarrow> n < 64 \<Longrightarrow> b64_char m = b64_char n \<longleftrightarrow> m = n"
  by (simp add: b64_char_def nth_eq_iff_index_eq b64_alphabet_distinct b64_alphabet_length)

lemma b64_char_class: "n < 64 \<Longrightarrow> id_body_char (b64_char n) \<and> code (b64_char n) < (128::nat)"
proof -
  assume "n < 64"
  then have "b64_char n \<in> set b64_alphabet"
    by (simp add: b64_char_def b64_alphabet_length)
  moreover have "\<forall>c \<in> set b64_alphabet. id_body_char c \<and> code c < (128::nat)"
    by (simp add: b64_alphabet_def id_body_char_def upper_alpha_def lower_alpha_def is_digit_def)
  ultimately show ?thesis by blast
qed

lemma sextet_bounds:
  fixes a b c :: nat
  assumes "a < 256" "b < 256" "c < 256"
  shows "a div 4 < 64" "a mod 4 * 16 + b div 16 < 64" "b mod 16 * 4 + c div 64 < 64" "c mod 64 < 64"
    "a mod 4 * 16 < 64" "b mod 16 * 4 < 64"
proof -
  have q: "a div 4 < 64" "b div 16 < 16" "c div 64 < 4"
    using assms by (simp_all add: div_less_iff_less_mult)
  have r: "a mod 4 < 4" "b mod 16 < 16" by simp_all
  show "a div 4 < 64" "a mod 4 * 16 + b div 16 < 64" "b mod 16 * 4 + c div 64 < 64" "c mod 64 < 64"
    "a mod 4 * 16 < 64" "b mod 16 * 4 < 64"
    using q r by linarith+
qed

lemma radix_inject:
  fixes x y x' y' k :: nat
  assumes "x * k + y = x' * k + y'" "y < k" "y' < k"
  shows "x = x' \<and> y = y'"
proof -
  have "(x * k + y) div k = (x' * k + y') div k" "(x * k + y) mod k = (x' * k + y') mod k"
    using assms(1) by simp_all
  then show ?thesis using assms(2,3) by simp
qed

lemma divmod_inject: "x div k = y div k \<Longrightarrow> x mod k = y mod k \<Longrightarrow> x = y" for x y k :: nat
  by (metis div_mult_mod_eq)

lemmas sextets [simp] = sextet_bounds [OF code_less code_less code_less]

lemma b64_class: "c \<in> set (b64 s) \<Longrightarrow> id_body_char c \<and> code c < (128::nat)"
  by (induction s rule: b64.induct) (use sextets b64_char_class in \<open>auto simp: b64_char_class\<close>)

lemma b64_length: "length (b64 s) = (4 * length s + 2) div 3"
  by (induction s rule: b64.induct) auto

lemma code_divmod_inject:
  assumes "code x div k = (code y div k :: nat)" "code x mod k = (code y mod k :: nat)"
  shows "x = y"
  using divmod_inject [OF assms] by simp

lemma code_high: "code c div 16 < (16::nat)" "code c div 64 < (4::nat)"
  using code_less [of c] by (simp_all add: div_less_iff_less_mult)

lemma sextet_split:
  assumes "code a mod 4 * 16 + code b div 16 = (code a' mod 4 * 16 + code b' div 16 :: nat)"
  shows "code a mod 4 = (code a' mod 4 :: nat) \<and> code b div 16 = (code b' div 16 :: nat)"
  using assms by (rule radix_inject) (rule code_high)+

lemma sextet_split':
  assumes "code b mod 16 * 4 + code c div 64 = (code b' mod 16 * 4 + code c' div 64 :: nat)"
  shows "code b mod 16 = (code b' mod 16 :: nat) \<and> code c div 64 = (code c' div 64 :: nat)"
  using assms by (rule radix_inject) (rule code_high)+

lemma b64_inject: "b64 s = b64 t \<longleftrightarrow> s = t"
proof
  show "b64 s = b64 t \<Longrightarrow> s = t"
  proof (induction s arbitrary: t rule: b64.induct)
    case 1
    then show ?case by (cases t rule: b64.cases) auto
  next
    case (2 a)
    then show ?case
      by (cases t rule: b64.cases) (auto simp: b64_char_inject intro: code_divmod_inject)
  next
    case (3 a b)
    then show ?case
      by (cases t rule: b64.cases)
        (auto simp: b64_char_inject dest!: sextet_split intro: code_divmod_inject)
  next
    case (4 a b c r)
    then show ?case
      by (cases t rule: b64.cases)
        (auto simp: b64_char_inject dest!: sextet_split sextet_split' intro: code_divmod_inject)
  qed
qed simp

lemma token_bytes_length: "length bytes = 18 \<Longrightarrow> length (b64 bytes) = 24"
  by (simp add: b64_length)

text \<open>
  An identifier the broker mints is one its own validator accepts for the same prefix,
  whatever the 18 random bytes are.
\<close>

lemma minted_id:
  assumes "length bytes = 18" and "pre \<in> {''tx'', ''plan'', ''approval'', ''commit''}"
  shows "validate_object_id (JStr (random_id pre bytes)) pre = Inr (random_id pre bytes)"
proof -
  have body: "\<forall>x \<in> set (b64 bytes). id_body_char x" using b64_class by blast
  have "re_fullmatch object_id_re (random_id pre bytes)"
    unfolding object_id_re_iff
    using assms token_bytes_length [OF assms(1)] body
    by (intro exI [of _ "hd pre"] exI [of _ "tl pre"] exI [of _ "b64 bytes"])
      (auto simp: random_id_def lower_alpha_def id_prefix_char_def)
  then show ?thesis
    by (simp add: validate_object_id_Inr_iff random_id_def)
qed

subsection \<open>Facts on signatures\<close>

lemma sign_ascii: "c \<in> set (sign cr key v) \<Longrightarrow> code c < (128::nat)"
  using b64_class by (auto simp: sign_def)

lemma verify_Inr_iff: "verify cr key v sig = Inr () \<longleftrightarrow> sign cr key v = sig"
  using sign_ascii [of _ cr key v] by (force simp: verify_def not_le)

lemma verify_sign [simp]: "verify cr key v (sign cr key v) = Inr ()"
  by (simp add: verify_Inr_iff)

text \<open>Two payloads with one signature: the same bytes were signed, or HMAC collides on them.\<close>

definition hmac_collision :: "crypto \<Rightarrow> string \<Rightarrow> json \<Rightarrow> json \<Rightarrow> bool" where
  "hmac_collision cr key v w \<longleftrightarrow> canonical_json v \<noteq> canonical_json w
     \<and> hmac cr key (canonical_json v) = hmac cr key (canonical_json w)"

lemma sign_eq_iff:
  "sign cr key v = sign cr key w \<longleftrightarrow>
    canonical_json v = canonical_json w \<or> hmac_collision cr key v w"
  by (auto simp: sign_def b64_inject hmac_collision_def)

lemma signed_record_inject:
  assumes "json_ok v" "json_ok w"
    and "canonical_json (signed_record kind v) = canonical_json (signed_record kind' w)"
  shows "kind = kind' \<and> sort_keys v = sort_keys w"
proof -
  have m: "map_option sort_keys (map_of [(''kind'', JStr kind), (''record'', v)] k) =
      map_option sort_keys (map_of [(''kind'', JStr kind'), (''record'', w)] k)" for k
    using assms unfolding signed_record_def by (intro canonical_obj_member) simp_all
  show ?thesis using m [of "''kind''"] m [of "''record''"] by simp
qed

lemma signed_core_inject:
  assumes "json_ok v" "json_ok w"
    and "canonical_json (signed_core kind v) = canonical_json (signed_core kind' w)"
  shows "kind = kind' \<and> sort_keys v = sort_keys w"
proof -
  have m: "map_option sort_keys (map_of [(''kind'', JStr kind), (''core'', v)] k) =
      map_option sort_keys (map_of [(''kind'', JStr kind'), (''core'', w)] k)" for k
    using assms unfolding signed_core_def by (intro canonical_obj_member) simp_all
  show ?thesis using m [of "''kind''"] m [of "''core''"] by simp
qed

lemma signed_record_core_disjoint:
  assumes "json_ok v" "json_ok w"
  shows "canonical_json (signed_record kind v) \<noteq> canonical_json (signed_core kind' w)"
proof
  assume eq: "canonical_json (signed_record kind v) = canonical_json (signed_core kind' w)"
  have "map_option sort_keys (map_of [(''kind'', JStr kind), (''record'', v)] ''core'') =
      map_option sort_keys (map_of [(''kind'', JStr kind'), (''core'', w)] ''core'')"
    using assms eq unfolding signed_core_def signed_record_def by (intro canonical_obj_member) simp_all
  then show False by simp
qed

lemma same_canonical: "sort_keys v = sort_keys w \<Longrightarrow> canonical_json v = canonical_json w"
  by (simp add: canonical_json_def dumps_def)

end
