(* ===== verification/Manifest.thy ===== *)
theory Manifest
  imports FileTree Crypto
begin

text \<open>
  \<^verbatim>\<open>manifest.py\<close>: the scan of a directory tree into a manifest, the check of a stored
  manifest, the difference of two manifests and the roots of a set of changes. The entry
  dictionary of a manifest is an association list in insertion order.
\<close>

definition DEFAULT_MAX_ENTRIES :: int where
  "DEFAULT_MAX_ENTRIES = 200000"

definition DEFAULT_MAX_BYTES :: int where
  "DEFAULT_MAX_BYTES = 20 * 1024 * 1024 * 1024"

subsection \<open>Scanning\<close>

fun entry_kind_of_node :: "node \<Rightarrow> entry_kind" where
  "entry_kind_of_node (FileN _ _ _) = FILE"
| "entry_kind_of_node (DirN _ _ _) = DIRECTORY"
| "entry_kind_of_node (LinkN _ _ _) = SYMLINK"
| "entry_kind_of_node (SpecialN _ _ _ _) = SPECIAL"

text \<open>The digest recorded for a node: of the content, of the link target, or of the device\<close>

fun node_digest :: "crypto \<Rightarrow> node \<Rightarrow> string" where
  "node_digest cr (FileN _ _ content) = sha256 cr content"
| "node_digest cr (LinkN _ _ target) = sha256 cr (utf8_encode target)"
| "node_digest cr (DirN _ _ _) = ''''"
| "node_digest cr (SpecialN _ _ st_mode rdev) =
     sha256 cr (''special:'' @ int_str st_mode @ '':'' @ int_str rdev)"

fun node_size :: "node \<Rightarrow> int" where
  "node_size (FileN _ _ content) = int (length content)"
| "node_size _ = 0"

fun node_link :: "node \<Rightarrow> string option" where
  "node_link (LinkN _ _ target) = Some target"
| "node_link _ = None"

definition entry_of_node :: "crypto \<Rightarrow> string \<Rightarrow> node \<Rightarrow> manifest_entry" where
  "entry_of_node cr key n =
     \<lparr>e_path = key, e_kind = entry_kind_of_node n, e_mode = node_mode n, e_size = node_size n,
      e_digest = node_digest cr n, e_link = node_link n\<rparr>"

text \<open>The variables the nested \<^verbatim>\<open>walk\<close> of \<^verbatim>\<open>scan_tree\<close> updates\<close>

record walk_state =
  w_entries :: "(string \<times> manifest_entry) list"
  w_files :: int
  w_bytes :: int

record scan_limits =
  l_excluded :: "string list"
  l_max_entries :: int
  l_max_bytes :: int

text \<open>One directory entry: the device check, the new manifest entry and the limits\<close>

definition visit :: "crypto \<Rightarrow> scan_limits \<Rightarrow> int \<Rightarrow> string \<Rightarrow> node \<Rightarrow> walk_state \<Rightarrow> walk_state result" where
  "visit cr lim root_device key n st =
     (if entry_kind_of_node n \<noteq> SYMLINK \<and> node_dev n \<noteq> root_device
      then Inl (GuardError ''workspace crosses a filesystem or mount boundary; fail closed'')
      else
        let files = (if entry_kind_of_node n = FILE then w_files st + 1 else w_files st);
            bytes = (if entry_kind_of_node n = FILE then w_bytes st + node_size n else w_bytes st);
            entries = dict_put key (entry_of_node cr key n) (w_entries st)
        in if int (length entries) > l_max_entries lim
           then Inl (GuardError ''workspace exceeds manifest entry limit; fail closed'')
           else if bytes > l_max_bytes lim
           then Inl (GuardError ''workspace exceeds manifest byte limit; fail closed'')
           else Inr \<lparr>w_entries = entries, w_files = files, w_bytes = bytes\<rparr>)"

lemma size_kids_sorted:
  "size_list f (sort_key g xs) = size_list f xs"
proof -
  have "sum_list (map f (sort_key g xs)) = sum_list (map f xs)"
    by (metis mset_map mset_sort sum_mset_sum_list)
  then show ?thesis by (simp add: size_list_conv_sum_list)
qed

lemma kids_size: "is_dir n \<Longrightarrow> size_list (\<lambda>p. size (snd p)) (kids n) < size n"
proof (cases n)
  case (DirN d m ks)
  have "size_list (\<lambda>p. size (snd p)) ks \<le> size_list (size_prod (\<lambda>_. 0) size) ks"
    by (induction ks) auto
  with DirN show ?thesis by simp
qed simp_all

text \<open>
  \<^verbatim>\<open>walk(directory, relative_directory)\<close>: the children in the order of their names, the
  excluded names skipped at the top level only, a directory entered after its own entry.
\<close>

function walk :: "crypto \<Rightarrow> scan_limits \<Rightarrow> int \<Rightarrow> path \<Rightarrow> (string \<times> node) list \<Rightarrow> walk_state \<Rightarrow> walk_state result"
where
  "walk cr lim dev rel [] st = Inr st"
| "walk cr lim dev rel ((name, n) # rest) st =
     (if rel = [] \<and> name \<in> set (l_excluded lim) then walk cr lim dev rel rest st
      else
        bindE (validate_relative_path (JStr (path_str (rel @ [name])))) (\<lambda>_.
        bindE (visit cr lim dev (path_str (rel @ [name])) n st) (\<lambda>st1.
        bindE (if is_dir n then walk cr lim dev (rel @ [name]) (sort_key fst (kids n)) st1 else Inr st1)
          (\<lambda>st2. walk cr lim dev rel rest st2))))"
  by pat_completeness auto
termination
  by (relation "measure (\<lambda>(cr, lim, dev, rel, ks, st). size_list (\<lambda>p. size (snd p)) ks)")
    (auto simp: size_kids_sorted dest: kids_size)

definition manifest_digest :: "crypto \<Rightarrow> (string \<times> manifest_entry) list \<Rightarrow> string" where
  "manifest_digest cr entries =
     sha256 cr (canonical_json (JList (map (\<lambda>p. entry_to_dict (snd p)) (sort_key fst entries))))"

text \<open>\<^verbatim>\<open>scan_tree(root)\<close> for the node found at the root, if any\<close>

definition scan_tree :: "crypto \<Rightarrow> scan_limits \<Rightarrow> path \<Rightarrow> node option \<Rightarrow> tree_manifest result" where
  "scan_tree cr lim root found =
     (case found of
        None \<Rightarrow> Inl (GuardError ''manifest root does not exist'')
      | Some n \<Rightarrow>
          if entry_kind_of_node n = SYMLINK
          then Inl (UnsafePath ''manifest root may not be a symlink'')
          else if \<not> is_dir n then Inl (GuardError ''manifest root is not a directory'')
          else
            bindE (walk cr lim (node_dev n) [] (sort_key fst (kids n))
                \<lparr>w_entries = [], w_files = 0, w_bytes = 0\<rparr>) (\<lambda>st.
              Inr \<lparr>m_root = path_str root, m_entries = w_entries st,
                   m_digest = manifest_digest cr (w_entries st),
                   m_total_files = w_files st, m_total_bytes = w_bytes st\<rparr>))"

subsection \<open>Checking a stored manifest\<close>

definition check_entry :: "string \<times> manifest_entry \<Rightarrow> unit result" where
  "check_entry p =
     (let key = fst p; entry = snd p
      in bindE (validate_relative_path (JStr key)) (\<lambda>_.
         if e_path entry \<noteq> key then Inl (IntegrityError ''manifest entry key/path mismatch'')
         else if e_size entry < 0 \<or> e_mode entry < 0
         then Inl (IntegrityError ''manifest entry has invalid metadata'')
         else if e_kind entry \<noteq> FILE \<and> e_size entry \<noteq> 0
         then Inl (IntegrityError ''non-file manifest entry has a non-zero size'')
         else if e_kind entry = SYMLINK \<and> e_link entry = None
         then Inl (IntegrityError ''symlink manifest entry has no target'')
         else if e_kind entry \<noteq> SYMLINK \<and> e_link entry \<noteq> None
         then Inl (IntegrityError ''non-symlink manifest entry has a link target'')
         else rewrap IntegrityError
           (if e_kind entry = DIRECTORY
            then (if e_digest entry \<noteq> ''''
                  then Inl (IntegrityError ''directory manifest entry has a content digest'') else Inr ())
            else bindE (validate_sha256 (JStr (e_digest entry)) ''digest'') (\<lambda>_. Inr ()))))"

text \<open>The loop, with the two totals it accumulates\<close>

fun check_entries :: "(string \<times> manifest_entry) list \<Rightarrow> int \<Rightarrow> int \<Rightarrow> (int \<times> int) result" where
  "check_entries [] files bytes = Inr (files, bytes)"
| "check_entries (p # ps) files bytes =
     bindE (check_entry p) (\<lambda>_.
       if e_kind (snd p) = FILE then check_entries ps (files + 1) (bytes + e_size (snd p))
       else check_entries ps files bytes)"

text \<open>
  \<open>resolve\<close> stands for \<^verbatim>\<open>Path.resolve(strict=False)\<close>, which asks the file system.
\<close>

definition verify_manifest :: "crypto \<Rightarrow> (path \<Rightarrow> path) \<Rightarrow> tree_manifest \<Rightarrow> path option \<Rightarrow> unit result" where
  "verify_manifest cr resolve m expected_root =
     (if (case expected_root of None \<Rightarrow> False | Some r \<Rightarrow> resolve (path_of (m_root m)) \<noteq> resolve r)
      then Inl (IntegrityError ''manifest root does not match the signed workspace'')
      else
        bindE (check_entries (m_entries m) 0 0) (\<lambda>(total_files, total_bytes).
          if total_files \<noteq> m_total_files m \<or> total_bytes \<noteq> m_total_bytes m
          then Inl (IntegrityError ''manifest file or byte totals do not match its entries'')
          else if manifest_digest cr (m_entries m) \<noteq> m_digest m
          then Inl (IntegrityError ''manifest digest does not match its entries'')
          else Inr ()))"

subsection \<open>Differences\<close>

definition entry_changed :: "manifest_entry \<Rightarrow> manifest_entry \<Rightarrow> bool" where
  "entry_changed earlier later =
     (if e_kind earlier = DIRECTORY then e_mode earlier \<noteq> e_mode later
      else e_mode earlier \<noteq> e_mode later \<or> e_size earlier \<noteq> e_size later
        \<or> e_digest earlier \<noteq> e_digest later \<or> e_link earlier \<noteq> e_link later)"

text \<open>The change at one path, if there is one\<close>

definition change_at :: "string \<Rightarrow> manifest_entry option \<Rightarrow> manifest_entry option \<Rightarrow> change option" where
  "change_at path old new =
     (case old of
        None \<Rightarrow>
          (case new of
             None \<Rightarrow> None
           | Some _ \<Rightarrow> Some \<lparr>c_path = path, c_kind = ADD, c_before = None, c_after = new\<rparr>)
      | Some o' \<Rightarrow>
          (case new of
             None \<Rightarrow> Some \<lparr>c_path = path, c_kind = DELETE, c_before = old, c_after = None\<rparr>
           | Some n' \<Rightarrow>
               if e_kind o' \<noteq> e_kind n'
               then Some \<lparr>c_path = path, c_kind = TYPE_CHANGE, c_before = old, c_after = new\<rparr>
               else if entry_changed o' n'
               then Some \<lparr>c_path = path, c_kind = MODIFY, c_before = old, c_after = new\<rparr>
               else None))"

definition all_paths :: "tree_manifest \<Rightarrow> tree_manifest \<Rightarrow> string list" where
  "all_paths earlier later = sort (remdups (map fst (m_entries earlier) @ map fst (m_entries later)))"

definition diff_manifests :: "tree_manifest \<Rightarrow> tree_manifest \<Rightarrow> change list" where
  "diff_manifests earlier later =
     List.map_filter (\<lambda>p. change_at p (map_of (m_entries earlier) p) (map_of (m_entries later) p))
       (all_paths earlier later)"

subsection \<open>Operation roots\<close>

definition parts :: "change \<Rightarrow> path" where
  "parts c = path_of (c_path c)"

definition before_is_directory :: "change \<Rightarrow> bool" where
  "before_is_directory c = (case c_before c of None \<Rightarrow> False | Some e \<Rightarrow> e_kind e = DIRECTORY)"

definition after_is_directory :: "change \<Rightarrow> bool" where
  "after_is_directory c = (case c_after c of None \<Rightarrow> False | Some e \<Rightarrow> e_kind e = DIRECTORY)"

fun select_roots :: "change list \<Rightarrow> change list \<Rightarrow> path list \<Rightarrow> change list" where
  "select_roots [] selected selected_parts = selected"
| "select_roots (c # cs) selected selected_parts =
     (if \<exists>p \<in> set selected_parts. take (length p) (parts c) = p
      then select_roots cs selected selected_parts
      else select_roots cs (selected @ [c])
        (if before_is_directory c \<or> after_is_directory c then selected_parts @ [parts c]
         else selected_parts))"

definition operation_roots :: "change list \<Rightarrow> change list" where
  "operation_roots changes = select_roots (sort_key (\<lambda>c. (length (parts c), c_path c)) changes) [] []"

end
