(* ===== verification/ManifestFacts.thy ===== *)
theory ManifestFacts
  imports Manifest
begin

text \<open>
  What the scan of a tree finds, and what the stored manifest, the digest, the difference
  and the operation roots of \<^verbatim>\<open>manifest.py\<close> say about the trees they come from. The
  specification of the scan is \<open>listing\<close>: every node below the root with its path, in the
  order of the walk.
\<close>

subsection \<open>Relative paths and their text\<close>

lemma is_name_component: "is_name w \<Longrightarrow> is_component w"
  by (simp add: is_name_def)

lemma component_not_anchor: "is_component w \<Longrightarrow> \<not> prefix ''/'' w"
  by (cases w) (auto simp: is_component_def)

lemma path_str_names:
  "p \<noteq> [] \<Longrightarrow> \<forall>w \<in> set p. is_component w \<Longrightarrow> path_str p = join_with ''/'' p"
  by (cases p) (auto simp: path_str_def component_not_anchor)

lemma split_path_str:
  "p \<noteq> [] \<Longrightarrow> \<forall>w \<in> set p. is_component w \<Longrightarrow> split_on (CHR ''/'') (path_str p) = p"
  by (simp add: path_str_names split_join is_component_def)

lemma names_of_path_str:
  "p \<noteq> [] \<Longrightarrow> \<forall>w \<in> set p. is_component w \<Longrightarrow> names_of (path_str p) = p"
  by (simp add: names_of_def split_path_str filter_id_conv) (auto simp: is_component_def)

lemma hd_path_str:
  assumes "p \<noteq> []" "\<forall>w \<in> set p. is_component w"
  shows "\<not> prefix ''/'' (path_str p)"
proof
  assume "prefix ''/'' (path_str p)"
  then obtain s where "path_str p = CHR ''/'' # s" by (auto simp: prefix_def)
  then have "split_on (CHR ''/'') (path_str p) = [] # split_on (CHR ''/'') s" by simp
  with split_path_str [OF assms] assms(2) show False by (auto simp: is_component_def)
qed

lemma path_of_path_str:
  "p \<noteq> [] \<Longrightarrow> \<forall>w \<in> set p. is_component w \<Longrightarrow> path_of (path_str p) = p"
  by (simp add: path_of_relative hd_path_str names_of_path_str)

lemma path_str_inject:
  assumes "p \<noteq> []" "\<forall>w \<in> set p. is_component w" "q \<noteq> []" "\<forall>w \<in> set q. is_component w"
  shows "path_str p = path_str q \<longleftrightarrow> p = q"
  using split_path_str [OF assms(1,2)] split_path_str [OF assms(3,4)] by metis

subsection \<open>The listing of a tree\<close>

function listing :: "path \<Rightarrow> (string \<times> node) list \<Rightarrow> (path \<times> node) list" where
  "listing rel [] = []"
| "listing rel ((a, n) # ks) = (rel @ [a], n) # listing (rel @ [a]) (kids n) @ listing rel ks"
  by pat_completeness auto
termination
proof (relation "measure (\<lambda>(rel, ks). size_list (\<lambda>p. size (snd p)) ks)", goal_cases)
  case (2 rel a n ks)
  then show ?case using kids_size [of n] by (cases n) simp_all
qed auto

abbreviation wf_kids :: "(string \<times> node) list \<Rightarrow> bool" where
  "wf_kids ks \<equiv> sorted_dir ks \<and> (\<forall>(a, n) \<in> set ks. is_name a \<and> wf_node n)"

lemma wf_kids: "wf_node n \<Longrightarrow> wf_kids (kids n)"
  by (cases n) simp_all

lemma listing_mem:
  "wf_kids ks \<Longrightarrow> (p, n) \<in> set (listing rel ks) \<longleftrightarrow>
   (\<exists>a k q. p = rel @ a # q \<and> map_of ks a = Some k \<and> get q k = Some n)"
proof (induction rel ks arbitrary: p n rule: listing.induct)
  case (2 rel a k ks)
  have sub: "(p, n) \<in> set (listing (rel @ [a]) (kids k)) \<longleftrightarrow>
      (\<exists>b l q. p = (rel @ [a]) @ b # q \<and> map_of (kids k) b = Some l \<and> get q l = Some n)"
    using 2(1) 2(3) wf_kids [of k] by simp
  also have "\<dots> \<longleftrightarrow> (\<exists>b q. p = rel @ a # b # q \<and> get (b # q) k = Some n)"
    by (auto split: option.splits)
  finally have sub': "(p = rel @ [a] \<and> n = k) \<or> (p, n) \<in> set (listing (rel @ [a]) (kids k)) \<longleftrightarrow>
      (\<exists>q. p = rel @ a # q \<and> get q k = Some n)"
    by (metis append_Cons append_Nil get.simps(1) neq_Nil_conv option.inject)
  have rest: "(p, n) \<in> set (listing rel ks) \<longleftrightarrow>
      (\<exists>b l q. p = rel @ b # q \<and> map_of ks b = Some l \<and> get q l = Some n)"
    using 2(2) 2(3) by simp
  have "map_of ks a = None" using 2(3) by (auto intro!: map_of_notin)
  then have "map_of ((a, k) # ks) b = Some l \<longleftrightarrow> b = a \<and> l = k \<or> map_of ks b = Some l" for b l
    by auto
  then have "(\<exists>b l q. p = rel @ b # q \<and> map_of ((a, k) # ks) b = Some l \<and> get q l = Some n) \<longleftrightarrow>
      (\<exists>q. p = rel @ a # q \<and> get q k = Some n) \<or>
      (\<exists>b l q. p = rel @ b # q \<and> map_of ks b = Some l \<and> get q l = Some n)"
    by (simp only:) blast
  then show ?case using sub' rest by auto
qed simp

lemma listing_prefix:
  assumes "wf_kids ks" "(p, n) \<in> set (listing rel ks)"
  shows "\<exists>a q. p = rel @ a # q \<and> a \<in> fst ` set ks"
proof -
  obtain a k q where "p = rel @ a # q" "map_of ks a = Some k"
    using assms(2) unfolding listing_mem [OF assms(1)] by blast
  moreover from this(2) have "a \<in> fst ` set ks" by (force dest: map_of_SomeD)
  ultimately show ?thesis by blast
qed

lemma listing_distinct: "wf_kids ks \<Longrightarrow> distinct (map fst (listing rel ks))"
proof (induction rel ks rule: listing.induct)
  case (2 rel a k ks)
  have wk: "wf_kids (kids k)" and wks: "wf_kids ks" using 2(3) wf_kids [of k] by auto
  have d: "distinct (map fst (listing (rel @ [a]) (kids k)))" "distinct (map fst (listing rel ks))"
    using 2(1) [OF wk] 2(2) [OF wks] .
  have a: "a \<notin> fst ` set ks" using 2(3) by auto
  have "p = rel @ [a] \<Longrightarrow> (p, n) \<notin> set (listing (rel @ [a]) (kids k))" for p n
    using listing_prefix [OF wk] by fastforce
  moreover have "(rel @ a # q, n) \<notin> set (listing rel ks)" for q n
    using listing_prefix [OF wks] a by fastforce
  moreover have "(p, n) \<in> set (listing (rel @ [a]) (kids k)) \<Longrightarrow> \<exists>q. p = rel @ a # q" for p n
    using listing_prefix [OF wk] by fastforce
  ultimately have "fst ` set (listing (rel @ [a]) (kids k)) \<inter> fst ` set (listing rel ks) = {}"
    "rel @ [a] \<notin> fst ` set (listing (rel @ [a]) (kids k))" "rel @ [a] \<notin> fst ` set (listing rel ks)"
    by auto metis+
  then show ?case using d by simp
qed simp

subsection \<open>The walk visits the listing\<close>

text \<open>The update of the walk's variables at one node, without its checks\<close>

definition note_node :: "crypto \<Rightarrow> path \<times> node \<Rightarrow> walk_state \<Rightarrow> walk_state" where
  "note_node cr pn st =
     (let key = path_str (fst pn); n = snd pn
      in \<lparr>w_entries = dict_put key (entry_of_node cr key n) (w_entries st),
          w_files = w_files st + (if entry_kind_of_node n = FILE then 1 else 0),
          w_bytes = w_bytes st + node_size n\<rparr>)"

definition good_visit :: "int \<Rightarrow> path \<times> node \<Rightarrow> bool" where
  "good_visit dev pn \<longleftrightarrow> relative_text (path_str (fst pn))
     \<and> (entry_kind_of_node (snd pn) \<noteq> SYMLINK \<longrightarrow> node_dev (snd pn) = dev)"

definition scanned_kids :: "string list \<Rightarrow> path \<Rightarrow> (string \<times> node) list \<Rightarrow> (string \<times> node) list" where
  "scanned_kids excluded rel ks = (if rel = [] then filter (\<lambda>p. fst p \<notin> set excluded) ks else ks)"

lemma node_size_not_file: "entry_kind_of_node n \<noteq> FILE \<Longrightarrow> node_size n = 0"
  by (cases n) simp_all

lemma visit_note:
  "visit cr lim dev (path_str p) n st = Inr st' \<Longrightarrow> st' = note_node cr (p, n) st
    \<and> (entry_kind_of_node n \<noteq> SYMLINK \<longrightarrow> node_dev n = dev)"
  by (auto simp: visit_def note_node_def Let_def node_size_not_file split: if_splits)

lemma wf_kids_sort: "wf_node n \<Longrightarrow> sort_key fst (kids n) = kids n"
  by (simp add: wf_sorted sorted_wrt_less_sort_id)

lemma not_dir_kids: "\<not> is_dir n \<Longrightarrow> kids n = []"
  by (cases n) simp_all

lemma walk_listing:
  "walk cr lim dev rel ks st = Inr st' \<Longrightarrow> wf_kids ks \<Longrightarrow>
   st' = fold (note_node cr) (listing rel (scanned_kids (l_excluded lim) rel ks)) st \<and>
   list_all (good_visit dev) (listing rel (scanned_kids (l_excluded lim) rel ks))"
proof (induction cr lim dev rel ks st arbitrary: st' rule: walk.induct)
  case (2 cr lim dev rel name n rest st)
  have wf: "wf_kids rest" "wf_node n" "wf_kids (kids n)"
    using 2(5) wf_kids [of n] by auto
  show ?case
  proof (cases "rel = [] \<and> name \<in> set (l_excluded lim)")
    case True
    have "walk cr lim dev rel rest st = Inr st'" using 2(4) True by simp
    from 2(1) [OF True this wf(1)] True show ?thesis by (simp add: scanned_kids_def)
  next
    case False
    from 2(4) False obtain q st1 st2 where
      v: "validate_relative_path (JStr (path_str (rel @ [name]))) = Inr q"
      and s1: "visit cr lim dev (path_str (rel @ [name])) n st = Inr st1"
      and s2: "(if is_dir n then walk cr lim dev (rel @ [name]) (sort_key fst (kids n)) st1 else Inr st1) = Inr st2"
      and s3: "walk cr lim dev rel rest st2 = Inr st'"
      by (simp only: walk.simps if_False bindE_Inr_iff) blast
    have one: "st1 = note_node cr (rel @ [name], n) st" "good_visit dev (rel @ [name], n)"
      using visit_note [OF s1] v by (auto simp: validate_relative_path_Inr_iff good_visit_def)
    have two: "st2 = fold (note_node cr) (listing (rel @ [name]) (kids n)) st1"
      "list_all (good_visit dev) (listing (rel @ [name]) (kids n))"
    proof -
      show "st2 = fold (note_node cr) (listing (rel @ [name]) (kids n)) st1"
      proof (cases "is_dir n")
        case True
        with s2 have "walk cr lim dev (rel @ [name]) (sort_key fst (kids n)) st1 = Inr st2" by simp
        from 2(2) [OF False v s1 True this] wf show ?thesis
          by (simp add: wf_kids_sort scanned_kids_def)
      qed (use s2 in \<open>simp add: not_dir_kids\<close>)
      show "list_all (good_visit dev) (listing (rel @ [name]) (kids n))"
      proof (cases "is_dir n")
        case True
        with s2 have "walk cr lim dev (rel @ [name]) (sort_key fst (kids n)) st1 = Inr st2" by simp
        from 2(2) [OF False v s1 True this] wf show ?thesis
          by (simp add: wf_kids_sort scanned_kids_def)
      qed (simp add: not_dir_kids)
    qed
    from 2(3) [OF False v s1 s2 s3 wf(1)] one two False show ?thesis
      by (auto simp: scanned_kids_def)
  qed
qed (simp add: scanned_kids_def)

subsection \<open>What a scan returns\<close>

definition scan_listing :: "string list \<Rightarrow> node \<Rightarrow> (path \<times> node) list" where
  "scan_listing excluded t = listing [] (scanned_kids excluded [] (kids t))"

definition entry_at :: "crypto \<Rightarrow> path \<times> node \<Rightarrow> string \<times> manifest_entry" where
  "entry_at cr pn = (path_str (fst pn), entry_of_node cr (path_str (fst pn)) (snd pn))"

lemma dict_put_fresh: "k \<notin> fst ` set d \<Longrightarrow> dict_put k v d = d @ [(k, v)]"
  by (induction k v d rule: dict_put.induct) auto

lemma fold_note_entries:
  "distinct (map (\<lambda>pn. path_str (fst pn)) xs) \<Longrightarrow>
   fst ` set (w_entries st) \<inter> (\<lambda>pn. path_str (fst pn)) ` set xs = {} \<Longrightarrow>
   w_entries (fold (note_node cr) xs st) = w_entries st @ map (entry_at cr) xs"
  by (induction xs arbitrary: st) (auto simp: note_node_def Let_def dict_put_fresh entry_at_def)

lemma fold_note_totals:
  "w_files (fold (note_node cr) xs st) =
     w_files st + int (length (filter (\<lambda>pn. entry_kind_of_node (snd pn) = FILE) xs)) \<and>
   w_bytes (fold (note_node cr) xs st) = w_bytes st + (\<Sum>pn\<leftarrow>xs. node_size (snd pn))"
  by (induction xs arbitrary: st) (auto simp: note_node_def Let_def)

lemma sorted_dir_filter: "sorted_dir ks \<Longrightarrow> sorted_dir (filter P ks)"
  by (induction ks) auto

lemma wf_scanned_kids: "wf_kids ks \<Longrightarrow> wf_kids (scanned_kids ex rel ks)"
  by (auto simp: scanned_kids_def sorted_dir_filter)

lemma map_of_filter_key:
  "map_of (filter (\<lambda>p. P (fst p)) ks) a = (if P a then map_of ks a else None)"
  by (induction ks) auto

lemma scan_listing_mem:
  assumes "wf_node t"
  shows "(p, n) \<in> set (scan_listing ex t) \<longleftrightarrow> p \<noteq> [] \<and> hd p \<notin> set ex \<and> get p t = Some n"
proof -
  have "(p, n) \<in> set (scan_listing ex t) \<longleftrightarrow>
      (\<exists>a k q. p = a # q \<and> map_of (scanned_kids ex [] (kids t)) a = Some k \<and> get q k = Some n)"
    using listing_mem [OF wf_scanned_kids [OF wf_kids [OF assms], of ex "[]"], of p n "[]"]
    by (simp add: scan_listing_def)
  also have "\<dots> \<longleftrightarrow> p \<noteq> [] \<and> hd p \<notin> set ex \<and> get p t = Some n"
    by (cases p) (auto simp: scanned_kids_def map_of_filter_key [of "\<lambda>a. a \<notin> set ex"] split: option.splits if_splits)
  finally show ?thesis .
qed

lemma scan_listing_names:
  assumes "wf_node t" "(p, n) \<in> set (scan_listing ex t)"
  shows "p \<noteq> [] \<and> (\<forall>a \<in> set p. is_component a) \<and> (\<forall>a \<in> set p. is_name a) \<and> wf_node n"
  using assms get_wf [of t p n] is_name_component by (auto simp: scan_listing_mem)

lemma scan_listing_distinct:
  assumes "wf_node t"
  shows "distinct (map (\<lambda>pn. path_str (fst pn)) (scan_listing ex t))"
proof -
  have d: "distinct (map fst (scan_listing ex t))"
    unfolding scan_listing_def using assms by (intro listing_distinct wf_scanned_kids wf_kids)
  have "inj_on path_str (fst ` set (scan_listing ex t))"
  proof (rule inj_onI)
    fix p q
    assume pq: "p \<in> fst ` set (scan_listing ex t)" "q \<in> fst ` set (scan_listing ex t)"
      and eq: "path_str p = path_str q"
    from pq have "p \<noteq> []" "\<forall>a \<in> set p. is_component a" "q \<noteq> []" "\<forall>a \<in> set q. is_component a"
      using scan_listing_names [OF assms] by (fastforce+)
    with eq show "p = q" by (simp add: path_str_inject)
  qed
  then have "distinct (map path_str (map fst (scan_listing ex t)))"
    using d by (simp only: distinct_map list.set_map)
  then show ?thesis by (simp add: comp_def)
qed

lemma scan_tree_Inr:
  assumes wf: "wf_node t" and scan: "scan_tree cr lim root (Some t) = Inr m"
  shows "is_dir t"
    "m_entries m = map (entry_at cr) (scan_listing (l_excluded lim) t)"
    "m_root m = path_str root"
    "m_digest m = manifest_digest cr (m_entries m)"
    "m_total_files m =
       int (length (filter (\<lambda>pn. entry_kind_of_node (snd pn) = FILE) (scan_listing (l_excluded lim) t)))"
    "m_total_bytes m = (\<Sum>pn\<leftarrow>scan_listing (l_excluded lim) t. node_size (snd pn))"
    "list_all (good_visit (node_dev t)) (scan_listing (l_excluded lim) t)"
proof -
  let ?st = "\<lparr>w_entries = [], w_files = 0, w_bytes = 0\<rparr>"
  from scan show dir: "is_dir t" by (auto simp: scan_tree_def split: if_splits)
  from scan obtain st where
    w: "walk cr lim (node_dev t) [] (sort_key fst (kids t)) ?st = Inr st"
    and m: "m = \<lparr>m_root = path_str root, m_entries = w_entries st,
                 m_digest = manifest_digest cr (w_entries st),
                 m_total_files = w_files st, m_total_bytes = w_bytes st\<rparr>"
    by (auto simp: scan_tree_def bindE_Inr_iff split: if_splits)
  from walk_listing [OF w] wf
  have st: "st = fold (note_node cr) (scan_listing (l_excluded lim) t) ?st"
    and good: "list_all (good_visit (node_dev t)) (scan_listing (l_excluded lim) t)"
    by (simp_all add: wf_kids_sort wf_kids scan_listing_def)
  show "m_entries m = map (entry_at cr) (scan_listing (l_excluded lim) t)"
    using scan_listing_distinct [OF wf] by (simp add: m st fold_note_entries)
  then show "m_root m = path_str root" "m_digest m = manifest_digest cr (m_entries m)"
    by (simp_all add: m)
  show "m_total_files m =
       int (length (filter (\<lambda>pn. entry_kind_of_node (snd pn) = FILE) (scan_listing (l_excluded lim) t)))"
    "m_total_bytes m = (\<Sum>pn\<leftarrow>scan_listing (l_excluded lim) t. node_size (snd pn))"
    using fold_note_totals [of cr _ ?st] by (simp_all add: m st)
  show "list_all (good_visit (node_dev t)) (scan_listing (l_excluded lim) t)" by (rule good)
qed

lemma map_of_map_entry:
  assumes "wf_node t"
  shows "map_of (map (entry_at cr) (scan_listing ex t)) key = Some e \<longleftrightarrow>
    (\<exists>p n. key = path_str p \<and> p \<noteq> [] \<and> hd p \<notin> set ex \<and> get p t = Some n \<and> e = entry_of_node cr key n)"
proof -
  have "distinct (map fst (map (entry_at cr) (scan_listing ex t)))"
    using scan_listing_distinct [OF assms] by (simp add: entry_at_def comp_def)
  then have "map_of (map (entry_at cr) (scan_listing ex t)) key = Some e \<longleftrightarrow>
      (key, e) \<in> entry_at cr ` set (scan_listing ex t)"
    by (simp only: map_of_eq_Some_iff set_map)
  also have "\<dots> \<longleftrightarrow> (\<exists>p n. (p, n) \<in> set (scan_listing ex t) \<and> key = path_str p
      \<and> e = entry_of_node cr key n)"
    by (force simp: entry_at_def)
  finally show ?thesis by (auto simp: scan_listing_mem [OF assms])
qed

lemma scan_keys_distinct:
  assumes "wf_node t" "scan_tree cr lim root (Some t) = Inr m"
  shows "distinct (map fst (m_entries m))"
  using scan_listing_distinct [OF assms(1)]
  by (simp add: scan_tree_Inr(2) [OF assms] entry_at_def comp_def)


definition sample_crypto :: crypto where
  "sample_crypto = \<lparr>sha256 = \<lambda>x. replicate 64 (if x = [] then CHR ''0'' else CHR ''a''),
     hmac = \<lambda>k x. replicate 32 (if x = [] then CHR ''0'' else CHR ''a'')\<rparr>"

definition sample_tree :: node where
  "sample_tree = DirN 1 493
     [(''.git'', DirN 1 493 []),
      (''a'', DirN 1 493 [(''x'', FileN 1 420 ''hello'')]),
      (''b'', LinkN 1 511 ''a/x'')]"

definition sample_limits :: scan_limits where
  "sample_limits = \<lparr>l_excluded = [''.git''], l_max_entries = DEFAULT_MAX_ENTRIES,
     l_max_bytes = DEFAULT_MAX_BYTES\<rparr>"

definition sample_manifest :: tree_manifest where
  "sample_manifest = \<lparr>m_root = ''/w'',
     m_entries = map (entry_at sample_crypto)
       [([''a''], DirN 1 493 [(''x'', FileN 1 420 ''hello'')]),
        ([''a'', ''x''], FileN 1 420 ''hello''), ([''b''], LinkN 1 511 ''a/x'')],
     m_digest = replicate 64 (CHR ''a''), m_total_files = 1, m_total_bytes = 5\<rparr>"

lemma sample_wf: "wf_node sample_tree"
  by (auto simp: sample_tree_def is_name_def is_component_def)

lemma sample_scan: "scan_tree sample_crypto sample_limits [''/'', ''w''] (Some sample_tree) = Inr sample_manifest"
  by code_simp


subsection \<open>A scanned manifest passes the check\<close>

definition sha256_hex :: "crypto \<Rightarrow> bool" where
  "sha256_hex cr \<longleftrightarrow> (\<forall>x. length (sha256 cr x) = 64 \<and> (\<forall>c \<in> set (sha256 cr x). hex_lower c))"

lemma sample_hex: "sha256_hex sample_crypto"
  by (simp add: sha256_hex_def sample_crypto_def hex_lower_def is_digit_def)

lemma check_entry_of_node:
  assumes "sha256_hex cr" "relative_text key" "0 \<le> node_mode n"
  shows "check_entry (key, entry_of_node cr key n) = Inr ()"
  using assms
  by (cases n) (simp_all add: check_entry_def entry_of_node_def validate_relative_path_Inr_iff
      bindE_Inr_iff rewrap_Inr_iff validate_sha256_Inr_iff sha256_hex_def)

lemma check_entries_scanned:
  assumes "sha256_hex cr" "\<forall>(p, n) \<in> set xs. relative_text (path_str p) \<and> 0 \<le> node_mode n"
  shows "check_entries (map (entry_at cr) xs) files bytes =
    Inr (files + int (length (filter (\<lambda>pn. entry_kind_of_node (snd pn) = FILE) xs)),
         bytes + (\<Sum>pn\<leftarrow>xs. node_size (snd pn)))"
  using assms(2)
proof (induction xs arbitrary: files bytes)
  case (Cons pn xs)
  obtain p n where pn: "pn = (p, n)" by fastforce
  have "check_entry (entry_at cr pn) = Inr ()"
    using Cons.prems check_entry_of_node [OF assms(1)] by (simp add: pn entry_at_def)
  moreover have "e_kind (snd (entry_at cr pn)) = entry_kind_of_node n"
    "e_size (snd (entry_at cr pn)) = node_size n"
    by (simp_all add: pn entry_at_def entry_of_node_def)
  ultimately show ?case using Cons by (simp add: pn node_size_not_file)
qed simp

text \<open>
  C16. Every manifest a scan returns passes \<^verbatim>\<open>verify_manifest\<close>, with the scanned root as the expected
  one. Relied on: SHA-256 gives 64 lower-case hexadecimal digits, and modes are not negative.
\<close>

theorem scanned_manifest_verifies:
  assumes "wf_node t" and "scan_tree cr lim root (Some t) = Inr m"
    and "sha256_hex cr" and "\<forall>p \<in> set (m_entries m). 0 \<le> e_mode (snd p)"
    and "path_of (path_str root) = root"
  shows "verify_manifest cr resolve m (Some root) = Inr ()"
proof -
  have "\<forall>(p, n) \<in> set (scan_listing (l_excluded lim) t). relative_text (path_str p) \<and> 0 \<le> node_mode n"
    using scan_tree_Inr(7) [OF assms(1,2)] assms(4)
    by (auto simp: list_all_iff good_visit_def scan_tree_Inr(2) [OF assms(1,2)] entry_at_def
        entry_of_node_def)
  from check_entries_scanned [OF assms(3) this, of 0 0] show ?thesis
    using assms(5) by (simp add: verify_manifest_def scan_tree_Inr [OF assms(1,2)])
qed

theorem scanned_manifest_verifies_witness:
  "verify_manifest sample_crypto (\<lambda>p. p) sample_manifest (Some [''/'', ''w'']) = Inr ()"
proof (rule scanned_manifest_verifies [OF sample_wf sample_scan sample_hex])
  show "\<forall>p \<in> set (m_entries sample_manifest). 0 \<le> e_mode (snd p)"
    by (simp add: sample_manifest_def entry_at_def entry_of_node_def)
  show "path_of (path_str [''/'', ''w'']) = [''/'', ''w'']" by code_simp
qed

subsection \<open>What the digest of a manifest determines\<close>

text \<open>
  A collision among texts the code did hash: two different ones, from the two given sets, with
  one digest.
\<close>

definition sha256_collision :: "crypto \<Rightarrow> string set \<Rightarrow> string set \<Rightarrow> bool" where
  "sha256_collision cr X Y \<longleftrightarrow> (\<exists>x \<in> X. \<exists>y \<in> Y. x \<noteq> y \<and> sha256 cr x = sha256 cr y)"

lemma sha256_inject:
  "sha256 cr x = sha256 cr y \<Longrightarrow> x \<in> X \<Longrightarrow> y \<in> Y \<Longrightarrow> x = y \<or> sha256_collision cr X Y"
  by (auto simp: sha256_collision_def)

lemma sha256_collision_mono:
  "sha256_collision cr X Y \<Longrightarrow> X \<subseteq> X' \<Longrightarrow> Y \<subseteq> Y' \<Longrightarrow> sha256_collision cr X' Y'"
  unfolding sha256_collision_def by blast

definition manifest_text :: "(string \<times> manifest_entry) list \<Rightarrow> string" where
  "manifest_text es = canonical_json (JList (map (\<lambda>p. entry_to_dict (snd p)) (sort_key fst es)))"

fun hashed_text :: "node \<Rightarrow> string option" where
  "hashed_text (FileN _ _ content) = Some content"
| "hashed_text (LinkN _ _ target) = Some (utf8_encode target)"
| "hashed_text (DirN _ _ _) = None"
| "hashed_text (SpecialN _ _ st_mode rdev) = Some (''special:'' @ int_str st_mode @ '':'' @ int_str rdev)"

definition tree_texts :: "string list \<Rightarrow> node \<Rightarrow> string set" where
  "tree_texts ex t = {x. \<exists>p n. p \<noteq> [] \<and> hd p \<notin> set ex \<and> get p t = Some n \<and> hashed_text n = Some x}"

lemma tree_textsI:
  "get p t = Some n \<Longrightarrow> p \<noteq> [] \<Longrightarrow> hd p \<notin> set ex \<Longrightarrow> set_option (hashed_text n) \<subseteq> tree_texts ex t"
  unfolding tree_texts_def by (cases "hashed_text n") auto

lemma manifest_digest_entries:
  assumes "manifest_digest cr es = manifest_digest cr es'"
  shows "map snd (sort_key fst es) = map snd (sort_key fst es')
    \<or> sha256_collision cr {manifest_text es} {manifest_text es'}"
proof (cases "sha256_collision cr {manifest_text es} {manifest_text es'}")
  case False
  then have c: "canonical_json (JList (map entry_to_dict (map snd (sort_key fst es)))) =
      canonical_json (JList (map entry_to_dict (map snd (sort_key fst es'))))"
    using assms sha256_inject [of cr "manifest_text es" "manifest_text es'" "{manifest_text es}" "{manifest_text es'}"]
    by (simp add: manifest_digest_def manifest_text_def comp_def)
  have ok: "json_ok (JList (map entry_to_dict xs))" for xs
    by (rule entry_codec.list_ok) simp
  have "sort_keys (JList (map entry_to_dict (map snd (sort_key fst es)))) =
      sort_keys (JList (map entry_to_dict (map snd (sort_key fst es'))))"
    by (rule canonical_json_inject [OF ok ok c])
  then have "map sort_keys (map entry_to_dict (map snd (sort_key fst es))) =
      map sort_keys (map entry_to_dict (map snd (sort_key fst es')))"
    by (simp only: sort_keys.simps json.inject)
  from entry_codec.list_inject [OF _ _ this] show ?thesis by simp
qed simp

text \<open>Every entry carries its own key\<close>

definition keyed :: "(string \<times> manifest_entry) list \<Rightarrow> bool" where
  "keyed es \<longleftrightarrow> distinct (map fst es) \<and> (\<forall>p \<in> set es. e_path (snd p) = fst p)"

lemma keyed_eqI:
  assumes "keyed es" "keyed es'" "map snd (sort_key fst es) = map snd (sort_key fst es')"
  shows "map_of es = map_of es'"
proof -
  have "sort_key fst xs = map (\<lambda>e. (e_path e, e)) (map snd (sort_key fst xs))" if "keyed xs"
    for xs :: "(string \<times> manifest_entry) list"
    using that by (fastforce simp: keyed_def comp_def intro!: sym [OF map_idI])
  then have "sort_key fst es = sort_key fst es'" using assms by metis
  then show ?thesis using assms(1,2) by (metis keyed_def map_of_sort_key)
qed

lemma scan_keyed:
  assumes "wf_node t" "scan_tree cr lim root (Some t) = Inr m"
  shows "keyed (m_entries m)"
  using scan_keys_distinct [OF assms]
  by (auto simp: keyed_def scan_tree_Inr(2) [OF assms] entry_at_def entry_of_node_def)

lemma check_entries_keyed: "check_entries es f b = Inr r \<Longrightarrow> p \<in> set es \<Longrightarrow> e_path (snd p) = fst p"
  by (induction es arbitrary: f b)
    (auto simp: bindE_Inr_iff check_entry_def Let_def split: if_splits)

lemma verify_keyed:
  "verify_manifest cr resolve m r = Inr () \<Longrightarrow> distinct (map fst (m_entries m)) \<Longrightarrow> keyed (m_entries m)"
  by (auto simp: verify_manifest_def keyed_def bindE_Inr_iff dest: check_entries_keyed split: if_splits)

text \<open>A node without its device and without what is below it\<close>

fun label :: "node \<Rightarrow> node" where
  "label (FileN _ m c) = FileN 0 m c"
| "label (LinkN _ m t) = LinkN 0 m t"
| "label (SpecialN _ m s r) = SpecialN 0 m s r"
| "label (DirN _ m _) = DirN 0 m []"

lemma nat_str_inject: "nat_str m = nat_str n \<longleftrightarrow> m = n"
  by (metis digits_val_nat_str)

lemma nat_str_no_sign: "nat_str m \<noteq> CHR ''-'' # s"
proof
  assume "nat_str m = CHR ''-'' # s"
  then have "is_digit (CHR ''-'')" using nat_str_digits [of "CHR ''-''" m] by simp
  then show False by (simp add: is_digit_def)
qed

lemma int_str_inject: "int_str i = int_str j \<longleftrightarrow> i = j"
  using nat_str_no_sign nat_str_no_sign [THEN not_sym]
  by (auto simp: int_str_def nat_str_inject)

lemma int_str_no_colon: "CHR '':'' \<notin> set (int_str i)"
  using nat_str_digits [of "CHR '':''"] by (auto simp: int_str_def is_digit_def)

lemma special_text_inject:
  "int_str a @ CHR '':'' # int_str b = int_str a' @ CHR '':'' # int_str b' \<longleftrightarrow> a = a' \<and> b = b'" (is "?L = ?R")
proof
  assume ?L
  then have "split_on (CHR '':'') (int_str a @ CHR '':'' # int_str b) =
      split_on (CHR '':'') (int_str a' @ CHR '':'' # int_str b')" by simp
  then have "[int_str a, int_str b] = [int_str a', int_str b']"
    by (simp add: split_append int_str_no_colon split_no_sep)
  then show ?R by (simp add: int_str_inject)
qed simp

lemma entry_label:
  assumes "entry_of_node cr key n = entry_of_node cr key n'"
  shows "label n = label n' \<or> sha256_collision cr (set_option (hashed_text n)) (set_option (hashed_text n'))"
  using assms
  by (cases n; cases n')
    (auto simp: entry_of_node_def special_text_inject sha256_collision_def)

text \<open>
  C17. Two trees scanned to the same digest have the same nodes at every path below an included
  top-level name (kind, permission bits, content, link target), or two of the texts the two
  scans hashed collide under SHA-256.
\<close>

theorem scan_digest_binds_tree:
  assumes "wf_node t" and "scan_tree cr lim root (Some t) = Inr m"
    and "wf_node t'" and "scan_tree cr lim' root' (Some t') = Inr m'"
    and "l_excluded lim' = l_excluded lim" and "m_digest m = m_digest m'"
    and "p \<noteq> []" and "hd p \<notin> set (l_excluded lim)"
  shows "map_option label (get p t) = map_option label (get p t')
    \<or> sha256_collision cr (insert (manifest_text (m_entries m)) (tree_texts (l_excluded lim) t))
        (insert (manifest_text (m_entries m')) (tree_texts (l_excluded lim) t'))"
proof (rule disjCI)
  let ?T = "tree_texts (l_excluded lim)"
  assume nc: "\<not> sha256_collision cr (insert (manifest_text (m_entries m)) (?T t)) (insert (manifest_text (m_entries m')) (?T t'))"
  have c1: "\<not> sha256_collision cr {manifest_text (m_entries m)} {manifest_text (m_entries m')}"
    and c2: "\<not> sha256_collision cr (?T t) (?T t')"
    using nc by (auto simp: sha256_collision_def)
  then have c3: "\<not> sha256_collision cr (?T t') (?T t)" by (force simp: sha256_collision_def)
  have "manifest_digest cr (m_entries m) = manifest_digest cr (m_entries m')"
    using assms(6) scan_tree_Inr(4) [OF assms(1,2)] scan_tree_Inr(4) [OF assms(3,4)] by simp
  then have eq: "map_of (m_entries m) = map_of (m_entries m')"
    using c1 manifest_digest_entries keyed_eqI scan_keyed [OF assms(1,2)] scan_keyed [OF assms(3,4)]
    by blast
  have half: "map_option label (get p u) = map_option label (get p u')"
    if g: "get p u = Some n" and u: "wf_node u" "wf_node u'" and nu: "\<not> sha256_collision cr (?T u) (?T u')"
      and e: "map_of (map (entry_at cr) (scan_listing (l_excluded lim) u)) =
        map_of (map (entry_at cr) (scan_listing (l_excluded lim) u'))" for n u u'
  proof -
    have "map_of (map (entry_at cr) (scan_listing (l_excluded lim) u)) (path_str p) =
        Some (entry_of_node cr (path_str p) n)"
      unfolding map_of_map_entry [OF u(1)] using g assms(7,8) by blast
    then obtain q n' where q: "path_str p = path_str q" "q \<noteq> []" "get q u' = Some n'"
      "entry_of_node cr (path_str p) n = entry_of_node cr (path_str p) n'"
      unfolding e map_of_map_entry [OF u(2)] by blast
    have "p = q"
      using q assms(7) get_wf [OF u(1) g] get_wf [OF u(2) q(3)] is_name_component
      by (subst (asm) path_str_inject) auto
    with q(3) have q': "get p u' = Some n'" by simp
    have "\<not> sha256_collision cr (set_option (hashed_text n)) (set_option (hashed_text n'))"
      using nu sha256_collision_mono tree_textsI [OF g assms(7,8)] tree_textsI [OF q' assms(7,8)] by blast
    then show ?thesis using g q' entry_label [OF q(4)] by simp
  qed
  have e: "map_of (map (entry_at cr) (scan_listing (l_excluded lim) t)) =
      map_of (map (entry_at cr) (scan_listing (l_excluded lim) t'))"
    using eq assms(5) by (simp add: scan_tree_Inr(2) [OF assms(1,2)] scan_tree_Inr(2) [OF assms(3,4)])
  show "map_option label (get p t) = map_option label (get p t')"
  proof (cases "get p t")
    case None
    then show ?thesis
      using half [OF _ assms(3,1) c3 e [symmetric]] by (cases "get p t'") auto
  next
    case (Some n)
    from half [OF this assms(1,3) c2 e] show ?thesis by simp
  qed
qed

text \<open>The instance in which hashing is the identity: no two texts collide.\<close>

definition plain_crypto :: crypto where
  "plain_crypto = \<lparr>sha256 = \<lambda>x. x, hmac = \<lambda>k x. k @ x\<rparr>"

lemma plain_crypto_no_collision [simp]: "\<not> sha256_collision plain_crypto X Y"
  by (simp add: sha256_collision_def plain_crypto_def)

definition scanned :: "crypto \<Rightarrow> scan_limits \<Rightarrow> path \<Rightarrow> node \<Rightarrow> tree_manifest" where
  "scanned cr lim root t = (case scan_tree cr lim root (Some t) of Inr m \<Rightarrow> m | Inl _ \<Rightarrow> sample_manifest)"

text \<open>The sample tree after a copy to another device\<close>

definition moved_tree :: node where
  "moved_tree = DirN 2 493
     [(''a'', DirN 2 493 [(''x'', FileN 2 420 ''hello'')]), (''b'', LinkN 2 511 ''a/x'')]"

lemma moved_wf: "wf_node moved_tree"
  by (auto simp: moved_tree_def is_name_def is_component_def)

lemma plain_scans:
  "scan_tree plain_crypto sample_limits [''/'', ''w''] (Some sample_tree)
    = Inr (scanned plain_crypto sample_limits [''/'', ''w''] sample_tree)"
  "scan_tree plain_crypto sample_limits [''/'', ''v''] (Some moved_tree)
    = Inr (scanned plain_crypto sample_limits [''/'', ''v''] moved_tree)"
  by code_simp+

theorem scan_digest_binds_tree_witness:
  "m_root (scanned plain_crypto sample_limits [''/'', ''w''] sample_tree) \<noteq>
     m_root (scanned plain_crypto sample_limits [''/'', ''v''] moved_tree) \<and>
   map_option label (get [''a'', ''x''] sample_tree) = map_option label (get [''a'', ''x''] moved_tree)"
proof -
  have d: "m_digest (scanned plain_crypto sample_limits [''/'', ''w''] sample_tree) =
      m_digest (scanned plain_crypto sample_limits [''/'', ''v''] moved_tree)"
    "m_root (scanned plain_crypto sample_limits [''/'', ''w''] sample_tree) \<noteq>
      m_root (scanned plain_crypto sample_limits [''/'', ''v''] moved_tree)"
    by code_simp+
  have "map_option label (get [''a'', ''x''] sample_tree) = map_option label (get [''a'', ''x''] moved_tree)"
    using scan_digest_binds_tree [OF sample_wf plain_scans(1) moved_wf plain_scans(2) refl d(1), of "[''a'', ''x'']"]
    by (simp add: sample_limits_def)
  with d(2) show ?thesis by simp
qed

end
