(* ===== verification/DiffFacts.thy ===== *)
theory DiffFacts
  imports ManifestFacts
begin

text \<open>
  The difference of two manifests and its operation roots: the difference lists exactly the
  paths at which the manifests differ, in order, with the right kind of change, and replacing
  the subtrees at the operation roots turns the first tree into the second.
\<close>

subsection \<open>The difference\<close>

lemma change_at_Some_iff:
  "change_at p old new = Some c \<longleftrightarrow>
    c_path c = p \<and> c_before c = old \<and> c_after c = new \<and>
    (case old of
       None \<Rightarrow> new \<noteq> None \<and> c_kind c = ADD
     | Some o' \<Rightarrow> (case new of
         None \<Rightarrow> c_kind c = DELETE
       | Some n' \<Rightarrow>
           if e_kind o' \<noteq> e_kind n' then c_kind c = TYPE_CHANGE
           else entry_changed o' n' \<and> c_kind c = MODIFY))"
  by (cases c) (auto simp: change_at_def split: option.splits)

lemma map_filter_set: "set (List.map_filter f xs) = {y. \<exists>x \<in> set xs. f x = Some y}"
  by (induction xs) (auto simp: List.map_filter_simps split: option.splits)

lemma diff_mem_iff:
  "c \<in> set (diff_manifests b a) \<longleftrightarrow>
    change_at (c_path c) (map_of (m_entries b) (c_path c)) (map_of (m_entries a) (c_path c)) = Some c"
proof
  assume "c \<in> set (diff_manifests b a)"
  then obtain p where "change_at p (map_of (m_entries b) p) (map_of (m_entries a) p) = Some c"
    by (auto simp: diff_manifests_def map_filter_set)
  moreover from this have "c_path c = p" by (simp add: change_at_Some_iff)
  ultimately show "change_at (c_path c) (map_of (m_entries b) (c_path c)) (map_of (m_entries a) (c_path c)) = Some c"
    by simp
next
  assume c: "change_at (c_path c) (map_of (m_entries b) (c_path c)) (map_of (m_entries a) (c_path c)) = Some c"
  then have "map_of (m_entries b) (c_path c) \<noteq> None \<or> map_of (m_entries a) (c_path c) \<noteq> None"
    by (auto simp: change_at_def split: option.splits)
  then have "c_path c \<in> set (all_paths b a)"
    by (auto simp: all_paths_def map_of_eq_None_iff)
  with c show "c \<in> set (diff_manifests b a)"
    by (auto simp: diff_manifests_def map_filter_set)
qed

lemma map_filter_sorted:
  assumes "\<And>x y. f x = Some y \<Longrightarrow> g y = x" "sorted_wrt (<) xs"
  shows "sorted_wrt (<) (map g (List.map_filter f xs))"
  using assms(2)
proof (induction xs)
  case (Cons x xs)
  have "\<forall>y \<in> set (List.map_filter f xs). g y \<in> set xs"
    using assms(1) by (auto simp: map_filter_set)
  with Cons assms(1) show ?case by (auto simp: List.map_filter_simps split: option.splits)
qed (simp add: List.map_filter_simps)

lemma diff_sorted: "sorted_wrt (<) (map c_path (diff_manifests b a))"
  unfolding diff_manifests_def
proof (rule map_filter_sorted)
  show "sorted_wrt (<) (all_paths b a)" by (simp add: all_paths_def strict_sorted_iff)
qed (simp add: change_at_Some_iff)

text \<open>What the check of a manifest says of its directory entries\<close>

definition plain_dirs :: "(string \<times> manifest_entry) list \<Rightarrow> bool" where
  "plain_dirs es \<longleftrightarrow> (\<forall>p \<in> set es. e_kind (snd p) = DIRECTORY \<longrightarrow>
     e_size (snd p) = 0 \<and> e_digest (snd p) = '''' \<and> e_link (snd p) = None)"

lemma check_entry_plain:
  "check_entry p = Inr r \<Longrightarrow> e_kind (snd p) = DIRECTORY \<Longrightarrow>
    e_size (snd p) = 0 \<and> e_digest (snd p) = '''' \<and> e_link (snd p) = None"
  by (auto simp: check_entry_def Let_def bindE_Inr_iff rewrap_Inr_iff split: if_splits)

lemma check_entries_plain: "check_entries es f b = Inr r \<Longrightarrow> plain_dirs es"
proof (induction es arbitrary: f b)
  case (Cons p es)
  from Cons.prems have e: "check_entry p = Inr ()"
    and r: "(if e_kind (snd p) = FILE then check_entries es (f + 1) (b + e_size (snd p))
      else check_entries es f b) = Inr r"
    by (simp_all only: check_entries.simps bindE_Inr_iff) auto
  from r have "plain_dirs es" by (cases "e_kind (snd p) = FILE") (auto intro: Cons.IH)
  then show ?case using check_entry_plain [OF e] by (simp add: plain_dirs_def)
qed (simp add: plain_dirs_def)

lemma verify_plain: "verify_manifest cr resolve m r = Inr () \<Longrightarrow> plain_dirs (m_entries m)"
  by (auto simp: verify_manifest_def bindE_Inr_iff dest: check_entries_plain split: if_splits)

lemma entry_changed_iff:
  assumes "keyed es" "keyed es'" "plain_dirs es" "plain_dirs es'"
    and "map_of es p = Some e" "map_of es' p = Some e'" "e_kind e = e_kind e'"
  shows "entry_changed e e' \<longleftrightarrow> e \<noteq> e'"
proof -
  have m: "(p, e) \<in> set es" "(p, e') \<in> set es'"
    using assms(5,6) by (auto dest: map_of_SomeD)
  have path: "e_path e = p" "e_path e' = p"
    using assms(1,2) m by (auto simp: keyed_def)
  have dir: "e_size e = e_size e' \<and> e_digest e = e_digest e' \<and> e_link e = e_link e'"
    if k: "e_kind e = DIRECTORY"
  proof -
    have "e_size e = 0 \<and> e_digest e = '''' \<and> e_link e = None"
      using bspec [OF assms(3) [unfolded plain_dirs_def] m(1)] k by simp
    moreover have "e_size e' = 0 \<and> e_digest e' = '''' \<and> e_link e' = None"
      using bspec [OF assms(4) [unfolded plain_dirs_def] m(2)] k assms(7) by simp
    ultimately show ?thesis by simp
  qed
  have "e = e'" if c: "\<not> entry_changed e e'"
  proof (rule manifest_entry.equality)
    have "e_mode e = e_mode e' \<and> e_size e = e_size e' \<and> e_digest e = e_digest e' \<and> e_link e = e_link e'"
      using c dir by (cases "e_kind e = DIRECTORY") (simp_all add: entry_changed_def)
    then show "e_mode e = e_mode e'" "e_size e = e_size e'" "e_digest e = e_digest e'" "e_link e = e_link e'"
      by simp_all
  qed (simp_all add: path assms(7))
  moreover have "\<not> entry_changed e e" for e by (simp add: entry_changed_def)
  ultimately show ?thesis by blast
qed

lemma diff_paths:
  assumes "keyed (m_entries b)" "keyed (m_entries a)" "plain_dirs (m_entries b)" "plain_dirs (m_entries a)"
  shows "p \<in> c_path ` set (diff_manifests b a) \<longleftrightarrow> map_of (m_entries b) p \<noteq> map_of (m_entries a) p"
proof -
  have "p \<in> c_path ` set (diff_manifests b a) \<longleftrightarrow>
      change_at p (map_of (m_entries b) p) (map_of (m_entries a) p) \<noteq> None"
  proof
    assume "p \<in> c_path ` set (diff_manifests b a)"
    then show "change_at p (map_of (m_entries b) p) (map_of (m_entries a) p) \<noteq> None"
      by (auto simp: diff_mem_iff)
  next
    assume "change_at p (map_of (m_entries b) p) (map_of (m_entries a) p) \<noteq> None"
    then obtain c where c: "change_at p (map_of (m_entries b) p) (map_of (m_entries a) p) = Some c" by blast
    then have "c_path c = p" by (simp add: change_at_Some_iff)
    with c show "p \<in> c_path ` set (diff_manifests b a)" by (force simp: diff_mem_iff)
  qed
  also have "\<dots> \<longleftrightarrow> map_of (m_entries b) p \<noteq> map_of (m_entries a) p"
    using entry_changed_iff [OF assms, of p]
    by (cases "map_of (m_entries b) p"; cases "map_of (m_entries a) p") (auto simp: change_at_def)
  finally show ?thesis .
qed

text \<open>
  C18. For two manifests that pass \<^verbatim>\<open>verify_manifest\<close>, \<^verbatim>\<open>diff_manifests\<close> lists each path at which
  they differ once, in order, and no other path; each change carries both entries, and its
  kind is the right one of the four.
\<close>

theorem diff_manifests_exact:
  assumes "verify_manifest cr resolve b rb = Inr ()" and "verify_manifest cr resolve a ra = Inr ()"
    and "distinct (map fst (m_entries b))" and "distinct (map fst (m_entries a))"
  shows "sorted_wrt (<) (map c_path (diff_manifests b a)) \<and>
    (\<forall>p. p \<in> c_path ` set (diff_manifests b a) \<longleftrightarrow> map_of (m_entries b) p \<noteq> map_of (m_entries a) p) \<and>
    (\<forall>c \<in> set (diff_manifests b a).
       c_before c = map_of (m_entries b) (c_path c) \<and> c_after c = map_of (m_entries a) (c_path c) \<and>
       (c_kind c = ADD \<longleftrightarrow> c_before c = None) \<and> (c_kind c = DELETE \<longleftrightarrow> c_after c = None) \<and>
       (c_kind c = TYPE_CHANGE \<longleftrightarrow> (\<exists>e e'. c_before c = Some e \<and> c_after c = Some e' \<and> e_kind e \<noteq> e_kind e')))"
proof (intro conjI allI ballI)
  show "sorted_wrt (<) (map c_path (diff_manifests b a))" by (rule diff_sorted)
  fix p
  show "p \<in> c_path ` set (diff_manifests b a) \<longleftrightarrow> map_of (m_entries b) p \<noteq> map_of (m_entries a) p"
    using assms by (intro diff_paths) (simp_all add: verify_keyed verify_plain)
next
  fix c assume "c \<in> set (diff_manifests b a)"
  then have c: "change_at (c_path c) (map_of (m_entries b) (c_path c)) (map_of (m_entries a) (c_path c)) = Some c"
    by (simp add: diff_mem_iff)
  then show "c_before c = map_of (m_entries b) (c_path c)" "c_after c = map_of (m_entries a) (c_path c)"
    by (simp_all add: change_at_Some_iff)
  show "c_kind c = ADD \<longleftrightarrow> c_before c = None" "c_kind c = DELETE \<longleftrightarrow> c_after c = None"
    "c_kind c = TYPE_CHANGE \<longleftrightarrow> (\<exists>e e'. c_before c = Some e \<and> c_after c = Some e' \<and> e_kind e \<noteq> e_kind e')"
    using c by (auto simp: change_at_Some_iff split: option.splits if_splits)
qed

definition empty_manifest :: tree_manifest where
  "empty_manifest = \<lparr>m_root = ''/w'', m_entries = [], m_digest = replicate 64 (CHR ''a''),
     m_total_files = 0, m_total_bytes = 0\<rparr>"

theorem diff_manifests_exact_witness:
  "map c_path (diff_manifests empty_manifest sample_manifest) = [''a'', ''a/x'', ''b''] \<and>
   list_all (\<lambda>c. c_before c = map_of (m_entries empty_manifest) (c_path c))
     (diff_manifests empty_manifest sample_manifest)"
proof -
  have v: "verify_manifest sample_crypto (\<lambda>p. p) empty_manifest None = Inr ()"
    "verify_manifest sample_crypto (\<lambda>p. p) sample_manifest None = Inr ()"
    by code_simp+
  have d: "distinct (map fst (m_entries empty_manifest))" "distinct (map fst (m_entries sample_manifest))"
    by code_simp+
  have p: "map c_path (diff_manifests empty_manifest sample_manifest) = [''a'', ''a/x'', ''b'']"
    by code_simp
  show ?thesis using p diff_manifests_exact [OF v d] unfolding list_all_iff by blast
qed

subsection \<open>Operation roots\<close>

definition covering :: "change \<Rightarrow> bool" where
  "covering c \<longleftrightarrow> before_is_directory c \<or> after_is_directory c"

lemma take_prefix: "take (length p) xs = p \<longleftrightarrow> prefix p xs"
  by (metis append_eq_conv_conj prefix_def take_is_prefix)

text \<open>No selected change lies below another one that covers its subtree.\<close>

definition no_cover :: "change list \<Rightarrow> bool" where
  "no_cover cs \<longleftrightarrow> (\<forall>r \<in> set cs. \<forall>c \<in> set cs. covering r \<longrightarrow> prefix (parts r) (parts c) \<longrightarrow> r = c)"

lemma select_roots_correct:
  assumes "sorted_wrt (\<lambda>c c'. length (parts c) \<le> length (parts c')) (sel @ cs)"
    and "distinct (map parts (sel @ cs))" and "no_cover sel"
  shows "no_cover (select_roots cs sel (map parts (filter covering sel))) \<and>
    set sel \<subseteq> set (select_roots cs sel (map parts (filter covering sel))) \<and>
    set (select_roots cs sel (map parts (filter covering sel))) \<subseteq> set sel \<union> set cs \<and>
    distinct (map parts (select_roots cs sel (map parts (filter covering sel)))) \<and>
    (\<forall>c \<in> set cs. c \<in> set (select_roots cs sel (map parts (filter covering sel))) \<or>
      (\<exists>r \<in> set (select_roots cs sel (map parts (filter covering sel))).
         covering r \<and> prefix (parts r) (parts c)))"
  using assms
proof (induction cs arbitrary: sel)
  case (Cons c cs)
  let ?sp = "map parts (filter covering sel)"
  show ?case
  proof (cases "\<exists>p \<in> set ?sp. take (length p) (parts c) = p")
    case True
    then have "\<exists>r \<in> set sel. covering r \<and> prefix (parts r) (parts c)" by (auto simp: take_prefix)
    moreover have "sorted_wrt (\<lambda>c c'. length (parts c) \<le> length (parts c')) (sel @ cs)"
      "distinct (map parts (sel @ cs))"
      using Cons.prems by (auto simp: sorted_wrt_append)
    note Cons.IH [OF this Cons.prems(3)]
    ultimately show ?thesis using True by auto
  next
    case False
    have sp: "(if before_is_directory c \<or> after_is_directory c then ?sp @ [parts c] else ?sp) =
        map parts (filter covering (sel @ [c]))"
      by (simp add: covering_def)
    have nc: "no_cover (sel @ [c])"
    proof -
      have "r = d" if "r \<in> set (sel @ [c])" "d \<in> set (sel @ [c])" "covering r" "prefix (parts r) (parts d)" for r d
      proof (cases "r = c")
        case True
        show ?thesis
        proof (cases "d = c")
          case False
          then have d: "d \<in> set sel" using that by simp
          then have "length (parts d) \<le> length (parts c)"
            using Cons.prems(1) by (auto simp: sorted_wrt_append)
          then have "parts d = parts c"
            using that(4) True by (auto simp: prefix_def)
          moreover have "parts d \<in> parts ` set sel" using d by blast
          ultimately show ?thesis using Cons.prems(2) by simp
        qed (simp add: True)
      next
        case False
        then have r: "r \<in> set sel" using that by simp
        show ?thesis
        proof (cases "d = c")
          case True
          have "\<exists>p \<in> set ?sp. take (length p) (parts c) = p"
            using r that True by (force simp: take_prefix)
          with \<open>\<not> (\<exists>p \<in> set ?sp. take (length p) (parts c) = p)\<close> show ?thesis by blast
        next
          case False
          then show ?thesis using r that Cons.prems(3) by (auto simp: no_cover_def)
        qed
      qed
      then show ?thesis by (auto simp: no_cover_def)
    qed
    from False have "select_roots (c # cs) sel ?sp =
        select_roots cs (sel @ [c]) (map parts (filter covering (sel @ [c])))"
      by (simp only: select_roots.simps if_False sp)
    moreover have "sorted_wrt (\<lambda>c c'. length (parts c) \<le> length (parts c')) ((sel @ [c]) @ cs)"
      "distinct (map parts ((sel @ [c]) @ cs))"
      using Cons.prems by simp_all
    note Cons.IH [OF this nc]
    ultimately show ?thesis by auto
  qed
qed simp

lemma operation_roots_correct:
  assumes "distinct (map parts cs)"
  shows "no_cover (operation_roots cs)" "set (operation_roots cs) \<subseteq> set cs"
    "distinct (map parts (operation_roots cs))"
    "c \<in> set cs \<Longrightarrow> c \<in> set (operation_roots cs) \<or>
      (\<exists>r \<in> set (operation_roots cs). covering r \<and> prefix (parts r) (parts c))"
proof -
  let ?cs = "sort_key (\<lambda>c. (length (parts c), c_path c)) cs"
  have "sorted (map (\<lambda>c. (length (parts c), c_path c)) ?cs)" by simp
  then have s: "sorted_wrt (\<lambda>c c'. length (parts c) \<le> length (parts c')) ([] @ ?cs)"
    unfolding sorted_map append_Nil by (rule sorted_wrt_mono_rel [rotated]) auto
  have "mset (map parts ?cs) = mset (map parts cs)" by simp
  then have d: "distinct (map parts ([] @ ?cs))" using assms by (metis append_Nil mset_eq_imp_distinct_iff)
  have n: "no_cover []" by (simp add: no_cover_def)
  note c = select_roots_correct [OF s d n, simplified, folded operation_roots_def]
  show "no_cover (operation_roots cs)" "set (operation_roots cs) \<subseteq> set cs"
    "distinct (map parts (operation_roots cs))"
    "c \<in> set cs \<Longrightarrow> c \<in> set (operation_roots cs) \<or>
      (\<exists>r \<in> set (operation_roots cs). covering r \<and> prefix (parts r) (parts c))"
    using c by auto
qed

text \<open>
  \<^verbatim>\<open>operation_roots\<close> selects changes of the list, at distinct paths, so that every change is
  selected or lies below a selected one that replaces a whole tree, and none that is selected
  lies below such a one.
\<close>

theorem operation_roots_cover:
  assumes "distinct (map parts cs)"
  shows "set (operation_roots cs) \<subseteq> set cs \<and>
    (\<forall>c \<in> set cs. c \<in> set (operation_roots cs) \<or>
      (\<exists>r \<in> set (operation_roots cs). (before_is_directory r \<or> after_is_directory r)
         \<and> prefix (parts r) (parts c))) \<and>
    (\<forall>r \<in> set (operation_roots cs). \<forall>c \<in> set (operation_roots cs).
       before_is_directory r \<or> after_is_directory r \<longrightarrow> \<not> strict_prefix (parts r) (parts c))"
proof (intro conjI ballI impI)
  show "set (operation_roots cs) \<subseteq> set cs" by (rule operation_roots_correct [OF assms])
  show "c \<in> set (operation_roots cs) \<or>
      (\<exists>r \<in> set (operation_roots cs). (before_is_directory r \<or> after_is_directory r) \<and> prefix (parts r) (parts c))"
    if "c \<in> set cs" for c
    using operation_roots_correct(4) [OF assms that] by (simp add: covering_def)
  show "\<not> strict_prefix (parts r) (parts c)"
    if "r \<in> set (operation_roots cs)" "c \<in> set (operation_roots cs)"
      "before_is_directory r \<or> after_is_directory r" for r c
    using operation_roots_correct(1) [OF assms] that by (auto simp: no_cover_def covering_def strict_prefix_def)
qed

theorem operation_roots_cover_witness:
  "distinct (map parts (diff_manifests empty_manifest sample_manifest)) \<and>
   map c_path (operation_roots (diff_manifests empty_manifest sample_manifest)) = [''a'', ''b''] \<and>
   set (operation_roots (diff_manifests empty_manifest sample_manifest))
     \<subseteq> set (diff_manifests empty_manifest sample_manifest)"
proof -
  have d: "distinct (map parts (diff_manifests empty_manifest sample_manifest))" by code_simp
  have p: "map c_path (operation_roots (diff_manifests empty_manifest sample_manifest)) = [''a'', ''b'']"
    by code_simp
  show ?thesis using d p operation_roots_cover [OF d] by blast
qed

subsection \<open>Replacing the subtrees at the roots\<close>

text \<open>The names under which the broker keeps its own data are not part of a scan.\<close>

definition included :: "string list \<Rightarrow> path \<Rightarrow> bool" where
  "included ex p \<longleftrightarrow> p \<noteq> [] \<and> hd p \<notin> set ex"

text \<open>Two trees that agree at every included path\<close>

definition same_tree :: "string list \<Rightarrow> node \<Rightarrow> node \<Rightarrow> bool" where
  "same_tree ex t u \<longleftrightarrow> (\<forall>p. included ex p \<longrightarrow> map_option label (get p t) = map_option label (get p u))"

definition apply_root :: "node \<Rightarrow> path \<Rightarrow> node \<Rightarrow> node" where
  "apply_root s p t = upd p (get p s) t"

definition replay :: "node \<Rightarrow> path list \<Rightarrow> node \<Rightarrow> node" where
  "replay s ps t = fold (apply_root s) ps t"

text \<open>What the roots of the difference between two trees satisfy\<close>

definition good_roots :: "string list \<Rightarrow> node \<Rightarrow> node \<Rightarrow> path list \<Rightarrow> bool" where
  "good_roots ex b s ps \<longleftrightarrow>
     (\<forall>p \<in> set ps. included ex p \<and> (\<forall>a \<in> set p. is_name a) \<and>
        dir_at (butlast p) b \<and> dir_at (butlast p) s) \<and>
     pairwise parallel (set ps) \<and> distinct ps \<and>
     (\<forall>p. included ex p \<longrightarrow> (\<forall>r \<in> set ps. \<not> prefix r p) \<longrightarrow>
        map_option label (get p b) = map_option label (get p s))"

lemma label_upd: "p \<noteq> [] \<Longrightarrow> label (upd p x t) = label t"
  by (induction p x t rule: upd.induct) (auto split: option.splits)

lemma label_get_upd:
  assumes "wf_node t" "\<not> prefix r p"
  shows "map_option label (get p (upd r x t)) = map_option label (get p t)"
proof (cases "prefix p r")
  case True
  then obtain q where q: "r = p @ q" "q \<noteq> []" using assms(2) by (auto elim: prefixE)
  show ?thesis
  proof (cases "get p t")
    case None
    with q upd_missing [OF None assms(1) q(2)] show ?thesis by simp
  next
    case (Some n)
    then show ?thesis using get_upd_above [OF Some assms(1) q(2), of x] q label_upd by simp
  qed
next
  case False
  then show ?thesis using assms get_upd_other [of r p] by (simp add: parallel_def)
qed

lemma parallel_butlast: "p \<parallel> q \<Longrightarrow> \<not> prefix p (butlast q)"
  by (metis parallelD1 prefix_order.dual_order.trans prefixeq_butlast)

lemma apply_root_good:
  assumes "wf_node b" "wf_node s" "good_roots ex b s (r # ps)"
  shows "wf_node (apply_root s r b)" "good_roots ex (apply_root s r b) s ps"
    "get r (apply_root s r b) = get r s"
proof -
  from assms(3) have r: "r \<noteq> []" "\<forall>a \<in> set r. is_name a" "dir_at (butlast r) b"
    and others: "\<And>p. p \<in> set ps \<Longrightarrow> r \<parallel> p"
    by (auto simp: good_roots_def included_def pairwise_def)
  show wf: "wf_node (apply_root s r b)"
    unfolding apply_root_def using assms(1) r by (intro wf_upd) (use assms(2) get_wf in blast)+
  show "get r (apply_root s r b) = get r s"
    unfolding apply_root_def by (rule get_upd_same [OF assms(1) r(3,1)])
  have dirs: "dir_at (butlast p) (apply_root s r b)" if "p \<in> set ps" for p
    unfolding apply_root_def using assms(1) parallel_butlast [OF others [OF that]]
    by (rule_tac dir_at_upd) (use assms(3) that in \<open>auto simp: good_roots_def\<close>)
  have labels: "map_option label (get p (apply_root s r b)) = map_option label (get p s)"
    if p: "included ex p" "\<forall>q \<in> set ps. \<not> prefix q p" for p
  proof (cases "prefix r p")
    case True
    then obtain q where "p = r @ q" by (auto elim: prefixE)
    then show ?thesis
      unfolding apply_root_def get_upd_below [OF assms(1) r(3,1), of q "get r s"]
      by (simp add: get_append get_upd_below [OF assms(1) r(3,1)] get_upd_same [OF assms(1) r(3,1)])
  next
    case False
    then have "map_option label (get p (apply_root s r b)) = map_option label (get p b)"
      unfolding apply_root_def by (rule label_get_upd [OF assms(1)])
    also have "\<dots> = map_option label (get p s)"
      using assms(3) p False by (auto simp: good_roots_def)
    finally show ?thesis .
  qed
  show "good_roots ex (apply_root s r b) s ps"
    unfolding good_roots_def
  proof (intro conjI ballI allI impI)
    show "pairwise parallel (set ps)" "distinct ps"
      using assms(3) by (auto simp: good_roots_def pairwise_def)
  qed (use assms(3) dirs labels in \<open>auto simp: good_roots_def\<close>)
qed

lemma replay_same_tree:
  "wf_node b \<Longrightarrow> wf_node s \<Longrightarrow> good_roots ex b s ps \<Longrightarrow> same_tree ex (replay s ps b) s \<and> wf_node (replay s ps b)"
proof (induction ps arbitrary: b)
  case Nil
  then show ?case by (simp add: replay_def same_tree_def good_roots_def)
next
  case (Cons r ps)
  show ?case
    using Cons.IH [OF apply_root_good(1) [OF Cons.prems] Cons.prems(2) apply_root_good(2) [OF Cons.prems]]
    by (simp add: replay_def)
qed

subsection \<open>The roots of the difference of two scans\<close>

lemma entry_kind_is_dir: "e_kind (entry_of_node cr k n) = DIRECTORY \<longleftrightarrow> is_dir n"
  by (cases n) (simp_all add: entry_of_node_def)

lemma label_is_dir: "label n = label n' \<Longrightarrow> is_dir n = is_dir n'"
  by (cases n; cases n') simp_all

lemma dir_at_label: "map_option label (get p t) = map_option label (get p u) \<Longrightarrow> dir_at p t = dir_at p u"
  by (cases "get p t"; cases "get p u") (auto simp: dir_at_def dest: label_is_dir)

text \<open>The tree a manifest was scanned from\<close>

definition scan_of :: "crypto \<Rightarrow> string list \<Rightarrow> node \<Rightarrow> tree_manifest \<Rightarrow> bool" where
  "scan_of cr ex t m \<longleftrightarrow> wf_node t \<and> is_dir t \<and> m_entries m = map (entry_at cr) (scan_listing ex t)"

lemma scan_ofI: "wf_node t \<Longrightarrow> scan_tree cr lim root (Some t) = Inr m \<Longrightarrow> scan_of cr (l_excluded lim) t m"
  using scan_tree_Inr [of t cr lim root m] by (simp add: scan_of_def)

lemma entry_lookup:
  assumes "scan_of cr ex t m" "included ex p" "\<forall>a \<in> set p. is_name a"
  shows "map_of (m_entries m) (path_str p) = map_option (entry_of_node cr (path_str p)) (get p t)"
proof -
  have t: "wf_node t" and m: "m_entries m = map (entry_at cr) (scan_listing ex t)"
    using assms(1) by (simp_all add: scan_of_def)
  have iff: "map_of (m_entries m) (path_str p) = Some e \<longleftrightarrow>
      (\<exists>n. get p t = Some n \<and> e = entry_of_node cr (path_str p) n)" for e
  proof
    assume "map_of (m_entries m) (path_str p) = Some e"
    then obtain q n where q: "path_str p = path_str q" "q \<noteq> []" "get q t = Some n"
        "e = entry_of_node cr (path_str p) n"
      unfolding m map_of_map_entry [OF t] by blast
    have "p = q" using q assms get_wf [OF t q(3)] is_name_component
      by (subst (asm) path_str_inject) (auto simp: included_def)
    with q show "\<exists>n. get p t = Some n \<and> e = entry_of_node cr (path_str p) n" by blast
  next
    assume "\<exists>n. get p t = Some n \<and> e = entry_of_node cr (path_str p) n"
    then show "map_of (m_entries m) (path_str p) = Some e"
      unfolding m map_of_map_entry [OF t] using assms(2) by (auto simp: included_def)
  qed
  show ?thesis
    by (cases "get p t"; cases "map_of (m_entries m) (path_str p)") (use iff in auto)
qed

lemma scan_keys:
  assumes "scan_of cr ex t m" "map_of (m_entries m) k \<noteq> None"
  shows "\<exists>p. k = path_str p \<and> included ex p \<and> (\<forall>a \<in> set p. is_name a)"
proof -
  have t: "wf_node t" and m: "m_entries m = map (entry_at cr) (scan_listing ex t)"
    using assms(1) by (simp_all add: scan_of_def)
  from assms(2) obtain e where "map_of (m_entries m) k = Some e" by blast
  then show ?thesis
    unfolding m map_of_map_entry [OF t] using get_wf [OF t] by (auto simp: included_def)
qed

lemma scan_of_keyed: "scan_of cr ex t m \<Longrightarrow> keyed (m_entries m)"
  using scan_listing_distinct [of t ex]
  by (auto simp: keyed_def scan_of_def entry_at_def entry_of_node_def comp_def)

lemma entry_of_dir: "e_kind (entry_of_node cr k n) = DIRECTORY \<Longrightarrow>
    e_size (entry_of_node cr k n) = 0 \<and> e_digest (entry_of_node cr k n) = [] \<and> e_link (entry_of_node cr k n) = None"
  by (cases n) (simp_all add: entry_of_node_def)

lemma scan_of_plain: "scan_of cr ex t m \<Longrightarrow> plain_dirs (m_entries m)"
  by (auto simp: plain_dirs_def scan_of_def entry_at_def dest: entry_of_dir)

text \<open>A change between two scans sits at a path of one of the trees.\<close>

lemma diff_change:
  assumes "scan_of cr ex b mb" "scan_of cr ex s ms" "c \<in> set (diff_manifests mb ms)"
  shows "c_path c = path_str (parts c) \<and> included ex (parts c) \<and> (\<forall>a \<in> set (parts c). is_name a) \<and>
    c_before c = map_option (entry_of_node cr (c_path c)) (get (parts c) b) \<and>
    c_after c = map_option (entry_of_node cr (c_path c)) (get (parts c) s) \<and>
    (get (parts c) b \<noteq> None \<or> get (parts c) s \<noteq> None)"
proof -
  have c: "change_at (c_path c) (map_of (m_entries mb) (c_path c)) (map_of (m_entries ms) (c_path c)) = Some c"
    using assms(3) by (simp add: diff_mem_iff)
  then have ex: "map_of (m_entries mb) (c_path c) \<noteq> None \<or> map_of (m_entries ms) (c_path c) \<noteq> None"
    by (auto simp: change_at_def split: option.splits)
  then obtain p where p: "c_path c = path_str p" "included ex p" "\<forall>a \<in> set p. is_name a"
    using scan_keys [OF assms(1)] scan_keys [OF assms(2)] by blast
  have pc: "parts c = p"
    using p is_name_component by (simp add: parts_def path_of_path_str included_def)
  show ?thesis
    using c ex p entry_lookup [OF assms(1) p(2,3)] entry_lookup [OF assms(2) p(2,3)]
    by (auto simp: pc change_at_Some_iff)
qed

lemma diff_parts_distinct:
  assumes "scan_of cr ex b mb" "scan_of cr ex s ms"
  shows "distinct (map parts (diff_manifests mb ms))"
proof -
  have "map c_path (diff_manifests mb ms) = map path_str (map parts (diff_manifests mb ms))"
    using diff_change [OF assms] by simp
  moreover have "distinct (map c_path (diff_manifests mb ms))"
    using diff_sorted sorted_wrt_less_distinct by blast
  ultimately show ?thesis by (metis distinct_map)
qed

lemma diff_covering:
  assumes "scan_of cr ex b mb" "scan_of cr ex s ms" "c \<in> set (diff_manifests mb ms)"
  shows "covering c \<longleftrightarrow> dir_at (parts c) b \<or> dir_at (parts c) s"
  using diff_change [OF assms]
  by (auto simp: covering_def before_is_directory_def after_is_directory_def dir_at_def
      entry_kind_is_dir split: option.splits)

text \<open>Where nothing changed, the labels agree.\<close>

lemma unchanged_entry:
  assumes "scan_of cr ex b mb" "scan_of cr ex s ms"
    and "included ex p" "\<forall>a \<in> set p. is_name a" "\<forall>c \<in> set (diff_manifests mb ms). parts c \<noteq> p"
  shows "map_option (entry_of_node cr (path_str p)) (get p b) = map_option (entry_of_node cr (path_str p)) (get p s)"
proof -
  have "path_str p \<notin> c_path ` set (diff_manifests mb ms)"
  proof
    assume "path_str p \<in> c_path ` set (diff_manifests mb ms)"
    then obtain c where c: "c \<in> set (diff_manifests mb ms)" "path_str p = c_path c" by blast
    then have "parts c = p"
      using assms(3,4) is_name_component by (simp add: parts_def path_of_path_str included_def flip: c(2))
    with c assms(5) show False by blast
  qed
  then have "map_of (m_entries mb) (path_str p) = map_of (m_entries ms) (path_str p)"
    using diff_paths [of mb ms] assms(1,2) by (auto simp: scan_of_keyed scan_of_plain)
  then show ?thesis
    unfolding entry_lookup [OF assms(1,3,4)] entry_lookup [OF assms(2,3,4)] .
qed

text \<open>A node replaced by another of the same manifest entry: possible only where two of the hashed texts collide\<close>

definition hidden_change :: "crypto \<Rightarrow> string list \<Rightarrow> node \<Rightarrow> node \<Rightarrow> bool" where
  "hidden_change cr ex t u \<longleftrightarrow> (\<exists>p n n'. included ex p \<and> get p t = Some n \<and> get p u = Some n' \<and>
     entry_of_node cr (path_str p) n = entry_of_node cr (path_str p) n' \<and> label n \<noteq> label n')"

lemma hidden_change_collision:
  assumes "hidden_change cr ex t u" shows "sha256_collision cr (tree_texts ex t) (tree_texts ex u)"
proof -
  obtain p n n' where p: "p \<noteq> []" "hd p \<notin> set ex" "get p t = Some n" "get p u = Some n'"
    "entry_of_node cr (path_str p) n = entry_of_node cr (path_str p) n'" "label n \<noteq> label n'"
    using assms unfolding hidden_change_def included_def by blast
  have "sha256_collision cr (set_option (hashed_text n)) (set_option (hashed_text n'))" using entry_label [OF p(5)] p(6) by simp
  then show ?thesis by (rule sha256_collision_mono [OF _ tree_textsI [OF p(3,1,2)] tree_textsI [OF p(4,1,2)]])
qed

lemma unchanged_label:
  assumes "scan_of cr ex b mb" "scan_of cr ex s ms" "\<not> hidden_change cr ex b s"
    and "included ex p" "\<forall>a \<in> set p. is_name a" "\<forall>c \<in> set (diff_manifests mb ms). parts c \<noteq> p"
  shows "map_option label (get p b) = map_option label (get p s)"
proof -
  have lab: "label n = label n'"
    if "get p b = Some n" "get p s = Some n'" and "entry_of_node cr (path_str p) n = entry_of_node cr (path_str p) n'"
    for n n'
    using assms(3,4) that unfolding hidden_change_def by blast
  show ?thesis
    using unchanged_entry [OF assms(1,2,4-6)]
    by (cases "get p b"; cases "get p s") (auto dest!: lab)
qed

lemma dir_at_butlast: "get p t \<noteq> None \<Longrightarrow> p \<noteq> [] \<Longrightarrow> dir_at (butlast p) t"
  using get_prefix_dir [of "butlast p" "last p" "[]" t] by simp

lemma strict_prefix_butlast: "p \<noteq> [] \<Longrightarrow> strict_prefix (butlast p) p"
  by (metis append_butlast_last_id prefix_def not_Cons_self2 self_append_conv strict_prefix_def)

lemma dir_at_entry:
  "map_option (entry_of_node cr k) (get p t) = map_option (entry_of_node cr k) (get p u) \<Longrightarrow> dir_at p t = dir_at p u"
  by (cases "get p t"; cases "get p u") (auto simp: dir_at_def simp flip: entry_kind_is_dir [of cr k])

text \<open>
  The roots lie in directories of both trees and none lies below another, whatever the hash is.
\<close>

lemma diff_roots_shape:
  assumes b: "scan_of cr ex b mb" and s: "scan_of cr ex s ms"
  shows "c \<in> set (operation_roots (diff_manifests mb ms)) \<Longrightarrow>
      dir_at (butlast (parts c)) b \<and> dir_at (butlast (parts c)) s"
    and "r \<in> set (operation_roots (diff_manifests mb ms)) \<Longrightarrow> c \<in> set (operation_roots (diff_manifests mb ms)) \<Longrightarrow>
      parts r \<noteq> parts c \<Longrightarrow> parts r \<parallel> parts c"
proof -
  let ?cs = "diff_manifests mb ms"
  let ?R = "operation_roots ?cs"
  note roots = operation_roots_correct [OF diff_parts_distinct [OF b s]]
  have ch: "c \<in> set ?R \<Longrightarrow> c \<in> set ?cs" for c using roots(2) by blast
  have above: False if "r \<in> set ?R" "c \<in> set ?R" "strict_prefix (parts r) (parts c)" for r c
  proof -
    from that(3) obtain x q where q: "parts c = parts r @ x # q" by (rule strict_prefixE')
    have "dir_at (parts r) b \<or> dir_at (parts r) s"
      using diff_change [OF b s ch [OF that(2)]] get_prefix_dir [of "parts r" x q] unfolding q by blast
    then have "covering r" using diff_covering [OF b s ch [OF that(1)]] by simp
    with roots(1) that have "r = c" by (auto simp: no_cover_def)
    with that(3) show False by simp
  qed
  show "parts r \<parallel> parts c" if "r \<in> set ?R" "c \<in> set ?R" "parts r \<noteq> parts c" for r c
    using above [OF that(1,2)] above [OF that(2,1)] that(3) by (auto simp: parallel_def strict_prefix_def)
  show "dir_at (butlast (parts c)) b \<and> dir_at (butlast (parts c)) s" if c: "c \<in> set ?R" for c
  proof -
    note cc = diff_change [OF b s ch [OF c]]
    then have ne: "parts c \<noteq> []" by (simp add: included_def)
    show ?thesis
    proof (cases "butlast (parts c) = []")
      case True
      then show ?thesis using b s by (simp add: scan_of_def dir_at_def)
    next
      case False
      have "hd (butlast (parts c)) = hd (parts c)"
        using False by (metis append_butlast_last_id butlast.simps(1) hd_append2)
      then have p: "included ex (butlast (parts c))" "\<forall>a \<in> set (butlast (parts c)). is_name a"
        using cc False by (auto simp: included_def dest: in_set_butlastD)
      have "parts r \<noteq> butlast (parts c)" if r: "r \<in> set ?cs" for r
      proof
        assume e: "parts r = butlast (parts c)"
        then have "strict_prefix (parts r) (parts c)" using strict_prefix_butlast [OF ne] by simp
        then obtain r' where "r' \<in> set ?R" "strict_prefix (parts r') (parts c)"
          using roots(4) [OF r] by (metis prefix_order.le_less_trans)
        then show False using above c by blast
      qed
      then have "dir_at (butlast (parts c)) b = dir_at (butlast (parts c)) s"
        by (intro dir_at_entry [OF unchanged_entry [OF b s p]]) blast
      moreover have "dir_at (butlast (parts c)) b \<or> dir_at (butlast (parts c)) s"
        using cc ne dir_at_butlast by blast
      ultimately show ?thesis by blast
    qed
  qed
qed

lemma diff_good_roots:
  assumes b: "scan_of cr ex b mb" and s: "scan_of cr ex s ms"
    and nc: "\<not> hidden_change cr ex b s"
  shows "good_roots ex b s (map parts (operation_roots (diff_manifests mb ms)))"
proof -
  let ?cs = "diff_manifests mb ms"
  let ?R = "operation_roots ?cs"
  note roots = operation_roots_correct [OF diff_parts_distinct [OF b s]]
  note shape = diff_roots_shape [OF b s]
  have ch: "c \<in> set ?R \<Longrightarrow> c \<in> set ?cs" for c using roots(2) by blast
  have labels: "map_option label (get p b) = map_option label (get p s)"
    if p: "included ex p" "\<forall>r \<in> set ?R. \<not> prefix (parts r) p" for p
  proof (cases "get p b = None \<and> get p s = None")
    case False
    then have "\<forall>a \<in> set p. is_name a" using get_wf b s by (auto simp: scan_of_def)
    moreover have "\<forall>c \<in> set ?cs. parts c \<noteq> p" using roots(4) p(2) by blast
    ultimately show ?thesis using unchanged_label [OF b s nc p(1)] by blast
  qed simp
  show ?thesis
    unfolding good_roots_def
  proof (intro conjI ballI allI impI)
    fix p assume "p \<in> set (map parts ?R)"
    then obtain c where c: "c \<in> set ?R" "p = parts c" by auto
    show "included ex p" "dir_at (butlast p) b" "dir_at (butlast p) s"
      using c shape(1) [OF c(1)] diff_change [OF b s ch [OF c(1)]] by simp_all
    fix a assume "a \<in> set p"
    then show "is_name a" using c diff_change [OF b s ch [OF c(1)]] by blast
  next
    show "pairwise parallel (set (map parts ?R))" using shape(2) by (auto simp: pairwise_def)
    show "distinct (map parts ?R)" by (rule roots(3))
  next
    fix p assume "included ex p" "\<forall>r \<in> set (map parts ?R). \<not> prefix r p"
    then show "map_option label (get p b) = map_option label (get p s)" using labels by auto
  qed
qed

text \<open>
  C19. The operation roots are enough: replacing, in the real tree, the subtree at each operation root
  of the difference by the subtree of the staged tree gives a tree with the staged nodes at
  every included path, or two of the texts hashed in the two trees collide under SHA-256.
\<close>

theorem operation_roots_replay:
  assumes "wf_node b" and "scan_tree cr lim root (Some b) = Inr mb"
    and "wf_node s" and "scan_tree cr lim root' (Some s) = Inr ms"
  shows "same_tree (l_excluded lim) (replay s (map parts (operation_roots (diff_manifests mb ms))) b) s
    \<or> sha256_collision cr (tree_texts (l_excluded lim) b) (tree_texts (l_excluded lim) s)"
  using replay_same_tree [OF assms(1,3)] diff_good_roots hidden_change_collision
    scan_ofI [OF assms(1,2)] scan_ofI [OF assms(3,4)] by blast

definition sample_staged :: node where
  "sample_staged = DirN 1 493 [(''a'', FileN 1 420 ''now a file''), (''c'', DirN 1 493 [(''d'', FileN 1 420 ''new'')])]"

lemma sample_staged_wf: "wf_node sample_staged"
  by (auto simp: sample_staged_def is_name_def is_component_def)

lemma plain_staged_scan:
  "scan_tree plain_crypto sample_limits [''/'', ''s''] (Some sample_staged)
    = Inr (scanned plain_crypto sample_limits [''/'', ''s''] sample_staged)"
  by code_simp

definition sample_roots :: "string list list" where
  "sample_roots = map parts (operation_roots (diff_manifests
     (scanned plain_crypto sample_limits [''/'', ''w''] sample_tree)
     (scanned plain_crypto sample_limits [''/'', ''s''] sample_staged)))"

theorem operation_roots_replay_witness:
  "sample_roots = [[''a''], [''b''], [''c'']] \<and>
   same_tree (l_excluded sample_limits) (replay sample_staged sample_roots sample_tree) sample_staged"
proof -
  have "sample_roots = [[''a''], [''b''], [''c'']]" by code_simp
  then show ?thesis
    using operation_roots_replay [OF sample_wf plain_scans(1) sample_staged_wf plain_staged_scan]
    by (simp add: sample_roots_def)
qed

subsection \<open>The roots against a declarative selection\<close>

text \<open>What the loop computes with its list of covered directories, said at once: the changes below no
directory change of the list, the shortest paths first\<close>

definition reference_roots :: "change list \<Rightarrow> change list" where
  "reference_roots cs =
     filter (\<lambda>c. \<not> (\<exists>d \<in> set cs. (before_is_directory d \<or> after_is_directory d) \<and> strict_prefix (parts d) (parts c)))
       (sort_key (\<lambda>c. (length (parts c), c_path c)) cs)"

lemma select_roots_filter:
  assumes "sorted_wrt (\<lambda>c c'. length (parts c) \<le> length (parts c')) (xs @ cs)" "distinct (map parts (xs @ cs))"
    and "\<And>c. (\<exists>p \<in> set ps. prefix p (parts c)) \<longleftrightarrow> (\<exists>d \<in> set xs. covering d \<and> prefix (parts d) (parts c))"
  shows "select_roots cs sel ps =
    sel @ filter (\<lambda>c. \<not> (\<exists>d \<in> set (xs @ cs). covering d \<and> strict_prefix (parts d) (parts c))) cs"
  using assms
proof (induction cs arbitrary: sel ps xs)
  case (Cons c cs)
  have later: "\<not> strict_prefix (parts d) (parts c)" if "d \<in> set (c # cs)" for d
    using Cons.prems(1) that prefix_length_less [of "parts d" "parts c"] by (auto simp: sorted_wrt_append)
  have iff: "(\<exists>p \<in> set ps. take (length p) (parts c) = p) \<longleftrightarrow>
      (\<exists>d \<in> set (xs @ c # cs). covering d \<and> strict_prefix (parts d) (parts c))"
  proof -
    have "parts d \<noteq> parts c" if "d \<in> set xs" for d
      using Cons.prems(2) imageI [OF that, of parts] by auto
    then have "(\<exists>d \<in> set xs. covering d \<and> prefix (parts d) (parts c)) \<longleftrightarrow>
        (\<exists>d \<in> set (xs @ c # cs). covering d \<and> strict_prefix (parts d) (parts c))"
      using later by (auto simp: strict_prefix_def)
    then show ?thesis by (simp only: take_prefix Cons.prems(3))
  qed
  have s: "sorted_wrt (\<lambda>c c'. length (parts c) \<le> length (parts c')) ((xs @ [c]) @ cs)" "distinct (map parts ((xs @ [c]) @ cs))"
    using Cons.prems(1,2) by simp_all
  show ?case
  proof (cases "\<exists>p \<in> set ps. take (length p) (parts c) = p")
    case True
    then obtain d where d: "d \<in> set xs" "covering d" "prefix (parts d) (parts c)"
      using Cons.prems(3) by (auto simp: take_prefix)
    have "(\<exists>p \<in> set ps. prefix p (parts x)) \<longleftrightarrow> (\<exists>d \<in> set (xs @ [c]). covering d \<and> prefix (parts d) (parts x))" for x
      using Cons.prems(3) [of x] d prefix_order.trans by auto
    from Cons.IH [OF s this, of sel] show ?thesis
      using True iff by (simp only: select_roots.simps if_True append_assoc append_Cons append_Nil filter.simps simp_thms if_False)
  next
    case False
    let ?ps = "if before_is_directory c \<or> after_is_directory c then ps @ [parts c] else ps"
    have "(\<exists>p \<in> set ?ps. prefix p (parts x)) \<longleftrightarrow> (\<exists>d \<in> set (xs @ [c]). covering d \<and> prefix (parts d) (parts x))" for x
      using Cons.prems(3) [of x] by (auto simp: covering_def)
    from Cons.IH [OF s this, of "sel @ [c]"] show ?thesis
      using False iff by (simp only: select_roots.simps if_False append_assoc append_Cons append_Nil filter.simps simp_thms if_True)
  qed
qed simp

lemma sorted_lengths:
  "sorted_wrt (\<lambda>c c'. length (parts c) \<le> length (parts c')) (sort_key (\<lambda>c. (length (parts c), c_path c)) cs)"
proof (rule sorted_wrt_mono_rel)
  show "sorted_wrt (\<lambda>c c'. (length (parts c), c_path c) \<le> (length (parts c'), c_path c')) (sort_key (\<lambda>c. (length (parts c), c_path c)) cs)"
    using sorted_sort_key [of "\<lambda>c. (length (parts c), c_path c)" cs] unfolding sorted_map .
qed (simp add: less_eq_prod_def, linarith)

lemma distinct_sort_key: "distinct (map f xs) \<Longrightarrow> distinct (map f (sort_key g xs))"
  by (metis mset_eq_imp_distinct_iff mset_map mset_sort)

text \<open>
  C20. The one pass of \<^verbatim>\<open>operation_roots\<close>, which only compares a change with the directories it has
  already selected, returns the same list as the declarative selection that looks at all changes.
\<close>

theorem operation_roots_reference:
  assumes "distinct (map parts cs)"
  shows "operation_roots cs = reference_roots cs"
proof -
  let ?s = "sort_key (\<lambda>c. (length (parts c), c_path c)) cs"
  have "select_roots ?s [] [] = [] @ filter (\<lambda>c. \<not> (\<exists>d \<in> set ([] @ ?s). covering d \<and> strict_prefix (parts d) (parts c))) ?s"
    using sorted_lengths distinct_sort_key [OF assms] by (intro select_roots_filter) simp_all
  then show ?thesis unfolding operation_roots_def reference_roots_def covering_def append_Nil set_sort .
qed

theorem operation_roots_reference_witness:
  "operation_roots (diff_manifests empty_manifest sample_manifest) = reference_roots (diff_manifests empty_manifest sample_manifest)"
proof (rule operation_roots_reference)
  show "distinct (map parts (diff_manifests empty_manifest sample_manifest))" by code_simp
qed

end
