(* ===== verification/Policy.thy ===== *)
theory Policy
  imports DiffFacts
begin

unbundle bit_operations_syntax

text \<open>
  \<^verbatim>\<open>policy.py\<close>: the guard policy, its fingerprint, and the evaluation of a difference into a
  decision, findings and a summary. The loop over the changes is a fold over the variables it
  updates, one definition per check, in the order of the code.
\<close>

subsection \<open>The configuration\<close>

text \<open>
  A float of the configuration: its value \<open>m / 2 ^ k\<close>, which every finite double has, and the
  text \<^verbatim>\<open>repr\<close> gives it.
\<close>

record py_float =
  fl_num :: int
  fl_scale :: nat
  fl_repr :: string

record guard_policy =
  g_auto_add_max_entries :: int
  g_auto_add_max_bytes :: int
  g_max_total_changes :: int
  g_hard_delete_entries :: int
  g_hard_delete_fraction :: py_float
  g_mass_delete_min_baseline_entries :: int
  g_allow_mass_delete :: bool
  g_protected_top_level :: "string list"
  g_sensitive_names :: "string list"
  g_executable_suffixes :: "string list"
  g_policy_name :: string
  g_policy_version :: int

definition default_policy :: guard_policy where
  "default_policy = \<lparr>
     g_auto_add_max_entries = 200,
     g_auto_add_max_bytes = 20 * 1024 * 1024,
     g_max_total_changes = 20000,
     g_hard_delete_entries = 5000,
     g_hard_delete_fraction = \<lparr>fl_num = 1, fl_scale = 1, fl_repr = ''0.5''\<rparr>,
     g_mass_delete_min_baseline_entries = 20,
     g_allow_mass_delete = False,
     g_protected_top_level = [''.git'', ''.agent-workspace-guard''],
     g_sensitive_names = [''.env'', ''.env.local'', ''credentials'', ''credentials.json'', ''id_rsa'',
       ''id_ed25519'', ''secrets.json''],
     g_executable_suffixes = [''.bat'', ''.cmd'', ''.com'', ''.exe'', ''.ps1'', ''.sh''],
     g_policy_name = ''awg-default'',
     g_policy_version = 1\<rparr>"

text \<open>\<^verbatim>\<open>dataclasses.asdict(self)\<close>\<close>

definition policy_config :: "guard_policy \<Rightarrow> (string \<times> json) list" where
  "policy_config g =
     [(''auto_add_max_entries'', JInt (g_auto_add_max_entries g)),
      (''auto_add_max_bytes'', JInt (g_auto_add_max_bytes g)),
      (''max_total_changes'', JInt (g_max_total_changes g)),
      (''hard_delete_entries'', JInt (g_hard_delete_entries g)),
      (''hard_delete_fraction'', JFloat (fl_repr (g_hard_delete_fraction g))),
      (''mass_delete_min_baseline_entries'', JInt (g_mass_delete_min_baseline_entries g)),
      (''allow_mass_delete'', JBool (g_allow_mass_delete g)),
      (''protected_top_level'', JList (map JStr (g_protected_top_level g))),
      (''sensitive_names'', JList (map JStr (g_sensitive_names g))),
      (''executable_suffixes'', JList (map JStr (g_executable_suffixes g))),
      (''policy_name'', JStr (g_policy_name g)),
      (''policy_version'', JInt (g_policy_version g))]"

definition fingerprint :: "crypto \<Rightarrow> guard_policy \<Rightarrow> string" where
  "fingerprint cr g = digest_json cr
     (JObj [(''kind'', JStr ''guard_policy''), (''configuration'', JObj (policy_config g))])"

subsection \<open>Division of integers to a double\<close>

text \<open>
  \<^verbatim>\<open>a / b\<close> for integers that are not negative, correctly rounded (half to even) to 53 bits:
  the pair \<open>(m, k)\<close> stands for \<open>m / 2 ^ k\<close>. Right for a quotient below \<open>2 ^ 53\<close>, as every
  quotient of counts of entries is.
\<close>

function bit_len :: "int \<Rightarrow> nat" where
  "bit_len n = (if n \<le> 0 then 0 else Suc (bit_len (n div 2)))"
  by pat_completeness auto
termination by (relation "measure nat") auto

declare bit_len.simps [simp del]

definition round_half_even :: "int \<Rightarrow> int \<Rightarrow> int" where
  "round_half_even a b =
     (let q = a div b; r = a mod b in if b < 2 * r \<or> (2 * r = b \<and> odd q) then q + 1 else q)"

definition float_div :: "int \<Rightarrow> int \<Rightarrow> int \<times> nat" where
  "float_div a b =
     (if a = 0 then (0, 0)
      else let k = 53 + bit_len b - bit_len a;
               k' = (if 2 ^ 53 \<le> a * 2 ^ k div b then k - 1 else k)
           in (round_half_even (a * 2 ^ k') b, k'))"

definition float_ge :: "int \<times> nat \<Rightarrow> py_float \<Rightarrow> bool" where
  "float_ge x f \<longleftrightarrow> fl_num f * 2 ^ snd x \<le> fst x * 2 ^ fl_scale f"

text \<open>\<^verbatim>\<open>int((a / b) * 1_000_000)\<close>\<close>

definition fraction_ppm :: "int \<Rightarrow> int \<Rightarrow> int" where
  "fraction_ppm a b =
     (let x = float_div a b; y = float_div (fst x * 1000000) (2 ^ snd x)
      in fst y div 2 ^ snd y)"

subsection \<open>Symbolic links\<close>

fun walk_target :: "path \<Rightarrow> string list \<Rightarrow> path option" where
  "walk_target components [] = Some components"
| "walk_target components (c # cs) =
     (if c = '''' \<or> c = ''.'' then walk_target components cs
      else if c = ''..'' then (if components = [] then None else walk_target (butlast components) cs)
      else walk_target (components @ [c]) cs)"

definition unsafe_symlink_reason :: "string \<Rightarrow> string option \<Rightarrow> string list \<Rightarrow> string option" where
  "unsafe_symlink_reason link_path target protected_top_level =
     (let t = (case target of None \<Rightarrow> '''' | Some t \<Rightarrow> t) in
      if t = [] \<or> CHR 0x00 \<in> set t
      then Some ''empty or malformed symlink targets are not commit-capable''
      else if startswith t ''/'' \<or> startswith t [CHR 0x5C] \<or> windows_drive t \<noteq> []
      then Some ''absolute, drive-qualified, and UNC symlink targets are denied''
      else
        case walk_target (parent (path_of link_path)) (path_of (replace_char (CHR 0x5C) (CHR ''/'') t)) of
          None \<Rightarrow> Some ''symlink target escapes above the workspace root''
        | Some [] \<Rightarrow> None
        | Some (c # _) \<Rightarrow>
            if casefold c \<in> set (map casefold protected_top_level)
            then Some ''symlink target enters protected broker or VCS metadata'' else None)"

subsection \<open>Evaluation\<close>

text \<open>The variables the loop updates\<close>

record eval_state =
  v_findings :: "finding list"
  v_counts :: "change_kind \<Rightarrow> nat"
  v_added_bytes :: int
  v_replacement_bytes :: int
  v_removed_bytes :: int
  v_destructive :: bool
  v_hard_deny :: bool

definition eval_start :: eval_state where
  "eval_start = \<lparr>v_findings = [], v_counts = \<lambda>_. 0, v_added_bytes = 0, v_replacement_bytes = 0,
     v_removed_bytes = 0, v_destructive = False, v_hard_deny = False\<rparr>"

definition add_finding :: "string \<Rightarrow> string \<Rightarrow> string \<Rightarrow> string option \<Rightarrow> eval_state \<Rightarrow> eval_state" where
  "add_finding name severity text path st =
     st\<lparr>v_findings := v_findings st @
       [\<lparr>f_code = name, f_severity = severity, f_message = text, f_path = path\<rparr>]\<rparr>"

abbreviation deny :: "eval_state \<Rightarrow> eval_state" where
  "deny st \<equiv> st\<lparr>v_hard_deny := True\<rparr>"

abbreviation destroy :: "eval_state \<Rightarrow> eval_state" where
  "destroy st \<equiv> st\<lparr>v_destructive := True\<rparr>"

definition protected_names :: "guard_policy \<Rightarrow> string list" where
  "protected_names g = map casefold (g_protected_top_level g)"

definition is_kind :: "entry_kind \<Rightarrow> manifest_entry option \<Rightarrow> bool" where
  "is_kind k e = (case e of None \<Rightarrow> False | Some e \<Rightarrow> e_kind e = k)"

definition check_protected :: "guard_policy \<Rightarrow> string \<Rightarrow> change \<Rightarrow> eval_state \<Rightarrow> eval_state" where
  "check_protected g first c st =
     (if casefold first \<in> set (protected_names g)
      then add_finding ''protected_path_change'' ''error''
        (''broker metadata or VCS internals may not be committed: '' @ c_path c) (Some (c_path c)) (deny st)
      else st)"

definition count_bytes :: "change \<Rightarrow> eval_state \<Rightarrow> eval_state" where
  "count_bytes c st =
     (let size_of = (\<lambda>e. case e of None \<Rightarrow> 0 | Some e \<Rightarrow> e_size e) in
      st\<lparr>v_added_bytes := v_added_bytes st +
           (if c_kind c = ADD \<and> is_kind FILE (c_after c) then size_of (c_after c) else 0),
         v_replacement_bytes := v_replacement_bytes st +
           (if (c_kind c = MODIFY \<or> c_kind c = TYPE_CHANGE) \<and> is_kind FILE (c_after c)
            then size_of (c_after c) else 0),
         v_removed_bytes := v_removed_bytes st +
           (if (c_kind c = DELETE \<or> c_kind c = TYPE_CHANGE) \<and> is_kind FILE (c_before c)
            then size_of (c_before c) else 0)\<rparr>)"

definition check_destructive :: "change \<Rightarrow> eval_state \<Rightarrow> eval_state" where
  "check_destructive c st =
     (if c_kind c = MODIFY \<or> c_kind c = DELETE \<or> c_kind c = TYPE_CHANGE then destroy st else st)"

definition check_special :: "change \<Rightarrow> eval_state \<Rightarrow> eval_state" where
  "check_special c st =
     (if is_kind SPECIAL (case c_after c of None \<Rightarrow> c_before c | Some e \<Rightarrow> Some e)
      then add_finding ''special_file_change'' ''error''
        ''device nodes, sockets, and other special files are not commit-capable'' (Some (c_path c)) (deny st)
      else st)"

definition check_symlink :: "guard_policy \<Rightarrow> change \<Rightarrow> eval_state \<Rightarrow> eval_state" where
  "check_symlink g c st =
     (if is_kind SYMLINK (c_after c) \<and> c_kind c \<noteq> DELETE
      then
        case unsafe_symlink_reason (c_path c) (case c_after c of None \<Rightarrow> None | Some e \<Rightarrow> e_link e)
               (protected_names g) of
          Some reason \<Rightarrow> add_finding ''unsafe_symlink_target'' ''error'' reason (Some (c_path c)) (deny (destroy st))
        | None \<Rightarrow> add_finding ''symlink_change'' ''warning''
            ''new or changed in-workspace symlinks require explicit review'' (Some (c_path c)) (destroy st)
      else st)"

text \<open>The mask is \<^verbatim>\<open>0o111\<close>.\<close>

definition is_executable :: "guard_policy \<Rightarrow> change \<Rightarrow> bool" where
  "is_executable g c \<longleftrightarrow> c_kind c = ADD \<and> is_kind FILE (c_after c) \<and>
     ((case c_after c of None \<Rightarrow> 0 | Some e \<Rightarrow> e_mode e) AND 73 \<noteq> 0
      \<or> lower (path_suffix (path_of (c_path c))) \<in> set (g_executable_suffixes g))"

definition check_executable :: "guard_policy \<Rightarrow> change \<Rightarrow> eval_state \<Rightarrow> eval_state" where
  "check_executable g c st =
     (if is_executable g c
      then add_finding ''executable_file_added'' ''warning''
        ''new executable or script content requires explicit review'' (Some (c_path c)) (destroy st)
      else st)"

definition is_sensitive :: "guard_policy \<Rightarrow> change \<Rightarrow> bool" where
  "is_sensitive g c \<longleftrightarrow>
     (let name = lower (path_name (path_of (c_path c))) in
      name \<in> set (map lower (g_sensitive_names g)) \<or> startswith name ''.env.''
      \<or> endswith name ''.pem'' \<or> endswith name ''.key'' \<or> endswith name ''.p12'' \<or> endswith name ''.pfx'')"

definition check_sensitive :: "guard_policy \<Rightarrow> change \<Rightarrow> eval_state \<Rightarrow> eval_state" where
  "check_sensitive g c st =
     (if is_sensitive g c
      then add_finding ''sensitive_path_change'' ''warning''
        ''a credential- or secret-like path changed and requires review'' (Some (c_path c)) (destroy st)
      else st)"

definition eval_change :: "guard_policy \<Rightarrow> change \<Rightarrow> eval_state \<Rightarrow> eval_state result" where
  "eval_change g c st =
     (case path_of (c_path c) of
        [] \<Rightarrow> Inl (PyError ''IndexError'')
      | first # _ \<Rightarrow> Inr
          (check_sensitive g c (check_executable g c (check_symlink g c (check_special c
            (check_destructive c (count_bytes c (check_protected g first c
              (st\<lparr>v_counts := (v_counts st)(c_kind c := v_counts st (c_kind c) + 1)\<rparr>)))))))))"

fun eval_changes :: "guard_policy \<Rightarrow> change list \<Rightarrow> eval_state \<Rightarrow> eval_state result" where
  "eval_changes g [] st = Inr st"
| "eval_changes g (c # cs) st = bindE (eval_change g c st) (eval_changes g cs)"

definition is_mass_delete :: "guard_policy \<Rightarrow> nat \<Rightarrow> nat \<Rightarrow> bool" where
  "is_mass_delete g delete_count baseline_count \<longleftrightarrow>
     int baseline_count \<ge> g_mass_delete_min_baseline_entries g \<and> delete_count > 0 \<and>
     (int delete_count \<ge> g_hard_delete_entries g
      \<or> float_ge (float_div (int delete_count) (int baseline_count)) (g_hard_delete_fraction g))"

definition check_mass_delete :: "guard_policy \<Rightarrow> nat \<Rightarrow> eval_state \<Rightarrow> eval_state" where
  "check_mass_delete g baseline_count st =
     (if is_mass_delete g (v_counts st DELETE) baseline_count \<and> \<not> g_allow_mass_delete g
      then add_finding ''mass_deletion_denied'' ''error''
        (''plan deletes '' @ nat_str (v_counts st DELETE) @ '' of '' @ nat_str baseline_count
          @ '' tracked entries; a separate break-glass policy is required'') None (deny st)
      else st)"

text \<open>\<^verbatim>\<open>f"{n:,}"\<close> of an integer\<close>

definition int_commas :: "int \<Rightarrow> string" where
  "int_commas i = (if i < 0 then CHR ''-'' # commas (nat (- i)) else commas (nat i))"

definition check_change_budget :: "guard_policy \<Rightarrow> change list \<Rightarrow> eval_state \<Rightarrow> eval_state" where
  "check_change_budget g changes st =
     (if int (length changes) > g_max_total_changes g
      then add_finding ''change_budget_exceeded'' ''error''
        (''plan contains '' @ commas (length changes) @ '' changes, above the ''
          @ int_commas (g_max_total_changes g) @ '' hard limit'') None (deny st)
      else st)"

definition add_only :: "change list \<Rightarrow> bool" where
  "add_only changes \<longleftrightarrow> changes \<noteq> [] \<and> (\<forall>c \<in> set changes. c_kind c = ADD)"

definition check_add_budget :: "guard_policy \<Rightarrow> change list \<Rightarrow> eval_state \<Rightarrow> eval_state" where
  "check_add_budget g changes st =
     (if add_only changes \<and>
         (int (length changes) > g_auto_add_max_entries g \<or> v_added_bytes st > g_auto_add_max_bytes g)
      then add_finding ''automatic_add_budget_exceeded'' ''warning''
        ''large add-only plans require review before commit'' None (destroy st)
      else st)"

definition decide :: "eval_state \<Rightarrow> decision" where
  "decide st = (if v_hard_deny st then DENY else if v_destructive st then REQUIRE_APPROVAL else ALLOW)"

definition summary_of :: "tree_manifest \<Rightarrow> tree_manifest \<Rightarrow> change list \<Rightarrow> eval_state \<Rightarrow> (string \<times> int) list" where
  "summary_of baseline staged changes st =
     (let baseline_count = length (m_entries baseline) in
     [(''total_changes'', int (length changes)),
      (''added'', int (v_counts st ADD)),
      (''modified'', int (v_counts st MODIFY)),
      (''deleted'', int (v_counts st DELETE)),
      (''type_changed'', int (v_counts st TYPE_CHANGE)),
      (''added_bytes'', v_added_bytes st),
      (''replacement_bytes'', v_replacement_bytes st),
      (''removed_bytes'', v_removed_bytes st),
      (''baseline_entries'', int baseline_count),
      (''staged_entries'', int (length (m_entries staged))),
      (''delete_fraction_ppm'',
        (if baseline_count = 0 then 0 else fraction_ppm (int (v_counts st DELETE)) (int baseline_count)))])"

definition evaluate :: "guard_policy \<Rightarrow> tree_manifest \<Rightarrow> tree_manifest \<Rightarrow> change list
    \<Rightarrow> (decision \<times> finding list \<times> (string \<times> int) list) result" where
  "evaluate g baseline staged changes =
     bindE (eval_changes g changes eval_start) (\<lambda>st.
       let st' = check_add_budget g changes (check_change_budget g changes
             (check_mass_delete g (length (m_entries baseline)) st))
       in Inr (decide st', v_findings st', summary_of baseline staged changes st'))"

end
