(* ===== verification/PolicyFacts.thy ===== *)
theory PolicyFacts
  imports Policy
begin

text \<open>
  What the policy of \<^verbatim>\<open>policy.py\<close> decides: the decision against the findings, the exact
  condition for an automatic commit, the reach of an accepted symbolic link, the threshold
  of a mass deletion, the summary, and what the policy's fingerprint determines.
\<close>

named_theorems policy_checks \<open>the definitions of the checks of one change\<close>

lemmas [policy_checks] = check_protected_def count_bytes_def check_destructive_def check_special_def
  check_symlink_def check_executable_def check_sensitive_def add_finding_def Let_def

subsection \<open>What one change contributes\<close>

definition first_name :: "change \<Rightarrow> string" where
  "first_name c = hd (path_of (c_path c))"

definition symlink_reason :: "guard_policy \<Rightarrow> change \<Rightarrow> string option" where
  "symlink_reason g c =
     unsafe_symlink_reason (c_path c) (case c_after c of None \<Rightarrow> None | Some e \<Rightarrow> e_link e) (protected_names g)"

definition makes_symlink :: "change \<Rightarrow> bool" where
  "makes_symlink c \<longleftrightarrow> is_kind SYMLINK (c_after c) \<and> c_kind c \<noteq> DELETE"

definition touches_special :: "change \<Rightarrow> bool" where
  "touches_special c \<longleftrightarrow> is_kind SPECIAL (case c_after c of None \<Rightarrow> c_before c | Some e \<Rightarrow> Some e)"

definition denied_change :: "guard_policy \<Rightarrow> change \<Rightarrow> bool" where
  "denied_change g c \<longleftrightarrow> casefold (first_name c) \<in> set (protected_names g) \<or> touches_special c
     \<or> (makes_symlink c \<and> symlink_reason g c \<noteq> None)"

definition reviewed_change :: "guard_policy \<Rightarrow> change \<Rightarrow> bool" where
  "reviewed_change g c \<longleftrightarrow> c_kind c \<noteq> ADD \<or> makes_symlink c \<or> is_executable g c \<or> is_sensitive g c"

definition after_size :: "change \<Rightarrow> int" where
  "after_size c = (case c_after c of None \<Rightarrow> 0 | Some e \<Rightarrow> e_size e)"

definition added_size :: "change \<Rightarrow> int" where
  "added_size c = (if c_kind c = ADD \<and> is_kind FILE (c_after c) then after_size c else 0)"

lemma deny_fields:
  "v_hard_deny (check_protected g t c st) \<longleftrightarrow> v_hard_deny st \<or> casefold t \<in> set (protected_names g)"
  "v_hard_deny (count_bytes c st) \<longleftrightarrow> v_hard_deny st"
  "v_hard_deny (check_destructive c st) \<longleftrightarrow> v_hard_deny st"
  "v_hard_deny (check_special c st) \<longleftrightarrow> v_hard_deny st \<or> touches_special c"
  "v_hard_deny (check_symlink g c st) \<longleftrightarrow> v_hard_deny st \<or> (makes_symlink c \<and> symlink_reason g c \<noteq> None)"
  "v_hard_deny (check_executable g c st) \<longleftrightarrow> v_hard_deny st"
  "v_hard_deny (check_sensitive g c st) \<longleftrightarrow> v_hard_deny st"
  by (auto simp: policy_checks touches_special_def makes_symlink_def symlink_reason_def split: option.splits)

lemma destroy_fields:
  "v_destructive (check_protected g t c st) \<longleftrightarrow> v_destructive st"
  "v_destructive (count_bytes c st) \<longleftrightarrow> v_destructive st"
  "v_destructive (check_destructive c st) \<longleftrightarrow>
     v_destructive st \<or> (c_kind c = MODIFY \<or> c_kind c = DELETE \<or> c_kind c = TYPE_CHANGE)"
  "v_destructive (check_special c st) \<longleftrightarrow> v_destructive st"
  "v_destructive (check_symlink g c st) \<longleftrightarrow> v_destructive st \<or> makes_symlink c"
  "v_destructive (check_executable g c st) \<longleftrightarrow> v_destructive st \<or> is_executable g c"
  "v_destructive (check_sensitive g c st) \<longleftrightarrow> v_destructive st \<or> is_sensitive g c"
  by (auto simp: policy_checks makes_symlink_def split: option.splits)

lemma count_fields:
  "v_counts (check_protected g t c st) = v_counts st"
  "v_counts (count_bytes c st) = v_counts st"
  "v_counts (check_destructive c st) = v_counts st"
  "v_counts (check_special c st) = v_counts st"
  "v_counts (check_symlink g c st) = v_counts st"
  "v_counts (check_executable g c st) = v_counts st"
  "v_counts (check_sensitive g c st) = v_counts st"
  "v_added_bytes (check_protected g t c st) = v_added_bytes st"
  "v_added_bytes (count_bytes c st) = v_added_bytes st + added_size c"
  "v_added_bytes (check_destructive c st) = v_added_bytes st"
  "v_added_bytes (check_special c st) = v_added_bytes st"
  "v_added_bytes (check_symlink g c st) = v_added_bytes st"
  "v_added_bytes (check_executable g c st) = v_added_bytes st"
  "v_added_bytes (check_sensitive g c st) = v_added_bytes st"
  by (simp_all add: policy_checks added_size_def after_size_def split: option.split)

lemma eval_change_flags:
  assumes "eval_change g c st = Inr st'"
  shows "v_hard_deny st' \<longleftrightarrow> v_hard_deny st \<or> denied_change g c"
    "v_destructive st' \<longleftrightarrow> v_destructive st \<or> reviewed_change g c"
    "v_counts st' = (v_counts st)(c_kind c := v_counts st (c_kind c) + 1)"
    "v_added_bytes st' = v_added_bytes st + added_size c"
proof -
  obtain p ps where p: "path_of (c_path c) = p # ps"
    using assms by (cases "path_of (c_path c)") (auto simp: eval_change_def)
  then have f: "first_name c = p" by (simp add: first_name_def)
  have st': "st' = check_sensitive g c (check_executable g c (check_symlink g c (check_special c
            (check_destructive c (count_bytes c (check_protected g p c
              (st\<lparr>v_counts := (v_counts st)(c_kind c := v_counts st (c_kind c) + 1)\<rparr>)))))))"
    using assms p by (simp add: eval_change_def)
  have k: "(c_kind c = MODIFY \<or> c_kind c = DELETE \<or> c_kind c = TYPE_CHANGE) \<longleftrightarrow> c_kind c \<noteq> ADD"
    by (cases "c_kind c") auto
  show "v_hard_deny st' \<longleftrightarrow> v_hard_deny st \<or> denied_change g c"
    by (simp add: st' deny_fields denied_change_def f disj_ac)
  show "v_destructive st' \<longleftrightarrow> v_destructive st \<or> reviewed_change g c"
    by (simp only: st' destroy_fields k) (simp add: reviewed_change_def disj_ac)
  show "v_counts st' = (v_counts st)(c_kind c := v_counts st (c_kind c) + 1)"
    "v_added_bytes st' = v_added_bytes st + added_size c"
    by (simp_all add: st' count_fields)
qed

lemma eval_changes_flags:
  assumes "eval_changes g cs st = Inr st'"
  shows "v_hard_deny st' \<longleftrightarrow> v_hard_deny st \<or> (\<exists>c \<in> set cs. denied_change g c)"
    "v_destructive st' \<longleftrightarrow> v_destructive st \<or> (\<exists>c \<in> set cs. reviewed_change g c)"
    "v_counts st' k = v_counts st k + length (filter (\<lambda>c. c_kind c = k) cs)"
    "v_added_bytes st' = v_added_bytes st + sum_list (map added_size cs)"
  using assms
proof (induction cs arbitrary: st)
  case (Cons c cs)
  {
    case 1
    then obtain st1 where "eval_change g c st = Inr st1" "eval_changes g cs st1 = Inr st'"
      by (auto simp: bindE_Inr_iff)
    with Cons.IH(1) eval_change_flags(1) show ?case by fastforce
  next
    case 2
    then obtain st1 where "eval_change g c st = Inr st1" "eval_changes g cs st1 = Inr st'"
      by (auto simp: bindE_Inr_iff)
    with Cons.IH(2) eval_change_flags(2) show ?case by fastforce
  next
    case 3
    then obtain st1 where "eval_change g c st = Inr st1" "eval_changes g cs st1 = Inr st'"
      by (auto simp: bindE_Inr_iff)
    with Cons.IH(3) eval_change_flags(3) show ?case by fastforce
  next
    case 4
    then obtain st1 where "eval_change g c st = Inr st1" "eval_changes g cs st1 = Inr st'"
      by (auto simp: bindE_Inr_iff)
    with Cons.IH(4) eval_change_flags(4) show ?case by fastforce
  }
qed simp_all

lemma eval_changes_total:
  "\<forall>c \<in> set cs. path_of (c_path c) \<noteq> [] \<Longrightarrow> \<exists>st'. eval_changes g cs st = Inr st'"
  by (induction cs arbitrary: st) (auto simp: eval_change_def neq_Nil_conv)

subsection \<open>Denial and findings\<close>

definition has_error :: "finding list \<Rightarrow> bool" where
  "has_error fs \<longleftrightarrow> (\<exists>f \<in> set fs. f_severity f = ''error'')"

definition deny_inv :: "eval_state \<Rightarrow> bool" where
  "deny_inv st \<longleftrightarrow> (v_hard_deny st \<longleftrightarrow> has_error (v_findings st))"

lemma deny_inv_checks:
  assumes "deny_inv st"
  shows "deny_inv (check_protected g t c st)" "deny_inv (count_bytes c st)" "deny_inv (check_destructive c st)"
    "deny_inv (check_special c st)" "deny_inv (check_symlink g c st)" "deny_inv (check_executable g c st)"
    "deny_inv (check_sensitive g c st)" "deny_inv (check_mass_delete g n st)"
    "deny_inv (check_change_budget g cs st)" "deny_inv (check_add_budget g cs st)"
    "deny_inv (st\<lparr>v_counts := k\<rparr>)"
  using assms
  by (simp_all add: policy_checks check_mass_delete_def check_change_budget_def check_add_budget_def
      deny_inv_def has_error_def split: option.split)

lemma eval_changes_deny_inv:
  "eval_changes g cs st = Inr st' \<Longrightarrow> deny_inv st \<Longrightarrow> deny_inv st'"
proof (induction cs arbitrary: st)
  case (Cons c cs)
  then obtain st1 where s: "eval_change g c st = Inr st1" "eval_changes g cs st1 = Inr st'"
    by (auto simp: bindE_Inr_iff)
  have "deny_inv st1"
    using s(1) Cons.prems(2) by (auto simp: eval_change_def deny_inv_checks split: list.splits)
  with Cons.IH s(2) show ?case by blast
qed simp

lemma evaluate_state:
  assumes "evaluate g b s cs = Inr (d, fs, sm)"
  obtains st st' where "eval_changes g cs eval_start = Inr st"
    "st' = check_add_budget g cs (check_change_budget g cs (check_mass_delete g (length (m_entries b)) st))"
    "d = decide st'" "fs = v_findings st'" "sm = summary_of b s cs st'"
  using assms by (auto simp: evaluate_def bindE_Inr_iff Let_def)

text \<open>
  C21. The policy denies a plan exactly when it reports a finding of severity error; so nothing that
  was reported as an error can be approved, and every denial is explained.
\<close>

theorem evaluate_deny_iff_error:
  assumes "evaluate g b s cs = Inr (d, fs, sm)"
  shows "d = DENY \<longleftrightarrow> (\<exists>f \<in> set fs. f_severity f = ''error'')"
proof -
  obtain st st' where e: "eval_changes g cs eval_start = Inr st"
    "st' = check_add_budget g cs (check_change_budget g cs (check_mass_delete g (length (m_entries b)) st))"
    "d = decide st'" "fs = v_findings st'"
    using assms by (rule evaluate_state)
  have "deny_inv eval_start" by (simp add: deny_inv_def eval_start_def has_error_def)
  then have "deny_inv st'" using e(1) by (simp add: e(2) deny_inv_checks eval_changes_deny_inv)
  then show ?thesis by (auto simp: e(3,4) decide_def deny_inv_def has_error_def)
qed

definition git_change :: change where
  "git_change = \<lparr>c_path = ''.GIT/config'', c_kind = ADD, c_before = None,
     c_after = Some \<lparr>e_path = ''.GIT/config'', e_kind = FILE, e_mode = 420, e_size = 3,
       e_digest = replicate 64 (CHR ''a''), e_link = None\<rparr>\<rparr>"

theorem evaluate_deny_iff_error_witness:
  "\<exists>fs sm. evaluate default_policy empty_manifest empty_manifest [git_change] = Inr (DENY, fs, sm) \<and>
     (\<exists>f \<in> set fs. f_severity f = ''error'')"
proof -
  have "(case evaluate default_policy empty_manifest empty_manifest [git_change] of
      Inl _ \<Rightarrow> False | Inr (d, _, _) \<Rightarrow> d = DENY)"
    by code_simp
  then have "\<exists>fs sm. evaluate default_policy empty_manifest empty_manifest [git_change] = Inr (DENY, fs, sm)"
    by (auto split: sum.splits)
  then show ?thesis using evaluate_deny_iff_error by blast
qed

subsection \<open>The automatic commit\<close>

lemma add_only_mass:
  "\<forall>c \<in> set cs. c_kind c = ADD \<Longrightarrow> \<not> is_mass_delete g (length (filter (\<lambda>c. c_kind c = DELETE) cs)) n"
  by (induction cs) (auto simp: is_mass_delete_def)

text \<open>
  C22. A plan is allowed without a person's approval exactly when every change only adds something
  harmless (not a link, not executable by mode bits or suffix, not a secret-like name, not a
  special file, not under a protected name) and the plan is within its budgets.
\<close>

theorem evaluate_allow_iff:
  assumes "evaluate g b s cs = Inr (d, fs, sm)"
  shows "d = ALLOW \<longleftrightarrow>
    (\<forall>c \<in> set cs. c_kind c = ADD \<and> \<not> is_kind SYMLINK (c_after c) \<and> \<not> is_executable g c
       \<and> \<not> is_sensitive g c \<and> \<not> touches_special c
       \<and> casefold (hd (path_of (c_path c))) \<notin> casefold ` set (g_protected_top_level g)) \<and>
    int (length cs) \<le> g_max_total_changes g \<and>
    (cs = [] \<or> int (length cs) \<le> g_auto_add_max_entries g \<and>
       sum_list (map added_size cs) \<le> g_auto_add_max_bytes g)" (is "_ \<longleftrightarrow> ?rhs")
proof -
  obtain st st' where e: "eval_changes g cs eval_start = Inr st"
    "st' = check_add_budget g cs (check_change_budget g cs (check_mass_delete g (length (m_entries b)) st))"
    "d = decide st'"
    using assms by (rule evaluate_state)
  note flags = eval_changes_flags [OF e(1)]
  have deny: "v_hard_deny st' \<longleftrightarrow> (\<exists>c \<in> set cs. denied_change g c) \<or>
      (is_mass_delete g (length (filter (\<lambda>c. c_kind c = DELETE) cs)) (length (m_entries b)) \<and> \<not> g_allow_mass_delete g)
      \<or> int (length cs) > g_max_total_changes g"
    using flags(1) flags(3) [of DELETE]
    by (auto simp: e(2) check_add_budget_def check_change_budget_def check_mass_delete_def add_finding_def eval_start_def)
  have review: "v_destructive st' \<longleftrightarrow> (\<exists>c \<in> set cs. reviewed_change g c) \<or>
      (add_only cs \<and> (int (length cs) > g_auto_add_max_entries g \<or>
         sum_list (map added_size cs) > g_auto_add_max_bytes g))"
    using flags(2) flags(4)
    by (auto simp: e(2) check_add_budget_def check_change_budget_def check_mass_delete_def add_finding_def eval_start_def)
  have "d = ALLOW \<longleftrightarrow> \<not> v_hard_deny st' \<and> \<not> v_destructive st'" by (simp add: e(3) decide_def)
  also have "\<dots> \<longleftrightarrow> ?rhs"
  proof
    assume "\<not> v_hard_deny st' \<and> \<not> v_destructive st'"
    then show ?rhs unfolding deny review
      by (auto simp: reviewed_change_def denied_change_def makes_symlink_def add_only_def
          first_name_def protected_names_def)
  next
    assume r: ?rhs
    then have "\<not> is_mass_delete g (length (filter (\<lambda>c. c_kind c = DELETE) cs)) (length (m_entries b))"
      by (intro add_only_mass) blast
    with r show "\<not> v_hard_deny st' \<and> \<not> v_destructive st'" unfolding deny review
      by (auto simp: reviewed_change_def denied_change_def makes_symlink_def add_only_def
          first_name_def protected_names_def)
  qed
  finally show ?thesis .
qed

definition note_change :: change where
  "note_change = \<lparr>c_path = ''notes.txt'', c_kind = ADD, c_before = None,
     c_after = Some \<lparr>e_path = ''notes.txt'', e_kind = FILE, e_mode = 420, e_size = 3,
       e_digest = replicate 64 (CHR ''a''), e_link = None\<rparr>\<rparr>"

theorem evaluate_allow_iff_witness:
  "\<exists>fs sm. evaluate default_policy empty_manifest empty_manifest [note_change] = Inr (ALLOW, fs, sm) \<and>
     \<not> is_executable default_policy note_change \<and> \<not> is_sensitive default_policy note_change"
proof -
  have "(case evaluate default_policy empty_manifest empty_manifest [note_change] of
      Inl _ \<Rightarrow> False | Inr (d, _, _) \<Rightarrow> d = ALLOW)"
    by code_simp
  then obtain fs sm where e: "evaluate default_policy empty_manifest empty_manifest [note_change] = Inr (ALLOW, fs, sm)"
    by (auto split: sum.splits)
  then show ?thesis using evaluate_allow_iff [OF e] by simp
qed

subsection \<open>Symbolic links\<close>

lemma walk_target_depth:
  assumes "'''' \<notin> set ws" "''.'' \<notin> set ws"
  shows "walk_target cs ws \<noteq> None \<longleftrightarrow>
    (\<forall>k. count_list (take k ws) ''..'' \<le> length cs + length (filter (\<lambda>w. w \<noteq> ''..'') (take k ws)))"
  using assms
proof (induction ws arbitrary: cs)
  case (Cons w ws)
  have split: "(\<forall>k. Q (take k (w # ws))) \<longleftrightarrow> Q [] \<and> (\<forall>k. Q (w # take k ws))" for Q :: "string list \<Rightarrow> bool"
    by (metis take0 take_Suc_Cons not0_implies_Suc)
  show ?case
  proof (cases "w = ''..''")
    case True
    show ?thesis
    proof (cases "cs = []")
      case True
      have "count_list (take 1 (w # ws)) ''..'' = 1" using \<open>w = ''..''\<close> by simp
      moreover have "filter (\<lambda>w. w \<noteq> ''..'') (take 1 (w # ws)) = []" using \<open>w = ''..''\<close> by simp
      ultimately have "\<exists>k. \<not> count_list (take k (w # ws)) ''..'' \<le>
          length cs + length (filter (\<lambda>w. w \<noteq> ''..'') (take k (w # ws)))"
        using True by (intro exI [of _ 1]) simp
      then show ?thesis using True \<open>w = ''..''\<close> by auto
    next
      case False
      then obtain n where n: "length cs = Suc n" by (cases cs) auto
      show ?thesis
        using Cons.IH [of "butlast cs"] Cons.prems False True n
        by (subst split) (simp add: add.commute)
    qed
  next
    case False
    show ?thesis
      using Cons.IH [of "cs @ [w]"] Cons.prems False by (subst split) auto
  qed
qed simp



subsection \<open>The threshold of a mass deletion\<close>

lemma bit_len_bounds: "0 < n \<Longrightarrow> 0 < bit_len n \<and> 2 ^ (bit_len n - 1) \<le> n \<and> n < 2 ^ bit_len n"
proof (induction n rule: bit_len.induct)
  case (1 n)
  show ?case
  proof (cases "n = 1")
    case True
    then show ?thesis by (simp add: bit_len.simps)
  next
    case False
    then have "0 < n div 2" using 1 by simp
    with 1 have h: "0 < bit_len (n div 2)" "2 ^ (bit_len (n div 2) - 1) \<le> n div 2" "n div 2 < 2 ^ bit_len (n div 2)"
      by auto
    obtain j where j: "bit_len (n div 2) = Suc j" using h(1) gr0_conv_Suc by blast
    have "bit_len n = Suc (Suc j)" using 1 j by (subst bit_len.simps) simp
    moreover have "2 * (n div 2) \<le> n" "n \<le> 2 * (n div 2) + 1" by presburger+
    ultimately show ?thesis using h j by simp
  qed
qed

lemma bit_len_mono: "0 < a \<Longrightarrow> a \<le> b \<Longrightarrow> bit_len a \<le> bit_len b"
proof (rule ccontr)
  assume ab: "0 < a" "a \<le> b" "\<not> bit_len a \<le> bit_len b"
  then have "bit_len b \<le> bit_len a - 1" by simp
  then have "(2::int) ^ bit_len b \<le> 2 ^ (bit_len a - 1)" by (rule power_increasing) simp
  with bit_len_bounds [of a] bit_len_bounds [of b] ab show False by linarith
qed

text \<open>The scale \<open>float_div\<close> chooses leaves at least 53 significant bits.\<close>

lemma float_div_scale:
  assumes "0 < a" "a \<le> b"
  obtains k where "float_div a b = (round_half_even (a * 2 ^ k) b, k)" "2 ^ 52 * b \<le> a * 2 ^ k" "0 < k"
proof -
  let ?k = "53 + bit_len b - bit_len a"
  let ?k' = "if 2 ^ 53 \<le> a * 2 ^ ?k div b then ?k - 1 else ?k"
  have ba: "bit_len a \<le> bit_len b" using assms by (rule bit_len_mono)
  have bnd: "0 < bit_len a" "2 ^ (bit_len a - 1) \<le> a" "b < 2 ^ bit_len b"
    using bit_len_bounds [of a] bit_len_bounds [of b] assms by auto
  have "bit_len a - 1 + ?k = 52 + bit_len b" using ba bnd(1) by linarith
  then have "(2::int) ^ (bit_len a - 1) * 2 ^ ?k = 2 ^ 52 * 2 ^ bit_len b"
    by (simp only: power_add [symmetric])
  moreover have "(2::int) ^ (bit_len a - 1) * 2 ^ ?k \<le> a * 2 ^ ?k"
    using bnd(2) by (intro mult_right_mono) simp_all
  moreover have "2 ^ 52 * b \<le> 2 ^ 52 * 2 ^ bit_len b" using bnd(3) by simp
  ultimately have big: "2 ^ 52 * b \<le> a * 2 ^ ?k" by (simp only:)
  have "2 ^ 52 * b \<le> a * 2 ^ ?k'"
  proof (cases "2 ^ 53 \<le> a * 2 ^ ?k div b")
    case True
    have "2 ^ 53 * b \<le> a * 2 ^ ?k div b * b" using True assms by (intro mult_right_mono) simp_all
    also have "x div b * b \<le> x" for x
    proof -
      have "x div b * b + x mod b = x" "0 \<le> x mod b" using assms by simp_all
      then show ?thesis by linarith
    qed
    finally have "2 ^ 53 * b \<le> a * 2 ^ ?k" .
    moreover have "a * 2 ^ ?k = 2 * (a * 2 ^ (?k - 1))"
      using ba by (cases ?k) simp_all
    ultimately show ?thesis using True by simp
  qed (use big in simp)
  moreover have "0 < ?k'" using ba by auto
  moreover have "float_div a b = (round_half_even (a * 2 ^ ?k') b, ?k')"
    using assms by (simp add: float_div_def Let_def)
  ultimately show ?thesis using that by blast
qed

lemma round_half_even_bounds: "0 < b \<Longrightarrow> a div b \<le> round_half_even a b \<and> round_half_even a b \<le> a div b + 1"
  by (simp add: round_half_even_def Let_def)

lemma float_half_iff:
  assumes "0 < a" "a \<le> b" "b < 2 ^ 52" "fl_num f = 1" "fl_scale f = 1"
  shows "float_ge (float_div a b) f \<longleftrightarrow> b \<le> 2 * a"
proof -
  obtain k where k: "float_div a b = (round_half_even (a * 2 ^ k) b, k)" "2 ^ 52 * b \<le> a * 2 ^ k" "0 < k"
    using float_div_scale [OF assms(1,2)] .
  define P :: int where "P = 2 ^ (k - 1)"
  define m where "m = round_half_even (a * 2 ^ k) b"
  have P: "2 ^ k = 2 * P" "0 < P" using k(3) by (cases k; simp add: P_def)+
  have b: "0 < b" using assms by simp
  have m: "a * (2 * P) div b \<le> m" "m \<le> a * (2 * P) div b + 1"
    using round_half_even_bounds [OF b, of "a * 2 ^ k"] by (simp_all add: m_def P)
  have "float_ge (float_div a b) f \<longleftrightarrow> P \<le> m"
    using assms(4,5) by (simp add: float_ge_def k(1) m_def P)
  also have "\<dots> \<longleftrightarrow> b \<le> 2 * a"
  proof
    assume "b \<le> 2 * a"
    then have "P * b \<le> P * (2 * a)" using P(2) by (intro mult_left_mono) simp_all
    then have "P * b div b \<le> a * (2 * P) div b" using b by (intro zdiv_mono1) (simp_all add: mult_ac)
    then show "P \<le> m" using m(1) b by simp
  next
    assume pm: "P \<le> m"
    show "b \<le> 2 * a"
    proof (rule ccontr)
      assume "\<not> b \<le> 2 * a"
      then have ab: "2 * a \<le> b - 1" by simp
      have "2 * a * P \<le> (b - 1) * P" using ab P(2) by (intro mult_right_mono) simp_all
      then have le: "a * (2 * P) \<le> b * P - P" by (simp add: algebra_simps)
      moreover have "2 ^ 52 * b \<le> a * (2 * P)" using k(2) by (simp only: P)
      ultimately have "2 ^ 52 * b \<le> b * P - P" by (rule order_trans [rotated])
      then have "2 ^ 52 * b < b * P" using P(2) by simp
      then have "2 ^ 52 < P" using b by (simp add: mult.commute)
      then have "(2::int) ^ 52 < 2 ^ (k - 1)" by (simp only: P_def)
      then have "52 < k - 1" using power_less_imp_less_exp [of "2::int" 52 "k - 1"] by simp
      then have "(2::int) ^ 53 \<le> P" unfolding P_def by (intro power_increasing) simp_all
      then have "2 * b \<le> P" using assms(3) by simp
      with le have "a * (2 * P) \<le> b * P - 2 * b" by linarith
      also have "\<dots> = (P - 2) * b" by (simp add: algebra_simps)
      finally have "a * (2 * P) div b \<le> (P - 2) * b div b" using b by (rule zdiv_mono1)
      then have "m \<le> P - 1" using m(2) b by simp
      with pm show False by simp
    qed
  qed
  finally show ?thesis .
qed

text \<open>
  C24. Under the default policy a deletion is a mass deletion exactly when the baseline has 20 entries
  or more and at least 5000 of them, or at least half of them, are deleted: the rounding of
  the floating-point quotient never moves the threshold.
\<close>

theorem default_mass_delete_iff:
  assumes "deleted \<le> baseline" and "int baseline < 2 ^ 52"
  shows "is_mass_delete default_policy deleted baseline \<longleftrightarrow>
    20 \<le> baseline \<and> 0 < deleted \<and> (5000 \<le> deleted \<or> baseline \<le> 2 * deleted)"
proof (cases "deleted = 0")
  case False
  then have "float_ge (float_div (int deleted) (int baseline)) (g_hard_delete_fraction default_policy) \<longleftrightarrow>
      int baseline \<le> 2 * int deleted"
    using assms by (intro float_half_iff) (simp_all add: default_policy_def)
  then show ?thesis using False by (auto simp: is_mass_delete_def default_policy_def)
qed (simp add: is_mass_delete_def)

theorem default_mass_delete_iff_witness:
  "is_mass_delete default_policy 10 20 \<and> \<not> is_mass_delete default_policy 10 21"
  using default_mass_delete_iff [of 10 20] default_mass_delete_iff [of 10 21] by simp

subsection \<open>The summary and the fingerprint\<close>

lemma budget_counts:
  "v_counts (check_mass_delete g n st) = v_counts st" "v_counts (check_change_budget g cs st) = v_counts st"
  "v_counts (check_add_budget g cs st) = v_counts st"
  by (simp_all add: check_mass_delete_def check_change_budget_def check_add_budget_def add_finding_def)

text \<open>
  The summary counts the changes of each kind, these counts add up to the number of changes, and
  every key of the summary occurs once.
\<close>

theorem evaluate_summary:
  assumes "evaluate g b s cs = Inr (d, fs, sm)"
  shows "distinct (map fst sm) \<and>
    map_of sm ''total_changes'' = Some (int (length cs)) \<and>
    map_of sm ''added'' = Some (int (length (filter (\<lambda>c. c_kind c = ADD) cs))) \<and>
    map_of sm ''modified'' = Some (int (length (filter (\<lambda>c. c_kind c = MODIFY) cs))) \<and>
    map_of sm ''deleted'' = Some (int (length (filter (\<lambda>c. c_kind c = DELETE) cs))) \<and>
    map_of sm ''type_changed'' = Some (int (length (filter (\<lambda>c. c_kind c = TYPE_CHANGE) cs))) \<and>
    length cs = (\<Sum>k \<leftarrow> [ADD, MODIFY, DELETE, TYPE_CHANGE]. length (filter (\<lambda>c. c_kind c = k) cs))"
proof -
  obtain st st' where e: "eval_changes g cs eval_start = Inr st"
    "st' = check_add_budget g cs (check_change_budget g cs (check_mass_delete g (length (m_entries b)) st))"
    "sm = summary_of b s cs st'"
    using assms by (rule evaluate_state)
  have k: "v_counts st' k = length (filter (\<lambda>c. c_kind c = k) cs)" for k
    using eval_changes_flags(3) [OF e(1)] by (simp add: e(2) budget_counts eval_start_def)
  have "length cs = (\<Sum>k \<leftarrow> [ADD, MODIFY, DELETE, TYPE_CHANGE]. length (filter (\<lambda>c. c_kind c = k) cs))"
  proof (induction cs)
    case (Cons c cs)
    then show ?case by (cases "c_kind c") simp_all
  qed simp
  then show ?thesis by (simp add: e(3) summary_of_def Let_def k)
qed

theorem evaluate_summary_witness:
  "\<exists>d fs sm. evaluate default_policy empty_manifest empty_manifest [note_change] = Inr (d, fs, sm) \<and>
     map_of sm ''added'' = Some 1"
proof -
  have "(case evaluate default_policy empty_manifest empty_manifest [note_change] of
      Inl _ \<Rightarrow> False | Inr (d, _, _) \<Rightarrow> d = ALLOW)"
    by code_simp
  then obtain fs sm where e: "evaluate default_policy empty_manifest empty_manifest [note_change] = Inr (ALLOW, fs, sm)"
    by (auto split: sum.splits)
  then show ?thesis using evaluate_summary [OF e] by (simp add: note_change_def)
qed

definition policy_text :: "guard_policy \<Rightarrow> string" where
  "policy_text g = canonical_json
     (JObj [(''kind'', JStr ''guard_policy''), (''configuration'', JObj (policy_config g))])"

text \<open>
  The policy fingerprint that plans and approvals are bound to determines every setting of the
  policy: policies with one fingerprint are equal (the value of the fraction being the one its
  printed text denotes), or SHA-256 collides on the two texts that were hashed.
\<close>

theorem policy_fingerprint_covers:
  assumes "fingerprint cr g = fingerprint cr g'"
    and "float_text (fl_repr (g_hard_delete_fraction g))" and "float_text (fl_repr (g_hard_delete_fraction g'))"
  shows "g'\<lparr>g_hard_delete_fraction := g_hard_delete_fraction g\<rparr> = g \<and>
      fl_repr (g_hard_delete_fraction g) = fl_repr (g_hard_delete_fraction g')
    \<or> sha256_collision cr {policy_text g} {policy_text g'}"
proof (cases "sha256_collision cr {policy_text g} {policy_text g'}")
  case False
  let ?j = "\<lambda>g. [(''kind'', JStr ''guard_policy''), (''configuration'', JObj (policy_config g))]"
  have ok: "json_ok (JObj (policy_config h))" "distinct (map fst (policy_config h))"
    if "float_text (fl_repr (g_hard_delete_fraction h))" for h
    using that by (auto simp: policy_config_def list_all_iff)
  have jok: "json_ok (JObj (?j h))" if "float_text (fl_repr (g_hard_delete_fraction h))" for h
    using ok(1) [OF that] by simp
  have "canonical_json (JObj (?j g)) = canonical_json (JObj (?j g'))"
    using assms(1) False sha256_inject [of cr "policy_text g" "policy_text g'" "{policy_text g}" "{policy_text g'}"]
    by (simp add: fingerprint_def digest_json_def policy_text_def)
  from canonical_obj_member [OF jok [OF assms(2)] jok [OF assms(3)] this, of "''configuration''"]
  have "sort_keys (JObj (policy_config g)) = sort_keys (JObj (policy_config g'))"
    by (simp del: sort_keys.simps)
  then have m: "map_option sort_keys (map_of (policy_config g) k) = map_option sort_keys (map_of (policy_config g') k)"
    for k using ok assms(2,3) by (intro sort_keys_obj_eqD)
  have strs: "map sort_keys (map JStr xs) = map sort_keys (map JStr ys) \<longleftrightarrow> xs = ys" for xs ys
    by (simp add: comp_def) (metis inj_def inj_map_eq_map json.inject(4))
  have "g'\<lparr>g_hard_delete_fraction := g_hard_delete_fraction g\<rparr> = g"
  proof (rule guard_policy.equality)
    let ?h = "g'\<lparr>g_hard_delete_fraction := g_hard_delete_fraction g\<rparr>"
    show "g_auto_add_max_entries ?h = g_auto_add_max_entries g" using m [of "''auto_add_max_entries''"] by (simp add: policy_config_def)
    show "g_auto_add_max_bytes ?h = g_auto_add_max_bytes g" using m [of "''auto_add_max_bytes''"] by (simp add: policy_config_def)
    show "g_max_total_changes ?h = g_max_total_changes g" using m [of "''max_total_changes''"] by (simp add: policy_config_def)
    show "g_hard_delete_entries ?h = g_hard_delete_entries g" using m [of "''hard_delete_entries''"] by (simp add: policy_config_def)
    show "g_mass_delete_min_baseline_entries ?h = g_mass_delete_min_baseline_entries g"
      using m [of "''mass_delete_min_baseline_entries''"] by (simp add: policy_config_def)
    show "g_allow_mass_delete ?h = g_allow_mass_delete g" using m [of "''allow_mass_delete''"] by (simp add: policy_config_def)
    show "g_protected_top_level ?h = g_protected_top_level g"
      using m [of "''protected_top_level''"] strs by (simp del: map_map add: policy_config_def)
    show "g_sensitive_names ?h = g_sensitive_names g"
      using m [of "''sensitive_names''"] strs by (simp del: map_map add: policy_config_def)
    show "g_executable_suffixes ?h = g_executable_suffixes g"
      using m [of "''executable_suffixes''"] strs by (simp del: map_map add: policy_config_def)
    show "g_policy_name ?h = g_policy_name g" using m [of "''policy_name''"] by (simp add: policy_config_def)
    show "g_policy_version ?h = g_policy_version g" using m [of "''policy_version''"] by (simp add: policy_config_def)
  qed simp_all
  moreover have "fl_repr (g_hard_delete_fraction g) = fl_repr (g_hard_delete_fraction g')"
    using m [of "''hard_delete_fraction''"] by (simp add: policy_config_def)
  ultimately show ?thesis by blast
qed simp

definition same_policy :: guard_policy where
  "same_policy = default_policy\<lparr>g_hard_delete_fraction := \<lparr>fl_num = 2, fl_scale = 2, fl_repr = ''0.5''\<rparr>\<rparr>"

theorem policy_fingerprint_covers_witness:
  "(same_policy\<lparr>g_hard_delete_fraction := g_hard_delete_fraction default_policy\<rparr> = default_policy \<and>
     fl_repr (g_hard_delete_fraction default_policy) = fl_repr (g_hard_delete_fraction same_policy))"
proof -
  have f: "float_text (fl_repr (g_hard_delete_fraction default_policy))"
    "float_text (fl_repr (g_hard_delete_fraction same_policy))" by code_simp+
  have "policy_config same_policy = policy_config default_policy"
    by (simp add: policy_config_def same_policy_def default_policy_def)
  then have eq: "fingerprint plain_crypto default_policy = fingerprint plain_crypto same_policy"
    by (simp add: fingerprint_def)
  show ?thesis using policy_fingerprint_covers [OF eq f] by simp
qed

end
