(* ===== verification/ShellGate.thy ===== *)
theory ShellGate
  imports Regex Crypto
begin

text \<open>
  \<^verbatim>\<open>shell_gate.py\<close>: every pattern of the module, piece by piece in the order of its text,
  and \<^verbatim>\<open>inspect_shell_command\<close>. All patterns ignore case. \<open>LineStart\<close> is \<^verbatim>\<open>^\<close> of a pattern with
  the multi-line flag; the pattern of the catastrophic targets has no such flag, so its \<^verbatim>\<open>^\<close>
  and \<^verbatim>\<open>$\<close> are \<open>TextStart\<close> and \<open>TextEnd\<close>.
\<close>

subsection \<open>Pieces of the patterns\<close>

definition not_in :: "string \<Rightarrow> regex" where
  "not_in cs = Star (none_of cs)"

definition words :: "string list \<Rightarrow> regex" where
  "words ws = alts (map ilit ws)"

text \<open>\<^verbatim>\<open>(?:^|[;&|\s])\<close>, \<^verbatim>\<open>(?:^|[;&|])\<close> and \<^verbatim>\<open>(?:^|[&|\s])\<close>\<close>

definition boundary :: regex where
  "boundary = alts [LineStart, one_of '';&|'', space]"

definition separator :: regex where
  "separator = alts [LineStart, one_of '';&|'']"

definition cmd_boundary :: regex where
  "cmd_boundary = alts [LineStart, one_of ''&|'', space]"

definition reserved_names :: "string list" where
  "reserved_names = [''HOME'', ''USERPROFILE'', ''TMPDIR'', ''TMP'', ''TEMP'', ''CODEX_HOME'',
     ''XDG_CONFIG_HOME'', ''XDG_CACHE_HOME'', ''XDG_DATA_HOME'', ''XDG_STATE_HOME'',
     ''XDG_RUNTIME_DIR'', ''APPDATA'', ''LOCALAPPDATA'']"

definition letter_or_digit :: regex where
  "letter_or_digit = Cls (\<lambda>c. (CHR ''a'' \<le> lower_char c \<and> lower_char c \<le> CHR ''z'') \<or> is_digit c)"

definition letter :: regex where
  "letter = Cls (\<lambda>c. CHR ''a'' \<le> lower_char c \<and> lower_char c \<le> CHR ''z'')"

subsection \<open>The patterns\<close>

definition RESERVED_ASSIGNMENTS :: "regex list" where
  "RESERVED_ASSIGNMENTS =
     [seqs [boundary, opt (Seq (ilit ''export'') (plus1 space)), words reserved_names, Star space, ilit ''=''],
      seqs [boundary, ilit ''$'', opt (ilit ''env:''), words reserved_names, Star space, ilit ''=''],
      seqs [boundary, ilit ''set'', plus1 space, words reserved_names, Star space, ilit ''='']]"

definition HOST_ESCAPE :: regex where
  "HOST_ESCAPE = seqs [boundary,
     alts [words [''sudo'', ''doas'', ''mount'', ''umount'', ''chroot'', ''pivot_root''],
       Seq (ilit ''mkfs'') (opt (Seq (ilit ''.'') (plus1 letter_or_digit))),
       seqs [ilit ''diskutil'', plus1 space, ilit ''erase''],
       seqs [ilit ''format'', opt (ilit ''.com''), plus1 space, letter, ilit '':''],
       words [''takeown'', ''icacls'']],
     WordBoundary]"

definition POSIX_RM :: regex where
  "POSIX_RM = seqs [separator, Star space, opt (Seq (ilit ''command'') (plus1 space)),
     opt (seqs [ilit ''/'', plus1 (Cls (\<lambda>c. \<not> is_space c \<and> c \<noteq> CHR '';'')), ilit ''/'']),
     words [''rm'', ''unlink'', ''rmdir'', ''shred''], WordBoundary]"

definition FIND_DELETE :: regex where
  "FIND_DELETE = seqs [WordBoundary, ilit ''find'', WordBoundary, not_in [CHR 0x0A, CHR '';''],
     alts [ilit ''-delete'',
       seqs [ilit ''-exec'', opt (ilit ''dir''), plus1 space, words [''rm'', ''unlink'', ''rmdir''], WordBoundary]]]"

definition GIT_DESTRUCTIVE :: regex where
  "GIT_DESTRUCTIVE = seqs [WordBoundary, ilit ''git'', plus1 space,
     alts [Seq (ilit ''clean'') WordBoundary,
       seqs [ilit ''reset'', plus1 space, ilit ''--hard'', WordBoundary],
       seqs [ilit ''checkout'', plus1 space, ilit ''--'', plus1 space, ilit ''.''],
       Seq (ilit ''restore'') WordBoundary,
       Seq (ilit ''rm'') WordBoundary]]"

definition SYNC_DELETE :: regex where
  "SYNC_DELETE = Seq WordBoundary
     (alts [seqs [ilit ''rsync'', WordBoundary, not_in [CHR 0x0A, CHR '';''], ilit ''--delete'', WordBoundary],
       seqs [ilit ''robocopy'', WordBoundary, not_in [CHR 0x0A, CHR '';''], ilit ''/'',
         words [''mir'', ''purge''], WordBoundary]])"

definition POWERSHELL_DELETE :: regex where
  "POWERSHELL_DELETE = seqs [boundary,
     words [''Remove-Item'', ''Clear-Content'', ''ri'', ''del'', ''erase'', ''rd'', ''rmdir''], WordBoundary]"

definition CMD_DELETE :: regex where
  "CMD_DELETE = seqs [cmd_boundary, words [''del'', ''erase'', ''rd'', ''rmdir''], WordBoundary,
     not_in [CHR 0x0A], words [''/s'', ''/q'']]"

definition INLINE_DELETE_API :: regex where
  "INLINE_DELETE_API = alts
     [ilit ''shutil.rmtree'',
      Seq (ilit ''os.'') (words [''remove'', ''unlink'', ''rmdir'']),
      seqs [ilit ''Path('', not_in [CHR 0x0A], ilit '').unlink''],
      Seq (ilit ''fs.'') (words [''rm'', ''rmdir'', ''unlink'']),
      ilit ''FileUtils.rm_rf'',
      Seq (ilit ''std::fs::remove_'') (words [''file'', ''dir_all'']),
      seqs [ilit ''System.IO.'', words [''File'', ''Directory''], ilit ''.Delete''],
      ilit ''Remove-Item'']"

definition TRUNCATION :: regex where
  "TRUNCATION = Seq boundary (alts
     [Seq (ilit ''truncate'') WordBoundary,
      seqs [ilit ''dd'', WordBoundary, not_in [CHR 0x0A, CHR '';''], WordBoundary, ilit ''of=''],
      Seq (ilit ''Set-Content'') WordBoundary,
      Seq (ilit ''Clear-Content'') WordBoundary])"

definition DYNAMIC_SHELL :: regex where
  "DYNAMIC_SHELL = alts
     [seqs [WordBoundary, words [''bash'', ''sh'', ''zsh''], plus1 space, ilit ''-c'', WordBoundary],
      seqs [WordBoundary, words [''powershell'', ''pwsh''], opt (ilit ''.exe''), WordBoundary,
        not_in [CHR 0x0A, CHR '';''], ilit ''-'', words [''command'', ''c''], WordBoundary],
      seqs [WordBoundary, ilit ''eval'', WordBoundary]]"

text \<open>\<^verbatim>\<open>[\s'\"]\<close>\<close>

definition space_or_quote :: regex where
  "space_or_quote = alts [space, one_of [CHR 0x27, CHR 0x22]]"

definition home_names :: regex where
  "home_names = words [''HOME'', ''USERPROFILE'']"

definition CATASTROPHIC_TARGET :: regex where
  "CATASTROPHIC_TARGET = alts
     [seqs [alts [TextStart, space_or_quote],
        alts [ilit ''/'', ilit ''/*'', Seq (ilit ''~'') (opt (ilit ''/'')),
          seqs [ilit ''.'', opt (ilit ''.''), opt (ilit ''/''), opt (ilit ''*'')]],
        alts [space_or_quote, TextEnd]],
      seqs [ilit ''$'', home_names, opt (Seq (one_of [CHR ''/'', CHR 0x5C]) (ilit ''*''))],
      seqs [ilit ''${'', home_names, ilit ''}''],
      Seq (ilit ''$env:'') home_names,
      seqs [ilit ''%'', home_names, ilit ''%''],
      seqs [letter, ilit '':'', chr (CHR 0x5C),
        alts [ilit ''*'', space, one_of [CHR 0x27, CHR 0x22], TextEnd]],
      seqs [ilit ''${'', Cls (\<lambda>c. (CHR ''a'' \<le> lower_char c \<and> lower_char c \<le> CHR ''z'') \<or> c = CHR ''_''),
        Star (Cls (\<lambda>c. (CHR ''a'' \<le> lower_char c \<and> lower_char c \<le> CHR ''z'') \<or> is_digit c \<or> c = CHR ''_'')),
        ilit '':-/}'']]"

subsection \<open>The inspection\<close>

definition BOUNDARY_NOTE :: string where
  "BOUNDARY_NOTE = ''Heuristic inspection is not the security boundary. Execute only inside the '' @
     ''disposable worktree with OS-enforced denial of writes to the real workspace; '' @
     ''commit exact diffs through the broker.''"

text \<open>The variables the nested \<^verbatim>\<open>add\<close> updates\<close>

record gate_state =
  gs_findings :: "finding list"
  gs_decision :: decision

definition plain_finding :: "string \<Rightarrow> string \<Rightarrow> string \<Rightarrow> finding" where
  "plain_finding name severity text =
     \<lparr>f_code = name, f_severity = severity, f_message = text, f_path = None\<rparr>"

definition add :: "string \<Rightarrow> string \<Rightarrow> string \<Rightarrow> decision \<Rightarrow> gate_state \<Rightarrow> gate_state" where
  "add name severity text target st =
     \<lparr>gs_findings =
        (if \<exists>item \<in> set (gs_findings st). f_code item = name then gs_findings st
         else gs_findings st @ [plain_finding name severity text]),
      gs_decision =
        (if target = DENY then DENY
         else if target = REQUIRE_APPROVAL \<and> gs_decision st = ALLOW then REQUIRE_APPROVAL
         else gs_decision st)\<rparr>"

definition is_reserved :: "string \<Rightarrow> bool" where
  "is_reserved command \<longleftrightarrow> (\<exists>pattern \<in> set RESERVED_ASSIGNMENTS. re_search pattern command)"

definition is_destructive :: "string \<Rightarrow> bool" where
  "is_destructive command \<longleftrightarrow>
     (\<exists>pattern \<in> set [POSIX_RM, FIND_DELETE, GIT_DESTRUCTIVE, SYNC_DELETE, POWERSHELL_DELETE,
        CMD_DELETE, INLINE_DELETE_API, TRUNCATION]. re_search pattern command)"

definition check_reserved :: "string \<Rightarrow> gate_state \<Rightarrow> gate_state" where
  "check_reserved command st =
     (if is_reserved command
      then add ''reserved_environment_mutation'' ''error''
        ''the command assigns to broker-owned home, temp, or user-state identity'' DENY st
      else st)"

definition check_host_escape :: "string \<Rightarrow> gate_state \<Rightarrow> gate_state" where
  "check_host_escape command st =
     (if re_search HOST_ESCAPE command
      then add ''sandbox_boundary_mutation'' ''error''
        ''privilege, mount, filesystem-format, or ACL mutation is outside the task capability'' DENY st
      else st)"

definition check_intent :: "string \<Rightarrow> bool \<Rightarrow> gate_state \<Rightarrow> gate_state" where
  "check_intent command destructive st =
     (if destructive
      then
        let st' = add ''destructive_intent'' ''warning''
          (''destructive or overwrite-capable activity must remain inside the transaction '' @
           ''and be reviewed as an exact diff'') REQUIRE_APPROVAL st
        in if re_search CATASTROPHIC_TARGET command
           then add ''catastrophic_target'' ''error''
             (''the payload references a root, home/profile, parent, current-directory, '' @
              ''or default-to-root target'') DENY st'
           else st'
      else st)"

definition check_dynamic :: "string \<Rightarrow> bool \<Rightarrow> gate_state \<Rightarrow> gate_state" where
  "check_dynamic command destructive st =
     (if re_search DYNAMIC_SHELL command \<and> destructive
      then add ''nested_dynamic_destructive_shell'' ''warning''
        ''nested or evaluated shell code prevents reliable lexical interpretation'' REQUIRE_APPROVAL st
      else st)"

definition check_redirection :: "string \<Rightarrow> string \<Rightarrow> gate_state \<Rightarrow> gate_state" where
  "check_redirection command shell st =
     (if lower shell \<in> {''powershell'', ''pwsh''} \<and> contains command ''2>/dev/null''
      then st\<lparr>gs_findings := gs_findings st @ [plain_finding ''cross_shell_redirection'' ''warning''
        ''Bash redirection was used in PowerShell; use 2>$null'']\<rparr>
      else st)"

definition inspect_text :: "string \<Rightarrow> string \<Rightarrow> gate_state" where
  "inspect_text command shell =
     (let destructive = is_destructive command
      in check_redirection command shell
          (check_dynamic command destructive
            (check_intent command destructive
              (check_host_escape command
                (check_reserved command \<lparr>gs_findings = [], gs_decision = ALLOW\<rparr>)))))"

definition inspection :: "crypto \<Rightarrow> string \<Rightarrow> string \<Rightarrow> decision \<Rightarrow> finding list \<Rightarrow> command_inspection" where
  "inspection cr raw shell decision findings =
     \<lparr>i_decision = decision, i_findings = findings, i_shell = shell,
      i_command_sha256 = sha256 cr (utf8_encode raw), i_command_length = int (length raw),
      i_boundary_note = BOUNDARY_NOTE\<rparr>"

text \<open>A command that is not a string is a value of another JSON type.\<close>

definition inspect_shell_command :: "crypto \<Rightarrow> json \<Rightarrow> string \<Rightarrow> command_inspection" where
  "inspect_shell_command cr command shell =
     (case command of
        JStr s \<Rightarrow>
          if strip s = []
          then inspection cr s shell DENY
            [plain_finding ''empty_command'' ''error'' ''empty shell payloads are rejected'']
          else if int (length s) > 1000000
          then inspection cr s shell DENY
            [plain_finding ''command_too_large'' ''error'' ''shell payload exceeds the inspection budget'']
          else
            let st = inspect_text s shell in inspection cr s shell (gs_decision st) (gs_findings st)
      | _ \<Rightarrow> inspection cr (py_repr command) shell DENY
          [plain_finding ''empty_command'' ''error'' ''empty shell payloads are rejected''])"

end
