(* ===== verification/FileSys.thy ===== *)
theory FileSys
  imports DiffFacts
begin

unbundle bit_operations_syntax

text \<open>
  The effects of the broker: a file system tree, the clock, the random source and the calls to
  the operating system, each of which may fail. An action returns a result and the new world;
  an exception keeps the effects that came before it. The operations of \<^verbatim>\<open>util.py\<close> on
  the file system follow, one call of the operating system at a time. A path handed to the
  operating system is absolute and none of its components is followed through a symbolic
  link: such a path fails here.
\<close>

subsection \<open>The world and actions\<close>

text \<open>
  What the host answers: the successive values of the clock and of the random source, which
  calls fail, the umask, the home directory, and \<^verbatim>\<open>Path.resolve(strict=False)\<close>.
\<close>

record host =
  h_clock :: "nat \<Rightarrow> int"
  h_random :: "nat \<Rightarrow> string"
  h_fault :: "nat \<Rightarrow> bool"
  h_umask :: int
  h_home :: path
  h_resolve :: "path \<Rightarrow> path"
  h_pid :: string

record world =
  w_tree :: node
  w_calls :: nat
  w_ticks :: nat
  w_draws :: nat

text \<open>
  A computation on a state: the world here, the world and a mutable commit record in the broker.
\<close>

type_synonym ('s, 'a) comp = "'s \<Rightarrow> 'a result \<times> 's"

type_synonym 'a act = "(world, 'a) comp"

definition returnA :: "'a \<Rightarrow> ('s, 'a) comp" where
  "returnA x w = (Inr x, w)"

definition raiseA :: "error \<Rightarrow> ('s, 'a) comp" where
  "raiseA e w = (Inl e, w)"

definition liftA :: "'a result \<Rightarrow> ('s, 'a) comp" where
  "liftA r w = (r, w)"

definition bindA :: "('s, 'a) comp \<Rightarrow> ('a \<Rightarrow> ('s, 'b) comp) \<Rightarrow> ('s, 'b) comp" where
  "bindA m f w = (case m w of (Inl e, w') \<Rightarrow> (Inl e, w') | (Inr x, w') \<Rightarrow> f x w')"

abbreviation thenA :: "('s, 'a) comp \<Rightarrow> ('s, 'b) comp \<Rightarrow> ('s, 'b) comp" where
  "thenA m n \<equiv> bindA m (\<lambda>_. n)"

text \<open>\<^verbatim>\<open>if not condition: raise\<close>\<close>

definition requireA :: "bool \<Rightarrow> error \<Rightarrow> ('s, unit) comp" where
  "requireA b e w = (if b then (Inr (), w) else (Inl e, w))"

text \<open>\<^verbatim>\<open>try: m except Exception: handler; raise\<close>\<close>

definition on_errorA :: "('s, 'a) comp \<Rightarrow> ('s, unit) comp \<Rightarrow> ('s, 'a) comp" where
  "on_errorA m handler w =
     (case m w of
        (Inr x, w') \<Rightarrow> (Inr x, w')
      | (Inl e, w') \<Rightarrow> (case handler w' of (Inl e', w'') \<Rightarrow> (Inl e', w'') | (Inr _, w'') \<Rightarrow> (Inl e, w'')))"

text \<open>\<^verbatim>\<open>try: m finally: final\<close>\<close>

definition finallyA :: "('s, 'a) comp \<Rightarrow> ('s, unit) comp \<Rightarrow> ('s, 'a) comp" where
  "finallyA m final w =
     (case m w of (r, w') \<Rightarrow> (case final w' of (Inl e', w'') \<Rightarrow> (Inl e', w'') | (Inr _, w'') \<Rightarrow> (r, w'')))"

text \<open>\<^verbatim>\<open>try: m except OSError: pass\<close>\<close>

definition ignore_osA :: "('s, unit) comp \<Rightarrow> ('s, unit) comp" where
  "ignore_osA m w = (case m w of (Inl (OSError _), w') \<Rightarrow> (Inr (), w') | (r, w') \<Rightarrow> (r, w'))"

text \<open>\<^verbatim>\<open>try: m except OSError: raise e\<close>\<close>

definition os_asA :: "error \<Rightarrow> ('s, 'a) comp \<Rightarrow> ('s, 'a) comp" where
  "os_asA e m w = (case m w of (Inl (OSError _), w') \<Rightarrow> (Inl e, w') | (r, w') \<Rightarrow> (r, w'))"

text \<open>\<^verbatim>\<open>try: m except OSError as exc\<close>: what was caught, if anything\<close>

definition catch_osA :: "('s, unit) comp \<Rightarrow> ('s, string option) comp" where
  "catch_osA m w =
     (case m w of
        (Inl (OSError t), w') \<Rightarrow> (Inr (Some t), w')
      | (Inl e, w') \<Rightarrow> (Inl e, w')
      | (Inr _, w') \<Rightarrow> (Inr None, w'))"

text \<open>\<^verbatim>\<open>try: m except FileNotFoundError: pass\<close>\<close>

definition ignore_missingA :: "('s, unit) comp \<Rightarrow> ('s, unit) comp" where
  "ignore_missingA m w =
     (case m w of
        (Inl (OSError t), w') \<Rightarrow> (if t = ''FileNotFoundError'' then Inr () else Inl (OSError t), w')
      | (r, w') \<Rightarrow> (r, w'))"

fun forA :: "('a \<Rightarrow> ('s, unit) comp) \<Rightarrow> 'a list \<Rightarrow> ('s, unit) comp" where
  "forA f [] = returnA ()"
| "forA f (x # xs) = thenA (f x) (forA f xs)"

lemma act_simps [simp]:
  "returnA x w = (Inr x, w)" "raiseA e w = (Inl e, w)" "liftA r w = (r, w)"
  "bindA (returnA x) f = f x"
  by (simp_all add: returnA_def raiseA_def liftA_def bindA_def fun_eq_iff)

lemma bindA_Inr_iff:
  "bindA m f w = (Inr y, w') \<longleftrightarrow> (\<exists>x w1. m w = (Inr x, w1) \<and> f x w1 = (Inr y, w'))"
  by (auto simp: bindA_def split: prod.splits sum.splits)

lemma bindA_Inl_iff:
  "bindA m f w = (Inl e, w') \<longleftrightarrow>
    m w = (Inl e, w') \<or> (\<exists>x w1. m w = (Inr x, w1) \<and> f x w1 = (Inl e, w'))"
  by (auto simp: bindA_def split: prod.splits sum.splits)

lemma bindA_cases:
  assumes "bindA m f w = (r, w')"
  obtains e where "m w = (Inl e, w')" "r = Inl e"
  | x w1 where "m w = (Inr x, w1)" "f x w1 = (r, w')"
  using assms by (auto simp: bindA_def split: prod.splits sum.splits)

lemma requireA_iff:
  "requireA b e w = (Inr x, w') \<longleftrightarrow> b \<and> w' = w"
  "requireA b e w = (Inl e', w') \<longleftrightarrow> \<not> b \<and> e' = e \<and> w' = w"
  by (auto simp: requireA_def)

lemma bindA_assoc: "bindA (bindA m f) g = bindA m (\<lambda>x. bindA (f x) g)"
  by (auto simp: bindA_def fun_eq_iff split: prod.splits sum.splits)

subsection \<open>Calls of the operating system\<close>

text \<open>
  One call: it fails when the host says so, and otherwise answers from the tree and changes it.
\<close>

definition os_call :: "host \<Rightarrow> (node \<Rightarrow> ('a \<times> node) result) \<Rightarrow> 'a act" where
  "os_call h f w =
     (let w1 = w\<lparr>w_calls := w_calls w + 1\<rparr>
      in if h_fault h (w_calls w) then (Inl (OSError ''the call failed''), w1)
         else case f (w_tree w) of
           Inl e \<Rightarrow> (Inl e, w1)
         | Inr (x, t) \<Rightarrow> (Inr x, w1\<lparr>w_tree := t\<rparr>))"

definition look :: "path \<Rightarrow> node \<Rightarrow> node option" where
  "look p t = (case p of [] \<Rightarrow> None | a # q \<Rightarrow> if prefix ''/'' a then get q t else None)"

definition change_tree :: "path \<Rightarrow> node option \<Rightarrow> node \<Rightarrow> node" where
  "change_tree p x t = upd (tl p) x t"

definition dir_there :: "path \<Rightarrow> node \<Rightarrow> bool" where
  "dir_there p t \<longleftrightarrow> (case look p t of None \<Rightarrow> False | Some n \<Rightarrow> is_dir n)"

definition dev_of :: "path \<Rightarrow> node \<Rightarrow> int" where
  "dev_of p t = (case look p t of None \<Rightarrow> 0 | Some n \<Rightarrow> node_dev n)"

text \<open>\<^verbatim>\<open>os.path.lexists\<close>\<close>

definition lexistsA :: "path \<Rightarrow> bool act" where
  "lexistsA p w = (Inr (look p (w_tree w) \<noteq> None), w)"

definition mkdir_tree :: "int \<Rightarrow> path \<Rightarrow> node \<Rightarrow> (unit \<times> node) result" where
  "mkdir_tree mode p t =
     (if look p t \<noteq> None then Inl (OSError ''FileExistsError'')
      else if \<not> dir_there (butlast p) t then Inl (OSError ''FileNotFoundError'')
      else Inr ((), change_tree p (Some (DirN (dev_of (butlast p) t) mode [])) t))"

definition mkdirA :: "host \<Rightarrow> int \<Rightarrow> path \<Rightarrow> unit act" where
  "mkdirA h mode p = os_call h (mkdir_tree (mode AND NOT (h_umask h)) p)"

text \<open>\<^verbatim>\<open>path.mkdir(parents=True, exist_ok=True, mode=mode)\<close>: the missing ancestors from the top\<close>

function mkdirsA :: "host \<Rightarrow> int \<Rightarrow> path \<Rightarrow> unit act" where
  "mkdirsA h mode p w =
     (if dir_there p (w_tree w) then (Inr (), w)
      else if look p (w_tree w) \<noteq> None then (Inl (OSError ''FileExistsError''), w)
      else if length p \<le> 1 then (Inl (OSError ''FileNotFoundError''), w)
      else thenA (mkdirsA h 511 (butlast p)) (mkdirA h mode p) w)"
  by pat_completeness auto
termination by (relation "measure (\<lambda>(h, mode, p, w). length p)") auto

declare mkdirsA.simps [simp del]

text \<open>
  \<^verbatim>\<open>os.rename\<close>: to a new name, over a file, or, for a directory, over an empty directory;
  not across devices and not of a directory into itself.
\<close>

definition rename_tree :: "path \<Rightarrow> path \<Rightarrow> node \<Rightarrow> (unit \<times> node) result" where
  "rename_tree src dst t =
     (case look src t of
        None \<Rightarrow> Inl (OSError ''FileNotFoundError'')
      | Some n \<Rightarrow>
          if \<not> dir_there (butlast dst) t then Inl (OSError ''FileNotFoundError'')
          else if dev_of (butlast src) t \<noteq> dev_of (butlast dst) t then Inl (OSError ''EXDEV'')
          else if strict_prefix src dst then Inl (OSError ''EINVAL'')
          else if src = dst then Inr ((), t)
          else
            case look dst t of
              Some m \<Rightarrow>
                if is_dir m \<noteq> is_dir n then Inl (OSError ''EISDIR or ENOTDIR'')
                else if is_dir m \<and> kids m \<noteq> [] then Inl (OSError ''ENOTEMPTY'')
                else Inr ((), change_tree dst (Some n) (change_tree src None t))
            | None \<Rightarrow> Inr ((), change_tree dst (Some n) (change_tree src None t)))"

definition renameA :: "host \<Rightarrow> path \<Rightarrow> path \<Rightarrow> unit act" where
  "renameA h src dst = os_call h (rename_tree src dst)"

text \<open>The directory is opened and flushed; only the opening can be observed.\<close>

definition fsync_directory :: "host \<Rightarrow> path \<Rightarrow> unit act" where
  "fsync_directory h p =
     os_call h (\<lambda>t. if dir_there p t then Inr ((), t) else Inl (OSError ''cannot open the directory''))"

definition unlink_tree :: "path \<Rightarrow> node \<Rightarrow> (unit \<times> node) result" where
  "unlink_tree p t =
     (case look p t of
        None \<Rightarrow> Inl (OSError ''FileNotFoundError'')
      | Some n \<Rightarrow> if is_dir n then Inl (OSError ''EISDIR'') else Inr ((), change_tree p None t))"

fun set_mode :: "int \<Rightarrow> node \<Rightarrow> node" where
  "set_mode m (FileN d _ c) = FileN d m c"
| "set_mode m (LinkN d _ t) = LinkN d m t"
| "set_mode m (SpecialN d _ s r) = SpecialN d m s r"
| "set_mode m (DirN d _ ks) = DirN d m ks"

definition chmodA :: "host \<Rightarrow> int \<Rightarrow> path \<Rightarrow> unit act" where
  "chmodA h m p = os_call h (\<lambda>t.
     case look p t of
       None \<Rightarrow> Inl (OSError ''FileNotFoundError'')
     | Some n \<Rightarrow> Inr ((), change_tree p (Some (set_mode m n)) t))"

text \<open>\<^verbatim>\<open>os.open(path, O_WRONLY | O_CREAT | O_EXCL, 0o600)\<close> and the content then written to it\<close>

definition create_file_tree :: "path \<Rightarrow> int \<Rightarrow> string \<Rightarrow> node \<Rightarrow> (unit \<times> node) result" where
  "create_file_tree p mode content t =
     (if \<not> dir_there (butlast p) t then Inl (OSError ''FileNotFoundError'')
      else Inr ((), change_tree p (Some (FileN (dev_of (butlast p) t) mode content)) t))"

subsection \<open>Clock and random source\<close>

definition utc_epoch :: "host \<Rightarrow> int act" where
  "utc_epoch h w = (Inr (h_clock h (w_ticks w)), w\<lparr>w_ticks := w_ticks w + 1\<rparr>)"

definition drawA :: "host \<Rightarrow> string act" where
  "drawA h w = (Inr (h_random h (w_draws w)), w\<lparr>w_draws := w_draws w + 1\<rparr>)"

definition new_id :: "host \<Rightarrow> string \<Rightarrow> string act" where
  "new_id h pre = bindA (drawA h) (\<lambda>bytes. returnA (random_id pre bytes))"

subsection \<open>State files\<close>

text \<open>
  \<^verbatim>\<open>atomic_write_json\<close>: the temporary file is written, then replaces the target. It is gone
  again when a call fails, so it is not in the tree.
\<close>

definition replace_tree :: "path \<Rightarrow> int \<Rightarrow> string \<Rightarrow> node \<Rightarrow> (unit \<times> node) result" where
  "replace_tree p mode content t =
     (if dir_there p t then Inl (OSError ''EISDIR'') else create_file_tree p mode content t)"

definition write_temporary :: "host \<Rightarrow> path \<Rightarrow> unit act" where
  "write_temporary h p =
     os_call h (\<lambda>t. if dir_there (butlast p) t then Inr ((), t) else Inl (OSError ''FileNotFoundError''))"

definition atomic_write_json :: "host \<Rightarrow> path \<Rightarrow> json \<Rightarrow> unit act" where
  "atomic_write_json h p data =
     thenA (mkdirsA h 511 (butlast p))
    (thenA (write_temporary h p)
    (thenA (os_call h (replace_tree p 384 (canonical_json data @ [CHR 0x0A])))
           (fsync_directory h (butlast p))))"

definition read_json :: "host \<Rightarrow> path \<Rightarrow> json act" where
  "read_json h p = os_call h (\<lambda>t.
     case look p t of
       None \<Rightarrow> Inl (GuardError ''state file does not exist'')
     | Some (FileN _ _ content) \<Rightarrow>
         (case utf8_decode content of
            None \<Rightarrow> Inl (PyError ''UnicodeDecodeError'')
          | Some s \<Rightarrow>
              (case loads s of
                 None \<Rightarrow> Inl (GuardError ''state file is not valid JSON'')
               | Some v \<Rightarrow> Inr (v, t)))
     | Some _ \<Rightarrow> Inl (OSError ''cannot read the state file''))"

subsection \<open>Directories\<close>

definition ensure_absolute_directory :: "host \<Rightarrow> string \<Rightarrow> bool \<Rightarrow> path \<Rightarrow> path act" where
  "ensure_absolute_directory h name create candidate =
     thenA (if create then mkdirsA h 448 candidate else returnA ())
       (os_call h (\<lambda>t.
          case look candidate t of
            None \<Rightarrow> Inl (GuardError (name @ '' does not exist''))
          | Some (LinkN _ _ _) \<Rightarrow> Inl (UnsafePath (name @ '' may not be a symlink''))
          | Some n \<Rightarrow>
              if is_dir n then Inr (h_resolve h candidate, t)
              else Inl (GuardError (name @ '' is not a directory''))))"

definition ensure_private_directory :: "host \<Rightarrow> path \<Rightarrow> path \<Rightarrow> path act" where
  "ensure_private_directory h p par =
     bindA (lexistsA p) (\<lambda>there.
     thenA (if there then returnA () else mkdirA h 448 p)
    (thenA (os_call h (\<lambda>t.
        if dir_there p t then Inr ((), t)
        else Inl (UnsafePath ''broker state entry must be a real directory'')))
    (thenA (requireA (parent (h_resolve h p) = h_resolve h par)
        (UnsafePath ''broker directory is outside its state namespace''))
    (thenA (ignore_osA (chmodA h 448 (h_resolve h p)))
           (returnA (h_resolve h p))))))"

definition stat_dev :: "host \<Rightarrow> path \<Rightarrow> int act" where
  "stat_dev h p = os_call h (\<lambda>t.
     case look p t of None \<Rightarrow> Inl (OSError ''FileNotFoundError'') | Some n \<Rightarrow> Inr (node_dev n, t))"

definition same_filesystem :: "host \<Rightarrow> path \<Rightarrow> path \<Rightarrow> bool act" where
  "same_filesystem h left right =
     bindA (stat_dev h left) (\<lambda>d. bindA (stat_dev h right) (\<lambda>e. returnA (d = e)))"

subsection \<open>Copying and removing\<close>

fun is_special :: "node \<Rightarrow> bool" where
  "is_special (SpecialN _ _ _ _) = True"
| "is_special _ = False"

text \<open>
  What \<^verbatim>\<open>shutil.copytree(symlinks=True)\<close> makes of a tree on device \<open>d\<close>, leaving out the
  ignored names and the special files, which it cannot copy; a new symbolic link has all
  permission bits.
\<close>

primrec copy_node :: "string list \<Rightarrow> int \<Rightarrow> node \<Rightarrow> node" where
  "copy_node ig d (FileN _ m c) = FileN d m c"
| "copy_node ig d (LinkN _ m t) = LinkN d 511 t"
| "copy_node ig d (SpecialN _ m s r) = SpecialN d m s r"
| "copy_node ig d (DirN _ m ks) =
     DirN d m (filter (\<lambda>p. fst p \<notin> set ig \<and> \<not> is_special (snd p)) (map (map_prod id (copy_node ig d)) ks))"

primrec has_special :: "string list \<Rightarrow> node \<Rightarrow> bool" where
  "has_special ig (FileN _ m c) = False"
| "has_special ig (LinkN _ m t) = False"
| "has_special ig (SpecialN _ m s r) = True"
| "has_special ig (DirN _ m ks) = list_ex (\<lambda>p. fst p \<notin> set ig \<and> snd p) (map (map_prod id (has_special ig)) ks)"

definition copytree_tree :: "string list \<Rightarrow> path \<Rightarrow> path \<Rightarrow> node \<Rightarrow> (unit result \<times> node) result" where
  "copytree_tree ig src dst t =
     (case look src t of
        None \<Rightarrow> Inl (OSError ''FileNotFoundError'')
      | Some n \<Rightarrow>
          if \<not> is_dir n then Inl (OSError ''NotADirectoryError'')
          else if look dst t \<noteq> None then Inl (OSError ''FileExistsError'')
          else if \<not> dir_there (butlast dst) t then Inl (OSError ''FileNotFoundError'')
          else Inr (if has_special ig n then Inl (OSError ''shutil.Error'') else Inr (),
                    change_tree dst (Some (copy_node ig (dev_of (butlast dst) t) n)) t))"

definition copytreeA :: "host \<Rightarrow> string list \<Rightarrow> path \<Rightarrow> path \<Rightarrow> unit act" where
  "copytreeA h ig src dst = bindA (os_call h (copytree_tree ig src dst)) liftA"

text \<open>\<^verbatim>\<open>os.symlink\<close> and \<^verbatim>\<open>shutil.copy2(follow_symlinks=False)\<close> of what \<^verbatim>\<open>lstat\<close> found\<close>

definition copy_file_tree :: "path \<Rightarrow> node \<Rightarrow> node \<Rightarrow> (unit \<times> node) result" where
  "copy_file_tree dst n t =
     (if look dst t \<noteq> None then Inl (OSError ''FileExistsError'')
      else if \<not> dir_there (butlast dst) t then Inl (OSError ''FileNotFoundError'')
      else Inr ((), change_tree dst (Some (copy_node [] (dev_of (butlast dst) t) n)) t))"

definition lstatA :: "host \<Rightarrow> path \<Rightarrow> node act" where
  "lstatA h p = os_call h (\<lambda>t.
     case look p t of None \<Rightarrow> Inl (OSError ''FileNotFoundError'') | Some n \<Rightarrow> Inr (n, t))"

definition copy_entry :: "host \<Rightarrow> path \<Rightarrow> path \<Rightarrow> unit act" where
  "copy_entry h source destination =
     bindA (lstatA h source) (\<lambda>n.
     thenA (mkdirsA h 511 (butlast destination))
       (case n of
          DirN _ _ _ \<Rightarrow> copytreeA h [] source destination
        | SpecialN _ _ _ _ \<Rightarrow> raiseA (GuardError ''special files are not supported by the reference broker'')
        | _ \<Rightarrow> os_call h (copy_file_tree destination n)))"

definition rmtree_tree :: "path \<Rightarrow> node \<Rightarrow> (unit \<times> node) result" where
  "rmtree_tree p t =
     (if dir_there p t then Inr ((), change_tree p None t) else Inl (OSError ''not a directory''))"

definition remove_state_tree :: "host \<Rightarrow> path \<Rightarrow> path \<Rightarrow> unit act" where
  "remove_state_tree h state_root p =
     bindA (lexistsA p) (\<lambda>there.
     thenA (requireA there (OSError ''FileNotFoundError''))
       (let root = h_resolve h state_root; candidate = h_resolve h p
        in if candidate = root \<or> \<not> is_relative_to candidate root
           then raiseA (UnsafePath ''refusing to delete outside broker state'')
           else os_call h (rmtree_tree candidate)))"

subsection \<open>The signing key file\<close>

definition load_or_create_key :: "host \<Rightarrow> path \<Rightarrow> string act" where
  "load_or_create_key h p =
     thenA (mkdirsA h 448 (butlast p))
    (bindA (lexistsA p) (\<lambda>there.
       if there
       then
         bindA (os_asA (IntegrityError ''cannot inspect broker signing key'') (lstatA h p)) (\<lambda>n.
           case n of
             FileN _ _ content \<Rightarrow>
               thenA (requireA (length (take 33 content) = 32) (IntegrityError ''invalid broker signing key length''))
              (thenA (ignore_osA (chmodA h 384 p))
                     (returnA content))
           | _ \<Rightarrow> raiseA (IntegrityError ''broker signing key must be a regular file''))
       else
         bindA (drawA h) (\<lambda>key.
         thenA (os_call h (create_file_tree p 384 key)) (returnA key))))"

subsection \<open>Scanning\<close>

text \<open>A scan under the default limits; a failing call is reported as the code does.\<close>

definition default_limits :: "string list \<Rightarrow> scan_limits" where
  "default_limits excluded =
     \<lparr>l_excluded = excluded, l_max_entries = DEFAULT_MAX_ENTRIES, l_max_bytes = DEFAULT_MAX_BYTES\<rparr>"

definition scanA :: "host \<Rightarrow> crypto \<Rightarrow> string list \<Rightarrow> path \<Rightarrow> tree_manifest act" where
  "scanA h cr excluded root w =
     (let w1 = w\<lparr>w_calls := w_calls w + 1\<rparr>
      in if h_fault h (w_calls w) then (Inl (GuardError ''cannot scan''), w1)
         else (scan_tree cr (default_limits excluded) root (look root (w_tree w)), w1))"

end
