(* ===== verification/AuditLog.thy ===== *)
theory AuditLog
  imports FileSys
begin

text \<open>
  \<^verbatim>\<open>audit.py\<close>: the hash chain of audit events. The chain itself is a function of the text of
  the log; the file operations follow. The \<^verbatim>\<open>Signer\<close> protocol is the locale \<open>signer\<close>, which
  the state signer of \<^verbatim>\<open>crypto.py\<close> provides.
\<close>

subsection \<open>The signer the log relies on\<close>

locale signer =
  fixes make :: "json \<Rightarrow> string" and check :: "json \<Rightarrow> string \<Rightarrow> unit result"
  assumes check_iff: "check v s = Inr () \<longleftrightarrow> make v = s"
begin

lemma check_make: "check v (make v) = Inr ()"
  by (simp add: check_iff)

lemma check_unique: "check v s = Inr () \<Longrightarrow> check v s' = Inr () \<Longrightarrow> s = s'"
  by (simp add: check_iff)

end

interpretation state_signer: signer "sign cr key" "verify cr key" for cr key
  by unfold_locales (simp add: verify_Inr_iff)

subsection \<open>The lines of the log\<close>

text \<open>Universal newlines of a file opened in text mode\<close>

fun newlines_from :: "bool \<Rightarrow> string \<Rightarrow> string" where
  "newlines_from after_cr [] = []"
| "newlines_from after_cr (c # cs) =
     (if c = CHR 0x0D then CHR 0x0A # newlines_from True cs
      else if c = CHR 0x0A \<and> after_cr then newlines_from False cs
      else c # newlines_from False cs)"

definition universal_newlines :: "string \<Rightarrow> string" where
  "universal_newlines s = newlines_from False s"

definition log_lines :: "string \<Rightarrow> string list" where
  "log_lines s = split_on (CHR 0x0A) (universal_newlines s)"

definition ZERO_HASH :: string where
  "ZERO_HASH = replicate 64 (CHR ''0'')"

definition event_payload :: "json \<Rightarrow> string \<Rightarrow> json" where
  "event_payload body event_hash = JObj
     [(''kind'', JStr ''audit_event''), (''body'', body), (''event_hash'', JStr event_hash)]"

definition event_digest :: "crypto \<Rightarrow> string \<Rightarrow> json \<Rightarrow> string" where
  "event_digest cr previous body = sha256 cr (previous @ canonical_json body)"

definition without :: "string \<Rightarrow> (string \<times> 'a) list \<Rightarrow> (string \<times> 'a) list" where
  "without k d = filter (\<lambda>p. fst p \<noteq> k) d"

text \<open>One line: the new count and predecessor\<close>

definition verify_line :: "crypto \<Rightarrow> string option \<Rightarrow> nat \<times> string \<Rightarrow> string \<Rightarrow> (nat \<times> string) result" where
  "verify_line cr signer_key st line =
     (if strip line = [] then Inr st
      else
        case loads line of
          None \<Rightarrow> Inl (IntegrityError ''audit line is invalid JSON'')
        | Some (JObj parsed) \<Rightarrow>
            let claimed_signature = (case map_of parsed ''event_signature'' of None \<Rightarrow> JNull | Some v \<Rightarrow> v);
                claimed_hash = (case map_of parsed ''event_hash'' of None \<Rightarrow> '''' | Some v \<Rightarrow> py_str v);
                row = without ''event_hash'' (without ''event_signature'' parsed);
                previous = snd st
            in if map_of row ''previous_hash'' \<noteq> Some (JStr previous)
               then Inl (IntegrityError ''audit chain predecessor mismatch'')
               else if claimed_hash \<noteq> event_digest cr previous (JObj row)
               then Inl (IntegrityError ''audit hash mismatch'')
               else
                 bindE (case signer_key of
                     None \<Rightarrow> Inr ()
                   | Some key \<Rightarrow>
                       if \<not> py_truthy claimed_signature
                       then Inl (IntegrityError ''audit signature missing'')
                       else verify cr key (event_payload (JObj row) claimed_hash) (py_str claimed_signature))
                   (\<lambda>_. Inr (fst st + 1, claimed_hash))
        | Some _ \<Rightarrow> Inl (IntegrityError ''audit line must contain a JSON object''))"

fun verify_lines :: "crypto \<Rightarrow> string option \<Rightarrow> nat \<times> string \<Rightarrow> string list \<Rightarrow> (nat \<times> string) result" where
  "verify_lines cr k st [] = Inr st"
| "verify_lines cr k st (l # ls) = bindE (verify_line cr k st l) (\<lambda>st'. verify_lines cr k st' ls)"

text \<open>\<^verbatim>\<open>_verify_unlocked\<close> for the bytes of the log\<close>

definition verify_log :: "crypto \<Rightarrow> string option \<Rightarrow> string \<Rightarrow> (nat \<times> string) result" where
  "verify_log cr k content =
     (case utf8_decode content of
        None \<Rightarrow> Inl (PyError ''UnicodeDecodeError'')
      | Some s \<Rightarrow> verify_lines cr k (0, ZERO_HASH) (log_lines s))"

text \<open>The body of an event, and the row \<^verbatim>\<open>append\<close> writes for it\<close>

definition event_body :: "int \<Rightarrow> string \<Rightarrow> json \<Rightarrow> string \<Rightarrow> (string \<times> json) list" where
  "event_body timestamp event_type payload previous =
     [(''timestamp'', JInt timestamp), (''event_type'', JStr event_type), (''payload'', payload),
      (''previous_hash'', JStr previous)]"

definition event_row :: "crypto \<Rightarrow> string option \<Rightarrow> string \<Rightarrow> (string \<times> json) list \<Rightarrow> json" where
  "event_row cr k previous body =
     (let event_hash = event_digest cr previous (JObj body)
      in JObj (body @ [(''event_hash'', JStr event_hash)] @
          (case k of
             None \<Rightarrow> []
           | Some key \<Rightarrow> [(''event_signature'', JStr (sign cr key (event_payload (JObj body) event_hash)))])))"

subsection \<open>The log file\<close>

text \<open>\<^verbatim>\<open>_open_regular_no_follow\<close> for reading: the content of a regular file\<close>

definition read_log :: "host \<Rightarrow> path \<Rightarrow> string act" where
  "read_log h p = os_asA (IntegrityError ''cannot safely open audit log'') (os_call h (\<lambda>t.
     case look p t of
       None \<Rightarrow> Inl (OSError ''FileNotFoundError'')
     | Some (FileN _ _ content) \<Rightarrow> Inr (content, t)
     | Some _ \<Rightarrow> Inl (IntegrityError ''audit log must be a regular file'')))"

definition verify_unlocked :: "host \<Rightarrow> crypto \<Rightarrow> string option \<Rightarrow> path \<Rightarrow> (nat \<times> string) act" where
  "verify_unlocked h cr k p =
     bindA (lexistsA p) (\<lambda>there.
       if \<not> there then returnA (0, ZERO_HASH)
       else bindA (read_log h p) (\<lambda>content. liftA (verify_log cr k content)))"

definition append_tree :: "path \<Rightarrow> string \<Rightarrow> node \<Rightarrow> (unit \<times> node) result" where
  "append_tree p bytes t =
     (case look p t of
        None \<Rightarrow> create_file_tree p 384 bytes t
      | Some (FileN d m content) \<Rightarrow> Inr ((), change_tree p (Some (FileN d m (content @ bytes))) t)
      | Some _ \<Rightarrow> Inl (IntegrityError ''audit log must be a regular file''))"

definition audit_append :: "host \<Rightarrow> crypto \<Rightarrow> string option \<Rightarrow> path \<Rightarrow> string \<Rightarrow> json \<Rightarrow> string act" where
  "audit_append h cr k p event_type payload =
     thenA (requireA (strip event_type \<noteq> []) (IntegrityError ''audit event type must be a non-empty string''))
    (bindA (verify_unlocked h cr k p) (\<lambda>(_, previous).
     bindA (utc_epoch h) (\<lambda>timestamp.
       \<comment> \<open>the second call is the flush to disk\<close>
       let body = event_body timestamp event_type payload previous
       in thenA (os_asA (IntegrityError ''cannot safely open audit log'')
            (os_call h (append_tree p (canonical_json (event_row cr k previous body) @ [CHR 0x0A]))))
         (thenA (os_call h (\<lambda>t. Inr ((), t)))
          (returnA (event_digest cr previous (JObj body)))))))"

definition audit_verify :: "host \<Rightarrow> crypto \<Rightarrow> string option \<Rightarrow> path \<Rightarrow> nat act" where
  "audit_verify h cr k p = bindA (verify_unlocked h cr k p) (\<lambda>(count, _). returnA count)"

text \<open>\<^verbatim>\<open>AuditLog.__init__\<close>\<close>

definition audit_open :: "host \<Rightarrow> crypto \<Rightarrow> string option \<Rightarrow> path \<Rightarrow> unit act" where
  "audit_open h cr k p =
     thenA (mkdirsA h 448 (butlast p))
    (thenA (os_call h (\<lambda>t.
        if dir_there (butlast p) t then Inr ((), t)
        else Inl (IntegrityError ''audit directory must be a real directory'')))
    (thenA (os_call h (\<lambda>t.
        case look p t of
          None \<Rightarrow> Inr ((), t)
        | Some (FileN _ _ _) \<Rightarrow> Inr ((), t)
        | Some _ \<Rightarrow> Inl (IntegrityError ''audit log must be a regular file'')))
    (bindA (audit_verify h cr k p) (\<lambda>_. returnA ()))))"

end
