(* ===== verification/FileSysFacts.thy ===== *)
theory FileSysFacts
  imports FileSys
begin

text \<open>
  Facts on actions: looking up a path after a change of the tree, and frames. A frame is a
  relation between the worlds before and after an action that every step of the action keeps;
  the locale \<open>frame\<close> carries it through the combinators once and for all.
\<close>

subsection \<open>Absolute paths and the tree\<close>

text \<open>A path below the root of the tree, without the root itself\<close>

definition rooted :: "path \<Rightarrow> bool" where
  "rooted p \<longleftrightarrow> (case p of [] \<Rightarrow> False | a # q \<Rightarrow> prefix ''/'' a \<and> q \<noteq> [] \<and> (\<forall>x \<in> set q. is_name x))"

lemma rootedE:
  assumes "rooted p" obtains a q where "p = a # q" "prefix ''/'' a" "q \<noteq> []" "\<forall>x \<in> set q. is_name x"
  using assms by (auto simp: rooted_def split: list.splits)

lemma look_rooted: "rooted p \<Longrightarrow> look p t = get (tl p) t"
  by (auto simp: rooted_def look_def split: list.splits)

lemma look_cons [simp]: "look (a # q) t = (if prefix ''/'' a then get q t else None)"
  by (simp add: look_def)

lemma dir_there_rooted: "rooted p \<Longrightarrow> dir_there p t = dir_at (tl p) t"
  by (simp add: dir_there_def dir_at_def look_rooted)

lemma dir_there_butlast: "rooted p \<Longrightarrow> dir_there (butlast p) t = dir_at (butlast (tl p)) t"
  by (erule rootedE) (auto simp: dir_there_def dir_at_def look_def)

lemma look_parent: "rooted p \<Longrightarrow> look p t \<noteq> None \<Longrightarrow> dir_there (butlast p) t"
  using get_prefix_dir [of "butlast (tl p)" "last (tl p)" "[]" t]
  by (auto simp: dir_there_butlast look_rooted elim!: rootedE)

lemma wf_change:
  "rooted p \<Longrightarrow> wf_node t \<Longrightarrow> \<forall>v. x = Some v \<longrightarrow> wf_node v \<Longrightarrow> wf_node (change_tree p x t)"
  by (erule rootedE) (auto simp: change_tree_def intro!: wf_upd)

lemma look_change_same:
  "rooted p \<Longrightarrow> wf_node t \<Longrightarrow> dir_there (butlast p) t \<Longrightarrow> look p (change_tree p x t) = x"
  by (subst (asm) dir_there_butlast, assumption) (auto simp: change_tree_def elim!: rootedE intro!: get_upd_same)

text \<open>Two paths neither of which contains the other, whatever their anchors\<close>

definition apart :: "path \<Rightarrow> path \<Rightarrow> bool" where
  "apart p q \<longleftrightarrow> tl p \<parallel> tl q"

lemma apart_sym: "apart p q \<longleftrightarrow> apart q p"
  by (auto simp: apart_def)

lemma apart_below: "apart p q \<Longrightarrow> p \<noteq> [] \<Longrightarrow> apart (p @ r) q"
  using parallel_append [of "tl p" "tl q" r "[]"] by (cases p) (auto simp: apart_def)

lemma look_change_apart:
  "apart p q \<Longrightarrow> wf_node t \<Longrightarrow> look q (change_tree p x t) = look q t"
  by (auto simp: apart_def change_tree_def look_def get_upd_other split: list.splits)

lemma look_wf: "wf_node t \<Longrightarrow> look p t = Some n \<Longrightarrow> wf_node n"
  by (auto simp: look_def split: list.splits if_splits dest: get_wf)

subsection \<open>Frames\<close>

definition obeys :: "('s \<Rightarrow> 's \<Rightarrow> bool) \<Rightarrow> ('s, 'a) comp \<Rightarrow> bool" where
  "obeys R m \<longleftrightarrow> (\<forall>w r w'. m w = (r, w') \<longrightarrow> R w w')"

lemma obeysD: "obeys R m \<Longrightarrow> m w = (r, w') \<Longrightarrow> R w w'"
  by (auto simp: obeys_def)

lemma obeysI: "(\<And>w r w'. m w = (r, w') \<Longrightarrow> R w w') \<Longrightarrow> obeys R m"
  by (auto simp: obeys_def)

locale frame =
  fixes R :: "'s \<Rightarrow> 's \<Rightarrow> bool"
  assumes refl_R: "R w w" and trans_R: "R a b \<Longrightarrow> R b c \<Longrightarrow> R a c"
begin

lemma pure [intro]:
  "obeys R (returnA x)" "obeys R (raiseA e)" "obeys R (liftA r)" "obeys R (requireA b e)"
  by (auto simp: obeys_def requireA_def refl_R split: if_splits)

lemma bind [intro]: "obeys R m \<Longrightarrow> (\<And>x. obeys R (f x)) \<Longrightarrow> obeys R (bindA m f)"
  by (rule obeysI) (erule bindA_cases; blast intro: trans_R dest: obeysD)

lemma bind_result:
  "obeys R m \<Longrightarrow> (\<And>x w w'. m w = (Inr x, w') \<Longrightarrow> obeys R (f x)) \<Longrightarrow> obeys R (bindA m f)"
  by (rule obeysI) (erule bindA_cases; blast intro: trans_R dest: obeysD)

lemma cond [intro]: "obeys R m \<Longrightarrow> obeys R n \<Longrightarrow> obeys R (if b then m else n)"
  by simp

lemma on_error [intro]: "obeys R m \<Longrightarrow> obeys R handler \<Longrightarrow> obeys R (on_errorA m handler)"
  unfolding obeys_def on_errorA_def
  by (auto split: prod.splits sum.splits) (meson trans_R)+

lemma final [intro]: "obeys R m \<Longrightarrow> obeys R n \<Longrightarrow> obeys R (finallyA m n)"
  unfolding obeys_def finallyA_def
  by (auto split: prod.splits sum.splits) (meson trans_R)+

lemma os [intro]: "obeys R m \<Longrightarrow> obeys R (os_asA e m)"
  unfolding obeys_def os_asA_def
  by (auto split: prod.splits sum.splits error.splits)

lemma ignore [intro]: "obeys R m \<Longrightarrow> obeys R (ignore_osA m)"
  unfolding obeys_def ignore_osA_def
  by (auto split: prod.splits sum.splits error.splits)

lemma catch [intro]: "obeys R m \<Longrightarrow> obeys R (catch_osA m)"
  unfolding obeys_def catch_osA_def
  by (auto split: prod.splits sum.splits error.splits)

lemma ignore_missing [intro]: "obeys R m \<Longrightarrow> obeys R (ignore_missingA m)"
  unfolding obeys_def ignore_missingA_def
  by (auto split: prod.splits sum.splits error.splits)

lemma for_each [intro]: "(\<And>x. x \<in> set xs \<Longrightarrow> obeys R (f x)) \<Longrightarrow> obeys R (forA f xs)"
  by (induction xs) auto

end

text \<open>A relation on trees, as a frame; it need hold only between well-formed trees.\<close>

definition on_trees :: "(node \<Rightarrow> node \<Rightarrow> bool) \<Rightarrow> world \<Rightarrow> world \<Rightarrow> bool" where
  "on_trees Q w w' \<longleftrightarrow> (wf_node (w_tree w) \<longrightarrow> wf_node (w_tree w') \<and> Q (w_tree w) (w_tree w'))"

lemma os_call_on_trees:
  assumes "\<And>t x t'. wf_node t \<Longrightarrow> f t = Inr (x, t') \<Longrightarrow> wf_node t' \<and> Q t t'" and "\<And>t. Q t t"
  shows "obeys (on_trees Q) (os_call h f)"
  using assms by (auto intro!: obeysI simp: os_call_def on_trees_def Let_def split: if_splits sum.splits)

text \<open>The frame of a path: what is found there stays.\<close>

abbreviation keeps :: "path \<Rightarrow> world \<Rightarrow> world \<Rightarrow> bool" where
  "keeps p \<equiv> on_trees (\<lambda>t t'. look p t' = look p t)"

interpretation keeps: frame "keeps p" for p
  by unfold_locales (auto simp: on_trees_def)

text \<open>The frame of actions that change nothing\<close>

abbreviation reads :: "world \<Rightarrow> world \<Rightarrow> bool" where
  "reads w w' \<equiv> w_tree w' = w_tree w"

interpretation reads: frame reads
  by unfold_locales auto

lemma reads_keeps: "obeys reads m \<Longrightarrow> obeys (keeps p) m"
  by (auto simp: obeys_def on_trees_def)

lemma os_call_reads: "(\<And>t x t'. f t = Inr (x, t') \<Longrightarrow> t' = t) \<Longrightarrow> obeys reads (os_call h f)"
  by (auto intro!: obeysI simp: os_call_def Let_def split: if_splits sum.splits)

lemma os_call_keeps:
  "(\<And>t x t'. wf_node t \<Longrightarrow> f t = Inr (x, t') \<Longrightarrow> wf_node t' \<and> look p t' = look p t) \<Longrightarrow>
    obeys (keeps p) (os_call h f)"
  by (rule os_call_on_trees) auto

subsection \<open>What the operations keep\<close>

text \<open>A new empty directory hides nothing: only a path at or below it could change.\<close>

lemma look_change_above:
  assumes "rooted p" "wf_node t" "dir_there (butlast p) t" "look p t = None"
    and "rooted q" "\<not> prefix (tl q) (tl p)"
  shows "look q (change_tree p (Some (DirN d m [])) t) = look q t"
proof (cases "apart p q")
  case True
  then show ?thesis using assms(2) by (rule look_change_apart)
next
  case False
  then obtain r where r: "tl q = tl p @ r"
    using assms(6) by (auto simp: apart_def parallel_def prefix_def)
  then obtain x r' where q: "tl q = tl p @ x # r'"
    using assms(6) by (cases r) auto
  have "look p (change_tree p (Some (DirN d m [])) t) = Some (DirN d m [])"
    using assms(1-3) by (rule look_change_same)
  then show ?thesis
    using assms(1,4,5) by (simp add: look_rooted q get_append)
qed

lemma rooted_butlast: "rooted p \<Longrightarrow> tl (butlast p) = butlast (tl p)"
  by (cases p) (auto simp: rooted_def)

lemma rooted_dir: "rooted p \<Longrightarrow> length (butlast p) \<le> 1 \<or> rooted (butlast p)"
  by (cases p; cases "tl p" rule: rev_cases) (auto simp: rooted_def)

lemma mkdirA_keeps:
  assumes "rooted p" "rooted q" "\<not> prefix (tl q) (tl p)"
  shows "obeys (keeps q) (mkdirA h m p)"
  unfolding mkdirA_def
  by (rule os_call_keeps)
    (use assms in \<open>auto simp: mkdir_tree_def look_change_above wf_change split: if_splits\<close>)

lemma mkdirsA_keeps:
  assumes "rooted q" "length p \<le> 1 \<or> rooted p" "\<not> prefix (tl q) (tl p)"
  shows "obeys (keeps q) (mkdirsA h m p)"
  using assms
proof (induction "length p" arbitrary: m p)
  case 0
  then show ?case by (auto intro!: obeysI simp: mkdirsA.simps on_trees_def split: if_splits)
next
  case (Suc n)
  show ?case
  proof (cases "length p \<le> 1")
    case True
    then show ?thesis by (auto intro!: obeysI simp: mkdirsA.simps [of h m p] on_trees_def split: if_splits)
  next
    case False
    then have r: "rooted p" using Suc.prems by simp
    note b = rooted_dir [OF r]
    have "\<not> prefix (tl q) (tl (butlast p))"
      using Suc.prems(3) r by (metis rooted_butlast prefixeq_butlast prefix_order.trans)
    then have "obeys (keeps q) (mkdirsA h 511 (butlast p))"
      using Suc.hyps b Suc.prems(1) by auto
    then have o: "obeys (keeps q) (thenA (mkdirsA h 511 (butlast p)) (mkdirA h m p))"
      using mkdirA_keeps [OF r Suc.prems(1,3)] by blast
    show ?thesis
      by (rule obeysI) (subst (asm) mkdirsA.simps,
        auto simp: on_trees_def split: if_splits dest: obeysD [OF o, unfolded on_trees_def])
  qed
qed

lemma apart_not_above: "apart p q \<Longrightarrow> \<not> prefix (tl q) (tl p)" "apart p q \<Longrightarrow> \<not> prefix (tl q) (butlast (tl p))"
  by (auto simp: apart_def) (metis parallelE prefix_order.trans prefixeq_butlast)

lemma change_keeps:
  assumes "rooted p" "apart p q"
    and "\<And>t x t'. wf_node t \<Longrightarrow> f t = Inr (x, t') \<Longrightarrow> t' = t \<or> (\<exists>v. t' = change_tree p v t \<and> (\<forall>n. v = Some n \<longrightarrow> wf_node n))"
  shows "obeys (keeps q) (os_call h f)"
  using assms by (intro os_call_keeps) (metis look_change_apart wf_change)

lemma fsync_directory_reads [intro]: "obeys reads (fsync_directory h p)"
  unfolding fsync_directory_def by (rule os_call_reads) (auto split: if_splits)

lemma atomic_write_json_keeps:
  assumes "rooted p" "rooted q" "apart p q"
  shows "obeys (keeps q) (atomic_write_json h p v)"
proof -
  have "obeys (keeps q) (mkdirsA h 511 (butlast p))"
    using assms apart_not_above rooted_dir by (intro mkdirsA_keeps) (auto simp: rooted_butlast)
  moreover have "obeys (keeps q) (write_temporary h p)"
    unfolding write_temporary_def by (intro reads_keeps os_call_reads) (auto split: if_splits)
  moreover have "obeys (keeps q) (os_call h (replace_tree p m c))" for m c
    using assms by (intro change_keeps [of p]) (auto simp: replace_tree_def create_file_tree_def split: if_splits)
  ultimately show ?thesis
    unfolding atomic_write_json_def by (intro keeps.bind reads_keeps [OF fsync_directory_reads])
qed

subsection \<open>A sample world\<close>

definition quiet_host :: host where
  "quiet_host = \<lparr>h_clock = \<lambda>i. 1000 + int i, h_random = \<lambda>i. replicate 18 (char_of (65 + i)),
     h_fault = \<lambda>_. False, h_umask = 18, h_home = [''/'', ''home'', ''u''], h_resolve = \<lambda>p. p, h_pid = ''7''\<rparr>"

lemma quiet_no_fault [simp]: "\<not> h_fault quiet_host i"
  by (simp add: quiet_host_def)

definition sample_world :: world where
  "sample_world = \<lparr>w_tree = DirN 1 493 [(''s'', DirN 1 448 [])], w_calls = 0, w_ticks = 0, w_draws = 0\<rparr>"

lemma sample_world_wf: "wf_node (w_tree sample_world)"
  by (simp add: sample_world_def is_name_def is_component_def)

abbreviation sample_log :: path where
  "sample_log \<equiv> [''/'', ''s'', ''audit.jsonl'']"

lemma sample_log_rooted: "rooted sample_log"
  by (simp add: rooted_def is_name_def is_component_def)

end
