(* ===== verification/Broker.thy ===== *)
theory Broker
  imports Policy ShellGate AuditLog FileSysFacts
begin

text \<open>
  \<^verbatim>\<open>broker.py\<close>: the operations of \<^verbatim>\<open>WorkspaceGuard\<close> as actions on the world, one call of the
  operating system at a time. A \<open>guard\<close> holds what the object holds, with the host and the
  cryptographic functions it runs on. The commit record that the code mutates while it applies
  a plan, and that its exception handler reads, is a second component of the state.
\<close>

subsection \<open>The broker object\<close>

definition DEFAULT_EXCLUDED_TOP_LEVEL :: "string list" where
  "DEFAULT_EXCLUDED_TOP_LEVEL = [''.git'', ''.agent-workspace-guard'']"

definition MAX_PLAN_TTL_SECONDS :: int where "MAX_PLAN_TTL_SECONDS = 3600"
definition MAX_APPROVAL_TTL_SECONDS :: int where "MAX_APPROVAL_TTL_SECONDS = 900"
definition MAX_TASK_ID_LENGTH :: nat where "MAX_TASK_ID_LENGTH = 256"
definition MAX_ACTOR_LENGTH :: nat where "MAX_ACTOR_LENGTH = 256"
definition PROTOCOL_VERSION :: int where "PROTOCOL_VERSION = 1"

record guard =
  b_host :: host
  b_crypto :: crypto
  b_key :: string
  b_root :: path
  b_policy :: guard_policy
  b_excluded :: "string list"

definition audit_path :: "guard \<Rightarrow> path" where
  "audit_path g = b_root g @ [''audit.jsonl'']"

definition log_event :: "guard \<Rightarrow> string \<Rightarrow> (string \<times> json) list \<Rightarrow> unit act" where
  "log_event g event_type payload =
     thenA (audit_append (b_host g) (b_crypto g) (Some (b_key g)) (audit_path g) event_type (JObj payload))
       (returnA ())"

definition state_directories :: "string list" where
  "state_directories = [''transactions'', ''plans'', ''approvals'', ''commits'', ''quarantine'', ''apply'', ''locks'']"

text \<open>\<^verbatim>\<open>__init__\<close>; the candidate path is absolute\<close>

definition open_guard ::
  "host \<Rightarrow> crypto \<Rightarrow> path \<Rightarrow> guard_policy option \<Rightarrow> string list \<Rightarrow> guard act" where
  "open_guard h cr candidate policy excluded =
     bindA (ensure_absolute_directory h ''state root'' True candidate) (\<lambda>root.
     thenA (ignore_osA (chmodA h 448 root))
    (thenA (liftA (reject_dangerous_workspace_root (h_resolve h (h_home h)) root))
    (thenA (forA (\<lambda>d. thenA (ensure_private_directory h (root @ [d]) root) (returnA ())) state_directories)
    (bindA (load_or_create_key h (root @ [''secret.key''])) (\<lambda>key.
     thenA (audit_open h cr (Some key) (root @ [''audit.jsonl'']))
       (returnA \<lparr>b_host = h, b_crypto = cr, b_key = key, b_root = root,
          b_policy = (case policy of
            Some p \<Rightarrow> p | None \<Rightarrow> default_policy\<lparr>g_protected_top_level := excluded\<rparr>),
          b_excluded = excluded\<rparr>))))))"

subsection \<open>Paths of state files\<close>

definition transaction_path :: "guard \<Rightarrow> string \<Rightarrow> path result" where
  "transaction_path g i =
     bindE (validate_object_id (JStr i) ''tx'') (\<lambda>i.
       Inr (b_root g @ [''transactions'', i, ''transaction.json'']))"

definition plan_path :: "guard \<Rightarrow> string \<Rightarrow> path result" where
  "plan_path g i =
     bindE (validate_object_id (JStr i) ''plan'') (\<lambda>i. Inr (b_root g @ [''plans'', i @ ''.json'']))"

definition approval_path :: "guard \<Rightarrow> string \<Rightarrow> path result" where
  "approval_path g i =
     bindE (validate_object_id (JStr i) ''approval'') (\<lambda>i. Inr (b_root g @ [''approvals'', i @ ''.json'']))"

definition commit_path :: "guard \<Rightarrow> string \<Rightarrow> path result" where
  "commit_path g i =
     bindE (validate_object_id (JStr i) ''commit'') (\<lambda>i. Inr (b_root g @ [''commits'', i @ ''.json'']))"

subsection \<open>Checks of loaded records\<close>

definition validate_transaction_record :: "guard \<Rightarrow> transaction \<Rightarrow> unit result" where
  "validate_transaction_record g t =
     (let expected_root = b_root g @ [''transactions'', t_id t];
          outside = IntegrityError ''signed path is outside the transaction namespace''
      in checksE
        [voidE (validate_object_id (JStr (t_id t)) ''tx''),
         voidE (validate_text_field (JStr (t_task_id t)) ''task id'' MAX_TASK_ID_LENGTH),
         requireE (path_of (t_transaction_root t) = expected_root) outside,
         requireE (path_of (t_worktree_root t) = expected_root @ [''worktree'']) outside,
         requireE (path_of (t_home_root t) = expected_root @ [''home'']) outside,
         requireE (path_of (t_temp_root t) = expected_root @ [''tmp'']) outside,
         requireE (path_of (t_baseline_path t) = expected_root @ [''baseline.json'']) outside,
         requireE (is_absolute (path_of (t_workspace_root t)))
           (IntegrityError ''signed workspace root is not absolute''),
         requireE (\<not> (t_created_at t < 0 \<or> t_workspace_device t < 0))
           (IntegrityError ''transaction record contains invalid metadata''),
         rewrap IntegrityError
           (voidE (validate_sha256 (JStr (t_baseline_digest t)) ''transaction baseline digest''))])"

definition validate_change :: "change \<Rightarrow> unit result" where
  "validate_change c = checksE
     [voidE (validate_relative_path (JStr (c_path c))),
      requireE (case c_before c of None \<Rightarrow> True | Some e \<Rightarrow> e_path e = c_path c)
        (IntegrityError ''commit plan before-entry path mismatch''),
      requireE (case c_after c of None \<Rightarrow> True | Some e \<Rightarrow> e_path e = c_path c)
        (IntegrityError ''commit plan after-entry path mismatch'')]"

definition validate_plan_record :: "commit_plan \<Rightarrow> unit result" where
  "validate_plan_record p = checksE
     ([requireE (p_protocol_version p = PROTOCOL_VERSION)
         (IntegrityError ''unsupported commit-plan protocol version''),
       voidE (validate_object_id (JStr (p_id p)) ''plan''),
       voidE (validate_object_id (JStr (p_transaction_id p)) ''tx''),
       voidE (validate_text_field (JStr (p_task_id p)) ''task id'' MAX_TASK_ID_LENGTH),
       requireE (is_absolute (path_of (p_workspace_root p)))
         (IntegrityError ''commit plan workspace root is not absolute''),
       requireE (\<not> (p_created_at p < 0 \<or> p_expires_at p \<le> p_created_at p))
         (IntegrityError ''commit plan has an invalid lifetime''),
       requireE (\<not> p_expires_at p - p_created_at p > MAX_PLAN_TTL_SECONDS)
         (IntegrityError ''commit plan exceeds the maximum lifetime''),
       rewrap IntegrityError (checksE
         [voidE (validate_sha256 (JStr (p_baseline_digest p)) ''plan baseline digest''),
          voidE (validate_sha256 (JStr (p_staged_digest p)) ''plan staged digest''),
          voidE (validate_sha256 (JStr (p_policy_digest p)) ''plan policy digest''),
          voidE (validate_sha256 (JStr (p_fingerprint p)) ''plan fingerprint'')])]
      @ map validate_change (p_changes p))"

definition allowed_statuses :: "string list" where
  "allowed_statuses = [''prepared'', ''committed'', ''rolled_back'', ''rollback_failed'', ''restored'']"

definition validate_operation :: "path \<Rightarrow> string list \<Rightarrow> commit_operation \<Rightarrow> unit result" where
  "validate_operation quarantine seen_paths op =
     bindE (validate_relative_path (JStr (o_path op))) (\<lambda>_.
     bindE (requireE (o_path op \<notin> set seen_paths)
       (IntegrityError ''commit record contains duplicate operation paths'')) (\<lambda>_.
     bindE (safe_join quarantine (o_path op)) (\<lambda>expected_backup.
       case o_backup_path op of
         None \<Rightarrow> requireE (o_before_kind op = None)
           (IntegrityError ''existing target has no quarantine backup path'')
       | Some b \<Rightarrow> checksE
           [requireE (o_before_kind op \<noteq> None)
              (IntegrityError ''new target unexpectedly has a quarantine backup''),
            requireE (path_of b = expected_backup)
              (IntegrityError ''commit backup path is outside quarantine'')])))"

fun validate_operations :: "path \<Rightarrow> string list \<Rightarrow> commit_operation list \<Rightarrow> unit result" where
  "validate_operations quarantine seen_paths [] = Inr ()"
| "validate_operations quarantine seen_paths (op # ops) =
     bindE (validate_operation quarantine seen_paths op) (\<lambda>_.
       validate_operations quarantine (o_path op # seen_paths) ops)"

definition validate_commit_record :: "guard \<Rightarrow> commit_record \<Rightarrow> unit result" where
  "validate_commit_record g r =
     (let expected_quarantine = b_root g @ [''quarantine'', r_commit_id r];
          expected_apply = b_root g @ [''apply'', r_commit_id r]
      in checksE
        [voidE (validate_object_id (JStr (r_commit_id r)) ''commit''),
         voidE (validate_object_id (JStr (r_plan_id r)) ''plan''),
         voidE (validate_object_id (JStr (r_transaction_id r)) ''tx''),
         requireE (is_absolute (path_of (r_workspace_root r)))
           (IntegrityError ''commit record workspace root is not absolute''),
         requireE (path_of (r_quarantine_root r) = expected_quarantine)
           (IntegrityError ''commit quarantine path is outside broker state''),
         requireE (path_of (r_apply_root r) = expected_apply)
           (IntegrityError ''commit apply path is outside broker state''),
         requireE (\<not> r_created_at r < 0) (IntegrityError ''commit record contains an invalid timestamp''),
         rewrap IntegrityError (checksE
           [voidE (validate_sha256 (JStr (r_before_digest r)) ''commit before digest''),
            voidE (validate_sha256 (JStr (r_after_digest r)) ''commit after digest'')]),
         requireE (r_status r \<in> set allowed_statuses) (IntegrityError ''unknown commit status''),
         validate_operations expected_quarantine [] (r_operations r)])"

subsection \<open>Loading and saving records\<close>

definition scan :: "guard \<Rightarrow> path \<Rightarrow> tree_manifest act" where
  "scan g root = scanA (b_host g) (b_crypto g) (b_excluded g) root"

definition check_signature :: "guard \<Rightarrow> json \<Rightarrow> string \<Rightarrow> unit result" where
  "check_signature g payload signature = verify (b_crypto g) (b_key g) payload signature"

definition load_transaction :: "guard \<Rightarrow> string \<Rightarrow> transaction act" where
  "load_transaction g i =
     bindA (liftA (validate_object_id (JStr i) ''tx'')) (\<lambda>requested_id.
     bindA (liftA (transaction_path g requested_id)) (\<lambda>p.
     bindA (read_json (b_host g) p) (\<lambda>data.
     bindA (liftA (transaction_from_dict data)) (\<lambda>t.
     thenA (requireA (t_id t = requested_id)
       (IntegrityError ''transaction record identity does not match its state path''))
    (thenA (liftA (check_signature g (signed_record ''transaction'' (transaction_signing_dict t)) (t_signature t)))
    (thenA (liftA (validate_transaction_record g t))
       (returnA t)))))))"

definition load_plan :: "guard \<Rightarrow> string \<Rightarrow> commit_plan act" where
  "load_plan g i =
     bindA (liftA (validate_object_id (JStr i) ''plan'')) (\<lambda>requested_id.
     bindA (liftA (plan_path g requested_id)) (\<lambda>p.
     bindA (read_json (b_host g) p) (\<lambda>data.
     bindA (liftA (plan_from_dict data)) (\<lambda>plan.
     thenA (requireA (p_id plan = requested_id)
       (IntegrityError ''commit plan identity does not match its state path''))
    (thenA (requireA (digest_json (b_crypto g) (JObj (plan_core plan)) = p_fingerprint plan)
       (IntegrityError ''commit plan fingerprint does not match its contents''))
    (thenA (liftA (check_signature g (signed_record ''commit_plan'' (plan_signing_dict plan)) (p_signature plan)))
    (thenA (liftA (validate_plan_record plan))
       (returnA plan))))))))"

definition load_commit :: "guard \<Rightarrow> string \<Rightarrow> commit_record act" where
  "load_commit g i =
     bindA (liftA (validate_object_id (JStr i) ''commit'')) (\<lambda>requested_id.
     bindA (liftA (commit_path g requested_id)) (\<lambda>p.
     bindA (read_json (b_host g) p) (\<lambda>data.
     bindA (liftA (record_from_dict data)) (\<lambda>r.
     thenA (requireA (r_commit_id r = requested_id)
       (IntegrityError ''commit record identity does not match its state path''))
    (thenA (liftA (check_signature g (signed_core ''commit_record'' (JObj (record_core r))) (r_signature r)))
    (thenA (liftA (validate_commit_record g r))
       (returnA r)))))))"

definition load_baseline :: "guard \<Rightarrow> transaction \<Rightarrow> tree_manifest act" where
  "load_baseline g t =
     bindA (read_json (b_host g) (path_of (t_baseline_path t))) (\<lambda>data.
     bindA (liftA (manifest_from_dict data)) (\<lambda>baseline.
     thenA (liftA (verify_manifest (b_crypto g) (h_resolve (b_host g)) baseline
       (Some (path_of (t_workspace_root t)))))
    (thenA (requireA (m_digest baseline = t_baseline_digest t)
       (IntegrityError ''baseline manifest does not match the signed transaction receipt''))
       (returnA baseline))))"

definition sign_transaction :: "guard \<Rightarrow> transaction \<Rightarrow> transaction" where
  "sign_transaction g t = t\<lparr>t_signature :=
     sign (b_crypto g) (b_key g) (signed_record ''transaction'' (transaction_signing_dict t))\<rparr>"

definition sign_plan :: "guard \<Rightarrow> commit_plan \<Rightarrow> commit_plan" where
  "sign_plan g p = p\<lparr>p_signature :=
     sign (b_crypto g) (b_key g) (signed_record ''commit_plan'' (plan_signing_dict p))\<rparr>"

definition sign_commit :: "guard \<Rightarrow> commit_record \<Rightarrow> commit_record" where
  "sign_commit g r = r\<lparr>r_signature :=
     sign (b_crypto g) (b_key g) (signed_core ''commit_record'' (JObj (record_core r)))\<rparr>"

definition save_transaction :: "guard \<Rightarrow> transaction \<Rightarrow> unit act" where
  "save_transaction g t =
     bindA (liftA (transaction_path g (t_id t))) (\<lambda>p.
       atomic_write_json (b_host g) p (transaction_to_dict (sign_transaction g t)))"

definition save_plan :: "guard \<Rightarrow> commit_plan \<Rightarrow> unit act" where
  "save_plan g plan =
     bindA (liftA (plan_path g (p_id plan))) (\<lambda>p.
       atomic_write_json (b_host g) p (plan_to_dict (sign_plan g plan)))"

definition verify_audit :: "guard \<Rightarrow> nat act" where
  "verify_audit g = audit_verify (b_host g) (b_crypto g) (Some (b_key g)) (audit_path g)"

definition inspect_command :: "guard \<Rightarrow> json \<Rightarrow> string \<Rightarrow> command_inspection" where
  "inspect_command g command shell = inspect_shell_command (b_crypto g) command shell"

end
