(* ===== verification/Lifecycle.thy ===== *)
theory Lifecycle
  imports Broker
begin

text \<open>
  The operations of \<^verbatim>\<open>WorkspaceGuard\<close> before a commit: \<^verbatim>\<open>begin\<close> copies the workspace into a
  disposable worktree, \<^verbatim>\<open>environment\<close> and \<^verbatim>\<open>discard\<close> serve and end the transaction, \<^verbatim>\<open>plan\<close>
  records the exact difference and \<^verbatim>\<open>approve\<close> mints a token for one plan.
\<close>

subsection \<open>\<^verbatim>\<open>begin\<close>\<close>

definition home_directories :: "path list" where
  "home_directories = [[''.codex''], [''.config''], [''.cache''], [''.local'', ''share''],
     [''.local'', ''state''], [''AppData'', ''Roaming''], [''AppData'', ''Local'']]"

text \<open>\<^verbatim>\<open>path.mkdir(parents=True, mode=0o700)\<close>\<close>

definition mkdir_parents :: "host \<Rightarrow> path \<Rightarrow> unit act" where
  "mkdir_parents h p = thenA (mkdirsA h 511 (butlast p)) (mkdirA h 448 p)"

text \<open>The copy and the directories of the transaction, then the two scans that check the copy\<close>

definition populate :: "guard \<Rightarrow> path \<Rightarrow> path \<Rightarrow> tree_manifest \<Rightarrow> unit act" where
  "populate g workspace transaction_root baseline_before =
     (let h = b_host g; worktree_root = transaction_root @ [''worktree''];
          home_root = transaction_root @ [''home'']; temp_root = transaction_root @ [''tmp'']
      in thenA (copytreeA h (b_excluded g) workspace worktree_root)
        (thenA (mkdirA h 448 home_root)
        (thenA (mkdirA h 448 temp_root)
        (thenA (forA (\<lambda>relative. mkdir_parents h (home_root @ relative)) home_directories)
        (thenA (mkdirA h 448 (temp_root @ [''runtime'']))
        (bindA (scan g workspace) (\<lambda>baseline_after.
         bindA (scan g worktree_root) (\<lambda>staged.
         thenA (requireA (m_digest baseline_after = m_digest baseline_before)
           (StalePlan ''the workspace changed while the transaction was being created''))
           (requireA (m_digest staged = m_digest baseline_before)
             (IntegrityError ''the disposable worktree does not match the source workspace after copying''))))))))))"

definition receipt_core :: "transaction \<Rightarrow> (string \<times> json) list" where
  "receipt_core t =
     [(''transaction_id'', JStr (t_id t)), (''task_id'', JStr (t_task_id t)),
      (''worktree_root'', JStr (t_worktree_root t)), (''home_root'', JStr (t_home_root t)),
      (''temp_root'', JStr (t_temp_root t)), (''baseline_digest'', JStr (t_baseline_digest t)),
      (''issued_at'', JInt (t_created_at t)), (''issued_by'', JStr ''agent-workspace-guard'')]"

text \<open>The state files of the new transaction\<close>

definition record_transaction ::
  "guard \<Rightarrow> string \<Rightarrow> string \<Rightarrow> path \<Rightarrow> path \<Rightarrow> tree_manifest \<Rightarrow> transaction act" where
  "record_transaction g transaction_id task_id workspace transaction_root baseline_before =
     (let h = b_host g; baseline_path = transaction_root @ [''baseline.json'']
      in thenA (atomic_write_json h baseline_path (manifest_to_dict baseline_before))
        (bindA (utc_epoch h) (\<lambda>created_at.
         bindA (stat_dev h workspace) (\<lambda>device.
           let t = sign_transaction g
                 \<lparr>t_id = transaction_id, t_task_id = task_id, t_workspace_root = path_str workspace,
                  t_transaction_root = path_str transaction_root,
                  t_worktree_root = path_str (transaction_root @ [''worktree'']),
                  t_home_root = path_str (transaction_root @ [''home'']),
                  t_temp_root = path_str (transaction_root @ [''tmp'']),
                  t_baseline_path = path_str baseline_path, t_baseline_digest = m_digest baseline_before,
                  t_created_at = created_at, t_workspace_device = device, t_state = TX_OPEN, t_signature = ''''\<rparr>
           in thenA (save_transaction g t)
             (thenA (atomic_write_json h (transaction_root @ [''capability-receipt.json''])
               (JObj (receipt_core t @ [(''signature'', JStr (sign (b_crypto g) (b_key g)
                 (signed_core ''capability_receipt'' (JObj (receipt_core t)))))])))
               (returnA t))))))"

definition remove_if_there :: "guard \<Rightarrow> path \<Rightarrow> unit act" where
  "remove_if_there g p =
     bindA (lexistsA p) (\<lambda>there.
       if there then remove_state_tree (b_host g) (b_root g) p else returnA ())"

text \<open>\<open>candidate\<close> is the absolute form of the given path\<close>

definition begin_transaction :: "guard \<Rightarrow> path \<Rightarrow> json \<Rightarrow> transaction act" where
  "begin_transaction g candidate task =
     bindA (liftA (validate_text_field task ''task id'' MAX_TASK_ID_LENGTH)) (\<lambda>task_id.
     bindA (ensure_absolute_directory (b_host g) ''workspace root'' False candidate) (\<lambda>workspace.
     thenA (liftA (reject_dangerous_workspace_root (h_resolve (b_host g) (h_home (b_host g))) workspace))
    (thenA (liftA (assert_disjoint workspace (b_root g)))
    (bindA (same_filesystem (b_host g) workspace (b_root g)) (\<lambda>same.
     thenA (requireA same
       (GuardError ''state root must be on the same filesystem as the workspace so quarantine moves are atomic''))
    (bindA (scan g workspace) (\<lambda>baseline_before.
     bindA (new_id (b_host g) ''tx'') (\<lambda>transaction_id.
       let transaction_root = b_root g @ [''transactions'', transaction_id]
       in thenA (mkdirA (b_host g) 448 transaction_root)
         (bindA (on_errorA
             (thenA (populate g workspace transaction_root baseline_before)
                (record_transaction g transaction_id task_id workspace transaction_root baseline_before))
             (remove_if_there g transaction_root)) (\<lambda>t.
          thenA (log_event g ''transaction_started''
            [(''transaction_id'', JStr transaction_id), (''task_id'', JStr task_id),
             (''workspace_root'', JStr (path_str workspace)),
             (''baseline_digest'', JStr (m_digest baseline_before))])
            (returnA t)))))))))))"

subsection \<open>\<^verbatim>\<open>environment\<close> and \<^verbatim>\<open>discard\<close>\<close>

definition environment_of :: "transaction \<Rightarrow> (string \<times> string) list" where
  "environment_of t =
     (let home = path_of (t_home_root t); temp = path_of (t_temp_root t)
      in [(''AWG_TRANSACTION_ID'', t_id t), (''AWG_WORKTREE'', t_worktree_root t),
          (''HOME'', t_home_root t), (''USERPROFILE'', t_home_root t),
          (''TMPDIR'', t_temp_root t), (''TMP'', t_temp_root t), (''TEMP'', t_temp_root t),
          (''CODEX_HOME'', path_str (home @ [''.codex''])),
          (''XDG_CONFIG_HOME'', path_str (home @ [''.config''])),
          (''XDG_CACHE_HOME'', path_str (home @ [''.cache''])),
          (''XDG_DATA_HOME'', path_str (home @ [''.local'', ''share''])),
          (''XDG_STATE_HOME'', path_str (home @ [''.local'', ''state''])),
          (''XDG_RUNTIME_DIR'', path_str (temp @ [''runtime''])),
          (''APPDATA'', path_str (home @ [''AppData'', ''Roaming''])),
          (''LOCALAPPDATA'', path_str (home @ [''AppData'', ''Local'']))])"

definition environment :: "guard \<Rightarrow> string \<Rightarrow> (string \<times> string) list act" where
  "environment g i =
     bindA (load_transaction g i) (\<lambda>t.
     thenA (requireA (t_state t \<in> {TX_OPEN, TX_PLANNED}) (GuardError ''transaction is not executable''))
       (returnA (environment_of t)))"

definition discard :: "guard \<Rightarrow> string \<Rightarrow> unit act" where
  "discard g i =
     bindA (load_transaction g i) (\<lambda>t.
     thenA (requireA (t_state t \<noteq> TX_COMMITTED)
       (GuardError ''committed transactions are retained for audit and restore''))
    (thenA (save_transaction g (t\<lparr>t_state := TX_DISCARDED\<rparr>))
    (thenA (log_event g ''transaction_discarded''
       [(''transaction_id'', JStr i), (''task_id'', JStr (t_task_id t))])
       (remove_state_tree (b_host g) (b_root g) (path_of (t_transaction_root t))))))"

subsection \<open>\<^verbatim>\<open>plan\<close>\<close>

definition make_plan ::
  "guard \<Rightarrow> transaction \<Rightarrow> tree_manifest \<Rightarrow> tree_manifest \<Rightarrow> string \<Rightarrow> int \<Rightarrow> int
    \<Rightarrow> decision \<times> finding list \<times> (string \<times> int) list \<Rightarrow> commit_plan" where
  "make_plan g t baseline staged plan_id created_at ttl_seconds evaluation =
     (let unsigned =
        \<lparr>p_protocol_version = PROTOCOL_VERSION, p_id = plan_id, p_transaction_id = t_id t,
         p_task_id = t_task_id t, p_workspace_root = t_workspace_root t,
         p_baseline_digest = m_digest baseline, p_staged_digest = m_digest staged,
         p_policy_digest = fingerprint (b_crypto g) (b_policy g),
         p_changes = diff_manifests baseline staged, p_findings = fst (snd evaluation),
         p_decision = fst evaluation, p_fingerprint = '''', p_created_at = created_at,
         p_expires_at = created_at + ttl_seconds, p_signature = '''', p_state = PLAN_PENDING,
         p_summary = snd (snd evaluation)\<rparr>
      in sign_plan g (unsigned\<lparr>p_fingerprint := digest_json (b_crypto g) (JObj (plan_core unsigned))\<rparr>))"

definition plan_transaction :: "guard \<Rightarrow> string \<Rightarrow> json \<Rightarrow> commit_plan act" where
  "plan_transaction g i ttl =
     bindA (liftA (validate_ttl ttl ''plan TTL'' MAX_PLAN_TTL_SECONDS)) (\<lambda>ttl_seconds.
     bindA (load_transaction g i) (\<lambda>t.
     thenA (requireA (t_state t \<in> {TX_OPEN, TX_PLANNED}) (GuardError ''cannot plan transaction in this state''))
    (bindA (load_baseline g t) (\<lambda>baseline.
     bindA (scan g (path_of (t_workspace_root t))) (\<lambda>current_real.
     thenA (requireA (m_digest current_real = m_digest baseline)
       (StalePlan ''the real workspace changed after the transaction began; rebase into a new transaction''))
    (bindA (scan g (path_of (t_worktree_root t))) (\<lambda>staged.
     bindA (liftA (evaluate (b_policy g) baseline staged (diff_manifests baseline staged))) (\<lambda>evaluation.
     bindA (utc_epoch (b_host g)) (\<lambda>created_at.
     bindA (new_id (b_host g) ''plan'') (\<lambda>plan_id.
       let plan = make_plan g t baseline staged plan_id created_at ttl_seconds evaluation
       in thenA (save_plan g plan)
         (thenA (save_transaction g (t\<lparr>t_state := TX_PLANNED\<rparr>))
         (thenA (log_event g ''plan_created''
           [(''plan_id'', JStr (p_id plan)), (''transaction_id'', JStr (t_id t)),
            (''decision'', JStr (decision_value (p_decision plan))), (''fingerprint'', JStr (p_fingerprint plan)),
            (''summary'', JObj (map (\<lambda>(k, n). (k, JInt n)) (p_summary plan)))])
           (returnA plan)))))))))))))"

subsection \<open>\<^verbatim>\<open>approve\<close>\<close>

definition assert_plan_pending_and_fresh :: "guard \<Rightarrow> commit_plan \<Rightarrow> unit act" where
  "assert_plan_pending_and_fresh g plan =
     thenA (requireA (p_state plan = PLAN_PENDING) (GuardError ''plan is not pending''))
    (bindA (utc_epoch (b_host g)) (\<lambda>now.
       requireA (\<not> now \<ge> p_expires_at plan) (StalePlan ''plan has expired'')))"

definition make_token :: "guard \<Rightarrow> commit_plan \<Rightarrow> string \<Rightarrow> string \<Rightarrow> int \<Rightarrow> int \<Rightarrow> approval_token" where
  "make_token g plan token_id actor created_at ttl_seconds =
     (let unsigned =
        \<lparr>a_token_id = token_id, a_plan_id = p_id plan, a_plan_fingerprint = p_fingerprint plan,
         a_actor = actor, a_created_at = created_at,
         a_expires_at = min (p_expires_at plan) (created_at + ttl_seconds), a_signature = ''''\<rparr>
      in unsigned\<lparr>a_signature := sign (b_crypto g) (b_key g)
           (signed_core ''approval'' (JObj (token_core unsigned)))\<rparr>)"

definition approve :: "guard \<Rightarrow> string \<Rightarrow> json \<Rightarrow> json \<Rightarrow> approval_token act" where
  "approve g plan_id actor ttl =
     bindA (liftA (rewrap ApprovalError
       (bindE (validate_text_field actor ''approval actor'' MAX_ACTOR_LENGTH) (\<lambda>a.
        bindE (validate_ttl ttl ''approval TTL'' MAX_APPROVAL_TTL_SECONDS) (\<lambda>s. Inr (a, s))))))
       (\<lambda>(actor, ttl_seconds).
     bindA (load_plan g plan_id) (\<lambda>plan.
     thenA (assert_plan_pending_and_fresh g plan)
    (thenA (requireA (p_decision plan \<noteq> DENY) (PolicyDenied ''hard-denied plans cannot be approved''))
    (bindA (utc_epoch (b_host g)) (\<lambda>created_at.
     bindA (new_id (b_host g) ''approval'') (\<lambda>token_id.
       let token = make_token g plan token_id actor created_at ttl_seconds
       in bindA (liftA (approval_path g (a_token_id token))) (\<lambda>p.
          thenA (atomic_write_json (b_host g) p (token_to_dict token))
         (thenA (log_event g ''plan_approved''
            [(''token_id'', JStr (a_token_id token)), (''plan_id'', JStr (p_id plan)),
             (''plan_fingerprint'', JStr (p_fingerprint plan)), (''actor'', JStr (a_actor token))])
            (returnA token)))))))))"

end
