(* ===== verification/Commit.thy ===== *)
theory Commit
  imports Lifecycle
begin

text \<open>
  \<^verbatim>\<open>commit\<close> and \<^verbatim>\<open>restore\<close>: the lock on a workspace, the checks of an approval, the payloads
  copied before anything is touched, the loop that moves each target to quarantine and installs
  its replacement, the rollback in the exception handler, and the way back from a commit.
\<close>

subsection \<open>Steps on the commit record and the world\<close>

type_synonym cstate = "commit_record \<times> world"

definition embed :: "'a act \<Rightarrow> (cstate, 'a) comp" where
  "embed m s = (case m (snd s) of (r, w') \<Rightarrow> (r, (fst s, w')))"

definition change_record :: "(commit_record \<Rightarrow> commit_record) \<Rightarrow> (cstate, unit) comp" where
  "change_record f s = (Inr (), (f (fst s), snd s))"

definition the_record :: "(cstate, commit_record) comp" where
  "the_record s = (Inr (fst s), s)"

definition set_operation :: "nat \<Rightarrow> (commit_operation \<Rightarrow> commit_operation) \<Rightarrow> commit_record \<Rightarrow> commit_record" where
  "set_operation i f r = r\<lparr>r_operations := (r_operations r)[i := f (r_operations r ! i)]\<rparr>"

text \<open>\<^verbatim>\<open>try: m except Exception: handler; raise\<close> around the changes of a record\<close>

definition with_record ::
  "(cstate, unit) comp \<Rightarrow> (cstate, unit) comp \<Rightarrow> commit_record \<Rightarrow> commit_record act" where
  "with_record m handler r w =
     (case on_errorA m handler (r, w) of
        (Inl e, (_, w')) \<Rightarrow> (Inl e, w') | (Inr _, (r', w')) \<Rightarrow> (Inr r', w'))"

text \<open>\<^verbatim>\<open>_save_commit\<close>: the new signature stays in the record\<close>

definition save_commit :: "guard \<Rightarrow> (cstate, unit) comp" where
  "save_commit g =
     thenA (change_record (sign_commit g))
       (bindA the_record (\<lambda>r.
        bindA (liftA (commit_path g (r_commit_id r))) (\<lambda>p.
          embed (atomic_write_json (b_host g) p (record_to_dict r)))))"

subsection \<open>The lock\<close>

definition lock_path :: "guard \<Rightarrow> path \<Rightarrow> path" where
  "lock_path g workspace = b_root g @ [''locks'',
     take 32 (digest_json (b_crypto g) (JObj [(''workspace'', JStr (path_str workspace))])) @ ''.lock'']"

definition create_lock_tree :: "path \<Rightarrow> node \<Rightarrow> (unit \<times> node) result" where
  "create_lock_tree p t =
     (if look p t \<noteq> None then Inl (GuardError ''another broker operation holds the workspace lock'')
      else create_file_tree p 384 '''' t)"

definition write_lock_tree :: "path \<Rightarrow> string \<Rightarrow> node \<Rightarrow> (unit \<times> node) result" where
  "write_lock_tree p content t =
     (case look p t of
        Some (FileN d m _) \<Rightarrow> Inr ((), change_tree p (Some (FileN d m content)) t)
      | _ \<Rightarrow> Inr ((), t))"

definition with_lock :: "guard \<Rightarrow> path \<Rightarrow> 'a act \<Rightarrow> 'a act" where
  "with_lock g workspace body =
     (let h = b_host g; p = lock_path g workspace
      in thenA (os_call h (create_lock_tree p))
        (finallyA
          (thenA (os_call h (write_lock_tree p (''pid='' @ h_pid h @ [CHR 0x0A]))) body)
          (ignore_missingA (os_call h (unlink_tree p)))))"

subsection \<open>Approvals\<close>

datatype approval_argument = No_approval | Approval_id string | Approval_object approval_token

definition resolve_approval :: "guard \<Rightarrow> approval_argument \<Rightarrow> approval_token act" where
  "resolve_approval g approval =
     (case approval of
        No_approval \<Rightarrow> raiseA (ApprovalError ''this plan requires an approval token'')
      | Approval_object token \<Rightarrow> returnA token
      | Approval_id i \<Rightarrow>
          bindA (liftA (validate_object_id (JStr i) ''approval'')) (\<lambda>requested_id.
          bindA (liftA (approval_path g requested_id)) (\<lambda>p.
          bindA (read_json (b_host g) p) (\<lambda>data.
          bindA (liftA (token_from_dict data)) (\<lambda>token.
          thenA (requireA (a_token_id token = requested_id)
            (IntegrityError ''approval identity does not match its state path''))
            (returnA token))))))"

text \<open>What \<^verbatim>\<open>_verify_approval\<close> checks before and after it reads the clock\<close>

definition check_token :: "guard \<Rightarrow> approval_token \<Rightarrow> unit result" where
  "check_token g token = checksE
     [voidE (validate_object_id (JStr (a_token_id token)) ''approval''),
      voidE (validate_object_id (JStr (a_plan_id token)) ''plan''),
      check_signature g (signed_core ''approval'' (JObj (token_core token))) (a_signature token),
      rewrap ApprovalError (voidE (validate_text_field (JStr (a_actor token)) ''approval actor'' MAX_ACTOR_LENGTH)),
      requireE (\<not> (a_created_at token < 0 \<or> a_expires_at token \<le> a_created_at token))
        (ApprovalError ''approval token has an invalid lifetime''),
      requireE (\<not> a_expires_at token - a_created_at token > MAX_APPROVAL_TTL_SECONDS)
        (ApprovalError ''approval token exceeds the maximum lifetime'')]"

definition check_binding :: "approval_token \<Rightarrow> commit_plan \<Rightarrow> int \<Rightarrow> unit result" where
  "check_binding token plan now = checksE
     [requireE (\<not> now \<ge> a_expires_at token) (ApprovalError ''approval token has expired''),
      requireE (\<not> a_expires_at token > p_expires_at plan) (ApprovalError ''approval token outlives its commit plan''),
      rewrap ApprovalError (voidE (validate_sha256 (JStr (a_plan_fingerprint token)) ''approval plan fingerprint'')),
      requireE (\<not> (a_plan_id token \<noteq> p_id plan \<or> a_plan_fingerprint token \<noteq> p_fingerprint plan))
        (ApprovalError ''approval token is not bound to this exact plan'')]"

definition verify_approval :: "guard \<Rightarrow> approval_token \<Rightarrow> commit_plan \<Rightarrow> unit act" where
  "verify_approval g token plan =
     thenA (liftA (check_token g token))
       (bindA (utc_epoch (b_host g)) (\<lambda>now. liftA (check_binding token plan now)))"

subsection \<open>Payloads and the record\<close>

definition operation_of :: "path \<Rightarrow> change \<Rightarrow> commit_operation result" where
  "operation_of quarantine_root c =
     bindE (case c_before c of
         None \<Rightarrow> Inr None
       | Some _ \<Rightarrow> bindE (safe_join quarantine_root (c_path c)) (\<lambda>b. Inr (Some (path_str b)))) (\<lambda>backup.
       Inr \<lparr>o_path = c_path c, o_change_kind = c_kind c, o_before_kind = map_option e_kind (c_before c),
            o_after_kind = map_option e_kind (c_after c), o_backup_path = backup, o_installed = False,
            o_backup_moved = False, o_phase = ''pending''\<rparr>)"

definition stage_payload :: "guard \<Rightarrow> path \<Rightarrow> path \<Rightarrow> change \<Rightarrow> unit act" where
  "stage_payload g worktree apply_dir c =
     (if c_after c = None then returnA ()
      else bindA (liftA (safe_join worktree (c_path c))) (\<lambda>source.
           bindA (liftA (safe_join apply_dir (c_path c))) (\<lambda>destination.
             copy_entry (b_host g) source destination)))"

fun stage_payloads :: "guard \<Rightarrow> path \<Rightarrow> path \<Rightarrow> path \<Rightarrow> change list \<Rightarrow> commit_operation list act" where
  "stage_payloads g worktree apply_dir quarantine_root [] = returnA []"
| "stage_payloads g worktree apply_dir quarantine_root (c # cs) =
     thenA (stage_payload g worktree apply_dir c)
       (bindA (liftA (operation_of quarantine_root c)) (\<lambda>op.
        bindA (stage_payloads g worktree apply_dir quarantine_root cs) (\<lambda>ops.
          returnA (op # ops))))"

text \<open>The first half of the \<^verbatim>\<open>try\<close> block, up to the record\<close>

definition prepare :: "guard \<Rightarrow> commit_plan \<Rightarrow> transaction \<Rightarrow> tree_manifest \<Rightarrow> string \<Rightarrow> commit_record act" where
  "prepare g plan t baseline commit_id =
     (let quarantine_root = b_root g @ [''quarantine'', commit_id];
          apply_dir = b_root g @ [''apply'', commit_id];
          worktree = path_of (t_worktree_root t)
      in bindA (stage_payloads g worktree apply_dir quarantine_root (operation_roots (p_changes plan))) (\<lambda>operations.
         bindA (scan g worktree) (\<lambda>staged.
         thenA (requireA (m_digest staged = p_staged_digest plan)
           (StalePlan ''worktree changed while commit payloads were staged''))
        (bindA (utc_epoch (b_host g)) (\<lambda>created_at.
           returnA \<lparr>r_commit_id = commit_id, r_plan_id = p_id plan, r_transaction_id = t_id t,
             r_workspace_root = path_str (path_of (t_workspace_root t)),
             r_quarantine_root = path_str quarantine_root, r_apply_root = path_str apply_dir,
             r_operations = operations, r_before_digest = m_digest baseline,
             r_after_digest = p_staged_digest plan, r_created_at = created_at,
             r_status = ''prepared'', r_signature = ''''\<rparr>)))))"

subsection \<open>Applying\<close>

definition the_operation :: "nat \<Rightarrow> (cstate, commit_operation) comp" where
  "the_operation i = bindA the_record (\<lambda>r. returnA (r_operations r ! i))"

text \<open>The old target goes to quarantine.\<close>

definition move_backup :: "guard \<Rightarrow> path \<Rightarrow> nat \<Rightarrow> commit_operation \<Rightarrow> (cstate, unit) comp" where
  "move_backup g destination i op =
     bindA (embed (lexistsA destination)) (\<lambda>there.
     thenA (requireA there (StalePlan ''planned existing target disappeared''))
       (case o_backup_path op of
          None \<Rightarrow> raiseA (PyError ''AssertionError'')
        | Some b \<Rightarrow>
            let backup = path_of b; h = b_host g
            in thenA (embed (mkdirsA h 511 (parent backup)))
              (thenA (change_record (set_operation i (\<lambda>x. x\<lparr>o_phase := ''moving_backup''\<rparr>)))
              (thenA (save_commit g)
              (thenA (embed (renameA h destination backup))
              (thenA (change_record (set_operation i (\<lambda>x. x\<lparr>o_backup_moved := True, o_phase := ''backup_moved''\<rparr>)))
              (thenA (embed (fsync_directory h (parent destination)))
              (thenA (embed (fsync_directory h (parent backup)))
                (save_commit g)))))))))"

text \<open>The staged payload takes its place.\<close>

definition install :: "guard \<Rightarrow> path \<Rightarrow> path \<Rightarrow> nat \<Rightarrow> (cstate, unit) comp" where
  "install g staged_path destination i =
     (let h = b_host g
      in thenA (embed (mkdirsA h 511 (parent destination)))
        (thenA (change_record (set_operation i (\<lambda>x. x\<lparr>o_phase := ''installing''\<rparr>)))
        (thenA (save_commit g)
        (thenA (embed (renameA h staged_path destination))
        (thenA (change_record (set_operation i (\<lambda>x. x\<lparr>o_installed := True, o_phase := ''installed''\<rparr>)))
        (thenA (embed (fsync_directory h (parent destination)))
          (save_commit g)))))))"

definition apply_operation :: "guard \<Rightarrow> path \<Rightarrow> path \<Rightarrow> nat \<Rightarrow> (cstate, unit) comp" where
  "apply_operation g workspace apply_dir i =
     bindA (the_operation i) (\<lambda>op.
     bindA (liftA (safe_join workspace (o_path op))) (\<lambda>destination.
     bindA (liftA (safe_join apply_dir (o_path op))) (\<lambda>staged_path.
     thenA (if o_before_kind op \<noteq> None then move_backup g destination i op else returnA ())
       (if o_after_kind op \<noteq> None then install g staged_path destination i else returnA ()))))"

definition apply_all :: "guard \<Rightarrow> path \<Rightarrow> path \<Rightarrow> (cstate, unit) comp" where
  "apply_all g workspace apply_dir =
     bindA the_record (\<lambda>r. forA (apply_operation g workspace apply_dir) [0..<length (r_operations r)])"

text \<open>The second half of the \<^verbatim>\<open>try\<close> block\<close>

definition apply_record :: "guard \<Rightarrow> commit_plan \<Rightarrow> path \<Rightarrow> path \<Rightarrow> (cstate, unit) comp" where
  "apply_record g plan workspace apply_dir =
     thenA (save_commit g)
    (thenA (apply_all g workspace apply_dir)
    (bindA (embed (scan g workspace)) (\<lambda>final_manifest.
     thenA (requireA (m_digest final_manifest = p_staged_digest plan)
       (IntegrityError ''post-commit workspace digest does not match the approved staged digest''))
    (thenA (change_record (\<lambda>r. r\<lparr>r_status := ''committed'',
         r_operations := map (\<lambda>x. x\<lparr>o_phase := ''complete''\<rparr>) (r_operations r)\<rparr>))
       (save_commit g)))))"

subsection \<open>Rollback\<close>

definition put_back :: "guard \<Rightarrow> path \<Rightarrow> path \<Rightarrow> unit act" where
  "put_back g backup destination =
     thenA (mkdirsA (b_host g) 511 (parent destination)) (renameA (b_host g) backup destination)"

text \<open>Moves whatever is at \<open>destination\<close> away below \<open>root\<close>.\<close>

definition displace :: "guard \<Rightarrow> path \<Rightarrow> path \<Rightarrow> string \<Rightarrow> unit act" where
  "displace g destination root relative =
     bindA (liftA (safe_join root relative)) (\<lambda>displaced.
       thenA (mkdirsA (b_host g) 511 (parent displaced)) (renameA (b_host g) destination displaced))"

definition rollback_operation :: "guard \<Rightarrow> path \<Rightarrow> path \<Rightarrow> nat \<Rightarrow> (cstate, string list) comp" where
  "rollback_operation g workspace failed_new_root i =
     bindA (the_operation i) (\<lambda>op.
     bindA (liftA (safe_join workspace (o_path op))) (\<lambda>destination.
     bindA (catch_osA
       (thenA (embed (bindA (lexistsA destination) (\<lambda>there.
            if o_installed op \<and> there then displace g destination failed_new_root (o_path op) else returnA ())))
       (thenA (case map_option path_of (o_backup_path op) of
            None \<Rightarrow> returnA ()
          | Some backup \<Rightarrow> embed (bindA (lexistsA backup) (\<lambda>there.
              if o_backup_moved op \<and> there then put_back g backup destination else returnA ())))
          (change_record (set_operation i (\<lambda>x. x\<lparr>o_phase := ''rolled_back''\<rparr>)))))) (\<lambda>caught.
       returnA (case caught of None \<Rightarrow> [] | Some exc \<Rightarrow> [o_path op @ '': '' @ exc]))))"

fun rollback_operations ::
  "guard \<Rightarrow> path \<Rightarrow> path \<Rightarrow> nat list \<Rightarrow> string list \<Rightarrow> (cstate, string list) comp" where
  "rollback_operations g workspace root [] errors = returnA errors"
| "rollback_operations g workspace root (i # is) errors =
     bindA (rollback_operation g workspace root i) (\<lambda>es.
       rollback_operations g workspace root is (errors @ es))"

definition rollback_failed_commit :: "guard \<Rightarrow> path \<Rightarrow> tree_manifest \<Rightarrow> (cstate, unit) comp" where
  "rollback_failed_commit g workspace baseline =
     bindA the_record (\<lambda>record.
     bindA (rollback_operations g workspace (path_of (r_quarantine_root record) @ [''_failed_new''])
        (rev [0..<length (r_operations record)]) []) (\<lambda>errors.
     thenA (change_record (\<lambda>r. r\<lparr>r_status := (if errors \<noteq> [] then ''rollback_failed'' else ''rolled_back'')\<rparr>))
    (thenA (save_commit g)
    (bindA (if errors = []
        then bindA (embed (scan g workspace)) (\<lambda>restored.
          returnA (if m_digest restored \<noteq> m_digest baseline
            then [''workspace digest differs from baseline after rollback''] else []))
        else returnA errors) (\<lambda>rollback_errors.
     thenA (bindA the_record (\<lambda>r. embed (log_event g ''commit_failed''
       [(''commit_id'', JStr (r_commit_id r)), (''plan_id'', JStr (r_plan_id r)),
        (''status'', JStr (r_status r)), (''rollback_errors'', JList (map JStr rollback_errors))])))
       (requireA (rollback_errors = []) (IntegrityError ''commit failed and rollback was incomplete'')))))))"

subsection \<open>\<^verbatim>\<open>commit\<close>\<close>

text \<open>The checks before the lock, which read state only\<close>

definition authorise :: "guard \<Rightarrow> string \<Rightarrow> approval_argument \<Rightarrow> (commit_plan \<times> transaction \<times> tree_manifest) act" where
  "authorise g plan_id approval =
     bindA (load_plan g plan_id) (\<lambda>plan.
     thenA (assert_plan_pending_and_fresh g plan)
    (thenA (requireA (p_decision plan \<noteq> DENY) (PolicyDenied ''the plan is hard-denied by policy''))
    (thenA (if p_decision plan = REQUIRE_APPROVAL
         then bindA (resolve_approval g approval) (\<lambda>token. verify_approval g token plan) else returnA ())
    (bindA (load_transaction g (p_transaction_id plan)) (\<lambda>t.
     thenA (requireA (t_state t = TX_PLANNED) (GuardError ''transaction is not commit-capable''))
    (thenA (requireA (\<not> (p_task_id plan \<noteq> t_task_id t \<or> p_workspace_root plan \<noteq> t_workspace_root t
         \<or> p_baseline_digest plan \<noteq> t_baseline_digest t))
       (IntegrityError ''commit plan does not match its signed transaction''))
    (bindA (load_baseline g t) (\<lambda>baseline. returnA (plan, t, baseline)))))))))"

text \<open>The checks under the lock\<close>

definition recheck :: "guard \<Rightarrow> commit_plan \<Rightarrow> transaction \<Rightarrow> tree_manifest \<Rightarrow> unit act" where
  "recheck g plan t baseline =
     (let workspace = path_of (t_workspace_root t); worktree = path_of (t_worktree_root t)
      in bindA (scan g workspace) (\<lambda>current_real.
         bindA (scan g worktree) (\<lambda>current_staged.
         thenA (requireA (m_digest current_real = p_baseline_digest plan)
           (StalePlan ''real workspace no longer matches the approved baseline''))
        (thenA (requireA (m_digest current_staged = p_staged_digest plan)
           (StalePlan ''disposable worktree no longer matches the approved plan''))
        (thenA (requireA (p_policy_digest plan = fingerprint (b_crypto g) (b_policy g))
           (StalePlan ''broker policy changed after the plan was created''))
        (bindA (liftA (evaluate (b_policy g) baseline current_staged (diff_manifests baseline current_staged)))
          (\<lambda>(decision, findings, summary).
         thenA (requireA
           (map change_to_dict (diff_manifests baseline current_staged) = map change_to_dict (p_changes plan)
            \<and> decision = p_decision plan \<and> map finding_to_dict findings = map finding_to_dict (p_findings plan)
            \<and> sort_key fst summary = sort_key fst (p_summary plan))
           (IntegrityError ''commit plan does not match deterministic policy re-evaluation''))
        (bindA (stat_dev (b_host g) workspace) (\<lambda>device.
         thenA (requireA (device = t_workspace_device t) (StalePlan ''workspace filesystem identity changed''))
        (bindA (same_filesystem (b_host g) workspace (b_root g)) (\<lambda>same.
         requireA same (GuardError ''quarantine is no longer on the workspace filesystem''))))))))))))"

definition clean_up_unprepared :: "guard \<Rightarrow> path \<Rightarrow> path \<Rightarrow> unit act" where
  "clean_up_unprepared g apply_dir quarantine_root =
     thenA (remove_if_there g apply_dir) (remove_if_there g quarantine_root)"

text \<open>What follows the \<^verbatim>\<open>try\<close> block\<close>

definition finish_commit :: "guard \<Rightarrow> commit_plan \<Rightarrow> transaction \<Rightarrow> path \<Rightarrow> commit_record \<Rightarrow> unit act" where
  "finish_commit g plan t apply_dir r =
     thenA (remove_if_there g apply_dir)
    (thenA (save_plan g (plan\<lparr>p_state := PLAN_COMMITTED\<rparr>))
    (thenA (save_transaction g (t\<lparr>t_state := TX_COMMITTED\<rparr>))
       (log_event g ''commit_completed''
         [(''commit_id'', JStr (r_commit_id r)), (''plan_id'', JStr (p_id plan)),
          (''transaction_id'', JStr (t_id t)), (''before_digest'', JStr (r_before_digest r)),
          (''after_digest'', JStr (r_after_digest r)),
          (''operation_count'', JInt (int (length (r_operations r))))])))"

definition commit_locked :: "guard \<Rightarrow> commit_plan \<Rightarrow> transaction \<Rightarrow> tree_manifest \<Rightarrow> commit_record act" where
  "commit_locked g plan t baseline =
     thenA (recheck g plan t baseline)
       (bindA (new_id (b_host g) ''commit'') (\<lambda>commit_id.
          let quarantine_root = b_root g @ [''quarantine'', commit_id];
              apply_dir = b_root g @ [''apply'', commit_id];
              workspace = path_of (t_workspace_root t)
          in thenA (mkdirA (b_host g) 448 quarantine_root)
            (thenA (mkdirA (b_host g) 448 apply_dir)
            (bindA (on_errorA (prepare g plan t baseline commit_id)
                (clean_up_unprepared g apply_dir quarantine_root)) (\<lambda>r.
             bindA (with_record (apply_record g plan workspace apply_dir)
                (rollback_failed_commit g workspace baseline) r) (\<lambda>r.
             thenA (finish_commit g plan t apply_dir r)
               (returnA r)))))))"

definition commit :: "guard \<Rightarrow> string \<Rightarrow> approval_argument \<Rightarrow> commit_record act" where
  "commit g plan_id approval =
     bindA (authorise g plan_id approval) (\<lambda>(plan, t, baseline).
       with_lock g (path_of (t_workspace_root t)) (commit_locked g plan t baseline))"

subsection \<open>\<^verbatim>\<open>restore\<close>\<close>

definition restore_operation :: "guard \<Rightarrow> path \<Rightarrow> path \<Rightarrow> nat \<Rightarrow> (cstate, unit) comp" where
  "restore_operation g workspace restored_new_root i =
     bindA (the_operation i) (\<lambda>op.
     bindA (liftA (safe_join workspace (o_path op))) (\<lambda>destination.
     thenA (if o_installed op
       then bindA (embed (lexistsA destination)) (\<lambda>there.
            thenA (requireA there (StalePlan ''committed target disappeared before restore''))
           (thenA (embed (displace g destination restored_new_root (o_path op)))
             (embed (fsync_directory (b_host g) (parent destination)))))
       else returnA ())
    (thenA (if o_backup_moved op
       then bindA (embed (case o_backup_path op of None \<Rightarrow> returnA False | Some b \<Rightarrow> lexistsA (path_of b))) (\<lambda>there.
            thenA (requireA there (IntegrityError ''quarantine backup is missing for restore''))
           (thenA (embed (put_back g (path_of (the (o_backup_path op))) destination))
             (embed (fsync_directory (b_host g) (parent destination)))))
       else returnA ())
       (change_record (set_operation i (\<lambda>x. x\<lparr>o_phase := ''restored''\<rparr>))))))"

definition restore_record :: "guard \<Rightarrow> commit_plan \<Rightarrow> path \<Rightarrow> (cstate, unit) comp" where
  "restore_record g plan workspace =
     bindA the_record (\<lambda>record.
     thenA (forA (restore_operation g workspace (path_of (r_quarantine_root record) @ [''_restore_current'']))
       (rev [0..<length (r_operations record)]))
    (bindA (embed (scan g workspace)) (\<lambda>restored.
     thenA (requireA (m_digest restored = r_before_digest record)
       (IntegrityError ''restored workspace does not match the original baseline''))
    (thenA (change_record (\<lambda>r. r\<lparr>r_status := ''restored''\<rparr>))
    (thenA (save_commit g)
       (embed (log_event g ''commit_restored''
         [(''commit_id'', JStr (r_commit_id record)), (''plan_id'', JStr (p_id plan)),
          (''workspace_root'', JStr (r_workspace_root record)),
          (''restored_digest'', JStr (m_digest restored))])))))))"

definition restore_locked :: "guard \<Rightarrow> commit_plan \<Rightarrow> commit_record \<Rightarrow> commit_record act" where
  "restore_locked g plan record =
     (let workspace = path_of (r_workspace_root record)
      in bindA (scan g workspace) (\<lambda>current.
         thenA (requireA (m_digest current = r_after_digest record)
           (StalePlan ''workspace changed after commit; automatic restore would overwrite later work''))
           (with_record (restore_record g plan workspace) (returnA ()) record)))"

definition restore :: "guard \<Rightarrow> string \<Rightarrow> commit_record act" where
  "restore g commit_id =
     bindA (load_commit g commit_id) (\<lambda>record.
     thenA (requireA (r_status record = ''committed'') (GuardError ''commit is not restorable in this state''))
    (bindA (load_plan g (r_plan_id record)) (\<lambda>plan.
     thenA (requireA (p_state plan = PLAN_COMMITTED)
       (IntegrityError ''restorable commit references a non-committed plan''))
    (thenA (requireA (\<not> (r_transaction_id record \<noteq> p_transaction_id plan \<or> r_workspace_root record \<noteq> p_workspace_root plan
         \<or> r_before_digest record \<noteq> p_baseline_digest plan \<or> r_after_digest record \<noteq> p_staged_digest plan))
       (IntegrityError ''commit record does not match its signed plan''))
       (with_lock g (path_of (r_workspace_root record)) (restore_locked g plan record))))))"

end
