(* ===== verification/AuditFacts.thy ===== *)
theory AuditFacts
  imports AuditLog FileSysFacts
begin

text \<open>
  The hash chain of the audit log: a verified log is the fold of its events, an append extends
  it by one event, and the head of the chain determines every event in it.
\<close>

subsection \<open>The canonical text of an event is one line\<close>

definition visible :: "string \<Rightarrow> bool" where
  "visible s \<longleftrightarrow> list_all (\<lambda>c. CHR '' '' \<le> c) s"

lemma visible_simps [simp]:
  "visible []" "visible (c # s) \<longleftrightarrow> CHR '' '' \<le> c \<and> visible s"
  "visible (s @ t) \<longleftrightarrow> visible s \<and> visible t" "visible (concat ss) \<longleftrightarrow> list_all visible ss"
  by (auto simp: visible_def list_all_iff)

lemma visible_digits: "\<forall>c \<in> set s. is_digit c \<Longrightarrow> visible s"
  by (auto simp: visible_def list_all_iff is_digit_def less_eq_char_def)

lemma visible_takeWhile: "visible (takeWhile is_digit s)"
  by (rule visible_digits) (auto dest: set_takeWhileD)

lemma visible_int_str [simp]: "visible (int_str i)"
  using visible_digits nat_str_digits by (auto simp: int_str_def)

lemma visible_join [simp]: "visible sep \<Longrightarrow> list_all visible ws \<Longrightarrow> visible (join_with sep ws)"
  by (induction sep ws rule: join_with.induct) auto

lemma visible_escape: "visible (escape_char c)"
proof -
  have hex: "CHR '' '' \<le> hex_digit n" if "n < 16" for n
    using that by (auto simp: hex_digit_def digit_char_def less_eq_char_def)
  have "code c div 16 < 16" using less_mult_imp_div_less [of "code c" 16 16] code_less [of c] by simp
  then show ?thesis using hex by (auto simp: escape_char_def not_less)
qed

lemma visible_quote [simp]: "visible (quote s)"
  by (auto simp: quote_def list_all_iff visible_escape)

lemma visible_number:
  assumes "scan_number s = Some (JFloat t, r)" shows "visible t"
proof -
  have d: "is_digit c \<Longrightarrow> CHR '' '' \<le> c" for c by (simp add: is_digit_def less_eq_char_def)
  have "visible (fst (scan_sign s))" by (auto simp: scan_sign_def split: list.splits)
  moreover have "visible ip" if "scan_int u = Some (ip, v)" for ip u v
    using that by (auto simp: scan_int_def scan_digits_def visible_takeWhile d split: list.splits if_splits)
  moreover have "visible (fst (scan_frac u))" for u
    by (auto simp: scan_frac_def scan_digits_def visible_takeWhile d split: list.splits)
  moreover have "visible (fst (scan_exp u))" for u
    by (auto simp: scan_exp_def scan_digits_def visible_takeWhile d split: list.splits)
  ultimately show ?thesis
    using assms by (auto simp: scan_number_def Let_def split: option.splits if_splits)
qed

lemma visible_render: "json_ok v \<Longrightarrow> visible (render v)"
proof (induction v)
  case (JFloat t)
  then show ?case using visible_number by (simp add: float_text_def)
next
  case (JObj kvs)
  then have "list_all visible (map (\<lambda>(k, t). quote k @ '':'' @ t) (map (map_prod id render) kvs))"
    by (force simp: list_all_iff)
  then show ?case by simp
qed (auto simp: list_all_iff)

lemma visible_dumps: "json_ok v \<Longrightarrow> visible (dumps v)"
  by (simp add: dumps_def visible_render json_ok_sort_keys)

lemma visible_no_break: "visible s \<Longrightarrow> CHR 0x0A \<notin> set s \<and> CHR 0x0D \<notin> set s"
  by (auto simp: visible_def list_all_iff)

subsection \<open>Lines\<close>

lemma utf8_decode_append:
  "utf8_decode a = Some s \<Longrightarrow> utf8_decode (a @ b) = map_option ((@) s) (utf8_decode b)"
proof (induction a arbitrary: s rule: utf8_decode.induct)
  case (2 c bs)
  then show ?case
    by (cases "utf8_decode b") (auto split: if_splits list.splits)
qed (cases "utf8_decode b"; simp)

lemma newlines_plain: "CHR 0x0D \<notin> set s \<Longrightarrow> newlines_from False s = s"
  by (induction s) auto

lemma newlines_append_line:
  "newlines_from f (a @ CHR 0x0A # b) = newlines_from f (a @ [CHR 0x0A]) @ newlines_from False b"
  by (induction a arbitrary: f) auto

lemma newlines_end: "a \<noteq> [] \<or> \<not> f \<Longrightarrow> \<exists>u. newlines_from f (a @ [CHR 0x0A]) = u @ [CHR 0x0A]"
proof (induction a arbitrary: f)
  case (Cons c a)
  show ?case
  proof (cases "a = [] \<and> c = CHR 0x0D")
    case False
    then show ?thesis using Cons.IH [of False] Cons.IH [of True] by (cases "a = []") auto
  qed simp
qed simp

lemma split_on_end: "split_on d (u @ d # v) = split_on d u @ split_on d v"
  by (induction u) (auto split: list.splits)

text \<open>The text of a log that is empty or ends with a newline\<close>

definition closed_log :: "string \<Rightarrow> bool" where
  "closed_log s \<longleftrightarrow> s = [] \<or> last s = CHR 0x0A"

lemma log_lines_append:
  assumes "closed_log s" "visible l"
  shows "\<exists>ls. log_lines s = ls @ [[]] \<and> log_lines (s @ l @ [CHR 0x0A]) = ls @ [l, []]"
proof -
  have l: "CHR 0x0A \<notin> set l" "newlines_from False (l @ [CHR 0x0A]) = l @ [CHR 0x0A]"
    using visible_no_break [OF assms(2)] by (simp_all add: newlines_plain)
  show ?thesis
  proof (cases "s = []")
    case True
    then show ?thesis using l by (simp add: log_lines_def universal_newlines_def split_append)
  next
    case False
    then obtain a where a: "s = a @ [CHR 0x0A]"
      using assms(1) by (metis append_butlast_last_id closed_log_def)
    obtain u where u: "newlines_from False (a @ [CHR 0x0A]) = u @ [CHR 0x0A]"
      using newlines_end [of a False] by auto
    have n: "newlines_from False (s @ l @ [CHR 0x0A]) = u @ CHR 0x0A # l @ [CHR 0x0A]"
      using newlines_append_line [of False a "l @ [CHR 0x0A]"] u l(2) by (simp add: a)
    show ?thesis
      unfolding log_lines_def universal_newlines_def n
      using u l(1) by (intro exI [of _ "split_on (CHR 0x0A) u"]) (simp add: a split_on_end split_no_sep)
  qed
qed

lemma verify_lines_append:
  "verify_lines cr k st (xs @ ys) = bindE (verify_lines cr k st xs) (\<lambda>st'. verify_lines cr k st' ys)"
  by (induction xs arbitrary: st) (simp_all add: bindE_assoc)

lemma verify_line_blank [simp]: "verify_line cr k st [] = Inr st"
  by (simp add: verify_line_def strip_def)

subsection \<open>A log as the fold of its events\<close>

lemma sort_keys_idem [simp]: "sort_keys (sort_keys v) = sort_keys v"
proof (induction v)
  case (JObj kvs)
  let ?s = "sort_key fst (map (map_prod id sort_keys) kvs)"
  have "map (map_prod id sort_keys) ?s = ?s"
    by (rule map_idI) (use JObj in \<open>force simp: map_prod_def\<close>)
  then show ?case by (simp del: map_map add: sort_key_id_if_sorted [OF sorted_sort_key])
qed simp_all

lemma without_sorted:
  "without x (sort_key fst (map (map_prod id f) d)) = sort_key fst (map (map_prod id f) (without x d))"
  by (simp add: without_def filter_sort filter_map comp_def)

lemma map_of_without: "map_of (without x d) k = (if k = x then None else map_of d k)"
  by (induction d) (auto simp: without_def)

lemma without_id: "x \<notin> fst ` set d \<Longrightarrow> without x d = d"
  by (auto simp: without_def filter_id_conv)

lemma without_append [simp]: "without x (a @ b) = without x a @ without x b"
  by (simp add: without_def)

text \<open>The body of an accepted line, if it is not blank\<close>

definition line_body :: "string \<Rightarrow> (string \<times> json) list option" where
  "line_body line =
     (if strip line = [] then None
      else case loads line of
        Some (JObj parsed) \<Rightarrow> Some (without ''event_hash'' (without ''event_signature'' parsed))
      | _ \<Rightarrow> None)"

definition log_bodies :: "string \<Rightarrow> (string \<times> json) list list" where
  "log_bodies content =
     (case utf8_decode content of None \<Rightarrow> [] | Some s \<Rightarrow> List.map_filter line_body (log_lines s))"

text \<open>The head of a chain of event bodies\<close>

definition chain_head :: "crypto \<Rightarrow> string \<Rightarrow> (string \<times> json) list list \<Rightarrow> string" where
  "chain_head cr start bodies = foldl (\<lambda>hd body. event_digest cr hd (JObj body)) start bodies"

lemma chain_head_simps [simp]:
  "chain_head cr p [] = p" "chain_head cr p (b # bs) = chain_head cr (event_digest cr p (JObj b)) bs"
  "chain_head cr p (bs @ [b]) = event_digest cr (chain_head cr p bs) (JObj b)"
  by (simp_all add: chain_head_def)

lemma verify_line_body:
  assumes "verify_line cr k st line = Inr st'"
  shows "st' = (case line_body line of None \<Rightarrow> st | Some b \<Rightarrow> (fst st + 1, event_digest cr (snd st) (JObj b)))"
  using assms
  by (auto simp: verify_line_def line_body_def Let_def bindE_Inr_iff split: if_splits option.splits json.splits)

lemma verify_lines_bodies:
  "verify_lines cr k st lines = Inr st' \<Longrightarrow>
    st' = (fst st + length (List.map_filter line_body lines), chain_head cr (snd st) (List.map_filter line_body lines))"
proof (induction lines arbitrary: st)
  case (Cons l ls)
  then obtain st1 where "verify_line cr k st l = Inr st1" and "verify_lines cr k st1 ls = Inr st'"
    by (auto simp: bindE_Inr_iff)
  with Cons.IH [of st1] verify_line_body [of cr k st l st1] show ?case
    by (auto simp: List.map_filter_simps split: option.splits)
qed (simp add: List.map_filter_simps)

lemma verify_log_bodies:
  "verify_log cr k content = Inr (n, head) \<Longrightarrow>
    n = length (log_bodies content) \<and> head = chain_head cr ZERO_HASH (log_bodies content)"
  by (auto simp: verify_log_def log_bodies_def split: option.splits dest: verify_lines_bodies)

subsection \<open>Reading back the row of an event\<close>

lemma loads_line:
  assumes "json_ok v" shows "loads (dumps v) = Some (sort_keys v)"
proof -
  let ?w = "sort_keys v"
  have ok: "json_ok ?w" using assms by (rule json_ok_sort_keys)
  obtain c s where c: "render ?w = c # s" "value_start c" using render_start [OF ok] .
  have "scan_value (2 * length (render ?w @ []) + 2) (render ?w @ []) = Some (?w, [])"
    using scan_value_render [OF ok] by (intro reads_backD) auto
  then show ?thesis
    using c by (simp add: loads_def dumps_def skip_ws_start) (simp add: skip_ws_def)
qed

abbreviation event_keys :: "string set" where
  "event_keys \<equiv> {''event_hash'', ''event_signature''}"

definition event_extras :: "crypto \<Rightarrow> string option \<Rightarrow> string \<Rightarrow> (string \<times> json) list \<Rightarrow> (string \<times> json) list" where
  "event_extras cr k previous body =
     (''event_hash'', JStr (event_digest cr previous (JObj body))) #
       (case k of None \<Rightarrow> []
        | Some key \<Rightarrow> [(''event_signature'',
            JStr (sign cr key (event_payload (JObj body) (event_digest cr previous (JObj body)))))])"

lemma event_row_extras: "event_row cr k previous body = JObj (body @ event_extras cr k previous body)"
  by (simp add: event_row_def event_extras_def Let_def split: option.splits)

lemma event_row_ok:
  assumes "json_ok (JObj body)" "event_keys \<inter> fst ` set body = {}"
  shows "json_ok (event_row cr k previous body)"
  using assms by (auto simp: event_row_extras event_extras_def split: option.splits)

lemma strip_brace: "strip (CHR ''{'' # s) \<noteq> []"
proof -
  have "\<not> is_space (CHR ''{'')" by (simp add: is_space_def)
  then show ?thesis by (auto simp: strip_def dropWhile_eq_Nil_conv)
qed

lemma dumps_obj: "\<exists>s. dumps (JObj d) = CHR ''{'' # s"
  by (simp add: dumps_def)

lemma event_digest_sorted:
  assumes "sort_keys (JObj a) = sort_keys (JObj b)"
  shows "event_digest cr p (JObj a) = event_digest cr p (JObj b)"
  using same_canonical [OF assms] by (simp add: event_digest_def)

lemma b64_Nil_iff: "b64 s = [] \<longleftrightarrow> s = []"
  using b64_length [of s] by (cases s) auto

lemma sign_not_Nil: "hmac cr key (canonical_json v) \<noteq> [] \<Longrightarrow> sign cr key v \<noteq> []"
  by (simp add: sign_def b64_Nil_iff)

lemma dumps_nonblank: "strip (dumps (JObj d)) \<noteq> []"
  using dumps_obj [of d] strip_brace by auto

text \<open>What a reader finds in the row written for an event\<close>

lemma row_parsed:
  assumes ok: "json_ok (JObj body)" and keys: "event_keys \<inter> fst ` set body = {}"
  obtains row parsed where "event_row cr k previous body = JObj row"
    and "loads (dumps (JObj row)) = Some (JObj parsed)"
    and "sort_keys (JObj (without ''event_hash'' (without ''event_signature'' parsed))) = sort_keys (JObj body)"
    and "map_of parsed ''event_hash'' = Some (JStr (event_digest cr previous (JObj body)))"
    and "map_of parsed ''event_signature'' = map_option (\<lambda>key.
      JStr (sign cr key (event_payload (JObj body) (event_digest cr previous (JObj body))))) k"
    and "\<And>x. x \<notin> event_keys \<Longrightarrow> map_of parsed x = map_option sort_keys (map_of body x)"
proof
  define row where "row = body @ event_extras cr k previous body"
  define parsed where "parsed = sort_key fst (map (map_prod id sort_keys) row)"
  show row: "event_row cr k previous body = JObj row" by (simp add: row_def event_row_extras)
  have rok: "json_ok (JObj row)" using event_row_ok [OF ok keys] row by metis
  then show "loads (dumps (JObj row)) = Some (JObj parsed)"
    using loads_line [OF rok] by (simp add: parsed_def)
  have "distinct (map fst row)" using rok by simp
  then have m: "map_of parsed x = map_option sort_keys (map_of row x)" for x
    unfolding parsed_def by (rule map_of_sorted_keys)
  have "without ''event_hash'' (without ''event_signature'' row) = body"
    using keys by (auto simp: row_def event_extras_def without_id split: option.splits)
      (simp_all add: without_def)
  then show "sort_keys (JObj (without ''event_hash'' (without ''event_signature'' parsed))) = sort_keys (JObj body)"
    unfolding parsed_def without_sorted by (simp del: map_map flip: sort_keys.simps(7))
  have nb: "map_of body x = None" if "x \<in> event_keys" for x
    using keys that by (force simp: map_of_eq_None_iff)
  show "map_of parsed ''event_hash'' = Some (JStr (event_digest cr previous (JObj body)))"
    and "map_of parsed ''event_signature'' = map_option (\<lambda>key.
      JStr (sign cr key (event_payload (JObj body) (event_digest cr previous (JObj body))))) k"
    using nb by (simp_all add: m row_def event_extras_def map_add_def split: option.splits)
  show "map_of parsed x = map_option sort_keys (map_of body x)" if "x \<notin> event_keys" for x
    using that by (auto simp: m row_def event_extras_def map_add_def split: option.splits)
qed

lemma row_body:
  assumes "json_ok (JObj body)" "event_keys \<inter> fst ` set body = {}"
  shows "\<exists>body'. line_body (dumps (event_row cr k previous body)) = Some body'
    \<and> (\<forall>x. map_of body' x = map_option sort_keys (map_of body x))"
proof (rule row_parsed [OF assms, of cr k previous])
  fix row parsed
  assume row: "event_row cr k previous body = JObj row" "loads (dumps (JObj row)) = Some (JObj parsed)"
    and m: "\<And>x. x \<notin> event_keys \<Longrightarrow> map_of parsed x = map_option sort_keys (map_of body x)"
  have "map_of body x = None" if "x \<in> event_keys" for x
    using assms(2) that by (force simp: map_of_eq_None_iff)
  with m have "map_of (without ''event_hash'' (without ''event_signature'' parsed)) x
      = map_option sort_keys (map_of body x)" for x
    by (simp add: map_of_without)
  then show ?thesis using row dumps_nonblank by (simp add: line_body_def)
qed

lemma verify_line_row:
  assumes ok: "json_ok (JObj body)" and keys: "event_keys \<inter> fst ` set body = {}"
    and prev: "map_of body ''previous_hash'' = Some (JStr previous)"
    and hm: "\<And>key x. k = Some key \<Longrightarrow> hmac cr key x \<noteq> []"
  shows "verify_line cr k (n, previous) (dumps (event_row cr k previous body))
    = Inr (n + 1, event_digest cr previous (JObj body))"
proof -
  obtain row parsed where row: "event_row cr k previous body = JObj row"
    and l: "loads (dumps (JObj row)) = Some (JObj parsed)"
    and b: "sort_keys (JObj (without ''event_hash'' (without ''event_signature'' parsed))) = sort_keys (JObj body)"
    and hash: "map_of parsed ''event_hash'' = Some (JStr (event_digest cr previous (JObj body)))"
    and sig: "map_of parsed ''event_signature'' = map_option (\<lambda>key.
      JStr (sign cr key (event_payload (JObj body) (event_digest cr previous (JObj body))))) k"
    and m: "\<And>x. x \<notin> event_keys \<Longrightarrow> map_of parsed x = map_option sort_keys (map_of body x)"
    by (rule row_parsed [OF ok keys, of cr k previous]) blast
  define body' where "body' = without ''event_hash'' (without ''event_signature'' parsed)"
  have dig: "event_digest cr previous (JObj body') = event_digest cr previous (JObj body)"
    using b unfolding body'_def by (rule event_digest_sorted)
  have pay: "sort_keys (event_payload (JObj body') x) = sort_keys (event_payload (JObj body) x)" for x
    using b unfolding body'_def by (simp add: event_payload_def del: map_map)
  have p': "map_of body' ''previous_hash'' = Some (JStr previous)"
    using prev by (simp add: body'_def map_of_without m)
  note facts = dumps_nonblank [of row] l hash p' dig
  have "verify_line cr k (n, previous) (dumps (JObj row)) = Inr (n + 1, event_digest cr previous (JObj body))"
  proof (cases k)
    case None
    then show ?thesis using facts by (simp add: verify_line_def Let_def flip: body'_def)
  next
    case (Some key)
    have "verify cr key (event_payload (JObj body') (event_digest cr previous (JObj body)))
        (sign cr key (event_payload (JObj body) (event_digest cr previous (JObj body)))) = Inr ()"
      using same_canonical [OF pay] by (simp add: state_signer.check_iff sign_def)
    then show ?thesis
      using facts sig hm [OF Some] sign_not_Nil Some
      by (simp add: verify_line_def Let_def py_truthy_def flip: body'_def)
  qed
  then show ?thesis by (simp add: row)
qed

subsection \<open>Appending\<close>

lemma decode_closed: "utf8_decode (a @ [CHR 0x0A]) = Some s \<Longrightarrow> s \<noteq> [] \<and> last s = CHR 0x0A"
proof (induction a arbitrary: s rule: utf8_decode.induct)
  case (2 c bs)
  show ?case
  proof (cases bs)
    case Nil
    then show ?thesis using 2 by (auto split: if_splits)
  next
    case (Cons b bs')
    then show ?thesis using 2 by (auto split: if_splits)
  qed
qed simp

lemma closed_decode: "closed_log c \<Longrightarrow> utf8_decode c = Some s \<Longrightarrow> closed_log s"
  using decode_closed [of "butlast c" s] append_butlast_last_id [of c]
  by (cases "c = []") (auto simp: closed_log_def)

lemma verify_log_append:
  assumes "closed_log c" "verify_log cr k c = Inr (n, previous)"
    and body: "json_ok (JObj body)" "event_keys \<inter> fst ` set body = {}"
    and "map_of body ''previous_hash'' = Some (JStr previous)"
    and "\<And>key x. k = Some key \<Longrightarrow> hmac cr key x \<noteq> []"
    and c': "c' = c @ canonical_json (event_row cr k previous body) @ [CHR 0x0A]"
  shows "verify_log cr k c' = Inr (n + 1, event_digest cr previous (JObj body))"
    and "\<exists>body'. log_bodies c' = log_bodies c @ [body']
      \<and> (\<forall>x. map_of body' x = map_option sort_keys (map_of body x))"
proof -
  let ?l = "dumps (event_row cr k previous body)"
  obtain s where s: "utf8_decode c = Some s" "verify_lines cr k (0, ZERO_HASH) (log_lines s) = Inr (n, previous)"
    using assms(2) by (auto simp: verify_log_def split: option.splits)
  have "canonical_json (event_row cr k previous body) @ [CHR 0x0A] = utf8_encode (?l @ [CHR 0x0A])"
    by (simp add: canonical_json_def utf8_encode_def utf8_char_def)
  then have d: "utf8_decode c' = Some (s @ ?l @ [CHR 0x0A])"
    unfolding c' using utf8_decode_append [OF s(1)] utf8_decode_encode by simp
  have "visible ?l" using visible_dumps event_row_ok [OF body] by blast
  from log_lines_append [OF closed_decode [OF assms(1) s(1)] this]
  obtain ls where ls: "log_lines s = ls @ [[]]" "log_lines (s @ ?l @ [CHR 0x0A]) = ls @ [?l, []]" by blast
  show "verify_log cr k c' = Inr (n + 1, event_digest cr previous (JObj body))"
    using s(2) verify_line_row [OF body assms(5,6)]
    by (simp add: verify_log_def d ls verify_lines_append bindE_Inr_iff)
  have blank: "line_body [] = None" by (simp add: line_body_def strip_def)
  show "\<exists>body'. log_bodies c' = log_bodies c @ [body']
      \<and> (\<forall>x. map_of body' x = map_option sort_keys (map_of body x))"
    using row_body [OF body, of cr k previous]
    by (auto simp: log_bodies_def d s(1) ls blank List.map_filter_def)
qed

text \<open>The bytes of the log at a path: none when there is no file yet\<close>

definition log_content :: "path \<Rightarrow> node \<Rightarrow> string option" where
  "log_content p t =
     (case look p t of None \<Rightarrow> Some [] | Some (FileN _ _ c) \<Rightarrow> Some c | Some _ \<Rightarrow> None)"

lemma verify_log_Nil [simp]: "verify_log cr k [] = Inr (0, ZERO_HASH)"
  by (simp add: verify_log_def log_lines_def universal_newlines_def)

lemma verify_unlocked_reads: "obeys reads (verify_unlocked h cr k p)"
  unfolding verify_unlocked_def lexistsA_def [abs_def] read_log_def
  by (intro reads.bind reads.cond reads.pure reads.os os_call_reads)
    (auto intro!: obeysI split: option.splits node.splits)

lemma verify_unlocked_content:
  "verify_unlocked h cr k p w = (Inr (n, previous), w1) \<Longrightarrow>
    \<exists>c. log_content p (w_tree w) = Some c \<and> verify_log cr k c = Inr (n, previous)"
  by (auto simp: verify_unlocked_def bindA_Inr_iff lexistsA_def read_log_def os_asA_def os_call_def
      log_content_def Let_def split: if_splits sum.splits prod.splits option.splits node.splits error.splits)

lemma append_tree_content:
  assumes "wf_node t" "rooted p" "append_tree p bytes t = Inr (u, t')" "log_content p t = Some c"
  shows "log_content p t' = Some (c @ bytes)"
proof -
  have "dir_there (butlast p) t"
    using assms(2,3) look_parent [OF assms(2), of t]
    by (auto simp: append_tree_def create_file_tree_def split: option.splits node.splits if_splits)
  then have l: "look p (change_tree p x t) = x" for x
    using assms(1,2) by (simp add: look_change_same)
  show ?thesis
    using assms(3,4) l
    by (auto simp: append_tree_def create_file_tree_def log_content_def
        split: option.splits node.splits if_splits)
qed

lemma audit_append_steps:
  assumes "audit_append h cr k p ev payload w = (Inr head, w')"
  obtains n previous w1 timestamp t where
    "verify_unlocked h cr k p w = (Inr (n, previous), w1)"
    "append_tree p (canonical_json (event_row cr k previous (event_body timestamp ev payload previous)) @ [CHR 0x0A])
      (w_tree w1) = Inr ((), w_tree w')"
    "head = event_digest cr previous (JObj (event_body timestamp ev payload previous))"
  using assms
  by (auto simp: audit_append_def bindA_Inr_iff requireA_iff utc_epoch_def os_asA_def os_call_def Let_def
      split: if_splits sum.splits prod.splits error.splits)

lemma event_body_facts:
  "json_ok payload \<Longrightarrow> json_ok (JObj (event_body ts ev payload previous))"
  "event_keys \<inter> fst ` set (event_body ts ev payload previous) = {}"
  "map_of (event_body ts ev payload previous) ''previous_hash'' = Some (JStr previous)"
  by (simp_all add: event_body_def)

lemma append_returns:
  assumes "\<forall>i. \<not> h_fault h i" and "wf_node (w_tree w)" and "rooted p"
    and "dir_there (butlast p) (w_tree w)" and "strip ev \<noteq> []"
    and "log_content p (w_tree w) = Some c" and "verify_log cr k c = Inr (n, previous)"
  shows "\<exists>head w'. audit_append h cr k p ev payload w = (Inr head, w')"
proof -
  have v: "\<exists>w1. verify_unlocked h cr k p w = (Inr (n, previous), w1) \<and> w_tree w1 = w_tree w"
    using assms(1,6,7)
    by (auto simp: verify_unlocked_def bindA_def lexistsA_def read_log_def os_asA_def os_call_def
        log_content_def Let_def split: option.splits node.splits)
  then obtain w1 where w1: "verify_unlocked h cr k p w = (Inr (n, previous), w1)" "w_tree w1 = w_tree w" by blast
  have a: "\<exists>t. append_tree p bytes (w_tree w) = Inr ((), t)" for bytes
    using assms(4,6)
    by (auto simp: append_tree_def create_file_tree_def log_content_def split: option.splits node.splits)
  obtain t where "append_tree p (canonical_json (event_row cr k previous
      (event_body (h_clock h (w_ticks w1)) ev payload previous)) @ [CHR 0x0A]) (w_tree w1) = Inr ((), t)"
    using a w1(2) by metis
  then show ?thesis
    using assms(1,5) w1(1)
    by (simp add: audit_append_def bindA_def requireA_def utc_epoch_def os_asA_def os_call_def Let_def)
qed

text \<open>The instance in which a digest is the text written in binary: it is injective.\<close>

fun char_bits :: "char \<Rightarrow> string" where
  "char_bits (Char b0 b1 b2 b3 b4 b5 b6 b7) =
     map (\<lambda>b. if b then CHR ''1'' else CHR ''0'') [b0, b1, b2, b3, b4, b5, b6, b7]"

definition bits_crypto :: crypto where
  "bits_crypto = \<lparr>sha256 = \<lambda>s. concat (map char_bits s), hmac = \<lambda>k x. ''mac''\<rparr>"

lemma char_bits_append: "char_bits c @ s = char_bits d @ t \<longleftrightarrow> c = d \<and> s = t"
  by (cases c; cases d) (auto split: if_splits)

lemma bits_inject: "sha256 bits_crypto s = sha256 bits_crypto t \<longleftrightarrow> s = t"
proof
  assume "sha256 bits_crypto s = sha256 bits_crypto t"
  then have "concat (map char_bits s) = concat (map char_bits t)" by (simp add: bits_crypto_def)
  then show "s = t"
  proof (induction s arbitrary: t)
    case Nil
    then show ?case by (cases t; cases "hd t") auto
  next
    case (Cons c s)
    then show ?case
    proof (cases t)
      case Nil
      with Cons.prems show ?thesis by (cases c) auto
    qed (simp add: char_bits_append)
  qed
qed simp

lemma bits_no_collision [simp]: "\<not> sha256_collision bits_crypto X Y"
  by (simp add: sha256_collision_def bits_inject)

lemma char_bits_01: "d \<in> set (char_bits c) \<Longrightarrow> d = CHR ''0'' \<or> d = CHR ''1''"
  by (cases c) (auto split: if_splits)

lemma bits_no_brace: "CHR ''{'' \<notin> set (sha256 bits_crypto x)"
  using char_bits_01 by (fastforce simp: bits_crypto_def)

lemma bits_not_zero:
  assumes "CHR ''{'' \<in> set x" shows "sha256 bits_crypto x \<noteq> ZERO_HASH"
proof -
  have "set (char_bits (CHR ''{'')) \<subseteq> set (sha256 bits_crypto x)"
    using assms by (auto simp: bits_crypto_def simp del: char_bits.simps)
  then show ?thesis by (auto simp: ZERO_HASH_def)
qed

definition logged :: world where
  "logged = snd (audit_append quiet_host bits_crypto (Some ''k'') sample_log ''note'' (JInt 1) sample_world)"

lemma logged_append:
  "\<exists>head. audit_append quiet_host bits_crypto (Some ''k'') sample_log ''note'' (JInt 1) sample_world
    = (Inr head, logged)"
proof -
  have "\<exists>head w'. audit_append quiet_host bits_crypto (Some ''k'') sample_log ''note'' (JInt 1) sample_world = (Inr head, w')"
    by (rule append_returns [OF _ sample_world_wf sample_log_rooted])
      (auto simp: sample_world_def dir_there_def log_content_def strip_def is_space_def intro: verify_log_Nil)
  then show ?thesis by (auto simp: logged_def)
qed

lemma append_core:
  assumes "wf_node (w_tree w)" and "rooted p" and "json_ok payload"
    and "\<And>key x. k = Some key \<Longrightarrow> hmac cr key x \<noteq> []"
    and "log_content p (w_tree w) = Some c" and "closed_log c"
    and "audit_append h cr k p ev payload w = (Inr head, w')"
  shows "\<exists>c' n previous body. log_content p (w_tree w') = Some c' \<and> closed_log c' \<and>
    verify_log cr k c = Inr (n, previous) \<and> verify_log cr k c' = Inr (n + 1, head) \<and>
    log_bodies c' = log_bodies c @ [body] \<and>
    map_of body ''event_type'' = Some (JStr ev) \<and> map_of body ''payload'' = Some (sort_keys payload)"
proof -
  from assms(7) obtain n previous w1 ts where v: "verify_unlocked h cr k p w = (Inr (n, previous), w1)"
    and a: "append_tree p (canonical_json (event_row cr k previous (event_body ts ev payload previous)) @ [CHR 0x0A])
      (w_tree w1) = Inr ((), w_tree w')"
    and head: "head = event_digest cr previous (JObj (event_body ts ev payload previous))"
    by (rule audit_append_steps)
  let ?body = "event_body ts ev payload previous"
  have t: "w_tree w1 = w_tree w" using obeysD [OF verify_unlocked_reads v] .
  have vc: "verify_log cr k c = Inr (n, previous)" using verify_unlocked_content [OF v] assms(5) by simp
  note facts = event_body_facts(1) [OF assms(3)] event_body_facts(2,3)
  define c' where "c' = c @ canonical_json (event_row cr k previous ?body) @ [CHR 0x0A]"
  have l: "log_content p (w_tree w') = Some c'"
    using append_tree_content [OF assms(1,2) a [unfolded t] assms(5)] by (simp add: c'_def)
  have v': "verify_log cr k c' = Inr (n + 1, head)"
    using verify_log_append(1) [OF assms(6) vc facts assms(4) c'_def] head by simp
  obtain body where b: "log_bodies c' = log_bodies c @ [body]"
    "\<forall>x. map_of body x = map_option sort_keys (map_of ?body x)"
    using verify_log_append(2) [OF assms(6) vc facts assms(4) c'_def] by blast
  have "closed_log c'" by (simp add: c'_def closed_log_def)
  then show ?thesis
    using vc l v' b by (auto simp: event_body_def intro!: exI [of _ c'] exI [of _ body])
qed

text \<open>
  C29. An append that returns extends the log by exactly one event: the log that verified before
  (empty, or ending with a newline) still verifies, counts one event more, has the returned
  digest as its head and the old events as a prefix, the new event has the given type and
  payload, and the log ends with a newline again.
\<close>

theorem audit_append_extends:
  assumes "wf_node (w_tree w)" and "rooted p" and "json_ok payload"
    and "\<And>key x. k = Some key \<Longrightarrow> hmac cr key x \<noteq> []"
    and "log_content p (w_tree w) = Some c" and "closed_log c"
    and "audit_append h cr k p ev payload w = (Inr head, w')"
  shows "\<exists>c' n previous body. log_content p (w_tree w') = Some c' \<and> closed_log c' \<and>
    verify_log cr k c = Inr (n, previous) \<and> verify_log cr k c' = Inr (n + 1, head) \<and>
    log_bodies c' = log_bodies c @ [body] \<and>
    map_of body ''event_type'' = Some (JStr ev) \<and> map_of body ''payload'' = Some (sort_keys payload)"
  by (rule append_core [OF assms])

lemma no_bodies: "log_bodies [] = []"
  by (simp add: log_bodies_def log_lines_def universal_newlines_def line_body_def strip_def List.map_filter_def)

lemma sample_world_log: "log_content sample_log (w_tree sample_world) = Some []"
  by (simp add: log_content_def sample_world_def)

theorem audit_append_extends_witness:
  "\<exists>c' head body. log_content sample_log (w_tree (logged)) = Some c' \<and>
    verify_log bits_crypto (Some ''k'') c' = Inr (1, head) \<and> log_bodies c' = [body] \<and>
    map_of body ''payload'' = Some (JInt 1)"
proof -
  obtain head where a: "audit_append quiet_host bits_crypto (Some ''k'') sample_log ''note'' (JInt 1) sample_world
      = (Inr head, logged)"
    using logged_append by blast
  have h: "\<And>key x. Some ''k'' = Some key \<Longrightarrow> hmac bits_crypto key x \<noteq> []" by (auto simp: bits_crypto_def)
  have "closed_log []" "json_ok (JInt 1)" by (simp_all add: closed_log_def)
  from audit_append_extends [OF sample_world_wf sample_log_rooted this(2) h sample_world_log this(1) a]
  show ?thesis using no_bodies by fastforce
qed

lemma logged_facts:
  "\<exists>c head body. log_content sample_log (w_tree (logged)) = Some c \<and> closed_log c \<and>
    verify_log bits_crypto (Some ''k'') c = Inr (1, head) \<and> log_bodies c = [body]"
proof -
  obtain head where a: "audit_append quiet_host bits_crypto (Some ''k'') sample_log ''note'' (JInt 1) sample_world
      = (Inr head, logged)"
    using logged_append by blast
  have h: "\<And>key x. Some ''k'' = Some key \<Longrightarrow> hmac bits_crypto key x \<noteq> []" by (auto simp: bits_crypto_def)
  have "closed_log []" "json_ok (JInt 1)" by (simp_all add: closed_log_def)
  from append_core [OF sample_world_wf sample_log_rooted this(2) h sample_world_log this(1) a]
  show ?thesis by (auto simp: no_bodies)
qed

subsection \<open>The head of the chain determines the log\<close>

text \<open>The texts that are hashed along a chain\<close>

fun chain_texts :: "crypto \<Rightarrow> string \<Rightarrow> (string \<times> json) list list \<Rightarrow> string set" where
  "chain_texts cr p [] = {}"
| "chain_texts cr p (b # bs) =
     insert (p @ canonical_json (JObj b)) (chain_texts cr (event_digest cr p (JObj b)) bs)"

lemma chain_texts_snoc:
  "chain_texts cr p (bs @ [b]) = insert (chain_head cr p bs @ canonical_json (JObj b)) (chain_texts cr p bs)"
  by (induction bs arbitrary: p) auto

lemma canonical_obj_brace: "\<exists>s. canonical_json (JObj b) = CHR ''{'' # s"
  using dumps_obj [of b] by (auto simp: canonical_json_def utf8_encode_def utf8_char_def)

lemma brace_split:
  "p @ CHR ''{'' # s = q @ CHR ''{'' # t \<Longrightarrow> CHR ''{'' \<notin> set p \<Longrightarrow> CHR ''{'' \<notin> set q \<Longrightarrow> p = q \<and> s = t"
proof (induction p arbitrary: q)
  case Nil
  then show ?case by (cases q) auto
next
  case (Cons c p)
  then show ?case by (cases q) auto
qed

lemma chain_head_no_brace:
  assumes "\<forall>x. CHR ''{'' \<notin> set (sha256 cr x)"
  shows "CHR ''{'' \<notin> set (chain_head cr ZERO_HASH bs)"
  using assms by (cases bs rule: rev_cases) (auto simp: ZERO_HASH_def event_digest_def)

lemma chain_binds:
  assumes hex: "\<forall>x. CHR ''{'' \<notin> set (sha256 cr x)"
    and "chain_head cr ZERO_HASH bs = chain_head cr ZERO_HASH bs'"
  shows "map (\<lambda>b. canonical_json (JObj b)) bs = map (\<lambda>b. canonical_json (JObj b)) bs'
    \<or> sha256_collision cr (chain_texts cr ZERO_HASH bs) (chain_texts cr ZERO_HASH bs')
    \<or> (\<exists>x \<in> chain_texts cr ZERO_HASH bs \<union> chain_texts cr ZERO_HASH bs'. sha256 cr x = ZERO_HASH)"
  using assms(2)
proof (induction bs arbitrary: bs' rule: rev_induct)
  case Nil
  then show ?case by (cases bs' rule: rev_cases) (auto simp: chain_texts_snoc event_digest_def)
next
  case (snoc b bs)
  show ?case
  proof (cases bs' rule: rev_cases)
    case Nil
    then show ?thesis using snoc.prems by (auto simp: chain_texts_snoc event_digest_def)
  next
    case (snoc cs c)
    let ?x = "chain_head cr ZERO_HASH bs @ canonical_json (JObj b)"
    let ?y = "chain_head cr ZERO_HASH cs @ canonical_json (JObj c)"
    have eq: "sha256 cr ?x = sha256 cr ?y"
      using snoc.prems by (simp add: \<open>bs' = cs @ [c]\<close> event_digest_def)
    show ?thesis
    proof (cases "?x = ?y")
      case False
      with eq have "sha256_collision cr {?x} {?y}" by (simp add: sha256_collision_def)
      then show ?thesis by (auto simp: \<open>bs' = cs @ [c]\<close> chain_texts_snoc intro: sha256_collision_mono)
    next
      case True
      obtain s t where st: "canonical_json (JObj b) = CHR ''{'' # s" "canonical_json (JObj c) = CHR ''{'' # t"
        using canonical_obj_brace by blast
      then have "chain_head cr ZERO_HASH bs = chain_head cr ZERO_HASH cs \<and> s = t"
        using True chain_head_no_brace [OF hex] by (intro brace_split) auto
      then show ?thesis
        using snoc.IH [of cs] st
        by (auto simp: \<open>bs' = cs @ [c]\<close> chain_texts_snoc intro: sha256_collision_mono)
    qed
  qed
qed

text \<open>
  C30. The head of the chain fixes the whole log: two logs that verify with the same head hold the
  same sequence of events (the same canonical bytes of every event body), unless two of the
  texts hashed along the two chains collide under SHA-256 or one of them hashes to the initial
  zero digest. The hypothesis says that a digest is written without the character that opens a JSON object.
\<close>

theorem audit_head_binds_log:
  assumes "\<forall>x. CHR ''{'' \<notin> set (sha256 cr x)"
    and "verify_log cr k c = Inr (n, head)" and "verify_log cr k' c' = Inr (m, head)"
  shows "map (\<lambda>b. canonical_json (JObj b)) (log_bodies c) = map (\<lambda>b. canonical_json (JObj b)) (log_bodies c')
    \<or> sha256_collision cr (chain_texts cr ZERO_HASH (log_bodies c)) (chain_texts cr ZERO_HASH (log_bodies c'))
    \<or> (\<exists>x \<in> chain_texts cr ZERO_HASH (log_bodies c) \<union> chain_texts cr ZERO_HASH (log_bodies c').
         sha256 cr x = ZERO_HASH)"
  using chain_binds [OF assms(1)] verify_log_bodies [OF assms(2)] verify_log_bodies [OF assms(3)] by metis

lemma chain_texts_brace: "x \<in> chain_texts cr p bs \<Longrightarrow> CHR ''{'' \<in> set x"
proof (induction bs arbitrary: p)
  case (Cons b bs)
  then show ?case using canonical_obj_brace [of b] by auto
qed simp

lemma verify_log_blank:
  assumes "closed_log c" "verify_log cr k c = Inr r" shows "verify_log cr k (c @ [CHR 0x0A]) = Inr r"
proof -
  obtain s where s: "utf8_decode c = Some s" using assms(2) by (auto simp: verify_log_def split: option.splits)
  then show ?thesis
    using log_lines_append [OF closed_decode [OF assms(1) s], of "[]"] assms(2)
      utf8_decode_append [OF s, of "[CHR 0x0A]"]
    by (auto simp: verify_log_def verify_lines_append)
qed

theorem audit_head_binds_log_witness:
  "\<exists>c. log_content sample_log (w_tree (logged)) = Some c \<and> log_bodies c \<noteq> [] \<and>
   map (\<lambda>b. canonical_json (JObj b)) (log_bodies c) =
   map (\<lambda>b. canonical_json (JObj b)) (log_bodies (c @ [CHR 0x0A]))"
proof -
  obtain c head body where c: "log_content sample_log (w_tree (logged)) = Some c" "closed_log c"
    "verify_log bits_crypto (Some ''k'') c = Inr (1, head)" "log_bodies c = [body]"
    using logged_facts by blast
  then have "verify_log bits_crypto (Some ''k'') (c @ [CHR 0x0A]) = Inr (1, head)"
    by (intro verify_log_blank)
  from audit_head_binds_log [OF _ c(3) this]
  have "map (\<lambda>b. canonical_json (JObj b)) (log_bodies c) =
      map (\<lambda>b. canonical_json (JObj b)) (log_bodies (c @ [CHR 0x0A]))"
    using bits_no_brace bits_not_zero by (auto dest: chain_texts_brace)
  with c show ?thesis by simp
qed

subsection \<open>An append returns when no call fails\<close>

text \<open>
  C31. When no call of the operating system fails, the log's directory is there and the log verifies,
  an append with a non-blank event type returns.
\<close>

theorem audit_append_returns:
  assumes "\<forall>i. \<not> h_fault h i" and "wf_node (w_tree w)" and "rooted p"
    and "dir_there (butlast p) (w_tree w)" and "strip ev \<noteq> []"
    and "log_content p (w_tree w) = Some c" and "verify_log cr k c = Inr (n, previous)"
  shows "\<exists>head w'. audit_append h cr k p ev payload w = (Inr head, w')"
  by (rule append_returns [OF assms])

theorem audit_append_returns_witness:
  "\<exists>head w'. audit_append quiet_host bits_crypto (Some ''k'') sample_log ''note'' (JInt 1) sample_world = (Inr head, w')"
  by (rule audit_append_returns [OF _ sample_world_wf sample_log_rooted])
    (auto simp: sample_world_def dir_there_def log_content_def strip_def is_space_def intro: verify_log_Nil)

end
