(* ===== verification/BrokerFacts.thy ===== *)
theory BrokerFacts
  imports Commit AuditFacts
begin

text \<open>
  What loading and saving the records of the broker guarantees: the state files, their round
  trip, the checks every loaded record has passed, and the frame of the operations that never
  touch a workspace.
\<close>

subsection \<open>State files\<close>

text \<open>The JSON value a state file holds\<close>

definition json_at :: "path \<Rightarrow> node \<Rightarrow> json option" where
  "json_at p t =
     (case look p t of
        Some (FileN _ _ c) \<Rightarrow> (case utf8_decode c of None \<Rightarrow> None | Some s \<Rightarrow> loads s)
      | _ \<Rightarrow> None)"

lemma read_json_Inr:
  assumes "read_json h p w = (Inr v, w')" shows "json_at p (w_tree w) = Some v \<and> w_tree w' = w_tree w"
  using assms
  by (auto simp: read_json_def json_at_def os_call_def Let_def
      split: if_splits sum.splits option.splits node.splits)

lemma read_json_reads [intro]: "obeys reads (read_json h p)"
  unfolding read_json_def by (rule os_call_reads) (auto split: option.splits node.splits)

text \<open>A write that succeeds leaves the canonical form of the value at the path.\<close>

lemma atomic_write_json_steps:
  assumes "atomic_write_json h p v w = (Inr u, w')"
  obtains w1 where "mkdirsA h 511 (butlast p) w = (Inr (), w1)"
    "replace_tree p 384 (canonical_json v @ [CHR 0x0A]) (w_tree w1) = Inr ((), w_tree w')"
proof -
  obtain w1 where w1: "mkdirsA h 511 (butlast p) w = (Inr (), w1)"
    "thenA (write_temporary h p) (thenA (os_call h (replace_tree p 384 (canonical_json v @ [CHR 0x0A])))
      (fsync_directory h (butlast p))) w1 = (Inr u, w')"
    using assms by (auto simp: atomic_write_json_def bindA_Inr_iff)
  then have "replace_tree p 384 (canonical_json v @ [CHR 0x0A]) (w_tree w1) = Inr ((), w_tree w')"
    by (auto simp: bindA_Inr_iff write_temporary_def fsync_directory_def os_call_def Let_def
        split: if_splits sum.splits)
  with w1(1) show thesis by (rule that)
qed

lemma canonical_read: "json_ok v \<Longrightarrow> utf8_decode (canonical_json v @ [CHR 0x0A]) = Some (dumps v @ [CHR 0x0A])"
  by (simp add: canonical_json_def utf8_decode_append [OF utf8_decode_encode])

lemma mkdirsA_parent_keeps:
  assumes "rooted p" shows "obeys (keeps p) (mkdirsA h m (butlast p))"
proof (rule mkdirsA_keeps [OF assms rooted_dir [OF assms]])
  have "tl p \<noteq> []" using assms by (auto elim!: rootedE)
  then have "\<not> prefix (tl p) (butlast (tl p))" by (metis strict_prefix_butlast prefix_order.leD)
  then show "\<not> prefix (tl p) (tl (butlast p))" using assms by (simp add: rooted_butlast)
qed

lemma atomic_write_json_fails:
  assumes "wf_node (w_tree w)" "rooted p" "atomic_write_json h p v w = (Inl e, w')"
  shows "look p (w_tree w') = look p (w_tree w) \<or>
    (\<exists>t. wf_node t \<and> dir_there (butlast p) t \<and>
      replace_tree p 384 (canonical_json v @ [CHR 0x0A]) t = Inr ((), w_tree w'))"
proof -
  consider "mkdirsA h 511 (butlast p) w = (Inl e, w')"
    | w1 where "mkdirsA h 511 (butlast p) w = (Inr (), w1)"
      "thenA (write_temporary h p) (thenA (os_call h (replace_tree p 384 (canonical_json v @ [CHR 0x0A])))
        (fsync_directory h (butlast p))) w1 = (Inl e, w')"
    using assms(3) by (auto simp: atomic_write_json_def bindA_Inl_iff)
  then show ?thesis
  proof cases
    case 1
    then show ?thesis using obeysD [OF mkdirsA_parent_keeps [OF assms(2)]] assms(1) by (simp add: on_trees_def)
  next
    case 2
    have k: "look p (w_tree w1) = look p (w_tree w)" "wf_node (w_tree w1)"
      using obeysD [OF mkdirsA_parent_keeps [OF assms(2)] 2(1)] assms(1) by (simp_all add: on_trees_def)
    have c: "w_tree w' = w_tree w1 \<or>
        replace_tree p 384 (canonical_json v @ [CHR 0x0A]) (w_tree w1) = Inr ((), w_tree w')"
      using 2(2) by (auto simp: bindA_Inl_iff write_temporary_def fsync_directory_def os_call_def Let_def
          split: if_splits sum.splits)
    from c show ?thesis
    proof
      assume "w_tree w' = w_tree w1"
      with k show ?thesis by simp
    next
      assume r: "replace_tree p 384 (canonical_json v @ [CHR 0x0A]) (w_tree w1) = Inr ((), w_tree w')"
      then have "dir_there (butlast p) (w_tree w1)"
        by (auto simp: replace_tree_def create_file_tree_def split: if_splits)
      with r k(2) show ?thesis by (intro disjI2 exI [of _ "w_tree w1"]) simp
    qed
  qed
qed

lemma replace_tree_stores:
  assumes "wf_node t" "rooted p" "json_ok v"
    and "replace_tree p m (canonical_json v @ [CHR 0x0A]) t = Inr (u, t')"
  shows "json_at p t' = Some (sort_keys v)" "wf_node t'"
proof -
  have d: "dir_there (butlast p) t" and t: "t' =
      change_tree p (Some (FileN (dev_of (butlast p) t) m (canonical_json v @ [CHR 0x0A]))) t"
    using assms(4) by (auto simp: replace_tree_def create_file_tree_def split: if_splits)
  have "look p t' = Some (FileN (dev_of (butlast p) t) m (canonical_json v @ [CHR 0x0A]))"
    unfolding t using assms(2,1) d by (rule look_change_same)
  then show "json_at p t' = Some (sort_keys v)"
    using assms(3) by (simp add: json_at_def canonical_read loads_dumps)
  show "wf_node t'" unfolding t using assms(2,1) by (rule wf_change) simp
qed

lemma atomic_write_json_stores:
  assumes "wf_node (w_tree w)" "rooted p" "json_ok v" "atomic_write_json h p v w = (Inr u, w')"
  shows "json_at p (w_tree w') = Some (sort_keys v)" "wf_node (w_tree w')"
proof -
  obtain w1 where s: "mkdirsA h 511 (butlast p) w = (Inr (), w1)"
    "replace_tree p 384 (canonical_json v @ [CHR 0x0A]) (w_tree w1) = Inr ((), w_tree w')"
    using assms(4) by (rule atomic_write_json_steps)
  have wf: "wf_node (w_tree w1)"
    using obeysD [OF mkdirsA_parent_keeps [OF assms(2)] s(1)] assms(1) by (simp add: on_trees_def)
  show "json_at p (w_tree w') = Some (sort_keys v)" "wf_node (w_tree w')"
    using replace_tree_stores [OF wf assms(2,3) s(2)] .
qed

lemma read_json_at:
  "json_at p (w_tree w) = Some v \<Longrightarrow> \<not> h_fault h (w_calls w) \<Longrightarrow> fst (read_json h p w) = Inr v"
  by (auto simp: read_json_def json_at_def os_call_def Let_def split: option.splits node.splits)

text \<open>
  C32. Crash safety of state files: whatever calls fail, after \<^verbatim>\<open>atomic_write_json\<close> the file either
  still is what it was, or holds exactly the new value in canonical form; when the call returns
  normally it holds the new value, and \<^verbatim>\<open>read_json\<close> then reads it back unless its one call fails.
\<close>

theorem atomic_write_json_atomic:
  assumes "wf_node (w_tree w)" and "rooted p" and "json_ok v"
    and "atomic_write_json h p v w = (r, w')"
  shows "(look p (w_tree w') = look p (w_tree w) \<or> json_at p (w_tree w') = Some (sort_keys v)) \<and>
    (r = Inr () \<longrightarrow> json_at p (w_tree w') = Some (sort_keys v) \<and>
      (\<not> h_fault h (w_calls w') \<longrightarrow> fst (read_json h p w') = Inr (sort_keys v)))"
proof (cases r)
  case (Inl e)
  then show ?thesis
    using atomic_write_json_fails [OF assms(1,2)] assms(3,4) replace_tree_stores(1) [OF _ assms(2,3)] by blast
next
  case (Inr u)
  then show ?thesis
    using atomic_write_json_stores(1) [OF assms(1-3)] assms(4) read_json_at by simp
qed

subsection \<open>The names below the state root\<close>

lemma id_chars:
  assumes "re_fullmatch object_id_re s" "c \<in> set s" shows "id_body_char c"
proof -
  obtain a u v where s: "s = a # u @ CHR ''_'' # v" "lower_alpha a"
    "\<forall>x \<in> set u. id_prefix_char x" "\<forall>x \<in> set v. id_body_char x"
    using assms(1) by (auto simp only: object_id_re_iff)
  have "id_body_char a" using s(2) by (simp add: id_body_char_def)
  moreover have "\<forall>x \<in> set u. id_body_char x"
    using s(3) by (auto simp: id_body_char_def id_prefix_char_def)
  moreover have "id_body_char (CHR ''_'')" by (simp add: id_body_char_def)
  ultimately show ?thesis using assms(2) s(4) unfolding s(1) by auto
qed

lemma object_id_name:
  assumes "validate_object_id v pre = Inr i" shows "is_name i" "is_name (i @ ''.json'')"
proof -
  have r: "re_fullmatch object_id_re i" using assms by (simp add: validate_object_id_Inr_iff)
  then have "\<exists>a u. i = a # u \<and> lower_alpha a" by (auto simp only: object_id_re_iff)
  then have ne: "i \<noteq> []" "hd i \<noteq> CHR ''.''"
    by (auto simp: lower_alpha_def less_eq_char_def)
  have "\<not> id_body_char (CHR ''/'')" "\<not> id_body_char (CHR 0x00)"
    by (simp_all add: id_body_char_def upper_alpha_def lower_alpha_def is_digit_def)
  then have c: "CHR ''/'' \<notin> set i" "CHR 0x00 \<notin> set i" using id_chars [OF r] by blast+
  obtain a s where "i = a # s" "a \<noteq> CHR ''.''" using ne by (cases i) auto
  with c show "is_name i" "is_name (i @ ''.json'')" by (simp_all add: is_name_def is_component_def)
qed

definition guarded :: "guard \<Rightarrow> bool" where
  "guarded g \<longleftrightarrow> rooted (b_root g) \<and> h_resolve (b_host g) (b_root g) = b_root g
     \<and> (\<forall>p. rooted p \<longrightarrow> rooted (h_resolve (b_host g) p))"

lemma rooted_append: "rooted p \<Longrightarrow> \<forall>x \<in> set q. is_name x \<Longrightarrow> rooted (p @ q)"
  by (cases p) (auto simp: rooted_def)

lemma guarded_rooted [simp]: "guarded g \<Longrightarrow> rooted (b_root g @ q) \<longleftrightarrow> (\<forall>x \<in> set q. is_name x)"
proof -
  assume "guarded g"
  then have "rooted (b_root g)" by (simp add: guarded_def)
  then show ?thesis by (cases "b_root g") (auto simp: rooted_def)
qed

lemma root_not_Nil: "guarded g \<Longrightarrow> b_root g \<noteq> []"
  by (auto simp: guarded_def rooted_def)

lemma guarded_apart [intro]: "guarded g \<Longrightarrow> apart (b_root g) q \<Longrightarrow> apart (b_root g @ p) q"
  by (rule apart_below) (simp_all add: root_not_Nil)

lemma literal_names [simp]:
  "is_name ''transactions''" "is_name ''plans''" "is_name ''approvals''" "is_name ''commits''"
  "is_name ''quarantine''" "is_name ''apply''" "is_name ''locks''" "is_name ''audit.jsonl''"
  "is_name ''transaction.json''" "is_name ''baseline.json''" "is_name ''capability-receipt.json''"
  "is_name ''worktree''" "is_name ''home''" "is_name ''tmp''" "is_name ''runtime''"
  "is_name ''_failed_new''" "is_name ''_restore_current''"
  by (simp_all add: is_name_def is_component_def)

lemma state_paths:
  assumes "guarded g"
  shows "transaction_path g i = Inr p \<Longrightarrow> rooted p \<and> prefix (b_root g) p"
    and "plan_path g i = Inr p \<Longrightarrow> rooted p \<and> prefix (b_root g) p"
    and "approval_path g i = Inr p \<Longrightarrow> rooted p \<and> prefix (b_root g) p"
    and "commit_path g i = Inr p \<Longrightarrow> rooted p \<and> prefix (b_root g) p"
  using assms
  by (auto simp: transaction_path_def plan_path_def approval_path_def commit_path_def bindE_Inr_iff
      dest: object_id_name)

lemma prefix_apart: "guarded g \<Longrightarrow> apart (b_root g) q \<Longrightarrow> prefix (b_root g) p \<Longrightarrow> apart p q"
  by (auto elim!: prefixE)

subsection \<open>The operations that never touch a path apart from the state root\<close>

named_theorems isolated \<open>operations that keep every path apart from the state root\<close>

abbreviation isolates :: "guard \<Rightarrow> path \<Rightarrow> bool" where
  "isolates g q \<equiv> guarded g \<and> rooted q \<and> apart (b_root g) q"

lemma bind_lift_keeps [intro]:
  "(\<And>x. r = Inr x \<Longrightarrow> obeys (keeps q) (f x)) \<Longrightarrow> obeys (keeps q) (bindA (liftA r) f)"
  by (cases r) (auto simp: obeys_def bindA_def on_trees_def)

lemma state_write_keeps [isolated]:
  "isolates g q \<Longrightarrow> rooted p \<and> prefix (b_root g) p \<Longrightarrow> obeys (keeps q) (atomic_write_json h p v)"
  using atomic_write_json_keeps prefix_apart by blast

lemma saves_keep [isolated]:
  assumes "isolates g q"
  shows "obeys (keeps q) (save_transaction g t)" "obeys (keeps q) (save_plan g plan)"
  unfolding save_transaction_def save_plan_def
  using assms state_paths by (blast intro: state_write_keeps)+

lemma audit_append_keeps:
  assumes "rooted p" "rooted q" "apart p q"
  shows "obeys (keeps q) (audit_append h cr k p ev v)"
proof -
  have "obeys (keeps q) (os_call h (append_tree p bytes))" for bytes
    using assms by (intro change_keeps [of p])
      (auto simp: append_tree_def create_file_tree_def split: option.splits node.splits if_splits)
  moreover have "obeys (keeps q) (utc_epoch h)"
    by (rule reads_keeps) (auto intro!: obeysI simp: utc_epoch_def)
  moreover have "obeys (keeps q) (os_call h (\<lambda>t. Inr ((), t)))"
    by (intro reads_keeps os_call_reads) simp
  ultimately show ?thesis
    unfolding audit_append_def Let_def
    by (auto intro!: keeps.bind keeps.os keeps.pure reads_keeps [OF verify_unlocked_reads] split: prod.splits)
qed

lemma log_event_keeps [isolated]: "isolates g q \<Longrightarrow> obeys (keeps q) (log_event g ev kvs)"
  unfolding log_event_def audit_path_def
  by (intro keeps.bind keeps.pure audit_append_keeps) auto

lemma reading [intro]:
  "obeys reads (scan g root)" "obeys reads (utc_epoch h)" "obeys reads (new_id h s)"
  "obeys reads (stat_dev h p)" "obeys reads (lexistsA p)"
  unfolding scan_def scanA_def [abs_def] utc_epoch_def [abs_def] new_id_def drawA_def [abs_def] lexistsA_def [abs_def]
    stat_dev_def
  by (auto intro!: obeysI reads.bind os_call_reads simp: Let_def bindA_def split: if_splits option.splits)

lemma same_filesystem_reads [intro]: "obeys reads (same_filesystem h p q)"
  unfolding same_filesystem_def by blast

lemma loads_read [intro]:
  "obeys reads (load_transaction g i)" "obeys reads (load_plan g i)" "obeys reads (load_commit g i)"
  "obeys reads (load_baseline g t)"
  unfolding load_transaction_def load_plan_def load_commit_def load_baseline_def
  by (intro reads.bind reads.pure read_json_reads)+

lemma fresh_reads [intro]: "obeys reads (assert_plan_pending_and_fresh g plan)"
  unfolding assert_plan_pending_and_fresh_def by blast

lemmas reading_keeps =
  reading [THEN reads_keeps] same_filesystem_reads [THEN reads_keeps] loads_read [THEN reads_keeps]
  fresh_reads [THEN reads_keeps]

lemma b64_chars: "c \<in> set (b64 s) \<Longrightarrow> c \<noteq> CHR ''/'' \<and> c \<noteq> CHR 0x00"
  using b64_class [of c s] by (auto simp: id_body_char_def upper_alpha_def lower_alpha_def is_digit_def)

lemma minted_name:
  "is_name (random_id ''tx'' bytes)" "is_name (random_id ''commit'' bytes)"
  "is_name (random_id ''plan'' bytes)" "is_name (random_id ''approval'' bytes)"
  using b64_chars by (auto simp: random_id_def is_name_def is_component_def)

lemma new_id_names: "new_id h pre w = (Inr i, w') \<Longrightarrow> \<exists>bytes. i = random_id pre bytes"
  by (auto simp: new_id_def bindA_def drawA_def)

lemma bind_new_id_keeps [intro]:
  "(\<And>bytes. obeys (keeps q) (f (random_id pre bytes))) \<Longrightarrow> obeys (keeps q) (bindA (new_id h pre) f)"
  by (auto simp: obeys_def bindA_def new_id_def drawA_def on_trees_def)

lemma copy_node_wf: "wf_node n \<Longrightarrow> wf_node (copy_node ig d n)"
proof (induction n)
  case (DirN dv m ks)
  have "sorted_wrt (<) (map fst (filter P (map (map_prod id f) ks)))" if "sorted_wrt (<) (map fst ks)"
    for P and f :: "node \<Rightarrow> node"
    using that by (induction ks) (auto simp: image_iff)
  then show ?case using DirN by fastforce
qed simp_all

lemma state_mkdir_keeps [isolated]:
  "isolates g q \<Longrightarrow> \<forall>x \<in> set p. is_name x \<Longrightarrow> obeys (keeps q) (mkdirA h m (b_root g @ p))"
  by (rule mkdirA_keeps) (simp_all add: guarded_apart apart_not_above(1))

lemma state_mkdirs_keeps [isolated]:
  "isolates g q \<Longrightarrow> \<forall>x \<in> set p. is_name x \<Longrightarrow> obeys (keeps q) (mkdirsA h m (b_root g @ p))"
  by (rule mkdirsA_keeps) (simp_all add: guarded_apart apart_not_above(1))

lemma copytree_keeps:
  assumes "rooted dst" "rooted q" "apart dst q"
  shows "obeys (keeps q) (copytreeA h ig src dst)"
proof -
  have "obeys (keeps q) (os_call h (copytree_tree ig src dst))"
    by (rule change_keeps [OF assms(1,3)])
      (auto simp: copytree_tree_def split: option.splits if_splits intro!: copy_node_wf dest: look_wf)
  then show ?thesis unfolding copytreeA_def by blast
qed

lemma remove_state_tree_keeps [isolated]:
  assumes "isolates g q" "rooted p"
  shows "obeys (keeps q) (remove_state_tree (b_host g) (b_root g) p)"
proof -
  let ?c = "h_resolve (b_host g) p"
  have r: "rooted ?c" "h_resolve (b_host g) (b_root g) = b_root g" using assms by (auto simp: guarded_def)
  have "obeys (keeps q) (os_call (b_host g) (rmtree_tree ?c))" if "prefix (b_root g) ?c"
    using r(1) prefix_apart that assms(1) by (intro change_keeps [of ?c])
      (auto simp: rmtree_tree_def split: if_splits)
  then show ?thesis
    unfolding remove_state_tree_def Let_def r(2)
    by (auto simp: is_relative_to_def intro!: keeps.bind keeps.pure reading_keeps)
qed

lemma remove_if_there_keeps [isolated]:
  "isolates g q \<Longrightarrow> rooted p \<Longrightarrow> obeys (keeps q) (remove_if_there g p)"
  unfolding remove_if_there_def
  by (intro keeps.bind keeps.cond keeps.pure remove_state_tree_keeps reading_keeps)

lemma home_names: "relative \<in> set home_directories \<Longrightarrow> \<forall>x \<in> set relative. is_name x"
  by (auto simp: home_directories_def is_name_def is_component_def)

lemma populate_keeps [isolated]:
  assumes "isolates g q" "is_name i"
  shows "obeys (keeps q) (populate g workspace (b_root g @ [''transactions'', i]) m)"
proof -
  have d: "rooted (b_root g @ [''transactions'', i, ''worktree''])" "apart (b_root g @ [''transactions'', i, ''worktree'']) q"
    using assms by auto
  have h: "obeys (keeps q) (mkdir_parents (b_host g) (b_root g @ [''transactions'', i, ''home''] @ r))"
    if "r \<in> set home_directories" for r
  proof -
    have r: "r \<noteq> []" "\<forall>x \<in> set r. is_name x" "\<forall>x \<in> set (butlast r). is_name x"
      using that home_names [OF that] by (auto simp: home_directories_def dest: in_set_butlastD)
    then show ?thesis
      unfolding mkdir_parents_def using assms
      by (simp add: butlast_append keeps.bind state_mkdir_keeps state_mkdirs_keeps)
  qed
  show ?thesis
    unfolding populate_def Let_def
    using assms d h
    by (auto intro!: keeps.bind keeps.pure keeps.for_each copytree_keeps state_mkdir_keeps reading_keeps)
qed

lemma record_transaction_keeps [isolated]:
  assumes "isolates g q" "is_name i"
  shows "obeys (keeps q) (record_transaction g i task workspace (b_root g @ [''transactions'', i]) m)"
  unfolding record_transaction_def Let_def
  using assms by (auto intro!: keeps.bind keeps.pure state_write_keeps saves_keep reading_keeps)

lemma ensure_reads: "obeys reads (ensure_absolute_directory h name False p)"
  unfolding ensure_absolute_directory_def
  by (auto intro!: reads.bind reads.pure os_call_reads split: option.splits node.splits if_splits)

lemma begin_keeps:
  assumes "isolates g q" shows "obeys (keeps q) (begin_transaction g candidate task)"
proof -
  have "obeys (keeps q) (log_event g ev kvs)" "rooted (b_root g @ [''transactions'', random_id ''tx'' bytes])"
    for ev kvs bytes
    using assms minted_name by (auto intro: log_event_keeps)
  then show ?thesis
    unfolding begin_transaction_def Let_def
    using assms minted_name
    by (auto intro!: keeps.bind keeps.pure keeps.on_error populate_keeps record_transaction_keeps
        remove_if_there_keeps state_mkdir_keeps bind_new_id_keeps reading_keeps reads_keeps [OF ensure_reads])
qed

lemma plan_keeps: "isolates g q \<Longrightarrow> obeys (keeps q) (plan_transaction g i ttl)"
  unfolding plan_transaction_def Let_def
  by (auto intro!: keeps.bind keeps.pure bind_new_id_keeps saves_keep log_event_keeps reading_keeps)

lemma approve_keeps:
  assumes "isolates g q" shows "obeys (keeps q) (approve g plan_id actor ttl)"
proof -
  have "obeys (keeps q) (atomic_write_json h p v)" if "approval_path g a = Inr p" for a h p v
    using assms state_paths(3) [OF _ that] by (intro state_write_keeps [of g]) auto
  then show ?thesis
    unfolding approve_def Let_def
    using assms
    by (auto intro!: keeps.bind keeps.pure bind_lift_keeps bind_new_id_keeps log_event_keeps reading_keeps
        split: prod.splits)
qed

lemma environment_reads: "obeys reads (environment g i)"
  unfolding environment_def by (intro reads.bind reads.pure loads_read)

lemma load_transaction_valid:
  assumes "load_transaction g i w = (Inr t, w')"
  shows "t_id t = i" "validate_transaction_record g t = Inr ()"
    "check_signature g (signed_record ''transaction'' (transaction_signing_dict t)) (t_signature t) = Inr ()"
    "\<exists>p d. transaction_path g i = Inr p \<and> json_at p (w_tree w) = Some d \<and> transaction_from_dict d = Inr t"
  using assms
  by (auto simp: load_transaction_def bindA_Inr_iff requireA_iff validate_object_id_Inr_iff dest!: read_json_Inr)

lemma transaction_root_path:
  assumes "load_transaction g i w = (Inr t, w')" "guarded g"
  shows "path_of (t_transaction_root t) = b_root g @ [''transactions'', i]" "is_name i"
    "path_of (t_worktree_root t) = b_root g @ [''transactions'', i, ''worktree'']"
    "path_of (t_baseline_path t) = b_root g @ [''transactions'', i, ''baseline.json'']"
proof -
  have v: "validate_transaction_record g t = Inr ()" and i: "t_id t = i"
    using load_transaction_valid [OF assms(1)] by simp_all
  from v obtain j where "validate_object_id (JStr i) ''tx'' = Inr j"
    by (auto simp: validate_transaction_record_def Let_def i)
  then show "is_name i" using object_id_name(1) [of "JStr i" "''tx''" j] by (simp add: validate_object_id_Inr_iff)
  show "path_of (t_transaction_root t) = b_root g @ [''transactions'', i]"
    "path_of (t_worktree_root t) = b_root g @ [''transactions'', i, ''worktree'']"
    "path_of (t_baseline_path t) = b_root g @ [''transactions'', i, ''baseline.json'']"
    using v by (simp_all add: validate_transaction_record_def Let_def i)
qed

lemma discard_keeps:
  assumes "isolates g q" shows "obeys (keeps q) (discard g i)"
  unfolding discard_def
proof (rule keeps.bind_result [OF reading_keeps(7)])
  fix t w w' assume "load_transaction g i w = (Inr t, w')"
  then have "rooted (path_of (t_transaction_root t))"
    using transaction_root_path(1,2) assms by fastforce
  then show "obeys (keeps q) (thenA (requireA (t_state t \<noteq> TX_COMMITTED)
       (GuardError ''committed transactions are retained for audit and restore''))
      (thenA (save_transaction g (t\<lparr>t_state := TX_DISCARDED\<rparr>))
      (thenA (log_event g ''transaction_discarded'' [(''transaction_id'', JStr i), (''task_id'', JStr (t_task_id t))])
        (remove_state_tree (b_host g) (b_root g) (path_of (t_transaction_root t))))))"
    using assms by (intro keeps.bind keeps.pure saves_keep log_event_keeps remove_state_tree_keeps)
qed

text \<open>
  C33. Isolation: beginning, planning, approving, discarding and querying a transaction never change
  anything at or below a path apart from the state root, in particular not the workspace, whatever the
  arguments are and whichever calls fail.
\<close>

theorem lifecycle_isolated:
  assumes "guarded g" and "rooted q" and "apart (b_root g) q" and "wf_node (w_tree w)"
  shows "look q (w_tree (snd (begin_transaction g candidate task w))) = look q (w_tree w) \<and>
    look q (w_tree (snd (plan_transaction g i ttl w))) = look q (w_tree w) \<and>
    look q (w_tree (snd (approve g plan_id actor ttl w))) = look q (w_tree w) \<and>
    look q (w_tree (snd (discard g i w))) = look q (w_tree w) \<and>
    w_tree (snd (environment g i w)) = w_tree w"
proof -
  have i: "isolates g q" using assms by simp
  have k: "look q (w_tree (snd (m w))) = look q (w_tree w)" if "obeys (keeps q) m" for m :: "'x act"
    using obeysD [OF that, of w "fst (m w)" "snd (m w)"] assms(4) by (simp add: on_trees_def)
  show ?thesis
    using k [OF begin_keeps [OF i]] k [OF plan_keeps [OF i]] k [OF approve_keeps [OF i]] k [OF discard_keeps [OF i]]
      obeysD [OF environment_reads, of g i w "fst (environment g i w)" "snd (environment g i w)"]
    by simp
qed

subsection \<open>A sample broker\<close>

lemma sample_write:
  "atomic_write_json quiet_host sample_log v sample_world =
    (Inr (), sample_world\<lparr>w_tree := DirN 1 493 [(''s'', DirN 1 448
      [(''audit.jsonl'', FileN 1 384 (canonical_json v @ [CHR 0x0A]))])], w_calls := 3\<rparr>)"
  by (simp add: atomic_write_json_def bindA_def mkdirsA.simps [of quiet_host 511 "[''/'', ''s'']"] sample_world_def
      dir_there_def write_temporary_def os_call_def replace_tree_def create_file_tree_def change_tree_def
      fsync_directory_def Let_def dev_of_def)

theorem atomic_write_json_atomic_witness:
  "json_at sample_log (w_tree (snd (atomic_write_json quiet_host sample_log (JInt 1) sample_world))) = Some (JInt 1)"
  using atomic_write_json_atomic [OF sample_world_wf sample_log_rooted _ sample_write, of "JInt 1"]
  by (simp add: sample_write)

definition sample_guard :: guard where
  "sample_guard = \<lparr>b_host = quiet_host, b_crypto = bits_crypto, b_key = ''k'', b_root = [''/'', ''s''],
     b_policy = default_policy, b_excluded = []\<rparr>"

lemma sample_guarded: "guarded sample_guard"
  by (simp add: sample_guard_def guarded_def quiet_host_def rooted_def is_name_def is_component_def)

definition busy_world :: world where
  "busy_world = \<lparr>w_tree = DirN 1 493 [(''s'', DirN 1 448 []), (''w'', DirN 1 493 [(''a'', FileN 1 420 ''x'')])],
     w_calls = 0, w_ticks = 0, w_draws = 0\<rparr>"

lemma busy_world_wf: "wf_node (w_tree busy_world)"
  by (simp add: busy_world_def is_name_def is_component_def less_char_def)

theorem lifecycle_isolated_witness:
  "look [''/'', ''w'', ''a''] (w_tree (snd (begin_transaction sample_guard [''/'', ''w''] (JStr ''t'') busy_world)))
    = Some (FileN 1 420 ''x'')"
proof -
  have q: "rooted [''/'', ''w'', ''a'']" "apart (b_root sample_guard) [''/'', ''w'', ''a'']"
    by (simp_all add: sample_guard_def apart_def rooted_def is_name_def is_component_def parallel_def)
  have "look [''/'', ''w'', ''a''] (w_tree busy_world) = Some (FileN 1 420 ''x'')"
    by (simp add: busy_world_def)
  with lifecycle_isolated [OF sample_guarded q busy_world_wf, of "[''/'', ''w'']" "JStr ''t''"]
  show ?thesis by (auto simp only:)
qed

end
