(* ===== verification/CommitFacts.thy ===== *)
theory CommitFacts
  imports BrokerFacts
begin

text \<open>
  The rollback of a failed commit. A Hoare logic with an exceptional postcondition carries an
  invariant through the apply loop: the workspace is the baseline up to a stack of replaced
  subtrees, and the quarantine holds what was moved out of it. The rollback pops the stack.
\<close>

subsection \<open>Triples with a postcondition for errors\<close>

definition triple ::
  "('s \<Rightarrow> bool) \<Rightarrow> ('s, 'a) comp \<Rightarrow> ('a \<Rightarrow> 's \<Rightarrow> bool) \<Rightarrow> ('s \<Rightarrow> bool) \<Rightarrow> bool" where
  "triple P m Q E \<longleftrightarrow>
     (\<forall>s r s'. P s \<longrightarrow> m s = (r, s') \<longrightarrow> (case r of Inl _ \<Rightarrow> E s' | Inr x \<Rightarrow> Q x s'))"

lemma tripleI:
  assumes "\<And>s x s'. P s \<Longrightarrow> m s = (Inr x, s') \<Longrightarrow> Q x s'" "\<And>s e s'. P s \<Longrightarrow> m s = (Inl e, s') \<Longrightarrow> E s'"
  shows "triple P m Q E"
  using assms by (auto simp: triple_def split: sum.splits)

lemma tripleD:
  assumes "triple P m Q E" "P s"
  shows "m s = (Inr x, s') \<Longrightarrow> Q x s'" "m s = (Inl e, s') \<Longrightarrow> E s'"
  using assms by (fastforce simp: triple_def)+

lemma triple_bind:
  "triple P m Q E \<Longrightarrow> (\<And>x. triple (Q x) (f x) R E) \<Longrightarrow> triple P (bindA m f) R E"
  by (rule tripleI) (auto simp: bindA_Inr_iff bindA_Inl_iff dest: tripleD)

lemma triple_weaken:
  assumes "triple P m Q E" "\<And>s. P' s \<Longrightarrow> P s" "\<And>x s. Q x s \<Longrightarrow> Q' x s" "\<And>s. E s \<Longrightarrow> E' s"
  shows "triple P' m Q' E'"
  using assms by (intro tripleI) (blast dest: tripleD)+

lemma triple_return: "(\<And>s. P s \<Longrightarrow> Q x s) \<Longrightarrow> triple P (returnA x) Q E"
  by (rule tripleI) auto

lemma triple_raise: "(\<And>s. P s \<Longrightarrow> E s) \<Longrightarrow> triple P (raiseA e) Q E"
  by (rule tripleI) auto

lemma triple_require:
  "(\<And>s. P s \<Longrightarrow> c \<Longrightarrow> Q () s) \<Longrightarrow> (\<And>s. P s \<Longrightarrow> \<not> c \<Longrightarrow> E s) \<Longrightarrow> triple P (requireA c e) Q E"
  by (rule tripleI) (auto simp: requireA_iff)

lemma triple_lift:
  "(\<And>s x. P s \<Longrightarrow> r = Inr x \<Longrightarrow> Q x s) \<Longrightarrow> (\<And>s. P s \<Longrightarrow> E s) \<Longrightarrow> triple P (liftA r) Q E"
  by (rule tripleI) auto

lemma triple_then: "triple P m (\<lambda>_. R) E \<Longrightarrow> triple R n Q E \<Longrightarrow> triple P (thenA m n) Q E"
  by (rule triple_bind)

lemma triple_bind_lift:
  "(\<And>x. r = Inr x \<Longrightarrow> triple P (f x) Q E) \<Longrightarrow> (\<And>s. P s \<Longrightarrow> E s) \<Longrightarrow> triple P (bindA (liftA r) f) Q E"
  by (cases r) (auto simp: triple_def bindA_def)

lemma triple_if:
  "(c \<Longrightarrow> triple P m Q E) \<Longrightarrow> (\<not> c \<Longrightarrow> triple P n Q E) \<Longrightarrow> triple P (if c then m else n) Q E"
  by simp

lemma triple_pre: "(\<And>s. P s \<Longrightarrow> c) \<Longrightarrow> (c \<Longrightarrow> triple P m Q E) \<Longrightarrow> triple P m Q E"
  by (auto simp: triple_def)

lemma triple_for:
  assumes "\<And>i. i < n \<Longrightarrow> triple (I i) (f i) (\<lambda>_. I (Suc i)) E"
  shows "k \<le> n \<Longrightarrow> triple (I k) (forA f [k..<n]) (\<lambda>_. I n) E"
proof (induction "n - k" arbitrary: k)
  case 0
  then show ?case by (simp add: triple_def returnA_def)
next
  case (Suc m)
  then have "[k..<n] = k # [Suc k..<n]" by (simp add: upt_conv_Cons)
  with Suc show ?case using assms [of k] by (auto intro!: triple_bind [of _ _ "\<lambda>_. I (Suc k)"])
qed

lemma triple_embed:
  "triple P m Q E \<Longrightarrow> triple (\<lambda>s. P (snd s) \<and> C (fst s)) (embed m) (\<lambda>x s. Q x (snd s) \<and> C (fst s)) (\<lambda>s. E (snd s) \<and> C (fst s))"
  by (rule tripleI) (auto simp: embed_def split: prod.splits dest: tripleD)

subsection \<open>Putting subtrees back\<close>

text \<open>The tree \<open>W\<close> with the nodes of \<open>b\<close> put back at the given places, from the first on\<close>

definition mend :: "node \<Rightarrow> path list \<Rightarrow> node \<Rightarrow> node" where
  "mend b rs W = fold (\<lambda>r. upd r (get r b)) rs W"

lemma mend_simps [simp]: "mend b [] W = W" "mend b (r # rs) W = mend b rs (upd r (get r b) W)"
  by (simp_all add: mend_def)

lemma get_part_wf: "wf_node b \<Longrightarrow> \<forall>v. get r b = Some v \<longrightarrow> wf_node v"
  using get_wf by blast

lemma wf_put: "wf_node W \<Longrightarrow> wf_node b \<Longrightarrow> \<forall>a \<in> set r. is_name a \<Longrightarrow> wf_node (upd r (get r b) W)"
  using get_part_wf by (blast intro: wf_upd)

definition all_names :: "path \<Rightarrow> bool" where
  "all_names r \<longleftrightarrow> r \<noteq> [] \<and> (\<forall>a \<in> set r. is_name a)"

lemma mend_commute:
  assumes "wf_node b" "wf_node W" "\<forall>r \<in> set rs. r \<parallel> q \<and> all_names r" "all_names q" "\<forall>v. x = Some v \<longrightarrow> wf_node v"
  shows "mend b rs (upd q x W) = upd q x (mend b rs W)"
  using assms(2,3)
proof (induction rs arbitrary: W)
  case (Cons r rs)
  have "upd r (get r b) (upd q x W) = upd q x (upd r (get r b) W)"
    using Cons.prems by (simp add: upd_commute)
  moreover have "wf_node (upd r (get r b) W)"
    using Cons.prems assms(1) by (simp add: wf_put all_names_def)
  ultimately show ?case using Cons by simp
qed simp

lemma mend_wf: "wf_node b \<Longrightarrow> wf_node W \<Longrightarrow> \<forall>r \<in> set rs. all_names r \<Longrightarrow> wf_node (mend b rs W)"
  by (induction rs arbitrary: W) (simp_all add: wf_put all_names_def)

text \<open>Changing a subtree parallel to the stack pushes it; changing the top of the stack does not matter.\<close>

lemma upd_get_id: "wf_node b \<Longrightarrow> upd r (get r b) b = b"
  by (cases "get r b") (simp_all add: upd_none_id upd_same_id)

lemma mend_push:
  assumes "wf_node b" "wf_node W" "mend b rs W = b" "\<forall>r \<in> set rs. r \<parallel> q \<and> all_names r" "all_names q"
  shows "mend b (q # rs) (upd q x W) = b"
proof -
  have "upd q (get q b) (upd q x W) = upd q (get q b) W" using assms(2,5) by (simp add: upd_upd all_names_def)
  then have "mend b (q # rs) (upd q x W) = upd q (get q b) (mend b rs W)"
    using mend_commute [OF assms(1,2,4,5)] get_part_wf [OF assms(1)] by simp
  then show ?thesis using assms(1,3) by (simp add: upd_get_id)
qed

lemma mend_top:
  assumes "wf_node W" "mend b (q # rs) W = b" "q \<noteq> []"
  shows "mend b (q # rs) (upd q x W) = b"
  using assms by (simp add: upd_upd)

lemma mend_get:
  assumes "wf_node b" "wf_node W" "mend b rs W = b" "\<forall>r \<in> set rs. r \<parallel> q \<and> all_names r"
  shows "get q W = get q b"
proof -
  have "get q (mend b rs W) = get q W"
    using assms(2,4)
  proof (induction rs arbitrary: W)
    case (Cons r rs)
    then show ?case using wf_put [OF _ assms(1), of W r] by (simp add: get_upd_other all_names_def)
  qed simp
  with assms(3) show ?thesis by simp
qed

lemma dir_at_upd_iff:
  assumes "wf_node W" "r \<noteq> []" "\<not> prefix r p" "wf_node (upd r x W)"
  shows "dir_at p (upd r x W) \<longleftrightarrow> dir_at p W"
  using dir_at_upd [OF assms(1) _ assms(3)] dir_at_upd [OF assms(4) _ assms(3)]
    upd_restore [OF assms(1,2), of x] by metis

lemma mend_dir_at:
  assumes "wf_node b" "wf_node W" "mend b rs W = b" "\<forall>r \<in> set rs. \<not> prefix r p \<and> all_names r"
  shows "dir_at p W \<longleftrightarrow> dir_at p b"
proof -
  have "dir_at p (mend b rs W) \<longleftrightarrow> dir_at p W"
    using assms(2,4)
  proof (induction rs arbitrary: W)
    case (Cons r rs)
    then show ?case using wf_put [OF _ assms(1), of W r] by (simp add: dir_at_upd_iff all_names_def)
  qed simp
  with assms(3) show ?thesis by simp
qed

end
