(* ===== verification/RollbackFacts.thy ===== *)
theory RollbackFacts
  imports CommitFacts
begin

text \<open>
  The invariant of the apply loop and of the rollback: the workspace is the baseline up to the
  subtrees of the operations done so far, and what was moved out of it is in quarantine. The
  invariant is about the tree alone first; the triples for the steps of the code follow.
\<close>

subsection \<open>Renaming between apart places\<close>

lemma look_append: "p \<noteq> [] \<Longrightarrow> look (p @ q) t = (case look p t of None \<Rightarrow> None | Some n \<Rightarrow> get q n)"
  by (cases p) (simp_all add: get_append)

lemma look_change_below:
  "rooted p \<Longrightarrow> wf_node t \<Longrightarrow> look p t = Some W \<Longrightarrow> r \<noteq> [] \<Longrightarrow>
    look p (change_tree (p @ r) x t) = Some (upd r x W)"
  by (erule rootedE) (simp add: change_tree_def get_upd_above)

lemma rename_tree_Inr:
  assumes "rename_tree src dst t = Inr (u, t')" "src \<noteq> dst"
  obtains n where "look src t = Some n" "dir_there (butlast dst) t"
    "t' = change_tree dst (Some n) (change_tree src None t)"
  using assms by (auto simp: rename_tree_def split: option.splits if_splits)

lemma renameA_result:
  "renameA h src dst w = (Inr u, w') \<Longrightarrow> rename_tree src dst (w_tree w) = Inr (u, w_tree w')"
  "renameA h src dst w = (Inl e, w') \<Longrightarrow> w_tree w' = w_tree w"
  by (auto simp: renameA_def os_call_def Let_def split: if_splits sum.splits)

lemma apart_same: "p \<noteq> [] \<Longrightarrow> apart (p @ q) (p @ r) \<longleftrightarrow> q \<parallel> r"
  by (cases p) (simp_all add: apart_def parallel_def)

lemma apart_irrefl: "apart p q \<Longrightarrow> p \<noteq> q"
  by (auto simp: apart_def)

lemma apart_below2: "apart p q \<Longrightarrow> p \<noteq> [] \<Longrightarrow> q \<noteq> [] \<Longrightarrow> apart (p @ r) (q @ s)"
  by (metis apart_below apart_sym)

lemma parent_below: "p \<noteq> [] \<Longrightarrow> r \<noteq> [] \<Longrightarrow> parent (p @ r) = p @ butlast r"
  by (auto simp: parent_def butlast_append)

text \<open>What a rename does to the tree at the old place, at the new place and elsewhere\<close>

lemma rename_looks:
  assumes "wf_node t" "rooted src" "rooted dst" "apart src dst" "rename_tree src dst t = Inr (u, t')"
  shows "\<exists>n. look src t = Some n \<and> wf_node n \<and> wf_node t' \<and> look dst t' = Some n \<and> look src t' = None
    \<and> t' = change_tree dst (Some n) (change_tree src None t)"
    and "apart src q \<Longrightarrow> apart dst q \<Longrightarrow> look q t' = look q t"
proof -
  obtain n where n: "look src t = Some n" "dir_there (butlast dst) t"
    "t' = change_tree dst (Some n) (change_tree src None t)"
    using rename_tree_Inr [OF assms(5) apart_irrefl [OF assms(4)]] .
  have wn: "wf_node n" using look_wf [OF assms(1) n(1)] .
  have w1: "wf_node (change_tree src None t)" using wf_change [OF assms(2,1)] by simp
  have w2: "wf_node t'" using wf_change [OF assms(3) w1] wn by (simp add: n(3))
  have "\<not> prefix (tl src) (butlast (tl dst))"
    using apart_not_above(2) assms(4) by (simp add: apart_sym)
  then have d: "dir_there (butlast dst) (change_tree src None t)"
    using n(2) dir_at_upd [OF assms(1)] assms(3) by (simp add: dir_there_butlast change_tree_def)
  have "look dst t' = Some n" using look_change_same [OF assms(3) w1 d] by (simp add: n(3))
  moreover have "look src t' = None"
    using look_change_apart [OF _ w1, of dst src] assms(4) look_change_same [OF assms(2,1)] n(1)
      look_parent [OF assms(2), of t] by (simp add: n(3) apart_sym)
  ultimately show "\<exists>n. look src t = Some n \<and> wf_node n \<and> wf_node t' \<and> look dst t' = Some n \<and> look src t' = None
    \<and> t' = change_tree dst (Some n) (change_tree src None t)"
    using n wn w2 by blast
  show "look q t' = look q t" if "apart src q" "apart dst q"
    using that look_change_apart [OF that(1) assms(1)] look_change_apart [OF that(2) w1] by (simp add: n(3))
qed

text \<open>Moving a subtree out of the directory \<open>ws\<close> or into it\<close>

lemma rename_out:
  assumes "wf_node t" "rooted ws" "look ws t = Some W" "r \<noteq> []" "\<forall>x \<in> set r. is_name x"
    "rooted dst" "apart dst ws" "rename_tree (ws @ r) dst t = Inr (u, t')"
  shows "wf_node t'" "look ws t' = Some (upd r None W)" "get r W \<noteq> None" "look dst t' = get r W"
    and "apart ws q \<Longrightarrow> apart dst q \<Longrightarrow> look q t' = look q t"
proof -
  have ne: "ws \<noteq> []" "dst \<noteq> []" using assms(2,6) by (auto simp: rooted_def)
  have src: "rooted (ws @ r)" using assms(2,5) by (cases ws) (auto simp: rooted_def)
  have ap: "apart (ws @ r) dst" using assms(7) ne by (metis apart_below apart_sym)
  obtain n where n: "look (ws @ r) t = Some n" "wf_node t'" "look dst t' = Some n"
    "t' = change_tree dst (Some n) (change_tree (ws @ r) None t)"
    using rename_looks(1) [OF assms(1) src assms(6) ap assms(8)] by blast
  then show "wf_node t'" "get r W \<noteq> None" "look dst t' = get r W"
    using assms(3) ne(1) by (simp_all add: look_append)
  have "wf_node (change_tree (ws @ r) None t)" using wf_change [OF src assms(1)] by simp
  from look_change_apart [OF assms(7) this] show "look ws t' = Some (upd r None W)"
    using look_change_below [OF assms(2,1,3,4)] n(4) by simp
  show "look q t' = look q t" if "apart ws q" "apart dst q"
    using rename_looks(2) [OF assms(1) src assms(6) ap assms(8)] that ne(1) apart_below by blast
qed

lemma rename_in:
  assumes "wf_node t" "rooted ws" "look ws t = Some W" "r \<noteq> []" "\<forall>x \<in> set r. is_name x"
    "rooted src" "apart src ws" "rename_tree src (ws @ r) t = Inr (u, t')"
  shows "wf_node t'" "look ws t' = Some (upd r (look src t) W)" "look src t \<noteq> None"
    and "apart ws q \<Longrightarrow> apart src q \<Longrightarrow> look q t' = look q t"
proof -
  have ne: "ws \<noteq> []" "src \<noteq> []" using assms(2,6) by (auto simp: rooted_def)
  have dst: "rooted (ws @ r)" using assms(2,5) by (cases ws) (auto simp: rooted_def)
  have ap: "apart src (ws @ r)" using assms(7) ne by (metis apart_below apart_sym)
  obtain n where n: "look src t = Some n" "wf_node t'"
    "t' = change_tree (ws @ r) (Some n) (change_tree src None t)"
    using rename_looks(1) [OF assms(1,6) dst ap assms(8)] by blast
  then show "wf_node t'" "look src t \<noteq> None" by simp_all
  have "wf_node (change_tree src None t)" using wf_change [OF assms(6,1)] by simp
  moreover have "look ws (change_tree src None t) = Some W"
    using look_change_apart [OF assms(7,1)] assms(3) by simp
  ultimately show "look ws t' = Some (upd r (look src t) W)"
    using look_change_below [OF assms(2)] assms(4) n(1,3) by simp
  show "look q t' = look q t" if "apart ws q" "apart src q"
    using rename_looks(2) [OF assms(1,6) dst ap assms(8)] that ne(1) apart_below by blast
qed

subsection \<open>The invariant\<close>

definition op_root :: "commit_operation \<Rightarrow> path" where
  "op_root op = names_of (o_path op)"

definition planned_op :: "path \<Rightarrow> node \<Rightarrow> commit_operation \<Rightarrow> bool" where
  "planned_op Q b op \<longleftrightarrow> relative_text (o_path op) \<and> all_names (op_root op) \<and> hd (op_root op) \<noteq> ''_failed_new'' \<and>
     dir_at (butlast (op_root op)) b \<and> (o_before_kind op = None \<longleftrightarrow> get (op_root op) b = None) \<and>
     (case o_backup_path op of None \<Rightarrow> o_before_kind op = None | Some p \<Rightarrow> path_of p = Q @ op_root op)"

definition planned :: "path \<Rightarrow> node \<Rightarrow> commit_operation list \<Rightarrow> bool" where
  "planned Q b ops \<longleftrightarrow> (\<forall>i < length ops. planned_op Q b (ops ! i)) \<and>
     (\<forall>i < length ops. \<forall>j < length ops. i \<noteq> j \<longrightarrow> op_root (ops ! i) \<parallel> op_root (ops ! j))"

definition flagged :: "commit_operation \<Rightarrow> bool" where
  "flagged op \<longleftrightarrow> o_installed op \<or> o_backup_moved op"

text \<open>The roots of the operations done, the last one first\<close>

definition stack :: "commit_operation list \<Rightarrow> path list" where
  "stack ops = rev (map op_root (filter flagged ops))"

definition saved :: "path \<Rightarrow> node \<Rightarrow> node \<Rightarrow> commit_operation \<Rightarrow> bool" where
  "saved Q b t op \<longleftrightarrow>
     (o_backup_moved op \<longrightarrow> get (op_root op) b \<noteq> None \<and> look (Q @ op_root op) t = get (op_root op) b) \<and>
     (o_installed op \<and> \<not> o_backup_moved op \<longrightarrow> get (op_root op) b = None)"

text \<open>The first \<open>k\<close> operations account for the difference between the workspace and \<open>b\<close>.\<close>

definition intact :: "path \<Rightarrow> path \<Rightarrow> node \<Rightarrow> nat \<Rightarrow> commit_operation list \<Rightarrow> node \<Rightarrow> bool" where
  "intact ws Q b k ops t \<longleftrightarrow> wf_node t \<and> k \<le> length ops \<and> planned Q b ops \<and> (\<forall>j < k. saved Q b t (ops ! j)) \<and>
     (\<exists>W. look ws t = Some W \<and> mend b (stack (take k ops)) W = b)"

definition fresh :: "nat \<Rightarrow> commit_operation list \<Rightarrow> bool" where
  "fresh k ops \<longleftrightarrow> (\<forall>j < length ops. k \<le> j \<longrightarrow> \<not> flagged (ops ! j))"

definition same_static :: "commit_operation \<Rightarrow> commit_operation \<Rightarrow> bool" where
  "same_static op op' \<longleftrightarrow> o_path op = o_path op' \<and> o_before_kind op = o_before_kind op' \<and>
     o_after_kind op = o_after_kind op' \<and> o_backup_path op = o_backup_path op'"

lemma static_root: "same_static op op' \<Longrightarrow> op_root op = op_root op'"
  by (simp add: same_static_def op_root_def)

lemma planned_op_static: "same_static op op' \<Longrightarrow> planned_op Q b op = planned_op Q b op'"
  using static_root [of op op'] by (simp add: planned_op_def same_static_def split: option.split)

lemma planned_update: "planned Q b ops \<Longrightarrow> same_static op' (ops ! i) \<Longrightarrow> planned Q b (ops[i := op'])"
  unfolding planned_def
  by (intro conjI allI impI; cases "i < length ops")
    (simp_all add: nth_list_update planned_op_static static_root)

lemma plannedD:
  assumes "planned Q b ops" "i < length ops"
  shows "planned_op Q b (ops ! i)" "all_names (op_root (ops ! i))" "relative_text (o_path (ops ! i))"
    "dir_at (butlast (op_root (ops ! i))) b" "op_root (ops ! i) \<noteq> []"
    "\<And>x. x \<in> set (op_root (ops ! i)) \<Longrightarrow> is_name x"
    "\<And>j. j < length ops \<Longrightarrow> j \<noteq> i \<Longrightarrow> op_root (ops ! j) \<parallel> op_root (ops ! i)"
  using assms by (auto simp: planned_def planned_op_def all_names_def)

lemma stack_Suc: "i < length ops \<Longrightarrow> stack (take (Suc i) ops) =
    (if flagged (ops ! i) then op_root (ops ! i) # stack (take i ops) else stack (take i ops))"
  by (simp add: stack_def take_Suc_conv_app_nth)

lemma stack_mem: "r \<in> set (stack (take k ops)) \<longleftrightarrow> (\<exists>j < length ops. j < k \<and> flagged (ops ! j) \<and> r = op_root (ops ! j))"
  by (auto simp: stack_def image_iff in_set_conv_nth)

lemma stack_parallel:
  "planned Q b ops \<Longrightarrow> i < length ops \<Longrightarrow> k \<le> i \<Longrightarrow>
    \<forall>r \<in> set (stack (take k ops)). r \<parallel> op_root (ops ! i) \<and> all_names r"
  using plannedD(2,7) by (fastforce simp: stack_mem)

lemma stack_names: "planned Q b ops \<Longrightarrow> \<forall>r \<in> set (stack (take k ops)). all_names r"
  using plannedD(2) by (fastforce simp: stack_mem)

lemma stack_fresh: "fresh k ops \<Longrightarrow> k \<le> length ops \<Longrightarrow> stack ops = stack (take k ops)"
proof -
  assume f: "fresh k ops" "k \<le> length ops"
  have "filter flagged (drop k ops) = []"
    using f by (auto simp: filter_empty_conv fresh_def in_set_conv_nth)
  then have "filter flagged (take k ops @ drop k ops) = filter flagged (take k ops)" by (simp only: filter_append) simp
  then show ?thesis by (simp add: stack_def)
qed

lemma saved_unflagged: "\<not> flagged op \<Longrightarrow> saved Q b t op"
  by (auto simp: saved_def flagged_def)

lemma intact_fresh:
  "fresh k ops \<Longrightarrow> k \<le> length ops \<Longrightarrow> intact ws Q b (length ops) ops t \<longleftrightarrow> intact ws Q b k ops t"
  unfolding intact_def fresh_def
  using stack_fresh [of k ops] saved_unflagged by (auto simp: fresh_def)


lemma intact_planned: "intact ws Q b k ops t \<Longrightarrow> planned Q b ops"
  by (simp add: intact_def)

lemma intactE:
  assumes "intact ws Q b k ops t"
  obtains W where "look ws t = Some W" "wf_node W" "mend b (stack (take k ops)) W = b" "wf_node t" "planned Q b ops"
  using assms look_wf by (auto simp: intact_def)

text \<open>A change that keeps the workspace and the backups keeps the invariant.\<close>

lemma saved_cong: "look (Q @ op_root op) t' = look (Q @ op_root op) t \<Longrightarrow> saved Q b t' op = saved Q b t op"
  by (simp add: saved_def)

lemma intact_frame:
  assumes "intact ws Q b k ops t" "wf_node t'" "look ws t' = look ws t"
    "\<And>j. j < length ops \<Longrightarrow> look (Q @ op_root (ops ! j)) t' = look (Q @ op_root (ops ! j)) t"
  shows "intact ws Q b k ops t'"
proof -
  have "\<forall>j < k. saved Q b t' (ops ! j)"
    using assms(1) saved_cong [OF assms(4)] by (simp add: intact_def)
  with assms(1-3) show ?thesis by (simp add: intact_def)
qed

text \<open>The first steps are those of the list with a later operation changed.\<close>

lemma intact_update:
  assumes "intact ws Q b k ops t" "same_static op' (ops ! i)" "k \<le> i"
  shows "intact ws Q b k (ops[i := op']) t"
  using assms by (auto simp: intact_def planned_update)

lemma intact_similar:
  assumes "intact ws Q b k ops t" "length ops' = length ops"
    and "\<And>j. j < length ops \<Longrightarrow> same_static (ops' ! j) (ops ! j) \<and>
      o_installed (ops' ! j) = o_installed (ops ! j) \<and> o_backup_moved (ops' ! j) = o_backup_moved (ops ! j)"
  shows "intact ws Q b k ops' t"
proof -
  have n: "op_root (ops' ! j) = op_root (ops ! j)" "flagged (ops' ! j) = flagged (ops ! j)"
    "saved Q b t (ops' ! j) = saved Q b t (ops ! j)" "planned_op Q b (ops' ! j) = planned_op Q b (ops ! j)"
    if "j < length ops" for j
    using assms(3) [OF that] static_root planned_op_static by (auto simp: flagged_def saved_def)
  have "stack (take m ops') = stack (take m ops)" if "m \<le> length ops" for m
    using that
  proof (induction m)
    case 0
    then show ?case by (simp add: stack_def)
  next
    case (Suc m)
    then show ?case using n [of m] assms(2) by (simp add: stack_Suc)
  qed
  moreover have "planned Q b ops' = planned Q b ops" using n assms(2) by (simp add: planned_def)
  ultimately show ?thesis using assms(1,2) n by (auto simp: intact_def)
qed

lemma intact_phase: "intact ws Q b k ops t \<Longrightarrow> intact ws Q b k (ops[i := (ops ! i)\<lparr>o_phase := p\<rparr>]) t"
  by (cases "i < length ops"; erule intact_similar)
    (auto simp: same_static_def nth_list_update list_update_beyond not_less)

text \<open>One operation replaces its subtree.\<close>

lemma intact_step:
  assumes "intact ws Q b i ops t" "i < length ops" "same_static op' (ops ! i)" "flagged op'"
    and "look ws t = Some W" "look ws t' = Some (upd (op_root (ops ! i)) x W)" "wf_node t'"
    and "\<And>j. j < i \<Longrightarrow> look (Q @ op_root (ops ! j)) t' = look (Q @ op_root (ops ! j)) t"
    and "saved Q b t' op'" "wf_node b"
  shows "intact ws Q b (Suc i) (ops[i := op']) t'"
proof -
  let ?r = "op_root (ops ! i)"
  have p: "planned Q b ops" and wt: "wf_node t" and m: "mend b (stack (take i ops)) W = b"
    using assms(1,5) by (auto simp: intact_def)
  have "mend b (?r # stack (take i ops)) (upd ?r x W) = b"
    using mend_push [OF assms(10) look_wf [OF wt assms(5)] m] stack_parallel [OF p assms(2), of i] plannedD(2) [OF p assms(2)]
    by simp
  moreover have "stack (take (Suc i) (ops[i := op'])) = ?r # stack (take i ops)"
    using assms(2,4) static_root [OF assms(3)] by (simp add: stack_Suc)
  moreover have "\<forall>j < Suc i. saved Q b t' (ops[i := op'] ! j)"
    using assms(1,2,9) saved_cong [OF assms(8)] by (auto simp: intact_def less_Suc_eq)
  ultimately show ?thesis
    using assms(2,3,6,7) p by (simp add: intact_def planned_update)
qed

text \<open>The operation done last replaces its subtree once more.\<close>

lemma intact_again:
  assumes "intact ws Q b (Suc i) ops t" "i < length ops" "same_static op' (ops ! i)" "flagged (ops ! i)" "flagged op'"
    and "look ws t = Some W" "look ws t' = Some (upd (op_root (ops ! i)) x W)" "wf_node t'"
    and "\<And>j. j < i \<Longrightarrow> look (Q @ op_root (ops ! j)) t' = look (Q @ op_root (ops ! j)) t"
    and "saved Q b t' op'"
  shows "intact ws Q b (Suc i) (ops[i := op']) t'"
proof -
  let ?r = "op_root (ops ! i)"
  have p: "planned Q b ops" and wt: "wf_node t" and m: "mend b (?r # stack (take i ops)) W = b"
    using assms(1,2,4,6) by (auto simp: intact_def stack_Suc)
  have "mend b (?r # stack (take i ops)) (upd ?r x W) = b"
    using mend_top [OF look_wf [OF wt assms(6)] m plannedD(5) [OF p assms(2)]] .
  moreover have "stack (take (Suc i) (ops[i := op'])) = ?r # stack (take i ops)"
    using assms(2,5) static_root [OF assms(3)] by (simp add: stack_Suc)
  moreover have "\<forall>j < Suc i. saved Q b t' (ops[i := op'] ! j)"
    using assms(1,2,10) saved_cong [OF assms(9)] by (auto simp: intact_def less_Suc_eq)
  ultimately show ?thesis
    using assms(2,3,7,8) p by (simp add: intact_def planned_update)
qed

text \<open>Undoing the last operation: its backup moved back, or nothing left to do\<close>

lemma intact_back:
  assumes "intact ws Q b (Suc i) ops t" "i < length ops" "flagged (ops ! i)"
    and "look ws t = Some W" "look ws t' = Some (upd (op_root (ops ! i)) (get (op_root (ops ! i)) b) W)" "wf_node t'"
    and "\<And>j. j < i \<Longrightarrow> look (Q @ op_root (ops ! j)) t' = look (Q @ op_root (ops ! j)) t"
  shows "intact ws Q b i ops t'"
proof -
  have "\<forall>j < i. saved Q b t' (ops ! j)"
    using assms(1) saved_cong [OF assms(7)] by (simp add: intact_def)
  with assms(1-6) show ?thesis by (simp add: intact_def stack_Suc)
qed

lemma intact_pop:
  assumes "intact ws Q b (Suc i) ops t" "i < length ops"
    and "\<not> o_backup_moved (ops ! i)"
    and "o_installed (ops ! i) \<Longrightarrow> look ws t = Some W \<Longrightarrow> get (op_root (ops ! i)) W = None"
    and "look ws t = Some W"
  shows "intact ws Q b i ops t"
proof (cases "flagged (ops ! i)")
  case True
  then have "get (op_root (ops ! i)) b = None" "get (op_root (ops ! i)) W = None"
    using assms by (auto simp: intact_def saved_def flagged_def)
  moreover have "wf_node W" using assms(1,5) look_wf by (auto simp: intact_def)
  ultimately have "upd (op_root (ops ! i)) (get (op_root (ops ! i)) b) W = W" by (simp add: upd_none_id)
  then show ?thesis using intact_back [OF assms(1,2) True assms(5), of t] assms(1,5) by (simp add: intact_def)
next
  case False
  then show ?thesis using assms(1,2) by (auto simp: intact_def stack_Suc)
qed

text \<open>Parents of the places still to be changed are directories of the workspace.\<close>

lemma intact_parent:
  assumes "intact ws Q b k ops t" "wf_node b" "i < length ops" "k \<le> Suc i" "look ws t = Some W"
  shows "dir_at (butlast (op_root (ops ! i))) W"
proof -
  have p: "planned Q b ops" and wt: "wf_node t" and m: "mend b (stack (take k ops)) W = b"
    using assms(1,5) by (auto simp: intact_def)
  have "\<not> prefix r (butlast (op_root (ops ! i)))" if "r \<in> set (stack (take k ops))" for r
  proof -
    obtain j where j: "j < length ops" "j < k" "r = op_root (ops ! j)" using \<open>r \<in> _\<close> by (auto simp: stack_mem)
    show ?thesis
    proof (cases "j = i")
      case True
      then show ?thesis using j plannedD(5) [OF p assms(3)] by (metis strict_prefix_butlast prefix_order.leD)
    next
      case False
      then show ?thesis using plannedD(7) [OF p assms(3) j(1)] j(3) by (metis parallel_butlast)
    qed
  qed
  then show ?thesis
    using mend_dir_at [OF assms(2) look_wf [OF wt assms(5)] m] stack_names [OF p] plannedD(4) [OF p assms(3)] by blast
qed

subsection \<open>The places of a commit\<close>

text \<open>The workspace, the quarantine directory and the directory of payloads of one commit\<close>

definition setting :: "guard \<Rightarrow> path \<Rightarrow> path \<Rightarrow> path \<Rightarrow> bool" where
  "setting g ws Q A \<longleftrightarrow> guarded g \<and> rooted ws \<and> apart (b_root g) ws \<and>
     (\<exists>c. is_name c \<and> Q = b_root g @ [''quarantine'', c] \<and> A = b_root g @ [''apply'', c])"

lemma settingD:
  assumes "setting g ws Q A"
  shows "guarded g" "rooted ws" "apart (b_root g) ws" "ws \<noteq> []" "Q \<noteq> []" "A \<noteq> []" "prefix (b_root g) Q"
    "prefix (b_root g) A" "apart Q ws" "apart A ws" "apart A Q" "rooted Q" "rooted A"
proof -
  obtain c where s: "guarded g" "rooted ws" "apart (b_root g) ws" "is_name c"
    "Q = b_root g @ [''quarantine'', c]" "A = b_root g @ [''apply'', c]"
    using assms by (auto simp: setting_def)
  show "guarded g" "rooted ws" "apart (b_root g) ws" by fact+
  show "ws \<noteq> []" using s(2) by (auto simp: rooted_def)
  show "Q \<noteq> []" "A \<noteq> []" "prefix (b_root g) Q" "prefix (b_root g) A" by (simp_all add: s(5,6))
  show "apart Q ws" "apart A ws" using s(1,3) by (auto simp: s(5,6))
  show "rooted Q" "rooted A" using s(1,4) by (simp_all add: s(5,6))
  show "apart A Q" using root_not_Nil [OF s(1)] by (simp add: s(5,6) apart_same parallel_def)
qed

lemma rooted_add: "rooted p \<Longrightarrow> rooted (p @ q) \<longleftrightarrow> (\<forall>x \<in> set q. is_name x)"
  by (cases p) (auto simp: rooted_def)

text \<open>The paths a commit must not disturb\<close>

definition vital :: "path \<Rightarrow> path \<Rightarrow> commit_operation list \<Rightarrow> path set" where
  "vital ws Q ops = insert ws ((\<lambda>op. Q @ op_root op) ` set ops)"

abbreviation keeps_all :: "path set \<Rightarrow> world \<Rightarrow> world \<Rightarrow> bool" where
  "keeps_all S \<equiv> on_trees (\<lambda>t t'. \<forall>q \<in> S. look q t' = look q t)"

interpretation keeps_all: frame "keeps_all S" for S
  by unfold_locales (auto simp: on_trees_def)

lemma obeys_keeps_all: "S \<noteq> {} \<Longrightarrow> (\<And>q. q \<in> S \<Longrightarrow> obeys (keeps q) m) \<Longrightarrow> obeys (keeps_all S) m"
  by (fastforce simp: obeys_def on_trees_def)

lemma keeps_vital:
  "obeys (keeps ws) m \<Longrightarrow> (\<And>op. op \<in> set ops \<Longrightarrow> obeys (keeps (Q @ op_root op)) m) \<Longrightarrow> obeys (keeps_all (vital ws Q ops)) m"
  by (rule obeys_keeps_all) (auto simp: vital_def)

lemma intact_obeys:
  assumes "intact ws Q b k ops (w_tree w)" "obeys (keeps_all (vital ws Q ops)) m" "m w = (r, w')"
  shows "intact ws Q b k ops (w_tree w')"
proof -
  have "wf_node (w_tree w')" "\<And>q. q \<in> vital ws Q ops \<Longrightarrow> look q (w_tree w') = look q (w_tree w)"
    using obeysD [OF assms(2,3)] assms(1) by (auto simp: on_trees_def intact_def)
  then show ?thesis by (intro intact_frame [OF assms(1)]) (auto simp: vital_def)
qed

text \<open>Writing state files and the log disturbs nothing.\<close>

lemma planned_names: "planned Q b ops \<Longrightarrow> op \<in> set ops \<Longrightarrow> all_names (op_root op) \<and> op_root op \<noteq> []"
  by (auto simp: planned_def planned_op_def in_set_conv_nth all_names_def)

lemma state_file_keeps:
  assumes "setting g ws Q A" "planned Q b ops" "rooted p" "apart p ws" "apart p Q"
  shows "obeys (keeps_all (vital ws Q ops)) (atomic_write_json h p v)"
    and "obeys (keeps_all (vital ws Q ops)) (audit_append h cr k p ev v)"
proof -
  have q: "rooted (Q @ op_root op)" "apart p (Q @ op_root op)" if "op \<in> set ops" for op
    using settingD [OF assms(1)] planned_names [OF assms(2) that] assms(5)
    by (auto simp: rooted_add all_names_def apart_sym [of p] intro: apart_below)
  show "obeys (keeps_all (vital ws Q ops)) (atomic_write_json h p v)"
    and "obeys (keeps_all (vital ws Q ops)) (audit_append h cr k p ev v)"
    using assms(3,4) q settingD(2) [OF assms(1)]
    by (auto intro!: keeps_vital atomic_write_json_keeps audit_append_keeps)
qed

lemma commit_file_place:
  assumes "setting g ws Q A" "commit_path g i = Inr p"
  shows "rooted p" "apart p ws" "apart p Q"
proof -
  obtain c where c: "Q = b_root g @ [''quarantine'', c]" using assms(1) by (auto simp: setting_def)
  obtain j where p: "p = b_root g @ [''commits'', j]"
    using assms(2) by (auto simp: commit_path_def bindE_Inr_iff)
  show "rooted p" "apart p ws"
    using state_paths(4) [OF settingD(1) [OF assms(1)] assms(2)] prefix_apart settingD [OF assms(1)] by blast+
  show "apart p Q" using root_not_Nil [OF settingD(1) [OF assms(1)]] by (simp add: c p apart_same parallel_def)
qed

lemma log_event_vital:
  assumes "setting g ws Q A" "planned Q b ops"
  shows "obeys (keeps_all (vital ws Q ops)) (log_event g ev kvs)"
proof -
  obtain c where c: "Q = b_root g @ [''quarantine'', c]" using assms(1) by (auto simp: setting_def)
  have "rooted (audit_path g)" "apart (audit_path g) ws" "apart (audit_path g) Q"
    using settingD [OF assms(1)] root_not_Nil by (auto simp: audit_path_def c apart_same)
  from state_file_keeps(2) [OF assms this] show ?thesis
    unfolding log_event_def by blast
qed

subsection \<open>The steps of the code\<close>

definition inv ::
  "path \<Rightarrow> path \<Rightarrow> node \<Rightarrow> nat \<Rightarrow> (commit_operation list \<Rightarrow> bool) \<Rightarrow> cstate \<Rightarrow> bool" where
  "inv ws Q b k C s \<longleftrightarrow> path_of (r_quarantine_root (fst s)) = Q \<and>
     intact ws Q b k (r_operations (fst s)) (w_tree (snd s)) \<and> C (r_operations (fst s))"

lemma triple_record: "(\<And>r w. P (r, w) \<Longrightarrow> R (f r, w)) \<Longrightarrow> triple P (change_record f) (\<lambda>_. R) E"
  by (rule tripleI) (auto simp: change_record_def)

lemma triple_the_record: "triple P the_record (\<lambda>r s. P s \<and> fst s = r) E"
  by (rule tripleI) (auto simp: the_record_def)

lemma the_operation_triple:
  "triple (inv ws Q b k C) (the_operation i) (\<lambda>op. inv ws Q b k (\<lambda>ops. C ops \<and> ops ! i = op)) E"
  by (rule tripleI) (auto simp: the_operation_def the_record_def bindA_def inv_def)

lemma inv_embed:
  assumes "\<And>ops. planned Q b ops \<Longrightarrow> C ops \<Longrightarrow> obeys (keeps_all (vital ws Q ops)) m" "\<And>s. inv ws Q b k C s \<Longrightarrow> E s"
  shows "triple (inv ws Q b k C) (embed m) (\<lambda>_. inv ws Q b k C) E"
  using assms(1) intact_obeys [of ws Q b k _ _ m]
  by (intro tripleI assms(2)) (fastforce simp: inv_def embed_def intact_planned split: prod.splits)+

lemma inv_reads:
  "obeys reads m \<Longrightarrow> (\<And>s. inv ws Q b k C s \<Longrightarrow> E s) \<Longrightarrow> triple (inv ws Q b k C) (embed m) (\<lambda>_. inv ws Q b k C) E"
  by (rule inv_embed) (auto simp: obeys_def on_trees_def)

lemma inv_exists:
  "triple (inv ws Q b k C) (embed (lexistsA p))
    (\<lambda>there s. inv ws Q b k C s \<and> there = (look p (w_tree (snd s)) \<noteq> None)) E"
  by (rule tripleI) (auto simp: embed_def lexistsA_def)

lemma inv_save:
  assumes "setting g ws Q A" "\<And>s. inv ws Q b k C s \<Longrightarrow> E s"
  shows "triple (inv ws Q b k C) (save_commit g) (\<lambda>_. inv ws Q b k C) E"
proof -
  have w: "triple (\<lambda>s. inv ws Q b k C s \<and> fst s = r) (embed (atomic_write_json (b_host g) p v)) (\<lambda>_. inv ws Q b k C) E"
    if "commit_path g i = Inr p" for r p v i
  proof -
    have "triple (inv ws Q b k C) (embed (atomic_write_json (b_host g) p v)) (\<lambda>_. inv ws Q b k C) E"
      using state_file_keeps(1) [OF assms(1) _ commit_file_place [OF assms(1) that]] assms(2)
      by (intro inv_embed) auto
    then show ?thesis by (rule triple_weaken) auto
  qed
  then have "triple (\<lambda>s. inv ws Q b k C s \<and> fst s = r)
      (bindA (liftA (commit_path g i)) (\<lambda>p. embed (atomic_write_json (b_host g) p v))) (\<lambda>_. inv ws Q b k C) E"
    for r i v using assms(2) by (intro triple_bind_lift) auto
  then have "triple (inv ws Q b k C) (bindA the_record (\<lambda>r. bindA (liftA (commit_path g (r_commit_id r)))
      (\<lambda>p. embed (atomic_write_json (b_host g) p (record_to_dict r))))) (\<lambda>_. inv ws Q b k C) E"
    by (rule triple_bind [OF triple_the_record])
  moreover have "triple (inv ws Q b k C) (change_record (sign_commit g)) (\<lambda>_. inv ws Q b k C) E"
    by (rule triple_record) (simp add: inv_def sign_commit_def)
  ultimately show ?thesis
    unfolding save_commit_def by (blast intro: triple_then)
qed

text \<open>Directories below the quarantine directory, outside every backup\<close>

lemma quarantine_mkdirs:
  assumes "setting g ws Q A" "planned Q b ops" "\<forall>x \<in> set r. is_name x"
    and "\<And>op. op \<in> set ops \<Longrightarrow> \<not> prefix (op_root op) r"
  shows "obeys (keeps_all (vital ws Q ops)) (mkdirsA h m (Q @ r))"
proof (rule keeps_vital)
  have r: "rooted (Q @ r)" using settingD(12) [OF assms(1)] assms(3) by (simp add: rooted_add)
  have "apart (Q @ r) ws" using settingD(5,9) [OF assms(1)] by (auto intro: apart_below)
  then show "obeys (keeps ws) (mkdirsA h m (Q @ r))"
    using r settingD(2) [OF assms(1)] by (intro mkdirsA_keeps) (auto simp: apart_not_above)
  fix op assume op: "op \<in> set ops"
  have "rooted (Q @ op_root op)"
    using settingD(12) [OF assms(1)] planned_names [OF assms(2) op] by (simp add: rooted_add all_names_def)
  moreover have "\<not> prefix (tl (Q @ op_root op)) (tl (Q @ r))"
    using settingD(5) [OF assms(1)] assms(4) [OF op] by (cases Q) auto
  ultimately show "obeys (keeps (Q @ op_root op)) (mkdirsA h m (Q @ r))"
    using r by (intro mkdirsA_keeps) auto
qed

lemma not_above_root:
  "planned Q b ops \<Longrightarrow> i < length ops \<Longrightarrow> op \<in> set ops \<Longrightarrow> \<not> prefix (op_root op) (butlast (op_root (ops ! i)))"
  using plannedD(5,7) strict_prefix_butlast parallel_butlast
  by (metis in_set_conv_nth prefix_order.leD)

text \<open>Parents of the places to be changed are there, so making them changes nothing.\<close>

lemma parent_there:
  assumes "setting g ws Q A" "wf_node b" "inv ws Q b k C (r, w)" "i < length (r_operations r)" "k \<le> Suc i"
  shows "mkdirsA h m (parent (ws @ op_root (r_operations r ! i))) w = (Inr (), w)"
proof -
  have i: "intact ws Q b k (r_operations r) (w_tree w)" using assms(3) by (simp add: inv_def)
  obtain W where W: "look ws (w_tree w) = Some W" using i by (rule intactE)
  have "op_root (r_operations r ! i) \<noteq> []" using plannedD(5) [OF intact_planned [OF i] assms(4)] .
  then have "parent (ws @ op_root (r_operations r ! i)) = ws @ butlast (op_root (r_operations r ! i))"
    using settingD(4) [OF assms(1)] by (simp add: parent_below)
  moreover have "dir_there (ws @ butlast (op_root (r_operations r ! i))) (w_tree w)"
    using intact_parent [OF i assms(2,4,5) W] settingD(4) [OF assms(1)] W
    by (auto simp: dir_there_def dir_at_def look_append split: option.splits)
  ultimately show ?thesis by (simp add: mkdirsA.simps)
qed

lemma set_operation_fields [simp]:
  "r_operations (set_operation i f r) = (r_operations r)[i := f (r_operations r ! i)]"
  "r_quarantine_root (set_operation i f r) = r_quarantine_root r"
  by (simp_all add: set_operation_def)

text \<open>What is known of the list of operations while operation \<open>i\<close> is applied\<close>

definition upto :: "nat \<Rightarrow> nat \<Rightarrow> nat \<Rightarrow> commit_operation \<Rightarrow> commit_operation list \<Rightarrow> bool" where
  "upto n k i op ops \<longleftrightarrow> length ops = n \<and> fresh k ops \<and> i < n \<and> same_static op (ops ! i)"

abbreviation any :: "nat \<Rightarrow> commit_operation list \<Rightarrow> bool" where
  "any n ops \<equiv> length ops = n"

lemma inv_any:
  assumes "inv ws Q b k C s" "\<And>ops. C ops \<Longrightarrow> length ops = n \<and> fresh k ops"
  shows "inv ws Q b n (any n) s"
  using assms intact_fresh [of k "r_operations (fst s)" ws Q b "w_tree (snd s)"]
  by (auto simp: inv_def intact_def)

lemma inv_upto_any: "inv ws Q b k (upto n k i op) s \<Longrightarrow> inv ws Q b n (any n) s"
  by (erule inv_any) (simp add: upto_def)

lemma upto_phase: "upto n k i op ops \<Longrightarrow> upto n k i op (ops[i := (ops ! i)\<lparr>o_phase := p\<rparr>])"
  by (auto simp: upto_def fresh_def flagged_def same_static_def nth_list_update)

lemma inv_phase:
  "triple (inv ws Q b k (upto n k i op)) (change_record (set_operation i (\<lambda>x. x\<lparr>o_phase := p\<rparr>)))
    (\<lambda>_. inv ws Q b k (upto n k i op)) E"
  by (rule triple_record) (simp add: inv_def intact_phase upto_phase)

lemma upto_planned:
  assumes "inv ws Q b k (upto n k' i op) s"
  shows "planned_op Q b op" "i < length (r_operations (fst s))" "op_root op = op_root (r_operations (fst s) ! i)"
  using assms plannedD(1) [OF intact_planned] planned_op_static static_root
  by (auto simp: inv_def upto_def)

lemma set_same_static: "same_static op (ops ! i) \<Longrightarrow> same_static op ((ops[i := f (ops ! i)]) ! i)"
  if "i < length ops" "\<And>x. same_static x (f x)" for f
  using that by (auto simp: same_static_def)

text \<open>Moving a subtree out of the workspace or into it\<close>

lemma fresh_update: "fresh i ops \<Longrightarrow> fresh (Suc i) (ops[i := x])"
  by (auto simp: fresh_def nth_list_update)

lemma backup_rename:
  assumes "setting g ws Q A" "wf_node b" and "f = (\<lambda>x. x\<lparr>o_backup_moved := True, o_phase := p\<rparr>)"
  shows "triple (inv ws Q b i (upto n i i op)) (embed (renameA h (ws @ op_root op) (Q @ op_root op)))
    (\<lambda>_ s. inv ws Q b (Suc i) (upto n (Suc i) i op) (set_operation i f (fst s), snd s)
      \<and> o_backup_moved (f (r_operations (fst s) ! i))) (inv ws Q b n (any n))"
proof (rule tripleI)
  fix s e s' assume "inv ws Q b i (upto n i i op) s" "embed (renameA h (ws @ op_root op) (Q @ op_root op)) s = (Inl e, s')"
  then have "inv ws Q b i (upto n i i op) s'"
    by (auto simp: embed_def inv_def split: prod.splits dest: renameA_result)
  then show "inv ws Q b n (any n) s'" by (rule inv_upto_any)
next
  fix s x s' assume a: "inv ws Q b i (upto n i i op) s"
    and r: "embed (renameA h (ws @ op_root op) (Q @ op_root op)) s = (Inr x, s')"
  define ops where "ops = r_operations (fst s)"
  define t where "t = w_tree (snd s)"
  define t' where "t' = w_tree (snd s')"
  let ?r = "op_root op"
  have f: "fst s' = fst s" and t: "rename_tree (ws @ ?r) (Q @ ?r) t = Inr (x, t')"
    using r by (auto simp: embed_def t_def t'_def split: prod.splits dest: renameA_result)
  have i: "intact ws Q b i ops t" and u: "upto n i i op ops" and il: "i < length ops" and eq: "op_root (ops ! i) = ?r"
    using a upto_planned [OF a] by (auto simp: inv_def ops_def t_def)
  have p: "planned Q b ops" using intact_planned [OF i] .
  obtain W where W: "look ws t = Some W" "wf_node W" "mend b (stack (take i ops)) W = b" and wt: "wf_node t"
    using i by (rule intactE)
  note S = settingD [OF assms(1)]
  have n: "?r \<noteq> []" "\<forall>x \<in> set ?r. is_name x" using plannedD [OF p il] eq by auto
  have Q: "rooted (Q @ ?r)" "apart (Q @ ?r) ws" using S n by (auto simp: rooted_add intro: apart_below)
  note R = rename_out [OF wt S(2) W(1) n Q t]
  have "get ?r W = get ?r b"
    using mend_get [OF assms(2) W(2,3)] stack_parallel [OF p il order_refl] eq by simp
  with R(3,4) have "saved Q b t' (f (ops ! i))"
    using eq by (auto simp: saved_def assms(3) op_root_def)
  moreover have "look (Q @ op_root (ops ! j)) t' = look (Q @ op_root (ops ! j)) t" if "j < i" for j
    using that il plannedD(7) [OF p il, of j] S(5,9) eq
    by (intro R(5)) (auto simp: apart_same parallel_def apart_sym [of ws] intro: apart_below)
  ultimately have "intact ws Q b (Suc i) (ops[i := f (ops ! i)]) t'"
    using R(1,2) assms(2) eq
    by (intro intact_step [OF i il _ _ W(1)]) (auto simp: assms(3) same_static_def flagged_def)
  moreover have "upto n (Suc i) i op (ops[i := f (ops ! i)])"
    using u fresh_update by (auto simp: upto_def assms(3) same_static_def)
  ultimately show "inv ws Q b (Suc i) (upto n (Suc i) i op) (set_operation i f (fst s'), snd s')
      \<and> o_backup_moved (f (r_operations (fst s') ! i))"
    using a f by (simp add: inv_def ops_def t'_def assms(3))
qed

text \<open>Before a payload is installed, its target is in quarantine or was never there.\<close>

definition cleared :: "node \<Rightarrow> nat \<Rightarrow> commit_operation list \<Rightarrow> bool" where
  "cleared b i ops \<longleftrightarrow> o_backup_moved (ops ! i) \<or> get (op_root (ops ! i)) b = None"

lemma cleared_phase: "upto n k i op ops \<Longrightarrow> cleared b i (ops[i := (ops ! i)\<lparr>o_phase := p\<rparr>]) = cleared b i ops"
  by (auto simp: cleared_def upto_def op_root_def)

lemma intact_unflagged: "intact ws Q b (Suc i) ops t \<Longrightarrow> \<not> flagged (ops ! i) \<Longrightarrow> intact ws Q b i ops t"
  by (auto simp: intact_def stack_Suc)

lemma install_rename:
  assumes "setting g ws Q A" "wf_node b" and "f = (\<lambda>x. x\<lparr>o_installed := True, o_phase := p\<rparr>)"
  shows "triple (inv ws Q b (Suc i) (\<lambda>ops. upto n (Suc i) i op ops \<and> cleared b i ops))
    (embed (renameA h (A @ op_root op) (ws @ op_root op)))
    (\<lambda>_ s. inv ws Q b (Suc i) (upto n (Suc i) i op) (set_operation i f (fst s), snd s)) (inv ws Q b n (any n))"
proof (rule tripleI)
  fix s e s' assume "inv ws Q b (Suc i) (\<lambda>ops. upto n (Suc i) i op ops \<and> cleared b i ops) s"
    "embed (renameA h (A @ op_root op) (ws @ op_root op)) s = (Inl e, s')"
  then have "inv ws Q b (Suc i) (upto n (Suc i) i op) s'"
    by (auto simp: embed_def inv_def split: prod.splits dest: renameA_result)
  then show "inv ws Q b n (any n) s'" by (rule inv_upto_any)
next
  fix s x s' assume a: "inv ws Q b (Suc i) (\<lambda>ops. upto n (Suc i) i op ops \<and> cleared b i ops) s"
    and r: "embed (renameA h (A @ op_root op) (ws @ op_root op)) s = (Inr x, s')"
  define ops where "ops = r_operations (fst s)"
  define t where "t = w_tree (snd s)"
  define t' where "t' = w_tree (snd s')"
  let ?r = "op_root op"
  have f: "fst s' = fst s" and t: "rename_tree (A @ ?r) (ws @ ?r) t = Inr (x, t')"
    using r by (auto simp: embed_def t_def t'_def split: prod.splits dest: renameA_result)
  have i: "intact ws Q b (Suc i) ops t" and u: "upto n (Suc i) i op ops" and c: "cleared b i ops"
    using a by (auto simp: inv_def ops_def t_def)
  have il: "i < length ops" and eq: "op_root (ops ! i) = ?r" using u static_root by (auto simp: upto_def)
  have p: "planned Q b ops" using intact_planned [OF i] .
  obtain W where W: "look ws t = Some W" and wt: "wf_node t" using i by (rule intactE)
  note S = settingD [OF assms(1)]
  have n: "?r \<noteq> []" "\<forall>x \<in> set ?r. is_name x" using plannedD [OF p il] eq by auto
  have A: "rooted (A @ ?r)" "apart (A @ ?r) ws" using S n by (auto simp: rooted_add intro: apart_below)
  note R = rename_in [OF wt S(2) W n A t]
  have look: "look (Q @ y) t' = look (Q @ y) t" for y
    using S apart_below2 [of A Q ?r y] by (intro R(4)) (auto simp: apart_sym [of ws] intro: apart_below)
  have "saved Q b t (ops ! i)" using i il by (simp add: intact_def)
  then have sv: "saved Q b t' (f (ops ! i))"
    using look c by (auto simp: saved_def assms(3) op_root_def cleared_def)
  have st: "same_static (f (ops ! i)) (ops ! i)" "flagged (f (ops ! i))"
    by (simp_all add: assms(3) same_static_def flagged_def)
  have "intact ws Q b (Suc i) (ops[i := f (ops ! i)]) t'"
  proof (cases "flagged (ops ! i)")
    case True
    then show ?thesis using intact_again [OF i il st(1) True st(2) W _ R(1) _ sv] R(2) look eq by simp
  next
    case False
    then show ?thesis using intact_step [OF intact_unflagged [OF i False] il st W _ R(1) _ sv assms(2)] R(2) look eq by simp
  qed
  moreover have "upto n (Suc i) i op (ops[i := f (ops ! i)])"
    using u by (auto simp: upto_def assms(3) same_static_def fresh_def nth_list_update)
  ultimately show "inv ws Q b (Suc i) (upto n (Suc i) i op) (set_operation i f (fst s'), snd s')"
    using a f by (simp add: inv_def ops_def t'_def assms(3))
qed

lemma fsync_inv:
  "(\<And>s. inv ws Q b k C s \<Longrightarrow> E s) \<Longrightarrow> triple (inv ws Q b k C) (embed (fsync_directory h p)) (\<lambda>_. inv ws Q b k C) E"
  by (rule inv_reads) auto

lemma inv_upto_more_any: "inv ws Q b k (\<lambda>ops. upto n k i op ops \<and> D ops) s \<Longrightarrow> inv ws Q b n (any n) s"
  by (erule inv_any) (simp add: upto_def)

lemma inv_mkdirs:
  assumes "setting g ws Q A" "\<And>ops. C ops \<Longrightarrow> i < length ops \<and> op_root op = op_root (ops ! i)"
    "\<And>s. inv ws Q b k C s \<Longrightarrow> E s" "all_names (op_root op)"
  shows "triple (inv ws Q b k C) (embed (mkdirsA h m (Q @ butlast (op_root op)))) (\<lambda>_. inv ws Q b k C) E"
proof (rule inv_embed [OF _ assms(3)])
  fix ops assume p: "planned Q b ops" and "C ops"
  then have i: "i < length ops" "op_root op = op_root (ops ! i)" using assms(2) by auto
  have "\<forall>x \<in> set (butlast (op_root op)). is_name x" using assms(4) by (auto simp: all_names_def dest: in_set_butlastD)
  then show "obeys (keeps_all (vital ws Q ops)) (mkdirsA h m (Q @ butlast (op_root op)))"
    using not_above_root [OF p i(1)] i(2) by (intro quarantine_mkdirs [OF assms(1) p]) auto
qed

lemma move_backup_triple:
  assumes "setting g ws Q A" "wf_node b"
  shows "triple (inv ws Q b i (upto n i i op)) (move_backup g (ws @ op_root op) i op)
    (\<lambda>_. inv ws Q b (Suc i) (\<lambda>ops. upto n (Suc i) i op ops \<and> cleared b i ops)) (inv ws Q b n (any n))"
    (is "triple ?U _ (\<lambda>_. ?V) ?E")
proof (rule triple_pre [OF upto_planned(1)])
  assume planned: "planned_op Q b op"
  let ?f = "\<lambda>x. x\<lparr>o_backup_moved := True, o_phase := ''backup_moved''\<rparr>"
  have U: "?U s \<Longrightarrow> ?E s" and V: "?V s \<Longrightarrow> ?E s" for s
    by (erule inv_upto_any, erule inv_upto_more_any)
  have ren: "triple ?U (embed (renameA h (ws @ op_root op) (Q @ op_root op)))
      (\<lambda>_ s. ?V (set_operation i ?f (fst s), snd s)) ?E" for h
    by (rule triple_weaken [OF backup_rename [OF assms, of ?f]])
      (auto simp: inv_def cleared_def upto_def)
  have rec: "triple (\<lambda>s. ?V (set_operation i ?f (fst s), snd s)) (change_record (set_operation i ?f)) (\<lambda>_. ?V) ?E"
    by (rule triple_record) simp
  have mk: "triple ?U (embed (mkdirsA h m (Q @ butlast (op_root op)))) (\<lambda>_. ?U) ?E" for h m
    by (rule inv_mkdirs [OF assms(1), where i = i])
      (use planned in \<open>auto simp: upto_def planned_op_def intro: static_root U\<close>)
  have save: "triple ?U (save_commit g) (\<lambda>_. ?U) ?E" "triple ?V (save_commit g) (\<lambda>_. ?V) ?E"
    and fs: "triple ?V (embed (fsync_directory h p)) (\<lambda>_. ?V) ?E" for h p
    by (rule inv_save [OF assms(1)], erule U V)+ (rule fsync_inv, erule V)
  note steps = triple_then [OF mk] triple_then [OF inv_phase] triple_then [OF save(1)]
    triple_then [OF ren] triple_then [OF rec] triple_then [OF fs] save(2)
  show ?thesis
    unfolding move_backup_def
  proof (rule triple_bind [OF inv_exists], rule triple_then)
    fix there
    show "triple (\<lambda>s. ?U s \<and> there = (look (ws @ op_root op) (w_tree (snd s)) \<noteq> None))
        (requireA there (StalePlan ''planned existing target disappeared'')) (\<lambda>_. ?U) ?E"
      by (rule triple_require) (auto intro: U)
  next
    fix there
    show "triple ?U (case o_backup_path op of None \<Rightarrow> raiseA (PyError ''AssertionError'')
        | Some b \<Rightarrow> let backup = path_of b; h = b_host g
            in thenA (embed (mkdirsA h 511 (parent backup)))
              (thenA (change_record (set_operation i (\<lambda>x. x\<lparr>o_phase := ''moving_backup''\<rparr>)))
              (thenA (save_commit g)
              (thenA (embed (renameA h (ws @ op_root op) backup))
              (thenA (change_record (set_operation i ?f))
              (thenA (embed (fsync_directory h (parent (ws @ op_root op))))
              (thenA (embed (fsync_directory h (parent backup)))
                (save_commit g)))))))) (\<lambda>_. ?V) ?E"
    proof (cases "o_backup_path op")
      case None
      then show ?thesis by (auto intro!: triple_raise U)
    next
      case (Some bk)
      then have "path_of bk = Q @ op_root op" "parent (Q @ op_root op) = Q @ butlast (op_root op)"
        using planned settingD(5) [OF assms(1)] by (auto simp: planned_op_def all_names_def parent_below)
      then show ?thesis
        unfolding Some option.case Let_def by (simp only:) (rule steps)+
    qed
  qed
qed

lemma install_triple:
  assumes "setting g ws Q A" "wf_node b"
  shows "triple (inv ws Q b (Suc i) (\<lambda>ops. upto n (Suc i) i op ops \<and> cleared b i ops))
    (install g (A @ op_root op) (ws @ op_root op) i)
    (\<lambda>_. inv ws Q b (Suc i) (upto n (Suc i) i op)) (inv ws Q b n (any n))"
    (is "triple ?V _ (\<lambda>_. ?X) ?E")
proof -
  let ?f = "\<lambda>x. x\<lparr>o_installed := True, o_phase := ''installed''\<rparr>"
  have V: "?V s \<Longrightarrow> ?E s" and X: "?X s \<Longrightarrow> ?E s" for s
    by (erule inv_upto_more_any, erule inv_upto_any)
  have mk: "triple ?V (embed (mkdirsA h m (parent (ws @ op_root op)))) (\<lambda>_. ?V) ?E" for h m
  proof (rule tripleI)
    fix s x s' assume a: "?V s" and r: "embed (mkdirsA h m (parent (ws @ op_root op))) s = (Inr x, s')"
    then have "mkdirsA h m (parent (ws @ op_root op)) (snd s) = (Inr (), snd s)"
      using parent_there [OF assms, of "Suc i" "\<lambda>ops. upto n (Suc i) i op ops \<and> cleared b i ops" "fst s" "snd s" i]
        static_root by (auto simp: inv_def upto_def)
    with a r show "?V s'" by (simp add: embed_def)
  next
    fix s e s' assume a: "?V s" and r: "embed (mkdirsA h m (parent (ws @ op_root op))) s = (Inl e, s')"
    then have "mkdirsA h m (parent (ws @ op_root op)) (snd s) = (Inr (), snd s)"
      using parent_there [OF assms, of "Suc i" "\<lambda>ops. upto n (Suc i) i op ops \<and> cleared b i ops" "fst s" "snd s" i]
        static_root by (auto simp: inv_def upto_def)
    with r show "?E s'" by (simp add: embed_def)
  qed
  have ph: "triple ?V (change_record (set_operation i (\<lambda>x. x\<lparr>o_phase := p\<rparr>))) (\<lambda>_. ?V) ?E" for p
    by (rule triple_record) (auto simp: inv_def intact_phase upto_phase cleared_phase dest: cleared_phase)
  have rec: "triple (\<lambda>s. ?X (set_operation i ?f (fst s), snd s)) (change_record (set_operation i ?f)) (\<lambda>_. ?X) ?E"
    by (rule triple_record) simp
  have save: "triple ?V (save_commit g) (\<lambda>_. ?V) ?E" "triple ?X (save_commit g) (\<lambda>_. ?X) ?E"
    and fs: "triple ?X (embed (fsync_directory h p)) (\<lambda>_. ?X) ?E" for h p
    by (rule inv_save [OF assms(1)], erule V X)+ (rule fsync_inv, erule X)
  note steps = triple_then [OF mk] triple_then [OF ph] triple_then [OF save(1)]
    triple_then [OF install_rename [OF assms refl]] triple_then [OF rec] triple_then [OF fs] save(2)
  show ?thesis
    unfolding install_def Let_def by (rule steps)+
qed

lemma bind_lift_Inr: "bindA (liftA (Inr x)) f = f x"
  by (simp add: bindA_def fun_eq_iff)

lemma safe_join_planned:
  "planned_op Q b op \<Longrightarrow> safe_join p (o_path op) = Inr (p @ op_root op)"
  by (simp add: safe_join_Inr_iff planned_op_def all_names_def op_root_def)

lemma inv_use_planned:
  assumes "\<And>op. planned_op Q b op \<Longrightarrow> triple (inv ws Q b k (\<lambda>ops. C ops \<and> ops ! i = op)) (f op) R E"
    and "\<And>ops. C ops \<Longrightarrow> i < length ops"
  shows "triple (inv ws Q b k C) (bindA (the_operation i) f) R E"
proof (rule triple_bind [OF the_operation_triple])
  fix op
  show "triple (inv ws Q b k (\<lambda>ops. C ops \<and> ops ! i = op)) (f op) R E"
  proof (rule triple_pre)
    fix s assume "inv ws Q b k (\<lambda>ops. C ops \<and> ops ! i = op) s"
    then show "planned_op Q b op"
      using plannedD(1) [OF intact_planned] assms(2) by (auto simp: inv_def)
  qed (rule assms(1))
qed

text \<open>The invariant of the apply loop\<close>

definition before_op :: "nat \<Rightarrow> nat \<Rightarrow> commit_operation list \<Rightarrow> bool" where
  "before_op n i ops \<longleftrightarrow> length ops = n \<and> fresh i ops"

lemma apply_operation_triple:
  assumes "setting g ws Q A" "wf_node b" "i < n"
  shows "triple (inv ws Q b i (before_op n i)) (apply_operation g ws A i)
    (\<lambda>_. inv ws Q b (Suc i) (before_op n (Suc i))) (inv ws Q b n (any n))"
  unfolding apply_operation_def
proof (rule inv_use_planned)
  fix op assume p: "planned_op Q b op"
  let ?P = "inv ws Q b i (\<lambda>ops. before_op n i ops \<and> ops ! i = op)"
  let ?V = "inv ws Q b (Suc i) (\<lambda>ops. upto n (Suc i) i op ops \<and> cleared b i ops)"
  let ?E = "inv ws Q b n (any n)"
  have U: "?P s \<Longrightarrow> inv ws Q b i (upto n i i op) s" for s
    using assms(3) by (auto simp: inv_def before_op_def upto_def same_static_def)
  have skip: "?V s" if "?P s" "o_before_kind op = None" for s
  proof -
    have f: "fresh i (r_operations (fst s))" "i < length (r_operations (fst s))" "op = r_operations (fst s) ! i"
      using that(1) assms(3) by (auto simp: inv_def before_op_def)
    then have nf: "\<not> flagged (r_operations (fst s) ! i)" by (simp add: fresh_def)
    have "intact ws Q b (Suc i) (r_operations (fst s)) (w_tree (snd s))"
      using that(1) f nf by (auto simp: inv_def intact_def stack_Suc less_Suc_eq saved_unflagged)
    moreover have "cleared b i (r_operations (fst s))"
      using p that(2) f by (simp add: cleared_def planned_op_def)
    moreover have "fresh (Suc i) (r_operations (fst s))" using f by (simp add: fresh_def)
    ultimately show ?thesis using that(1) f by (auto simp: inv_def before_op_def upto_def same_static_def)
  qed
  have up: "inv ws Q b (Suc i) (upto n (Suc i) i op) s \<Longrightarrow> inv ws Q b (Suc i) (before_op n (Suc i)) s"
    "?V s \<Longrightarrow> inv ws Q b (Suc i) (before_op n (Suc i)) s" for s
    by (auto simp: inv_def upto_def before_op_def)
  have one: "triple ?P (if o_before_kind op \<noteq> None then move_backup g (ws @ op_root op) i op else returnA ()) (\<lambda>_. ?V) ?E"
    by (rule triple_if, rule triple_weaken [OF move_backup_triple [OF assms(1,2)]])
      (auto intro: U skip triple_return)
  have two: "triple ?V (if o_after_kind op \<noteq> None then install g (A @ op_root op) (ws @ op_root op) i else returnA ())
      (\<lambda>_. inv ws Q b (Suc i) (before_op n (Suc i))) ?E"
    by (rule triple_if, rule triple_weaken [OF install_triple [OF assms(1,2)]])
      (auto intro: up triple_return)
  show "triple ?P (bindA (liftA (safe_join ws (o_path op))) (\<lambda>destination.
     bindA (liftA (safe_join A (o_path op))) (\<lambda>staged_path.
     thenA (if o_before_kind op \<noteq> None then move_backup g destination i op else returnA ())
       (if o_after_kind op \<noteq> None then install g staged_path destination i else returnA ()))))
    (\<lambda>_. inv ws Q b (Suc i) (before_op n (Suc i))) ?E"
    unfolding safe_join_planned [OF p] using triple_then [OF one two] by (simp only: bind_lift_Inr)
qed (use assms(3) in \<open>simp add: before_op_def\<close>)

lemma apply_all_triple:
  assumes "setting g ws Q A" "wf_node b"
  shows "triple (inv ws Q b 0 (before_op n 0)) (apply_all g ws A) (\<lambda>_. inv ws Q b n (any n)) (inv ws Q b n (any n))"
  unfolding apply_all_def
proof (rule triple_bind [OF triple_the_record], rule triple_pre)
  fix r s
  assume "inv ws Q b 0 (before_op n 0) s \<and> fst s = r"
  then show "length (r_operations r) = n" by (auto simp: inv_def before_op_def)
next
  fix r :: commit_record assume "length (r_operations r) = n"
  then have "triple (inv ws Q b 0 (before_op n 0)) (forA (apply_operation g ws A) [0..<length (r_operations r)])
      (\<lambda>_. inv ws Q b n (before_op n n)) (inv ws Q b n (any n))"
    using triple_for [of n "\<lambda>i. inv ws Q b i (before_op n i)" "apply_operation g ws A" "inv ws Q b n (any n)" 0,
        OF apply_operation_triple [OF assms]] by simp
  then show "triple (\<lambda>s. inv ws Q b 0 (before_op n 0) s \<and> fst s = r) (forA (apply_operation g ws A) [0..<length (r_operations r)])
      (\<lambda>_. inv ws Q b n (any n)) (inv ws Q b n (any n))"
    by (rule triple_weaken) (auto simp: inv_def before_op_def)
qed

lemma inv_weaken: "inv ws Q b k C s \<Longrightarrow> (\<And>ops. C ops \<Longrightarrow> D ops) \<Longrightarrow> inv ws Q b k D s"
  by (simp add: inv_def)

lemma apply_record_triple:
  assumes "setting g ws Q A" "wf_node b"
  shows "triple (inv ws Q b 0 (before_op n 0)) (apply_record g plan ws A) (\<lambda>_. inv ws Q b n (any n)) (inv ws Q b n (any n))"
  unfolding apply_record_def
proof (rule triple_then [OF inv_save [OF assms(1)]], erule inv_any)
  show "before_op n 0 ops \<Longrightarrow> length ops = n \<and> fresh 0 ops" for ops by (simp add: before_op_def)
  let ?E = "inv ws Q b n (any n)"
  have sc: "triple ?E (embed (scan g ws)) (\<lambda>_. ?E) ?E" by (rule inv_reads) auto
  have rec: "triple ?E (change_record (\<lambda>r. r\<lparr>r_status := st,
         r_operations := map (\<lambda>x. x\<lparr>o_phase := p\<rparr>) (r_operations r)\<rparr>)) (\<lambda>_. ?E) ?E" for st p
    by (rule triple_record) (auto simp: inv_def same_static_def elim!: intact_similar)
  have rq: "triple ?E (requireA c e) (\<lambda>_. ?E) ?E" for c e by (rule triple_require)
  show "triple (inv ws Q b 0 (before_op n 0)) (thenA (apply_all g ws A)
    (bindA (embed (scan g ws)) (\<lambda>final_manifest.
     thenA (requireA (m_digest final_manifest = p_staged_digest plan)
       (IntegrityError ''post-commit workspace digest does not match the approved staged digest''))
    (thenA (change_record (\<lambda>r. r\<lparr>r_status := ''committed'',
         r_operations := map (\<lambda>x. x\<lparr>o_phase := ''complete''\<rparr>) (r_operations r)\<rparr>))
       (save_commit g))))) (\<lambda>_. ?E) ?E"
    by (intro triple_then [OF apply_all_triple [OF assms]] triple_bind [OF sc] triple_then [OF rq] triple_then [OF rec]
        inv_save [OF assms(1)])
qed

subsection \<open>The rollback\<close>

text \<open>The new content goes to a place no backup has.\<close>

lemma displaced_place:
  assumes "setting g ws Q A" "planned_op Q b op"
  shows "rooted (Q @ ''_failed_new'' # op_root op)" "apart (Q @ ''_failed_new'' # r) ws"
    and "planned_op Q b op' \<Longrightarrow> apart (Q @ ''_failed_new'' # r) (Q @ op_root op')"
proof -
  note S = settingD [OF assms(1)]
  show "rooted (Q @ ''_failed_new'' # op_root op)"
    using S(12) assms(2) by (simp add: rooted_add planned_op_def all_names_def)
  show "apart (Q @ ''_failed_new'' # r) ws" using S by (auto intro: apart_below)
  assume "planned_op Q b op'"
  then have "op_root op' \<noteq> []" "hd (op_root op') \<noteq> ''_failed_new''" by (auto simp: planned_op_def all_names_def)
  then show "apart (Q @ ''_failed_new'' # r) (Q @ op_root op')"
    using S(5) by (cases "op_root op'") (auto simp: apart_same parallel_def)
qed

lemma intact_displace:
  assumes "setting g ws Q A" "intact ws Q b (Suc i) ops t" "i < length ops" "flagged (ops ! i)"
    and "r = op_root (ops ! i)" "rename_tree (ws @ r) (Q @ ''_failed_new'' # r) t = Inr (u, t')"
  shows "intact ws Q b (Suc i) ops t'" "look (ws @ r) t' = None"
proof -
  have p: "planned Q b ops" using intact_planned [OF assms(2)] .
  obtain W where W: "look ws t = Some W" "wf_node W" and wt: "wf_node t" using assms(2) by (rule intactE)
  note S = settingD [OF assms(1)]
  note P = displaced_place [OF assms(1) plannedD(1) [OF p assms(3)]]
  have n: "r \<noteq> []" "\<forall>x \<in> set r. is_name x" using plannedD [OF p assms(3)] assms(5) by auto
  note R = rename_out [OF wt S(2) W(1) n P(1) [folded assms(5)] P(2) assms(6)]
  have look: "look (Q @ op_root (ops ! j)) t' = look (Q @ op_root (ops ! j)) t" if "j < length ops" for j
    using S P(3) [OF plannedD(1) [OF p that]] by (intro R(5)) (auto simp: apart_sym [of ws] intro: apart_below)
  have "saved Q b t' (ops ! i)"
    using assms(2,3) saved_cong [OF look [OF assms(3)]] by (simp add: intact_def)
  moreover have "same_static (ops ! i) (ops ! i)" by (simp add: same_static_def)
  ultimately show "intact ws Q b (Suc i) ops t'"
    using intact_again [OF assms(2,3) _ assms(4,4) W(1) _ R(1), of None] R(2) look assms(3,5) by auto
  have "dir_at (butlast r) W" using R(3) n(1) by (simp add: dir_at_butlast)
  then show "look (ws @ r) t' = None"
    using get_upd_same [OF W(2) _ n(1)] R(2) S(4) by (simp add: look_append)
qed

lemma intact_put_back:
  assumes "setting g ws Q A" "intact ws Q b (Suc i) ops t" "i < length ops" "o_backup_moved (ops ! i)"
    and "r = op_root (ops ! i)" "rename_tree (Q @ r) (ws @ r) t = Inr (u, t')"
  shows "intact ws Q b i ops t'"
proof -
  have p: "planned Q b ops" using intact_planned [OF assms(2)] .
  obtain W where W: "look ws t = Some W" and wt: "wf_node t" using assms(2) by (rule intactE)
  note S = settingD [OF assms(1)]
  have n: "r \<noteq> []" "\<forall>x \<in> set r. is_name x" using plannedD [OF p assms(3)] assms(5) by auto
  have Q: "rooted (Q @ r)" "apart (Q @ r) ws" using S n by (auto simp: rooted_add intro: apart_below)
  note R = rename_in [OF wt S(2) W n Q assms(6)]
  have "look (Q @ r) t = get r b" using assms(2-5) by (auto simp: intact_def saved_def)
  moreover have "look (Q @ op_root (ops ! j)) t' = look (Q @ op_root (ops ! j)) t" if "j < i" for j
    using that assms(3,5) plannedD(7) [OF p assms(3), of j] S(5,9)
    by (intro R(4)) (auto simp: apart_same parallel_def apart_sym [of ws] intro: apart_below)
  ultimately show ?thesis
    using intact_back [OF assms(2,3) _ W _ R(1)] R(2) assms(4,5) by (simp add: flagged_def)
qed

lemma triple_catch: "triple P m Q (\<lambda>_. True) \<Longrightarrow> triple P (catch_osA m) (\<lambda>c s. c = None \<longrightarrow> Q () s) (\<lambda>_. True)"
  by (rule tripleI) (auto simp: catch_osA_def split: prod.splits sum.splits error.splits dest: tripleD)

definition at_op :: "nat \<Rightarrow> nat \<Rightarrow> commit_operation \<Rightarrow> commit_operation list \<Rightarrow> bool" where
  "at_op n i op ops \<longleftrightarrow> length ops = n \<and> i < n \<and> ops ! i = op"

lemma displace_triple:
  assumes "setting g ws Q A" "planned_op Q b op" "flagged op"
  shows "triple (inv ws Q b (Suc i) (at_op n i op))
    (embed (displace g (ws @ op_root op) (Q @ [''_failed_new'']) (o_path op)))
    (\<lambda>_ s. inv ws Q b (Suc i) (at_op n i op) s \<and> look (ws @ op_root op) (w_tree (snd s)) = None) (\<lambda>_. True)"
proof (rule tripleI)
  fix s x s'
  let ?d = "Q @ ''_failed_new'' # op_root op"
  assume a: "inv ws Q b (Suc i) (at_op n i op) s"
    and m: "embed (displace g (ws @ op_root op) (Q @ [''_failed_new'']) (o_path op)) s = (Inr x, s')"
  have "parent ?d = Q @ ''_failed_new'' # butlast (op_root op)"
    using assms(2) settingD(5) [OF assms(1)] by (simp add: parent_below planned_op_def all_names_def)
  then obtain w1 where w1: "mkdirsA (b_host g) 511 (Q @ ''_failed_new'' # butlast (op_root op)) (snd s) = (Inr (), w1)"
    "renameA (b_host g) (ws @ op_root op) ?d w1 = (Inr (), snd s')" and f: "fst s' = fst s"
    using m by (auto simp: embed_def displace_def safe_join_planned [OF assms(2)] bindA_Inr_iff split: prod.splits)
  define ops where "ops = r_operations (fst s)"
  have i: "intact ws Q b (Suc i) ops (w_tree (snd s))" and o: "i < length ops" "ops ! i = op"
    using a by (auto simp: inv_def at_op_def ops_def)
  have p: "planned Q b ops" using intact_planned [OF i] .
  have "\<not> prefix (op_root op') (''_failed_new'' # butlast (op_root op))" if "op' \<in> set ops" for op'
    using p that by (cases "op_root op'") (auto simp: planned_def planned_op_def in_set_conv_nth all_names_def)
  moreover have "\<forall>x \<in> set (''_failed_new'' # butlast (op_root op)). is_name x"
    using assms(2) by (auto simp: planned_op_def all_names_def dest: in_set_butlastD)
  ultimately have "intact ws Q b (Suc i) ops (w_tree w1)"
    using intact_obeys [OF i quarantine_mkdirs [OF assms(1) p] w1(1)] by blast
  then show "inv ws Q b (Suc i) (at_op n i op) s' \<and> look (ws @ op_root op) (w_tree (snd s')) = None"
    using intact_displace [OF assms(1) _ o(1) _ refl, of b "w_tree w1" "()" "w_tree (snd s')"]
      renameA_result(1) [OF w1(2)] assms(3) a f o(2) by (simp add: inv_def ops_def)
qed simp

lemma put_back_triple:
  assumes "setting g ws Q A" "wf_node b" "o_backup_moved op"
  shows "triple (inv ws Q b (Suc i) (at_op n i op))
    (embed (put_back g (Q @ op_root op) (ws @ op_root op))) (\<lambda>_. inv ws Q b i (at_op n i op)) (\<lambda>_. True)"
proof (rule tripleI)
  fix s x s'
  assume a: "inv ws Q b (Suc i) (at_op n i op) s"
    and m: "embed (put_back g (Q @ op_root op) (ws @ op_root op)) s = (Inr x, s')"
  define ops where "ops = r_operations (fst s)"
  have i: "intact ws Q b (Suc i) ops (w_tree (snd s))" and o: "i < length ops" "ops ! i = op"
    using a by (auto simp: inv_def at_op_def ops_def)
  have "mkdirsA (b_host g) 511 (parent (ws @ op_root op)) (snd s) = (Inr (), snd s)"
    using parent_there [OF assms(1,2), of "Suc i" "at_op n i op" "fst s" "snd s" i] a o by (simp add: ops_def)
  then have r: "renameA (b_host g) (Q @ op_root op) (ws @ op_root op) (snd s) = (Inr (), snd s')" and f: "fst s' = fst s"
    using m by (auto simp: embed_def put_back_def bindA_Inr_iff split: prod.splits)
  then show "inv ws Q b i (at_op n i op) s'"
    using intact_put_back [OF assms(1) i o(1) _ refl, of "()" "w_tree (snd s')"] renameA_result(1) [OF r] assms(3) a o(2)
    by (simp add: inv_def ops_def)
qed simp

lemma embed_exists: "embed (bindA (lexistsA p) f) s = embed (f (look p (w_tree (snd s)) \<noteq> None)) s"
  by (simp add: embed_def bindA_def lexistsA_def)

lemma embed_return: "embed (returnA x) s = (Inr x, s)"
  by (simp add: embed_def)

lemma rollback_operation_triple:
  assumes "setting g ws Q A" "wf_node b" "i < n"
  shows "triple (inv ws Q b (Suc i) (any n)) (rollback_operation g ws (Q @ [''_failed_new'']) i)
    (\<lambda>es s. es = [] \<longrightarrow> inv ws Q b i (any n) s) (\<lambda>_. True)"
  unfolding rollback_operation_def
proof (rule inv_use_planned)
  fix op assume p: "planned_op Q b op"
  let ?P = "inv ws Q b (Suc i) (at_op n i op)"
  let ?N = "\<lambda>s. look (ws @ op_root op) (w_tree (snd s)) = None"
  let ?first = "embed (bindA (lexistsA (ws @ op_root op)) (\<lambda>there.
      if o_installed op \<and> there then displace g (ws @ op_root op) (Q @ [''_failed_new'']) (o_path op) else returnA ()))"
  let ?second = "case map_option path_of (o_backup_path op) of None \<Rightarrow> returnA ()
    | Some backup \<Rightarrow> embed (bindA (lexistsA backup) (\<lambda>there.
        if o_backup_moved op \<and> there then put_back g backup (ws @ op_root op) else returnA ()))"
  have saved: "saved Q b (w_tree (snd s)) op" if "?P s" for s
    using that by (auto simp: inv_def intact_def at_op_def)
  have one: "triple ?P ?first (\<lambda>_ s. ?P s \<and> (o_installed op \<longrightarrow> ?N s)) (\<lambda>_. True)"
  proof (rule tripleI)
    fix s x s' assume a: "?P s" and m: "?first s = (Inr x, s')"
    show "?P s' \<and> (o_installed op \<longrightarrow> ?N s')"
    proof (cases "o_installed op \<and> \<not> ?N s")
      case True
      then have "flagged op" "embed (displace g (ws @ op_root op) (Q @ [''_failed_new'']) (o_path op)) s = (Inr x, s')"
        using m by (auto simp: embed_exists flagged_def)
      then show ?thesis using tripleD(1) [OF displace_triple [OF assms(1) p] a] by blast
    next
      case False
      then have "s' = s" using m by (auto simp: embed_exists embed_return split: if_splits)
      with False a show ?thesis by auto
    qed
  qed simp
  have two: "triple (\<lambda>s. ?P s \<and> (o_installed op \<longrightarrow> ?N s)) ?second (\<lambda>_. inv ws Q b i (at_op n i op)) (\<lambda>_. True)"
  proof (rule tripleI)
    fix s x s' assume a: "?P s \<and> (o_installed op \<longrightarrow> ?N s)" and m: "?second s = (Inr x, s')"
    show "inv ws Q b i (at_op n i op) s'"
    proof (cases "o_backup_moved op")
      case True
      then have g: "get (op_root op) b \<noteq> None" "look (Q @ op_root op) (w_tree (snd s)) \<noteq> None"
        using saved [of s] a True by (simp_all add: saved_def)
      then obtain bk where "o_backup_path op = Some bk" "path_of bk = Q @ op_root op"
        using p by (auto simp: planned_op_def split: option.splits)
      then have "embed (put_back g (Q @ op_root op) (ws @ op_root op)) s = (Inr x, s')"
        using m g(2) True by (simp add: embed_exists)
      then show ?thesis using tripleD(1) [OF put_back_triple [OF assms(1,2) True]] a by blast
    next
      case False
      then have "s' = s" using m by (auto simp: embed_exists embed_return split: option.splits)
      moreover have "intact ws Q b i (r_operations (fst s)) (w_tree (snd s))"
      proof -
        have i: "intact ws Q b (Suc i) (r_operations (fst s)) (w_tree (snd s))" and o: "i < length (r_operations (fst s))"
            "r_operations (fst s) ! i = op"
          using a by (auto simp: inv_def at_op_def)
        obtain W where W: "look ws (w_tree (snd s)) = Some W" using i by (rule intactE)
        have "o_installed op \<Longrightarrow> get (op_root op) W = None"
          using a W settingD(4) [OF assms(1)] by (simp add: look_append)
        then show ?thesis using intact_pop [OF i o(1) _ _ W] False o(2) by simp
      qed
      ultimately show ?thesis using a by (simp add: inv_def)
    qed
  qed simp
  have three: "triple (inv ws Q b i (at_op n i op)) (change_record (set_operation i (\<lambda>x. x\<lparr>o_phase := ''rolled_back''\<rparr>)))
      (\<lambda>_. inv ws Q b i (any n)) (\<lambda>_. True)"
    by (rule triple_record) (auto simp: inv_def at_op_def intro!: intact_phase)
  have ret: "triple (\<lambda>s. c = None \<longrightarrow> inv ws Q b i (any n) s)
      (returnA (case c of None \<Rightarrow> [] | Some exc \<Rightarrow> [o_path op @ '': '' @ exc]))
      (\<lambda>es s. es = [] \<longrightarrow> inv ws Q b i (any n) s) (\<lambda>_. True)" for c
    by (rule triple_return) (auto split: option.splits)
  have eq: "at_op n i op = (\<lambda>ops. any n ops \<and> ops ! i = op)"
    using assms(3) by (auto simp: at_op_def fun_eq_iff)
  show "triple (inv ws Q b (Suc i) (\<lambda>ops. any n ops \<and> ops ! i = op))
     (bindA (liftA (safe_join ws (o_path op))) (\<lambda>destination.
     bindA (catch_osA
       (thenA (embed (bindA (lexistsA destination) (\<lambda>there.
            if o_installed op \<and> there then displace g destination (Q @ [''_failed_new'']) (o_path op) else returnA ())))
       (thenA (case map_option path_of (o_backup_path op) of
            None \<Rightarrow> returnA ()
          | Some backup \<Rightarrow> embed (bindA (lexistsA backup) (\<lambda>there.
              if o_backup_moved op \<and> there then put_back g backup destination else returnA ())))
          (change_record (set_operation i (\<lambda>x. x\<lparr>o_phase := ''rolled_back''\<rparr>)))))) (\<lambda>caught.
       returnA (case caught of None \<Rightarrow> [] | Some exc \<Rightarrow> [o_path op @ '': '' @ exc]))))
     (\<lambda>es s. es = [] \<longrightarrow> inv ws Q b i (any n) s) (\<lambda>_. True)"
    unfolding safe_join_planned [OF p] bind_lift_Inr eq [symmetric]
    by (rule triple_bind [OF triple_catch [OF triple_then [OF one triple_then [OF two three]]] ret])
qed (use assms(3) in simp)

text \<open>The loop from the last operation to the first; an error once noted stays.\<close>

lemma rollback_operations_triple:
  assumes "setting g ws Q A" "wf_node b"
  shows "i \<le> n \<Longrightarrow> triple (\<lambda>s. errors = [] \<longrightarrow> inv ws Q b i (any n) s)
    (rollback_operations g ws (Q @ [''_failed_new'']) (rev [0..<i]) errors)
    (\<lambda>es s. es = [] \<longrightarrow> inv ws Q b 0 (any n) s) (\<lambda>_. True)"
proof (induction i arbitrary: errors)
  case 0
  then show ?case by (simp add: triple_def returnA_def)
next
  case (Suc i)
  have step: "triple (\<lambda>s. errors = [] \<longrightarrow> inv ws Q b (Suc i) (any n) s) (rollback_operation g ws (Q @ [''_failed_new'']) i)
      (\<lambda>es s. errors @ es = [] \<longrightarrow> inv ws Q b i (any n) s) (\<lambda>_. True)"
    using rollback_operation_triple [OF assms, of i n] Suc.prems
    by (cases "errors = []") (auto simp: triple_def split: sum.splits)
  show ?case
    using triple_bind [OF step Suc.IH] Suc.prems by simp
qed

lemma intact_none: "intact ws Q b 0 ops t \<Longrightarrow> look ws t = Some b"
  by (auto simp: intact_def stack_def)

lemma rollback_triple:
  assumes "setting g ws Q A" "wf_node b"
  shows "triple (inv ws Q b n (any n)) (rollback_failed_commit g ws baseline)
    (\<lambda>_ s. look ws (w_tree (snd s)) = Some b) (\<lambda>_. True)"
  unfolding rollback_failed_commit_def
proof (rule triple_bind [OF triple_the_record], rule triple_pre)
  fix rc s assume "inv ws Q b n (any n) s \<and> fst s = rc"
  then show "path_of (r_quarantine_root rc) = Q \<and> length (r_operations rc) = n" by (auto simp: inv_def)
next
  fix rc :: commit_record
  assume r: "path_of (r_quarantine_root rc) = Q \<and> length (r_operations rc) = n"
  let ?I = "\<lambda>es s. es = [] \<longrightarrow> inv ws Q b 0 (any n) s"
  have ops: "triple (\<lambda>s. inv ws Q b n (any n) s \<and> fst s = rc)
      (rollback_operations g ws (path_of (r_quarantine_root rc) @ [''_failed_new'']) (rev [0..<length (r_operations rc)]) [])
      ?I (\<lambda>_. True)"
    using rollback_operations_triple [OF assms, of n n "[]"] r by (auto elim!: triple_weaken)
  have status: "triple (?I es) (change_record (\<lambda>r. r\<lparr>r_status := st\<rparr>)) (\<lambda>_. ?I es) (\<lambda>_. True)" for es :: "string list" and st
    by (rule triple_record) (simp add: inv_def)
  have save: "triple (?I es) (save_commit g) (\<lambda>_. ?I es) (\<lambda>_. True)" for es :: "string list"
    using inv_save [OF assms(1), of b 0 "any n" "\<lambda>_. True"] by (cases es) (auto simp: triple_def split: sum.splits)
  have scan: "triple (?I es) (if es = [] then bindA (embed (scan g ws)) (\<lambda>restored. returnA (f restored)) else returnA es)
      ?I (\<lambda>_. True)" for es :: "string list" and f
  proof (cases es)
    case Nil
    have "triple (inv ws Q b 0 (any n)) (embed (scan g ws)) (\<lambda>_. inv ws Q b 0 (any n)) (\<lambda>_. True)"
      by (rule inv_reads) auto
    then show ?thesis using Nil by (auto intro!: triple_bind triple_return)
  qed (auto intro: triple_return)
  have log: "triple (?I es) (bindA the_record (\<lambda>r. embed (log_event g ev (kvs r)))) (\<lambda>_. ?I es) (\<lambda>_. True)"
    for es :: "string list" and ev kvs
  proof -
    have "triple (inv ws Q b 0 (any n)) (embed (log_event g ev (kvs r))) (\<lambda>_. inv ws Q b 0 (any n)) (\<lambda>_. True)" for r
      by (rule inv_embed [OF log_event_vital [OF assms(1)]]) auto
    then have "triple (\<lambda>s. ?I es s \<and> fst s = r) (embed (log_event g ev (kvs r))) (\<lambda>_. ?I es) (\<lambda>_. True)" for r
      by (cases es) (fastforce simp: triple_def split: sum.splits)+
    then show ?thesis by (rule triple_bind [OF triple_the_record])
  qed
  have require: "triple (?I es) (requireA (es = []) e) (\<lambda>_ s. look ws (w_tree (snd s)) = Some b) (\<lambda>_. True)"
    for es :: "string list" and e
    by (rule triple_require) (auto simp: inv_def intact_none)
  show "triple (\<lambda>s. inv ws Q b n (any n) s \<and> fst s = rc)
     (bindA (rollback_operations g ws (path_of (r_quarantine_root rc) @ [''_failed_new''])
        (rev [0..<length (r_operations rc)]) []) (\<lambda>errors.
     thenA (change_record (\<lambda>r. r\<lparr>r_status := (if errors \<noteq> [] then ''rollback_failed'' else ''rolled_back'')\<rparr>))
    (thenA (save_commit g)
    (bindA (if errors = []
        then bindA (embed (scan g ws)) (\<lambda>restored.
          returnA (if m_digest restored \<noteq> m_digest baseline
            then [''workspace digest differs from baseline after rollback''] else []))
        else returnA errors) (\<lambda>rollback_errors.
     thenA (bindA the_record (\<lambda>r. embed (log_event g ''commit_failed''
       [(''commit_id'', JStr (r_commit_id r)), (''plan_id'', JStr (r_plan_id r)),
        (''status'', JStr (r_status r)), (''rollback_errors'', JList (map JStr rollback_errors))])))
       (requireA (rollback_errors = []) (IntegrityError ''commit failed and rollback was incomplete'')))))))
     (\<lambda>_ s. look ws (w_tree (snd s)) = Some b) (\<lambda>_. True)"
    by (rule triple_bind [OF ops], rule triple_then [OF status], rule triple_then [OF save],
      rule triple_bind [OF scan], rule triple_then [OF log], rule require)
qed

end
