(* ===== verification/CommitOutcome.thy ===== *)
theory CommitOutcome
  imports RollbackFacts
begin

text \<open>
  How a commit ends. When it fails, the workspace is exactly what it was, or the commit record
  on disk says otherwise; when it returns, the workspace has the approved digest.
\<close>

subsection \<open>The record on disk\<close>

definition record_at :: "path \<Rightarrow> node \<Rightarrow> commit_record option" where
  "record_at p t =
     (case json_at p t of
        None \<Rightarrow> None
      | Some d \<Rightarrow> (case record_from_dict d of Inl _ \<Rightarrow> None | Inr r \<Rightarrow> Some r))"

text \<open>
  There is a record of the commit on disk, and it does not claim that the workspace was rolled back.
\<close>

definition evidence :: "string \<times> string \<Rightarrow> path \<Rightarrow> node \<Rightarrow> bool" where
  "evidence ids p t \<longleftrightarrow> (\<exists>r. record_at p t = Some r \<and> (r_commit_id r, r_plan_id r) = ids \<and>
     r_status r \<noteq> ''rolled_back'')"

lemma evidence_cong: "look p t' = look p t \<Longrightarrow> evidence ids p t' = evidence ids p t"
  by (simp add: evidence_def record_at_def json_at_def)

lemma record_at_stored: "json_at p t = Some (sort_keys (record_to_dict r)) \<Longrightarrow> record_at p t = Some r"
  by (simp add: record_at_def record_codec.dec_enc)

lemma write_record:
  assumes "wf_node (w_tree w)" "rooted p" "atomic_write_json h p (record_to_dict r) w = (x, w')"
  shows "look p (w_tree w') = look p (w_tree w) \<or> record_at p (w_tree w') = Some r"
    and "x = Inr () \<Longrightarrow> record_at p (w_tree w') = Some r"
proof -
  have ok: "json_ok (record_to_dict r)" by (rule record_codec.enc_ok) simp
  show "x = Inr () \<Longrightarrow> record_at p (w_tree w') = Some r"
    using atomic_write_json_stores(1) [OF assms(1,2) ok] assms(3) record_at_stored by blast
  then show "look p (w_tree w') = look p (w_tree w) \<or> record_at p (w_tree w') = Some r"
    using atomic_write_json_fails [OF assms(1,2)] replace_tree_stores(1) [OF _ assms(2) ok] assms(3) record_at_stored
    by (cases x) (blast, simp)
qed

subsection \<open>What stays true of the state of a commit\<close>

text \<open>Steps that keep a property of the state, whether they fail or not\<close>

abbreviation stays :: "('s \<Rightarrow> bool) \<Rightarrow> 's \<Rightarrow> 's \<Rightarrow> bool" where
  "stays T s s' \<equiv> T s \<longrightarrow> T s'"

interpretation stays: frame "stays T" for T
  by unfold_locales auto

lemma stays_change: "(\<And>r w. T (r, w) \<Longrightarrow> T (f r, w)) \<Longrightarrow> obeys (stays T) (change_record f)"
  by (auto intro!: obeysI simp: change_record_def)

lemma stays_the_record: "obeys (stays T) the_record"
  by (auto intro!: obeysI simp: the_record_def)

lemma stays_the_operation: "obeys (stays T) (the_operation i)"
  unfolding the_operation_def by (intro stays.bind stays.pure stays_the_record)

lemma staysD: "obeys (stays T) m \<Longrightarrow> T s \<Longrightarrow> m s = (x, s') \<Longrightarrow> T s'"
  by (auto simp: obeys_def)

lemma the_record_bind: "bindA the_record f s = f (fst s) s"
  by (simp add: bindA_def the_record_def)

lemma the_operation_bind: "bindA (the_operation i) f s = f (r_operations (fst s) ! i) s"
  by (simp add: bindA_def the_operation_def the_record_def)

lemma stays_embed:
  assumes "\<And>r w x w'. T (r, w) \<Longrightarrow> m w = (x, w') \<Longrightarrow> T (r, w')"
  shows "obeys (stays T) (embed m)"
  using assms by (auto intro!: obeysI simp: embed_def split: prod.splits)

text \<open>The parts of a commit record that do not change, and a status that claims no rollback\<close>

definition steady :: "string \<times> string \<Rightarrow> guard \<Rightarrow> path \<Rightarrow> path \<Rightarrow> node \<Rightarrow> nat \<Rightarrow> cstate \<Rightarrow> bool" where
  "steady ids g F Q b n s \<longleftrightarrow> wf_node (w_tree (snd s)) \<and> commit_path g (r_commit_id (fst s)) = Inr F \<and>
     (r_commit_id (fst s), r_plan_id (fst s)) = ids \<and> path_of (r_quarantine_root (fst s)) = Q \<and> length (r_operations (fst s)) = n \<and> (\<forall>op \<in> set (r_operations (fst s)). planned_op Q b op) \<and>
     r_status (fst s) \<noteq> ''rolled_back''"

definition noted :: "string \<times> string \<Rightarrow> guard \<Rightarrow> path \<Rightarrow> path \<Rightarrow> node \<Rightarrow> nat \<Rightarrow> cstate \<Rightarrow> bool" where
  "noted ids g F Q b n s \<longleftrightarrow> steady ids g F Q b n s \<and> evidence ids F (w_tree (snd s))"

lemma noted_keeps:
  assumes "obeys (keeps F) m" shows "obeys (stays (noted ids g F Q b n)) (embed m)"
proof (rule stays_embed)
  fix r w x w' assume n: "noted ids g F Q b n (r, w)" and m: "m w = (x, w')"
  have "wf_node (w_tree w')" "look F (w_tree w') = look F (w_tree w)"
    using obeysD [OF assms m] n by (auto simp: on_trees_def noted_def steady_def)
  then show "noted ids g F Q b n (r, w')" using n evidence_cong [of F "w_tree w'" "w_tree w" ids] by (simp add: noted_def steady_def)
qed

lemma noted_change:
  assumes "\<And>r. r_commit_id (f r) = r_commit_id r \<and> r_plan_id (f r) = r_plan_id r \<and> r_quarantine_root (f r) = r_quarantine_root r
      \<and> length (r_operations (f r)) = length (r_operations r)
      \<and> (r_status r \<noteq> ''rolled_back'' \<longrightarrow> r_status (f r) \<noteq> ''rolled_back'')"
    and "\<And>r. \<forall>op \<in> set (r_operations r). planned_op Q b op \<Longrightarrow> \<forall>op \<in> set (r_operations (f r)). planned_op Q b op"
  shows "obeys (stays (noted ids g F Q b n)) (change_record f)"
proof (rule stays_change)
  fix r w assume "noted ids g F Q b n (r, w)"
  then show "noted ids g F Q b n (f r, w)"
    using assms(1) [of r] assms(2) [of r] by (simp add: noted_def steady_def)
qed

lemma set_operation_other [simp]:
  "r_commit_id (set_operation i f r) = r_commit_id r" "r_plan_id (set_operation i f r) = r_plan_id r" "r_status (set_operation i f r) = r_status r"
  by (simp_all add: set_operation_def)

lemma planned_set_operation:
  assumes "\<forall>op \<in> set (r_operations r). planned_op Q b op" "\<And>x. same_static (f x) x"
  shows "\<forall>op \<in> set (r_operations (set_operation i f r)). planned_op Q b op"
proof (cases "i < length (r_operations r)")
  case True
  then have "planned_op Q b (f (r_operations r ! i))"
    using assms planned_op_static [OF assms(2)] by auto
  then show ?thesis using assms(1) set_update_subset_insert by fastforce
qed (use assms(1) in \<open>simp add: list_update_beyond\<close>)

lemma noted_set_operation:
  "(\<And>x. same_static (f x) x) \<Longrightarrow> obeys (stays (noted ids g F Q b n)) (change_record (set_operation i f))"
  by (rule noted_change) (simp, rule planned_set_operation)

lemma commit_file_rooted: "setting g ws Q A \<Longrightarrow> commit_path g i = Inr F \<Longrightarrow> rooted F"
  using state_paths(4) [OF settingD(1)] by blast

lemma noted_save:
  assumes "setting g ws Q A" shows "obeys (stays (noted ids g F Q b n)) (save_commit g)"
  unfolding save_commit_def
proof (rule stays.bind)
  show "obeys (stays (noted ids g F Q b n)) (change_record (sign_commit g))"
    by (rule noted_change) (auto simp: sign_commit_def)
  show "obeys (stays (noted ids g F Q b n)) (bindA the_record (\<lambda>r. bindA (liftA (commit_path g (r_commit_id r)))
      (\<lambda>p. embed (atomic_write_json (b_host g) p (record_to_dict r)))))"
    unfolding obeys_def
  proof (intro allI impI)
    fix s x s'
    assume m: "bindA the_record (\<lambda>r. bindA (liftA (commit_path g (r_commit_id r)))
        (\<lambda>p. embed (atomic_write_json (b_host g) p (record_to_dict r)))) s = (x, s')"
      and n: "noted ids g F Q b n s"
    then have F: "commit_path g (r_commit_id (fst s)) = Inr F" by (simp add: noted_def steady_def)
    obtain w' where w: "atomic_write_json (b_host g) F (record_to_dict (fst s)) (snd s) = (x, w')" "s' = (fst s, w')"
      using m by (auto simp: bindA_def the_record_def F embed_def split: prod.splits)
    have wf: "wf_node (w_tree (snd s))" using n by (simp add: noted_def steady_def)
    have R: "rooted F" using commit_file_rooted [OF assms F] .
    have "wf_node (w_tree w')"
      using obeysD [OF state_write_keeps [of g "ws" F] w(1)] R F state_paths(4) [OF settingD(1) [OF assms]] settingD [OF assms] wf
      by (simp add: on_trees_def)
    moreover have "evidence ids F (w_tree w')"
      using write_record(1) [OF wf R w(1)] n evidence_cong [of F "w_tree w'" "w_tree (snd s)" ids]
      by (auto simp: noted_def steady_def evidence_def)
    ultimately show "noted ids g F Q b n s'" using n by (simp add: noted_def steady_def w(2))
  qed
qed

subsection \<open>The loops keep the record on disk\<close>

lemma renameA_keeps:
  assumes "rooted src" "rooted dst" "apart src dst" "apart src q" "apart dst q"
  shows "obeys (keeps q) (renameA h src dst)"
  unfolding renameA_def
proof (rule os_call_keeps)
  fix t :: node and x t' assume "wf_node t" "rename_tree src dst t = Inr (x, t')"
  then show "wf_node t' \<and> look q t' = look q t"
    using rename_looks [OF _ assms(1-3)] assms(4,5) by blast
qed

text \<open>The places of one operation\<close>

definition placed :: "guard \<Rightarrow> path \<Rightarrow> path \<Rightarrow> path \<Rightarrow> path \<Rightarrow> path \<Rightarrow> bool" where
  "placed g ws Q A F r \<longleftrightarrow> setting g ws Q A \<and> (\<exists>i. commit_path g i = Inr F) \<and> all_names r"

lemma placedD:
  assumes "placed g ws Q A F r"
  shows "rooted (ws @ r)" "rooted (Q @ r)" "rooted (A @ r)" "rooted (Q @ ''_failed_new'' # r)" "rooted F"
    "apart (ws @ x) (Q @ y)" "apart (A @ x) (ws @ y)" "apart (ws @ x) F" "apart (Q @ x) F" "apart (A @ x) F"
proof -
  obtain i c where p: "setting g ws Q A" "commit_path g i = Inr F" "all_names r" and
    c: "Q = b_root g @ [''quarantine'', c]" "A = b_root g @ [''apply'', c]"
    using assms by (auto simp: placed_def setting_def)
  note S = settingD [OF p(1)]
  show "rooted F" using commit_file_rooted [OF p(1,2)] .
  show "rooted (ws @ r)" "rooted (Q @ r)" "rooted (A @ r)" "rooted (Q @ ''_failed_new'' # r)"
    using S p(3) by (simp_all add: rooted_add all_names_def)
  show "apart (ws @ x) (Q @ y)" "apart (A @ x) (ws @ y)"
    using S apart_below2 by (metis apart_sym)+
  obtain j where F: "F = b_root g @ [''commits'', j]" using p(2) by (auto simp: commit_path_def bindE_Inr_iff)
  show "apart (ws @ x) F" using commit_file_place(2) [OF p(1,2)] S(4) apart_below by (metis apart_sym)
  show "apart (Q @ x) F" "apart (A @ x) F"
    using root_not_Nil [OF S(1)] by (simp_all add: c F apart_same parallel_def)
qed

lemma placed_mkdirs:
  assumes "placed g ws Q A F r" "all_names r"
  shows "obeys (keeps F) (mkdirsA h m (parent (ws @ r)))" "obeys (keeps F) (mkdirsA h m (parent (Q @ r)))"
    "obeys (keeps F) (mkdirsA h m (parent (Q @ ''_failed_new'' # r)))"
proof -
  note P = placedD [OF assms(1)]
  have k: "obeys (keeps F) (mkdirsA h m (parent p))" if "rooted p" "apart p F" for p
  proof -
    have e: "parent p = butlast p" using that(1) by (cases p) (auto simp: parent_def rooted_def)
    have "\<not> prefix (tl F) (tl (butlast p))"
      using that apart_not_above(2) by (simp add: rooted_butlast)
    then show ?thesis unfolding e by (rule mkdirsA_keeps [OF P(5) rooted_dir [OF that(1)]])
  qed
  show "obeys (keeps F) (mkdirsA h m (parent (ws @ r)))" "obeys (keeps F) (mkdirsA h m (parent (Q @ r)))"
    "obeys (keeps F) (mkdirsA h m (parent (Q @ ''_failed_new'' # r)))"
    using P by (auto intro: k)
qed

lemma placed_renames:
  assumes "placed g ws Q A F r"
  shows "obeys (keeps F) (renameA h (ws @ r) (Q @ r))" "obeys (keeps F) (renameA h (Q @ r) (ws @ r))"
    "obeys (keeps F) (renameA h (A @ r) (ws @ r))" "obeys (keeps F) (renameA h (ws @ r) (Q @ ''_failed_new'' # r))"
  using placedD [OF assms] by (auto intro!: renameA_keeps simp: apart_sym [of "Q @ r" "ws @ r"])

subsection \<open>Applying and rolling back keep the record on disk\<close>

lemma noted_reads: "obeys reads m \<Longrightarrow> obeys (stays (noted ids g F Q b n)) (embed m)"
  by (rule noted_keeps) (rule reads_keeps)

lemmas noted_reading = reading [THEN noted_reads] fsync_directory_reads [THEN noted_reads]

lemma noted_phases:
  "obeys (stays (noted ids g F Q b n)) (change_record (set_operation i (\<lambda>x. x\<lparr>o_phase := p\<rparr>)))"
  "obeys (stays (noted ids g F Q b n)) (change_record (set_operation i (\<lambda>x. x\<lparr>o_backup_moved := c, o_phase := p\<rparr>)))"
  "obeys (stays (noted ids g F Q b n)) (change_record (set_operation i (\<lambda>x. x\<lparr>o_installed := c, o_phase := p\<rparr>)))"
  by (rule noted_set_operation, simp add: same_static_def)+

text \<open>An operation of the list is planned, and its places do not touch the record.\<close>

lemma noted_operation:
  assumes "setting g ws Q A" "i < n"
    and "\<And>op. planned_op Q b op \<Longrightarrow> placed g ws Q A F (op_root op) \<Longrightarrow> obeys (stays (noted ids g F Q b n)) (f op)"
  shows "obeys (stays (noted ids g F Q b n)) (bindA (the_operation i) f)"
  unfolding obeys_def
proof (intro allI impI)
  fix s x s' assume m: "bindA (the_operation i) f s = (x, s')" and k: "noted ids g F Q b n s"
  let ?op = "r_operations (fst s) ! i"
  have p: "planned_op Q b ?op" and F: "commit_path g (r_commit_id (fst s)) = Inr F"
    using k assms(2) by (auto simp: noted_def steady_def)
  have "placed g ws Q A F (op_root ?op)"
    using assms(1) F p by (auto simp: placed_def planned_op_def)
  moreover have "f ?op s = (x, s')" using m by (simp add: the_operation_def the_record_def bindA_def)
  ultimately show "noted ids g F Q b n s'" using obeysD [OF assms(3) [OF p]] k by blast
qed

lemma noted_move_backup:
  assumes "setting g ws Q A" "placed g ws Q A F (op_root op)" "planned_op Q b op"
  shows "obeys (stays (noted ids g F Q b n)) (move_backup g (ws @ op_root op) i op)"
proof -
  have r: "all_names (op_root op)" using assms(3) by (simp add: planned_op_def)
  have bk: "path_of bk = Q @ op_root op" if "o_backup_path op = Some bk" for bk
    using assms(3) that by (simp add: planned_op_def)
  show ?thesis
    unfolding move_backup_def Let_def
    by (cases "o_backup_path op"; simp only: option.case bk;
        intro stays.bind stays.pure noted_reading noted_phases noted_save [OF assms(1)]
          noted_keeps [OF placed_mkdirs(2) [OF assms(2) r]] noted_keeps [OF placed_renames(1) [OF assms(2)]])
qed

lemma noted_install:
  assumes "setting g ws Q A" "placed g ws Q A F r" "all_names r"
  shows "obeys (stays (noted ids g F Q b n)) (install g (A @ r) (ws @ r) i)"
  unfolding install_def Let_def
  by (intro stays.bind noted_reading noted_phases noted_save [OF assms(1)]
      noted_keeps [OF placed_mkdirs(1) [OF assms(2,3)]] noted_keeps [OF placed_renames(3) [OF assms(2)]])

lemma noted_apply_operation:
  assumes "setting g ws Q A" "i < n"
  shows "obeys (stays (noted ids g F Q b n)) (apply_operation g ws A i)"
  unfolding apply_operation_def
proof (rule noted_operation [OF assms])
  fix op assume p: "planned_op Q b op" "placed g ws Q A F (op_root op)"
  then show "obeys (stays (noted ids g F Q b n)) (bindA (liftA (safe_join ws (o_path op))) (\<lambda>destination.
     bindA (liftA (safe_join A (o_path op))) (\<lambda>staged_path.
     thenA (if o_before_kind op \<noteq> None then move_backup g destination i op else returnA ())
       (if o_after_kind op \<noteq> None then install g staged_path destination i else returnA ()))))"
    unfolding safe_join_planned [OF p(1)] bind_lift_Inr
    by (intro stays.bind stays.cond stays.pure noted_move_backup [OF assms(1) p(2,1)] noted_install [OF assms(1) p(2)])
      (use p(1) in \<open>simp add: planned_op_def\<close>)
qed

lemma noted_length:
  assumes "obeys (stays (noted ids g F Q b n)) (f n)"
  shows "obeys (stays (noted ids g F Q b n)) (bindA the_record (\<lambda>r. f (length (r_operations r))))"
proof (rule obeysI, rule impI)
  fix s x s' assume m: "bindA the_record (\<lambda>r. f (length (r_operations r))) s = (x, s')" and k: "noted ids g F Q b n s"
  then have "f n s = (x, s')" by (simp add: bindA_def the_record_def noted_def steady_def)
  then show "noted ids g F Q b n s'" using obeysD [OF assms] k by blast
qed

lemma noted_apply_all:
  assumes "setting g ws Q A" shows "obeys (stays (noted ids g F Q b n)) (apply_all g ws A)"
  unfolding apply_all_def
  by (rule noted_length) (auto intro!: stays.for_each noted_apply_operation [OF assms])

lemma noted_finish:
  assumes "setting g ws Q A"
  shows "obeys (stays (noted ids g F Q b n)) (thenA (apply_all g ws A)
    (bindA (embed (scan g ws)) (\<lambda>final_manifest.
     thenA (requireA (m_digest final_manifest = d) e)
    (thenA (change_record (\<lambda>r. r\<lparr>r_status := ''committed'',
         r_operations := map (\<lambda>x. x\<lparr>o_phase := ''complete''\<rparr>) (r_operations r)\<rparr>))
       (save_commit g)))))"
proof -
  have "planned_op Q b (op\<lparr>o_phase := ''complete''\<rparr>) = planned_op Q b op" for op
    by (rule planned_op_static) (simp add: same_static_def)
  then have "obeys (stays (noted ids g F Q b n)) (change_record (\<lambda>r. r\<lparr>r_status := ''committed'',
         r_operations := map (\<lambda>x. x\<lparr>o_phase := ''complete''\<rparr>) (r_operations r)\<rparr>))"
    by (intro noted_change) auto
  then show ?thesis
    by (intro stays.bind stays.pure noted_apply_all [OF assms] noted_reading noted_save [OF assms])
qed

text \<open>The rollback up to the new status\<close>

lemma noted_rollback_operation:
  assumes "setting g ws Q A" "i < n"
  shows "obeys (stays (noted ids g F Q b n)) (rollback_operation g ws (Q @ [''_failed_new'']) i)"
  unfolding rollback_operation_def
proof (rule noted_operation [OF assms])
  fix op assume p: "planned_op Q b op" "placed g ws Q A F (op_root op)"
  have r: "all_names (op_root op)" using p(1) by (simp add: planned_op_def)
  have bk: "path_of bk = Q @ op_root op" if "o_backup_path op = Some bk" for bk
    using p(1) that by (simp add: planned_op_def)
  have d: "obeys (keeps F) (displace g (ws @ op_root op) (Q @ [''_failed_new'']) (o_path op))"
    unfolding displace_def safe_join_planned [OF p(1)] bind_lift_Inr append_assoc append.simps
    by (intro keeps.bind placed_mkdirs(3) [OF p(2) r] placed_renames(4) [OF p(2)])
  have b: "obeys (keeps F) (put_back g (Q @ op_root op) (ws @ op_root op))"
    unfolding put_back_def by (intro keeps.bind placed_mkdirs(1) [OF p(2) r] placed_renames(2) [OF p(2)])
  have one: "obeys (stays (noted ids g F Q b n)) (embed (bindA (lexistsA (ws @ op_root op)) (\<lambda>there.
      if c \<and> there then displace g (ws @ op_root op) (Q @ [''_failed_new'']) (o_path op) else returnA ())))" for c
    by (intro noted_keeps keeps.bind keeps.cond keeps.pure d reading_keeps)
  have two: "obeys (stays (noted ids g F Q b n)) (case map_option path_of (o_backup_path op) of
        None \<Rightarrow> returnA ()
      | Some backup \<Rightarrow> embed (bindA (lexistsA backup) (\<lambda>there.
          if c \<and> there then put_back g backup (ws @ op_root op) else returnA ())))" for c
    by (cases "o_backup_path op"; simp only: option.case option.map bk;
        intro noted_keeps keeps.bind keeps.cond keeps.pure stays.pure b reading_keeps)
  show "obeys (stays (noted ids g F Q b n)) (bindA (liftA (safe_join ws (o_path op))) (\<lambda>destination.
     bindA (catch_osA
       (thenA (embed (bindA (lexistsA destination) (\<lambda>there.
            if o_installed op \<and> there then displace g destination (Q @ [''_failed_new'']) (o_path op) else returnA ())))
       (thenA (case map_option path_of (o_backup_path op) of
            None \<Rightarrow> returnA ()
          | Some backup \<Rightarrow> embed (bindA (lexistsA backup) (\<lambda>there.
              if o_backup_moved op \<and> there then put_back g backup destination else returnA ())))
          (change_record (set_operation i (\<lambda>x. x\<lparr>o_phase := ''rolled_back''\<rparr>)))))) (\<lambda>caught.
       returnA (case caught of None \<Rightarrow> [] | Some exc \<Rightarrow> [o_path op @ '': '' @ exc]))))"
    unfolding safe_join_planned [OF p(1)] bind_lift_Inr
    by (intro stays.bind stays.catch stays.pure one two noted_phases)
qed

lemma noted_rollback_operations:
  assumes "setting g ws Q A"
  shows "(\<And>i. i \<in> set is \<Longrightarrow> i < n) \<Longrightarrow>
    obeys (stays (noted ids g F Q b n)) (rollback_operations g ws (Q @ [''_failed_new'']) is errors)"
proof (induction "is" arbitrary: errors)
  case (Cons i "is")
  then show ?case
    by (simp add: stays.bind noted_rollback_operation [OF assms])
qed (simp add: stays.pure)

subsection \<open>Nothing else touches the workspace\<close>

definition unharmed :: "path \<Rightarrow> node \<Rightarrow> (commit_record \<Rightarrow> bool) \<Rightarrow> cstate \<Rightarrow> bool" where
  "unharmed ws b C s \<longleftrightarrow> wf_node (w_tree (snd s)) \<and> look ws (w_tree (snd s)) = Some b \<and> C (fst s)"

definition untouched :: "commit_record \<Rightarrow> bool" where
  "untouched r \<longleftrightarrow> (\<forall>op \<in> set (r_operations r). \<not> flagged op)"

lemma back_keeps: "obeys (keeps ws) m \<Longrightarrow> obeys (stays (unharmed ws b C)) (embed m)"
  by (rule stays_embed) (auto simp: unharmed_def on_trees_def dest: obeysD)

lemma back_change: "(\<And>r. C r \<Longrightarrow> C (f r)) \<Longrightarrow> obeys (stays (unharmed ws b C)) (change_record f)"
  by (rule stays_change) (simp add: unharmed_def)

lemma stays_bind_lift:
  "(\<And>x. r = Inr x \<Longrightarrow> obeys (stays T) (f x)) \<Longrightarrow> obeys (stays T) (bindA (liftA r) f)"
  by (cases r) (auto simp: obeys_def bindA_def)

lemma back_save:
  assumes "isolates g ws" "\<And>r. C r \<Longrightarrow> C (sign_commit g r)"
  shows "obeys (stays (unharmed ws b C)) (save_commit g)"
proof -
  have k: "obeys (keeps ws) (atomic_write_json (b_host g) p v)" if "commit_path g i = Inr p" for i p v
    using state_write_keeps [OF assms(1)] state_paths(4) [OF _ that] assms(1) by blast
  have "obeys (stays (unharmed ws b C)) (bindA (liftA (commit_path g i)) (\<lambda>p. embed (atomic_write_json (b_host g) p v)))" for i v
    by (intro stays_bind_lift back_keeps k)
  then show ?thesis
    unfolding save_commit_def
    by (intro stays.bind [OF back_change [where C = C, OF assms(2)]] stays.bind [OF stays_the_record])
qed

lemma back_report:
  assumes "isolates g ws" "\<And>r. C r \<Longrightarrow> C (sign_commit g r)"
  shows "obeys (stays (unharmed ws b C)) (thenA (save_commit g)
    (bindA (if errors = []
        then bindA (embed (scan g ws)) (\<lambda>restored. returnA (f restored)) else returnA errors) (\<lambda>rollback_errors.
     thenA (bindA the_record (\<lambda>r. embed (log_event g ev (kvs r rollback_errors))))
       (requireA (rollback_errors = []) e))))"
  by (intro stays.bind stays.cond stays.pure stays_the_record back_save [where C = C, OF assms] back_keeps reading_keeps
      log_event_keeps [OF assms(1)])

lemma sign_untouched: "untouched r \<Longrightarrow> untouched (sign_commit g r)"
  by (simp add: untouched_def sign_commit_def)

lemma untouched_phase: "untouched r \<Longrightarrow> untouched (set_operation i (\<lambda>x. x\<lparr>o_phase := p\<rparr>) r)"
proof (cases "i < length (r_operations r)")
  case True
  assume "untouched r"
  then show ?thesis using True set_update_subset_insert
    by (fastforce simp: untouched_def flagged_def set_operation_def)
qed (simp add: untouched_def set_operation_def list_update_beyond)

lemma idle_rollback_operation:
  assumes "i < n"
  shows "obeys (stays (unharmed ws b (\<lambda>r. untouched r \<and> length (r_operations r) = n))) (rollback_operation g ws F i)"
proof (rule obeysI, rule impI)
  let ?B = "unharmed ws b (\<lambda>r. untouched r \<and> length (r_operations r) = n)"
  fix s x s' assume m: "rollback_operation g ws F i s = (x, s')" and k: "?B s"
  let ?op = "r_operations (fst s) ! i"
  let ?rest = "bindA (liftA (safe_join ws (o_path ?op))) (\<lambda>destination.
     bindA (catch_osA
       (thenA (embed (bindA (lexistsA destination) (\<lambda>there.
            if o_installed ?op \<and> there then displace g destination F (o_path ?op) else returnA ())))
       (thenA (case map_option path_of (o_backup_path ?op) of
            None \<Rightarrow> returnA ()
          | Some backup \<Rightarrow> embed (bindA (lexistsA backup) (\<lambda>there.
              if o_backup_moved ?op \<and> there then put_back g backup destination else returnA ())))
          (change_record (set_operation i (\<lambda>x. x\<lparr>o_phase := ''rolled_back''\<rparr>)))))) (\<lambda>caught.
       returnA (case caught of None \<Rightarrow> [] | Some exc \<Rightarrow> [o_path ?op @ '': '' @ exc])))"
  have "?op \<in> set (r_operations (fst s))" using k assms by (simp add: unharmed_def)
  then have "\<not> flagged ?op" using k by (simp add: unharmed_def untouched_def)
  then have "\<not> o_installed ?op" "\<not> o_backup_moved ?op" by (simp_all add: flagged_def)
  then have o: "obeys (stays ?B) ?rest"
    by (cases "o_backup_path ?op"; simp only: option.case option.map if_False simp_thms;
        intro stays.bind stays.catch stays.pure back_keeps keeps.bind keeps.pure reading_keeps back_change)
      (simp_all add: untouched_phase)
  have "?rest s = (x, s')"
    using m by (simp only: rollback_operation_def the_operation_bind)
  from o k this show "?B s'" by (rule staysD)
qed

lemma idle_rollback_operations:
  "(\<And>i. i \<in> set is \<Longrightarrow> i < n) \<Longrightarrow>
    obeys (stays (unharmed ws b (\<lambda>r. untouched r \<and> length (r_operations r) = n))) (rollback_operations g ws F is errors)"
proof (induction "is" arbitrary: errors)
  case (Cons i "is")
  then show ?case by (simp add: stays.bind idle_rollback_operation)
qed (simp add: stays.pure)

lemma idle_rollback:
  assumes "isolates g ws" "unharmed ws b untouched s" "rollback_failed_commit g ws baseline s = (x, s')"
  shows "look ws (w_tree (snd s')) = Some b" "wf_node (w_tree (snd s'))"
proof -
  let ?n = "length (r_operations (fst s))"
  let ?B = "unharmed ws b (\<lambda>r. untouched r \<and> length (r_operations r) = ?n)"
  have B: "?B s" using assms(2) by (simp add: unharmed_def)
  have o: "obeys (stays ?B) (bindA (rollback_operations g ws (path_of (r_quarantine_root (fst s)) @ [''_failed_new''])
        (rev [0..<?n]) []) (\<lambda>errors.
     thenA (change_record (\<lambda>r. r\<lparr>r_status := (if errors \<noteq> [] then ''rollback_failed'' else ''rolled_back'')\<rparr>))
    (thenA (save_commit g)
    (bindA (if errors = []
        then bindA (embed (scan g ws)) (\<lambda>restored.
          returnA (if m_digest restored \<noteq> m_digest baseline
            then [''workspace digest differs from baseline after rollback''] else []))
        else returnA errors) (\<lambda>rollback_errors.
     thenA (bindA the_record (\<lambda>r. embed (log_event g ''commit_failed''
       [(''commit_id'', JStr (r_commit_id r)), (''plan_id'', JStr (r_plan_id r)),
        (''status'', JStr (r_status r)), (''rollback_errors'', JList (map JStr rollback_errors))])))
       (requireA (rollback_errors = []) (IntegrityError ''commit failed and rollback was incomplete'')))))))"
    (is "obeys _ ?rest")
    by (rule stays.bind, rule idle_rollback_operations, simp, rule stays.bind, rule back_change,
        simp add: untouched_def, rule back_report [where C = "\<lambda>r. untouched r \<and> length (r_operations r) = m" for m,
          OF assms(1)], simp add: untouched_def sign_commit_def)
  have "?rest s = (x, s')"
    using assms(3) unfolding rollback_failed_commit_def by (subst (asm) the_record_bind)
  from o B this have "?B s'" by (rule staysD)
  then show "look ws (w_tree (snd s')) = Some b" "wf_node (w_tree (snd s'))" by (simp_all add: unharmed_def)
qed

subsection \<open>The try block and its handler\<close>

text \<open>The state in which the record is first saved\<close>

definition ready :: "path \<Rightarrow> path \<Rightarrow> node \<Rightarrow> cstate \<Rightarrow> bool" where
  "ready ws Q b s \<longleftrightarrow> wf_node (w_tree (snd s)) \<and> wf_node b \<and> look ws (w_tree (snd s)) = Some b \<and>
     path_of (r_quarantine_root (fst s)) = Q \<and> planned Q b (r_operations (fst s)) \<and> untouched (fst s) \<and> r_status (fst s) = ''prepared''"

lemma ready_inv: "ready ws Q b s \<Longrightarrow> inv ws Q b 0 (before_op (length (r_operations (fst s))) 0) s"
  by (auto simp: ready_def inv_def intact_def before_op_def fresh_def untouched_def stack_def)

lemma ready_save:
  assumes "setting g ws Q A" "ready ws Q b s" "save_commit g s = (x, s')"
  shows "unharmed ws b untouched s'"
    and "x = Inr () \<Longrightarrow> \<exists>F. commit_path g (r_commit_id (fst s)) = Inr F \<and>
      noted (r_commit_id (fst s), r_plan_id (fst s)) g F Q b (length (r_operations (fst s))) s'"
proof -
  have i: "isolates g ws" using settingD [OF assms(1)] by simp
  have "unharmed ws b untouched s" using assms(2) by (simp add: ready_def unharmed_def)
  then show u: "unharmed ws b untouched s'"
    using obeysD [OF back_save [where C = untouched, OF i sign_untouched] assms(3)] by simp
  assume x: "x = Inr ()"
  have c: "r_commit_id (sign_commit g (fst s)) = r_commit_id (fst s)" by (simp add: sign_commit_def)
  obtain F where F: "commit_path g (r_commit_id (sign_commit g (fst s))) = Inr F"
    using assms(3) x by (auto simp: save_commit_def bindA_Inr_iff change_record_def the_record_def)
  obtain w' where w: "atomic_write_json (b_host g) F (record_to_dict (sign_commit g (fst s))) (snd s) = (Inr (), w')"
    "s' = (sign_commit g (fst s), w')"
    using assms(3) by (auto simp: save_commit_def bindA_def the_record_def change_record_def F embed_def x split: prod.splits)
  have "record_at F (w_tree w') = Some (sign_commit g (fst s))"
    using write_record(2) [OF _ commit_file_rooted [OF assms(1) F] w(1)] assms(2) by (simp add: ready_def)
  then have "noted (r_commit_id (fst s), r_plan_id (fst s)) g F Q b (length (r_operations (fst s))) s'"
    using assms(2) u F
    by (auto simp: noted_def steady_def ready_def evidence_def w(2) unharmed_def sign_commit_def planned_def in_set_conv_nth)
  then show "\<exists>F. commit_path g (r_commit_id (fst s)) = Inr F \<and>
      noted (r_commit_id (fst s), r_plan_id (fst s)) g F Q b (length (r_operations (fst s))) s'"
    using F c by auto
qed

lemma noted_report:
  assumes "setting g ws Q A"
  shows "obeys (stays (noted ids g F Q b n)) (thenA (change_record (\<lambda>r. r\<lparr>r_status := ''rollback_failed''\<rparr>))
    (thenA (save_commit g)
    (bindA (returnA errors) (\<lambda>rollback_errors.
     thenA (bindA the_record (\<lambda>r. embed (log_event g ev (kvs r rollback_errors))))
       (requireA (rollback_errors = []) e)))))"
proof -
  have c: "obeys (stays (noted ids g F Q b n)) (change_record (\<lambda>r. r\<lparr>r_status := ''rollback_failed''\<rparr>))"
    by (rule noted_change) simp_all
  have l: "obeys (stays (noted ids g F Q b n)) (embed (log_event g ev kv))" for ev kv
    unfolding obeys_def
  proof (intro allI impI)
    fix s x s' assume m: "embed (log_event g ev kv) s = (x, s')" and k: "noted ids g F Q b n s"
    have "commit_path g (r_commit_id (fst s)) = Inr F" using k by (simp add: noted_def steady_def)
    then have F: "rooted F" "apart (audit_path g) F" "rooted (audit_path g)"
      using commit_file_rooted [OF assms] settingD(1) [OF assms] root_not_Nil
      by (auto simp: commit_path_def bindE_Inr_iff audit_path_def apart_same parallel_def)
    have "obeys (keeps F) (log_event g ev kv)"
      unfolding log_event_def by (intro keeps.bind keeps.pure audit_append_keeps F)
    from noted_keeps [OF this] k m show "noted ids g F Q b n s'" by (rule staysD)
  qed
  show ?thesis
    by (intro stays.bind stays.pure stays_the_record c l noted_save [OF assms])
qed

lemma noted_handler:
  assumes "setting g ws Q A" "wf_node b" "noted ids g F Q b n s" "inv ws Q b n (any n) s"
    and "rollback_failed_commit g ws baseline s = (x, s')"
  shows "(look ws (w_tree (snd s')) = Some b \<or> evidence ids F (w_tree (snd s'))) \<and> wf_node (w_tree (snd s'))"
proof -
  let ?R = "rollback_operations g ws (path_of (r_quarantine_root (fst s)) @ [''_failed_new'']) (rev [0..<length (r_operations (fst s))]) []"
  let ?rest = "\<lambda>errors. thenA (change_record (\<lambda>r. r\<lparr>r_status := (if errors \<noteq> [] then ''rollback_failed'' else ''rolled_back'')\<rparr>))
    (thenA (save_commit g)
    (bindA (if errors = []
        then bindA (embed (scan g ws)) (\<lambda>restored.
          returnA (if m_digest restored \<noteq> m_digest baseline
            then [''workspace digest differs from baseline after rollback''] else []))
        else returnA errors) (\<lambda>rollback_errors.
     thenA (bindA the_record (\<lambda>r. embed (log_event g ''commit_failed''
       [(''commit_id'', JStr (r_commit_id r)), (''plan_id'', JStr (r_plan_id r)),
        (''status'', JStr (r_status r)), (''rollback_errors'', JList (map JStr rollback_errors))])))
       (requireA (rollback_errors = []) (IntegrityError ''commit failed and rollback was incomplete'')))))"
  have m: "bindA ?R ?rest s = (x, s')"
    using assms(5) unfolding rollback_failed_commit_def by (subst (asm) the_record_bind)
  have i: "isolates g ws" using settingD [OF assms(1)] by simp
  have r: "path_of (r_quarantine_root (fst s)) = Q" "length (r_operations (fst s)) = n"
    using assms(3) by (simp_all add: noted_def steady_def)
  have kept: "obeys (stays (noted ids g F Q b n)) ?R"
    unfolding r by (rule noted_rollback_operations [OF assms(1)]) simp
  from m show ?thesis
  proof (cases rule: bindA_cases)
    case (1 e)
    from kept assms(3) 1(1) have "noted ids g F Q b n s'" by (rule staysD)
    then show ?thesis by (simp add: noted_def steady_def)
  next
    case (2 errors s1)
    from kept assms(3) 2(1) have n1: "noted ids g F Q b n s1" by (rule staysD)
    show ?thesis
    proof (cases "errors = []")
      case True
      have "inv ws Q b 0 (any n) s1"
        using tripleD(1) [OF rollback_operations_triple [OF assms(1,2), of n n "[]"], of s errors s1] 2(1) assms(4) True
        unfolding r by blast
      then have i0: "intact ws Q b 0 (r_operations (fst s1)) (w_tree (snd s1))" by (simp add: inv_def)
      then have u: "unharmed ws b (\<lambda>_. True) s1" using intact_none [OF i0] by (simp add: unharmed_def intact_def)
      have "obeys (stays (unharmed ws b (\<lambda>_. True))) (?rest errors)"
        by (rule stays.bind, rule back_change, simp, rule back_report [where C = "\<lambda>_. True", OF i], simp)
      from this u 2(2) have "unharmed ws b (\<lambda>_. True) s'" by (rule staysD)
      then show ?thesis by (simp add: unharmed_def)
    next
      case False
      have "obeys (stays (noted ids g F Q b n)) (?rest errors)"
        using False by (simp only: if_True if_False not_False_eq_True) (rule noted_report [OF assms(1)])
      from this n1 2(2) have "noted ids g F Q b n s'" by (rule staysD)
      then show ?thesis by (simp add: noted_def steady_def)
    qed
  qed
qed

definition traced :: "guard \<Rightarrow> commit_record \<Rightarrow> node \<Rightarrow> bool" where
  "traced g r t \<longleftrightarrow> (\<exists>F. commit_path g (r_commit_id r) = Inr F \<and> evidence (r_commit_id r, r_plan_id r) F t)"

lemma apply_or_rollback:
  assumes "setting g ws Q A" "ready ws Q b s"
    and "on_errorA (apply_record g plan ws A) (rollback_failed_commit g ws baseline) s = (Inl e, s')"
  shows "(look ws (w_tree (snd s')) = Some b \<or> traced g (fst s) (w_tree (snd s'))) \<and> wf_node (w_tree (snd s'))"
proof -
  let ?n = "length (r_operations (fst s))" and ?ids = "(r_commit_id (fst s), r_plan_id (fst s))"
  have b: "wf_node b" using assms(2) by (simp add: ready_def)
  obtain e1 s1 x where f: "apply_record g plan ws A s = (Inl e1, s1)"
    and h: "rollback_failed_commit g ws baseline s1 = (x, s')"
    using assms(3) by (auto simp: on_errorA_def split: prod.splits sum.splits)
  from f show ?thesis
    unfolding apply_record_def
  proof (cases rule: bindA_cases)
    case (1 e2)
    have "isolates g ws" using settingD [OF assms(1)] by simp
    then show ?thesis using idle_rollback [OF _ ready_save(1) [OF assms(1,2) 1(1)] h] by simp
  next
    case (2 u s0)
    obtain F where F: "commit_path g (r_commit_id (fst s)) = Inr F" "noted ?ids g F Q b ?n s0"
      using ready_save(2) [OF assms(1,2) 2(1)] by auto
    from noted_finish [OF assms(1)] F(2) 2(2) have n1: "noted ?ids g F Q b ?n s1" by (rule staysD)
    have "inv ws Q b ?n (any ?n) s1"
      using tripleD(2) [OF apply_record_triple [OF assms(1) b] ready_inv [OF assms(2)] f] .
    then show ?thesis using noted_handler [OF assms(1) b n1 _ h] F(1) by (auto simp: traced_def)
  qed
qed

text \<open>What a normal end of the \<^verbatim>\<open>try\<close> block means for the workspace\<close>

definition has_digest :: "guard \<Rightarrow> path \<Rightarrow> node \<Rightarrow> string \<Rightarrow> bool" where
  "has_digest g ws t d \<longleftrightarrow> (\<exists>m. scan_tree (b_crypto g) (default_limits (b_excluded g)) ws (look ws t) = Inr m
     \<and> m_digest m = d)"

lemma scan_Inr: "scan g ws w = (Inr m, w') \<Longrightarrow>
    w_tree w' = w_tree w \<and> scan_tree (b_crypto g) (default_limits (b_excluded g)) ws (look ws (w_tree w)) = Inr m"
  by (auto simp: scan_def scanA_def Let_def split: if_splits)

lemma apply_record_success:
  assumes "setting g ws Q A" "ready ws Q b s" "apply_record g plan ws A s = (Inr u, s')"
  shows "wf_node (w_tree (snd s'))" "has_digest g ws (w_tree (snd s')) (p_staged_digest plan)"
    "r_status (fst s') = ''committed''" "r_commit_id (fst s') = r_commit_id (fst s)" "r_plan_id (fst s') = r_plan_id (fst s)"
    "\<exists>F. commit_path g (r_commit_id (fst s)) = Inr F \<and> record_at F (w_tree (snd s')) = Some (fst s')"
proof -
  let ?n = "length (r_operations (fst s))" and ?ids = "(r_commit_id (fst s), r_plan_id (fst s))"
  let ?f = "\<lambda>r. r\<lparr>r_status := ''committed'', r_operations := map (\<lambda>x. x\<lparr>o_phase := ''complete''\<rparr>) (r_operations r)\<rparr>"
  obtain s0 s1 s2 m where a: "save_commit g s = (Inr (), s0)" "apply_all g ws A s0 = (Inr (), s1)"
    "embed (scan g ws) s1 = (Inr m, s2)" "m_digest m = p_staged_digest plan"
    "save_commit g (?f (fst s2), snd s2) = (Inr (), s')"
    using assms(3) by (auto simp: apply_record_def bindA_Inr_iff requireA_iff change_record_def)
  obtain F where F0: "commit_path g (r_commit_id (fst s)) = Inr F" and n0: "noted ?ids g F Q b ?n s0"
    using ready_save(2) [OF assms(1,2) a(1)] by auto
  from noted_apply_all [OF assms(1)] n0 a(2) have n1: "noted ?ids g F Q b ?n s1" by (rule staysD)
  have s2: "fst s2 = fst s1" "w_tree (snd s2) = w_tree (snd s1)"
    "scan_tree (b_crypto g) (default_limits (b_excluded g)) ws (look ws (w_tree (snd s1))) = Inr m"
    using a(3) scan_Inr by (auto simp: embed_def split: prod.splits)
  have F: "commit_path g (r_commit_id (sign_commit g (?f (fst s2)))) = Inr F" "rooted F"
    using n1 commit_file_rooted [OF assms(1)] by (auto simp: noted_def steady_def s2(1) sign_commit_def)
  obtain w' where w: "atomic_write_json (b_host g) F (record_to_dict (sign_commit g (?f (fst s2)))) (snd s2) = (Inr (), w')"
    "s' = (sign_commit g (?f (fst s2)), w')"
    using a(5) F(1) by (auto simp: save_commit_def bindA_def the_record_def change_record_def embed_def split: prod.splits)
  have wf: "wf_node (w_tree (snd s2))" using n1 by (simp add: noted_def steady_def s2(2))
  note S = settingD [OF assms(1)]
  have k: "obeys (keeps ws) (atomic_write_json (b_host g) F v)" for v
    using state_write_keeps [of g ws F] S F state_paths(4) [OF S(1)] by blast
  show "wf_node (w_tree (snd s'))" using obeysD [OF k w(1)] wf by (simp add: on_trees_def w(2))
  have "look ws (w_tree (snd s')) = look ws (w_tree (snd s1))"
    using obeysD [OF k w(1)] wf by (simp add: on_trees_def w(2) s2(2))
  then show "has_digest g ws (w_tree (snd s')) (p_staged_digest plan)"
    using s2(3) a(4) by (auto simp: has_digest_def)
  show "r_status (fst s') = ''committed''" by (simp add: w(2) sign_commit_def)
  show "r_commit_id (fst s') = r_commit_id (fst s)" "r_plan_id (fst s') = r_plan_id (fst s)"
    using n1 by (simp_all add: noted_def steady_def s2(1) w(2) sign_commit_def)
  show "\<exists>F. commit_path g (r_commit_id (fst s)) = Inr F \<and> record_at F (w_tree (snd s')) = Some (fst s')"
    using write_record(2) [OF wf F(2) w(1)] F0 by (simp add: w(2))
qed

end
