(* ===== verification/PrepareFacts.thy ===== *)
theory PrepareFacts
  imports CommitOutcome
begin

text \<open>
  The payloads and the record a commit prepares before it touches the workspace: the record
  describes a plan of disjoint replacements for the tree that was scanned.
\<close>

subsection \<open>Preparing touches no workspace\<close>

lemma copy_entry_keeps:
  assumes "rooted dst" "rooted q" "apart dst q"
  shows "obeys (keeps q) (copy_entry h src dst)"
proof -
  have mk: "obeys (keeps q) (mkdirsA h m (butlast dst))" for m
    using assms rooted_dir apart_not_above by (intro mkdirsA_keeps) (auto simp: rooted_butlast)
  have "obeys (keeps q) (os_call h (copy_file_tree dst n))" if "\<not> is_dir n" for n
    using that by (intro change_keeps [OF assms(1,3)]) (cases n; auto simp: copy_file_tree_def split: if_splits)
  moreover have "obeys reads (lstatA h src)"
    unfolding lstatA_def by (rule os_call_reads) (auto split: option.splits)
  ultimately show ?thesis
    unfolding copy_entry_def using mk copytree_keeps [OF assms]
    by (auto intro!: keeps.bind keeps.pure dest: reads_keeps split: node.split)
qed

lemma names_of_is_name: "relative_text s \<Longrightarrow> w \<in> set (names_of s) \<Longrightarrow> is_name w"
proof -
  have "w \<in> set (split_on c s) \<Longrightarrow> x \<in> set w \<Longrightarrow> x \<in> set s" for c x
    by (induction c s arbitrary: w rule: split_on.induct) (fastforce split: list.splits if_splits)+
  then show "relative_text s \<Longrightarrow> w \<in> set (names_of s) \<Longrightarrow> is_name w"
    using names_of_component [of w s] by (auto simp: is_name_def relative_text_def names_of_def)
qed

lemma stage_payload_keeps:
  assumes "isolates g ws" "rooted A" "prefix (b_root g) A"
  shows "obeys (keeps ws) (stage_payload g worktree A c)"
proof -
  have "obeys (keeps ws) (copy_entry (b_host g) src p)" if "safe_join A s = Inr p" for src p s
  proof -
    have p: "p = A @ names_of s" "relative_text s" using that by (simp_all add: safe_join_Inr_iff)
    then have "rooted p" using assms(2) names_of_is_name by (simp add: rooted_add)
    moreover have "apart p ws" using assms(1,3) p(1) by (auto simp: prefix_def)
    ultimately show ?thesis using assms(1) by (intro copy_entry_keeps) auto
  qed
  then show ?thesis
    unfolding stage_payload_def by (intro keeps.cond keeps.pure bind_lift_keeps) auto
qed

lemma stage_payloads_keeps:
  assumes "isolates g ws" "rooted A" "prefix (b_root g) A"
  shows "obeys (keeps ws) (stage_payloads g worktree A Q cs)"
  by (induction cs) (simp_all only: stage_payloads.simps keeps.bind keeps.pure stage_payload_keeps [OF assms])

subsection \<open>The record describes a plan\<close>

lemma stage_payloads_ops:
  assumes "stage_payloads g worktree A Q cs w = (Inr ops, w')"
  shows "length ops = length cs" "\<And>i. i < length cs \<Longrightarrow> operation_of Q (cs ! i) = Inr (ops ! i)"
    "\<And>c. c \<in> set cs \<Longrightarrow> c_after c \<noteq> None \<Longrightarrow> relative_text (c_path c)"
proof -
  have "length ops = length cs \<and> (\<forall>i < length cs. operation_of Q (cs ! i) = Inr (ops ! i)) \<and>
      (\<forall>c \<in> set cs. c_after c \<noteq> None \<longrightarrow> relative_text (c_path c))"
    using assms
  proof (induction cs arbitrary: ops w)
    case (Cons c cs)
    then obtain w1 w2 op ops' where s: "stage_payload g worktree A c w = (Inr (), w1)" "operation_of Q c = Inr op"
      "stage_payloads g worktree A Q cs w1 = (Inr ops', w')" "ops = op # ops'"
      by (auto simp: bindA_Inr_iff)
    have "c_after c \<noteq> None \<longrightarrow> relative_text (c_path c)"
      using s(1) by (auto simp: stage_payload_def bindA_Inr_iff safe_join_Inr_iff)
    then show ?case using Cons.IH [OF s(3)] s(2,4) by (auto simp: less_Suc_eq_0_disj)
  qed simp
  then show "length ops = length cs" "\<And>i. i < length cs \<Longrightarrow> operation_of Q (cs ! i) = Inr (ops ! i)"
    "\<And>c. c \<in> set cs \<Longrightarrow> c_after c \<noteq> None \<Longrightarrow> relative_text (c_path c)" by blast+
qed

lemma operation_of_fields:
  assumes "operation_of Q c = Inr op"
  shows "o_path op = c_path c" "o_before_kind op = map_option e_kind (c_before c)" "\<not> flagged op"
    "c_before c \<noteq> None \<Longrightarrow> relative_text (c_path c) \<and> names_of (c_path c) \<noteq> [] \<and>
      o_backup_path op = Some (path_str (Q @ names_of (c_path c)))"
    "c_before c = None \<Longrightarrow> o_backup_path op = None"
  using assms
  by (auto simp: operation_of_def bindE_Inr_iff safe_join_Inr_iff flagged_def split: option.splits)

text \<open>An absolute path read back from its text\<close>

lemma path_str_rooted:
  assumes "rooted p" "hd p = ''/''" shows "path_of (path_str p) = p"
proof -
  obtain q where p: "p = ''/'' # q" and q: "q \<noteq> []" "\<forall>x \<in> set q. is_component x"
    using assms is_name_component by (auto simp: rooted_def split: list.splits)
  have j: "path_str q = join_with ''/'' q" "\<not> prefix ''/'' (path_str q)" "split_on (CHR ''/'') (path_str q) = q"
    using path_str_names hd_path_str split_path_str q by auto
  then have s: "path_str p = CHR ''/'' # path_str q" by (simp add: p path_str_def)
  have "anchor_of (path_str p) = ''/''" using j(2) by (simp add: s anchor_of_def)
  moreover have "filter (\<lambda>w. w \<noteq> [] \<and> w \<noteq> ''.'') q = q" using q(2) by (auto simp: filter_id_conv is_component_def)
  then have "names_of (path_str p) = q" by (simp add: s names_of_def j(3))
  ultimately show ?thesis by (simp add: path_of_def p)
qed

lemma scanned_dir_at:
  assumes "scan_of cr ex b mb" "c \<in> set (operation_roots (diff_manifests mb ms))" "scan_of cr ex s ms"
  shows "dir_at (butlast (parts c)) b"
  using diff_roots_shape(1) [OF assms(1,3,2)] by simp

text \<open>The operations made from the roots of a difference, for the tree \<open>b\<close> of the workspace\<close>

lemma stage_payloads_planned:
  assumes "scan_of cr ex b mb" "scan_of cr ex t mt"
    and "stage_payloads g worktree A Q (operation_roots (diff_manifests mb mt)) w = (Inr ops, w')"
    and "\<And>c. c \<in> set (diff_manifests mb mt) \<Longrightarrow> hd (parts c) \<noteq> ''_failed_new''"
    and "rooted Q" "hd Q = ''/''"
  shows "planned Q b ops" "\<And>op. op \<in> set ops \<Longrightarrow> \<not> flagged op"
proof -
  let ?R = "operation_roots (diff_manifests mb mt)"
  note S = stage_payloads_ops [OF assms(3)]
  note roots = operation_roots_correct [OF diff_parts_distinct [OF assms(1,2)]]
  note shape = diff_roots_shape [OF assms(1,2)]
  have Q: "Q \<noteq> []" using assms(5) by (auto simp: rooted_def)
  have facts: "relative_text (c_path c) \<and> names_of (c_path c) = parts c \<and> planned_op Q b op \<and> \<not> flagged op"
    if c: "c \<in> set ?R" and o: "operation_of Q c = Inr op" for c op
  proof -
    have ch: "c \<in> set (diff_manifests mb mt)" using roots(2) c by blast
    note cc = diff_change [OF assms(1,2) ch]
    have comp: "\<forall>a \<in> set (parts c). is_component a" "parts c \<noteq> []"
      using cc is_name_component by (auto simp: included_def)
    then have n: "names_of (c_path c) = parts c" using cc names_of_path_str by metis
    have r: "relative_text (c_path c)"
      using S(3) [OF c] operation_of_fields(4) [OF o] cc by (cases "c_before c") auto
    have b: "o_before_kind op = None \<longleftrightarrow> get (parts c) b = None"
      using operation_of_fields(2) [OF o] cc by simp
    have root: "op_root op = parts c" using operation_of_fields(1) [OF o] n by (simp add: op_root_def)
    have bk: "case o_backup_path op of None \<Rightarrow> o_before_kind op = None | Some p \<Rightarrow> path_of p = Q @ op_root op"
    proof (cases "c_before c")
      case None
      then show ?thesis using operation_of_fields(2,5) [OF o] by simp
    next
      case (Some e)
      have "rooted (Q @ parts c)" "hd (Q @ parts c) = ''/''"
        using assms(5,6) cc Q by (simp_all add: rooted_add)
      then show ?thesis using operation_of_fields(4) [OF o] Some n path_str_rooted root by simp
    qed
    show ?thesis
      using r n b bk comp cc shape(1) [OF c] assms(4) [OF ch] operation_of_fields(1,3) [OF o]
      by (auto simp: planned_op_def root all_names_def)
  qed
  have op: "operation_of Q (?R ! i) = Inr (ops ! i)" "?R ! i \<in> set ?R" if "i < length ops" for i
    using that S(1,2) by auto
  have root: "op_root (ops ! i) = parts (?R ! i)" if "i < length ops" for i
    using facts [OF op(2) [OF that] op(1) [OF that]] operation_of_fields(1) [OF op(1) [OF that]] by (simp add: op_root_def)
  have "distinct (map parts ?R)" by (rule roots(3))
  then have "op_root (ops ! i) \<parallel> op_root (ops ! j)" if "i < length ops" "j < length ops" "i \<noteq> j" for i j
    using shape(2) [OF op(2) op(2)] that root S(1) by (auto simp: distinct_conv_nth)
  moreover have "planned_op Q b (ops ! i)" if "i < length ops" for i
    using facts [OF op(2) [OF that] op(1) [OF that]] by simp
  ultimately show "planned Q b ops" by (simp add: planned_def)
  show "\<not> flagged op'" if "op' \<in> set ops" for op'
    using that facts op by (metis in_set_conv_nth)
qed

subsection \<open>The plan is the difference to the tree on disk\<close>

lemma diff_cong: "map_of (m_entries b) = map_of (m_entries b') \<Longrightarrow> diff_manifests b a = diff_manifests b' a"
proof -
  assume m: "map_of (m_entries b) = map_of (m_entries b')"
  have k: "set (map fst (m_entries x) @ map fst (m_entries a)) = dom (map_of (m_entries x)) \<union> fst ` set (m_entries a)" for x
    by (simp add: dom_map_of_conv_image_fst)
  have "all_paths b a = all_paths b' a"
    unfolding all_paths_def sorted_list_of_set_sort_remdups [symmetric] k m ..
  then show ?thesis unfolding diff_manifests_def m by simp
qed

lemma digest_same_map:
  assumes "\<And>p. p \<in> set es \<Longrightarrow> e_path (snd p) = fst p" "keyed es'" "manifest_digest cr es = manifest_digest cr es'"
    and "\<not> sha256_collision cr {manifest_text es} {manifest_text es'}"
  shows "map_of es = map_of es'"
proof -
  have same: "sort_key fst xs = map (\<lambda>e. (e_path e, e)) (map snd (sort_key fst xs))"
    if "\<forall>p \<in> set xs. e_path (snd p) = fst p" for xs :: "(string \<times> manifest_entry) list"
    by (rule sym, unfold map_map, rule map_idI) (use that in auto)
  have "map snd (sort_key fst es) = map snd (sort_key fst es')"
    using manifest_digest_entries [OF assms(3)] assms(4) by simp
  then have s: "sort_key fst es = sort_key fst es'"
    using same [of es] same [of es'] assms(1,2) by (simp add: keyed_def)
  then have "mset es = mset es'" by (metis mset_sort)
  then have "distinct (map fst es)"
    using assms(2) by (metis keyed_def mset_eq_imp_distinct_iff mset_map)
  then have "keyed es" using assms(1) by (simp add: keyed_def)
  then show ?thesis using s assms(2) by (metis keyed_eqI)
qed

lemma change_to_dict_inject: "map change_to_dict cs = map change_to_dict ds \<Longrightarrow> cs = ds"
  using change_codec.list_inject [of cs ds] by (simp del: map_eq_conv)

lemma recheck_reads: "obeys reads (recheck g plan t baseline)"
  unfolding recheck_def Let_def by (auto intro!: reads.bind reads.pure reading same_filesystem_reads split: prod.splits)

lemma recheck_Inr:
  assumes "recheck g plan t baseline w = (Inr u, w')"
  obtains mr ms where
    "scan_tree (b_crypto g) (default_limits (b_excluded g)) (path_of (t_workspace_root t))
       (look (path_of (t_workspace_root t)) (w_tree w)) = Inr mr" "m_digest mr = p_baseline_digest plan"
    "scan_tree (b_crypto g) (default_limits (b_excluded g)) (path_of (t_worktree_root t))
       (look (path_of (t_worktree_root t)) (w_tree w)) = Inr ms" "m_digest ms = p_staged_digest plan"
    "p_changes plan = diff_manifests baseline ms" "w_tree w' = w_tree w"
proof -
  have w': "w_tree w' = w_tree w" by (rule obeysD [OF recheck_reads assms])
  obtain mr ms w1 w2 where s: "scan g (path_of (t_workspace_root t)) w = (Inr mr, w1)"
    "scan g (path_of (t_worktree_root t)) w1 = (Inr ms, w2)"
    "m_digest mr = p_baseline_digest plan" "m_digest ms = p_staged_digest plan"
    "map change_to_dict (diff_manifests baseline ms) = map change_to_dict (p_changes plan)"
    using assms unfolding recheck_def Let_def
    by (auto simp: bindA_Inr_iff requireA_iff split: prod.splits)
  show ?thesis
    using that [of mr ms] scan_Inr [OF s(1)] scan_Inr [OF s(2)] s(3,4) change_to_dict_inject [OF s(5)] w' by simp
qed

subsection \<open>What a prepared commit is ready for\<close>

definition quarantine_of :: "guard \<Rightarrow> string \<Rightarrow> path" where
  "quarantine_of g i = b_root g @ [''quarantine'', i]"

definition apply_of :: "guard \<Rightarrow> string \<Rightarrow> path" where
  "apply_of g i = b_root g @ [''apply'', i]"

lemma setting_of: "isolates g ws \<Longrightarrow> is_name i \<Longrightarrow> setting g ws (quarantine_of g i) (apply_of g i)"
  by (auto simp: setting_def quarantine_of_def apply_of_def)

lemma prepare_keeps:
  assumes "isolates g ws" "is_name i" shows "obeys (keeps ws) (prepare g plan t baseline i)"
  unfolding prepare_def Let_def
  using assms by (intro keeps.bind keeps.pure reading_keeps stage_payloads_keeps) (auto simp: prefix_def)

lemma scan_tree_SomeD: "scan_tree cr lim root x = Inr m \<Longrightarrow> \<exists>n. x = Some n"
  by (cases x) (simp_all add: scan_tree_def)

lemma prepare_ready:
  assumes "isolates g ws" "hd (b_root g) = ''/''" "is_name i"
    and "wf_node (w_tree w)" "look ws (w_tree w) = Some b"
    and "scan_of cr ex b mr" "scan_of cr ex s ms" "p_changes plan = diff_manifests mr ms"
    and "\<And>c. c \<in> set (p_changes plan) \<Longrightarrow> hd (parts c) \<noteq> ''_failed_new''"
    and "prepare g plan t baseline i w = (Inr r, w')"
  shows "ready ws (quarantine_of g i) b (r, w')" "r_commit_id r = i" "r_plan_id r = p_id plan"
proof -
  let ?Q = "quarantine_of g i" and ?A = "apply_of g i"
  have Q: "rooted ?Q" "hd ?Q = ''/''"
    using settingD(12) [OF setting_of [OF assms(1,3)]] assms(1,2) root_not_Nil [of g] by (simp_all add: quarantine_of_def)
  obtain ops w1 n where s: "stage_payloads g (path_of (t_worktree_root t)) ?A ?Q (operation_roots (p_changes plan)) w = (Inr ops, w1)"
    and r: "r = \<lparr>r_commit_id = i, r_plan_id = p_id plan, r_transaction_id = t_id t,
             r_workspace_root = path_str (path_of (t_workspace_root t)),
             r_quarantine_root = path_str ?Q, r_apply_root = path_str ?A,
             r_operations = ops, r_before_digest = m_digest baseline,
             r_after_digest = p_staged_digest plan, r_created_at = n,
             r_status = ''prepared'', r_signature = ''''\<rparr>"
    using assms(10) unfolding prepare_def Let_def quarantine_of_def [symmetric] apply_of_def [symmetric]
    by (auto simp: bindA_Inr_iff)
  have "wf_node (w_tree w')" "look ws (w_tree w') = Some b"
    using obeysD [OF prepare_keeps [OF assms(1,3)] assms(10)] assms(4,5) by (simp_all add: on_trees_def)
  moreover have "planned ?Q b ops" "\<And>op. op \<in> set ops \<Longrightarrow> \<not> flagged op"
    using stage_payloads_planned [OF assms(6,7) s [unfolded assms(8)]] assms(8,9) Q by auto
  moreover have "wf_node b" using assms(6) by (simp add: scan_of_def)
  ultimately show "ready ws ?Q b (r, w')" using path_str_rooted [OF Q]
    by (simp add: ready_def untouched_def r in_set_conv_nth)
  show "r_commit_id r = i" "r_plan_id r = p_id plan" by (simp_all add: r)
qed

end
