(* ===== verification/CommitSafety.thy ===== *)
theory CommitSafety
  imports PrepareFacts
begin

text \<open>
  What a whole commit guarantees: checks first, then the lock, the prepared record, the changes
  and the bookkeeping after them, whichever call fails.
\<close>

subsection \<open>The steps around the changes\<close>

lemma state_apart:
  "guarded g \<Longrightarrow> a \<noteq> a' \<Longrightarrow> apart (b_root g @ a # x) (b_root g @ a' # y)"
  using root_not_Nil by (simp add: apart_same parallel_def)

text \<open>Nothing below the state root is a link to elsewhere.\<close>

definition no_state_links :: "guard \<Rightarrow> bool" where
  "no_state_links g \<longleftrightarrow> (\<forall>p. prefix (b_root g) p \<longrightarrow> h_resolve (b_host g) p = p)"

lemma remove_keeps:
  assumes "guarded g" "no_state_links g" "rooted (b_root g @ p)" "apart (b_root g @ p) q"
  shows "obeys (keeps q) (remove_if_there g (b_root g @ p))"
proof -
  have r: "h_resolve (b_host g) (b_root g @ p) = b_root g @ p" "h_resolve (b_host g) (b_root g) = b_root g"
    using assms(2) by (auto simp: no_state_links_def)
  have "obeys (keeps q) (os_call (b_host g) (rmtree_tree (b_root g @ p)))"
    using assms(3,4) by (intro change_keeps) (auto simp: rmtree_tree_def split: if_splits)
  then show ?thesis
    unfolding remove_if_there_def remove_state_tree_def Let_def r
    by (intro keeps.bind keeps.cond keeps.pure reading_keeps)
qed

lemma log_event_apart:
  assumes "guarded g" "rooted q" "apart (audit_path g) q"
  shows "obeys (keeps q) (log_event g ev kvs)"
  unfolding log_event_def using assms
  by (intro keeps.bind keeps.pure audit_append_keeps) (auto simp: audit_path_def)

text \<open>The bookkeeping after the changes keeps the workspace and the record of the commit.\<close>

lemma finish_keeps_workspace:
  assumes "isolates g ws" "is_name i"
  shows "obeys (keeps ws) (finish_commit g plan t (apply_of g i) r)"
  unfolding finish_commit_def using assms
  by (intro keeps.bind keeps.pure saves_keep log_event_keeps remove_if_there_keeps) (auto simp: apply_of_def)

lemma finish_keeps_record:
  assumes "guarded g" "no_state_links g" "is_name i" "commit_path g k = Inr F"
  shows "obeys (keeps F) (finish_commit g plan t (apply_of g i) r)"
proof -
  have R: "rooted F" using state_paths(4) [OF assms(1,4)] by simp
  obtain j where F: "F = b_root g @ [''commits'', j]" "rooted F"
    using assms(4) R by (auto simp: commit_path_def bindE_Inr_iff)
  have "obeys (keeps F) (remove_if_there g (apply_of g i))"
    unfolding apply_of_def using assms(1-3) F state_apart by (intro remove_keeps) auto
  moreover have "obeys (keeps F) (atomic_write_json (b_host g) p v)"
    if "plan_path g x = Inr p \<or> transaction_path g x = Inr p" for p x v
    using that F state_apart [OF assms(1)] state_paths(1,2) [OF assms(1), of x p]
    by (intro atomic_write_json_keeps) (auto simp: plan_path_def transaction_path_def bindE_Inr_iff)
  moreover have "obeys (keeps F) (log_event g ev kvs)" for ev kvs
    using F assms(1) state_apart by (intro log_event_apart) (auto simp: audit_path_def)
  ultimately show ?thesis
    unfolding finish_commit_def save_plan_def save_transaction_def by (intro keeps.bind keeps.pure bind_lift_keeps) auto
qed

subsection \<open>The lock\<close>

lemma lock_path_rooted:
  assumes "guarded g" "sha256_hex (b_crypto g)" shows "rooted (lock_path g p)"
proof -
  have "is_name (take 32 (digest_json (b_crypto g) v) @ ''.lock'')" for v
  proof -
    have "\<forall>c \<in> set (take 32 (digest_json (b_crypto g) v)). hex_lower c"
      using assms(2) by (auto simp: sha256_hex_def digest_json_def dest: in_set_takeD)
    moreover have "\<not> hex_lower (CHR ''/'')" "\<not> hex_lower (CHR 0x00)" by (simp_all add: hex_lower_def is_digit_def)
    ultimately show ?thesis by (auto simp: is_name_def is_component_def)
  qed
  then show ?thesis using assms(1) by (simp add: lock_path_def)
qed

lemma lock_calls_keep:
  assumes "rooted p" "apart p q"
  shows "obeys (keeps q) (os_call h (create_lock_tree p))" "obeys (keeps q) (os_call h (write_lock_tree p c))"
    "obeys (keeps q) (ignore_missingA (os_call h (unlink_tree p)))"
proof -
  show "obeys (keeps q) (os_call h (create_lock_tree p))"
    using assms by (intro change_keeps) (auto simp: create_lock_tree_def create_file_tree_def split: if_splits)
  have "t' = t \<or> (\<exists>d m. t' = change_tree p (Some (FileN d m c)) t)" if "write_lock_tree p c t = Inr (x, t')" for t x t'
    using that by (auto simp: write_lock_tree_def split: option.splits node.splits)
  then show "obeys (keeps q) (os_call h (write_lock_tree p c))"
    using assms by (intro change_keeps) fastforce+
  show "obeys (keeps q) (ignore_missingA (os_call h (unlink_tree p)))"
    using assms by (intro keeps.ignore_missing change_keeps) (auto simp: unlink_tree_def split: option.splits if_splits)
qed

text \<open>An operation that ran under the lock, and the world before and after it\<close>

lemma with_lock_cases:
  assumes "with_lock g ws body w = (x, w')"
  obtains (held) e where "x = Inl e" "w' = snd (os_call (b_host g) (create_lock_tree (lock_path g ws)) w)"
    | (broken) w1 w2 e where "os_call (b_host g) (create_lock_tree (lock_path g ws)) w = (Inr (), w1)"
        "os_call (b_host g) (write_lock_tree (lock_path g ws) (''pid='' @ h_pid (b_host g) @ [CHR 0x0A])) w1 = (Inl e, w2)"
        "w' = snd (ignore_missingA (os_call (b_host g) (unlink_tree (lock_path g ws))) w2)" "\<exists>e. x = Inl e"
    | (ran) w1 w2 w3 y where "os_call (b_host g) (create_lock_tree (lock_path g ws)) w = (Inr (), w1)"
        "os_call (b_host g) (write_lock_tree (lock_path g ws) (''pid='' @ h_pid (b_host g) @ [CHR 0x0A])) w1 = (Inr (), w2)"
        "body w2 = (y, w3)" "w' = snd (ignore_missingA (os_call (b_host g) (unlink_tree (lock_path g ws))) w3)"
        "x = y \<or> (\<exists>e. x = Inl e)"
  using assms unfolding with_lock_def Let_def
  by (auto simp: bindA_def finallyA_def split: prod.splits sum.splits)

subsection \<open>The commit under the lock\<close>

text \<open>The record \<open>r\<close> of a commit made since the tree was \<open>t\<^sub>0\<close> is on disk.\<close>

definition new_commit :: "guard \<Rightarrow> string \<Rightarrow> node \<Rightarrow> commit_record \<Rightarrow> node \<Rightarrow> bool" where
  "new_commit g plan_id t0 r t \<longleftrightarrow> r_plan_id r = plan_id \<and> look (quarantine_of g (r_commit_id r)) t0 = None \<and>
     (\<exists>F. commit_path g (r_commit_id r) = Inr F \<and> record_at F t = Some r)"

text \<open>How a commit may leave the world: with an error and the workspace as it was, with an error and a
record that says so, or committed\<close>

definition safe_outcome :: "guard \<Rightarrow> path \<Rightarrow> commit_plan \<Rightarrow> node \<Rightarrow> commit_record result \<Rightarrow> node \<Rightarrow> bool" where
  "safe_outcome g ws plan t0 x t \<longleftrightarrow>
     (case x of
        Inl _ \<Rightarrow> look ws t = look ws t0 \<or> (\<exists>r. new_commit g (p_id plan) t0 r t \<and> r_status r \<noteq> ''rolled_back'')
      | Inr r \<Rightarrow> new_commit g (p_id plan) t0 r t \<and> r_status r = ''committed'' \<and> has_digest g ws t (p_staged_digest plan))"

lemma new_commit_keeps:
  assumes "new_commit g pid t0 r t" "\<And>F. commit_path g (r_commit_id r) = Inr F \<Longrightarrow> look F t' = look F t"
  shows "new_commit g pid t0 r t'"
proof -
  obtain F where F: "commit_path g (r_commit_id r) = Inr F" "record_at F t = Some r" using assms(1) by (auto simp: new_commit_def)
  have "record_at F t' = record_at F t" using assms(2) [OF F(1)] by (simp add: record_at_def json_at_def)
  then show ?thesis using assms(1) F by (auto simp: new_commit_def)
qed

lemma mkdirA_fresh: "mkdirA h m p w = (Inr u, w') \<Longrightarrow> look p (w_tree w) = None"
  by (auto simp: mkdirA_def os_call_def mkdir_tree_def Let_def split: if_splits sum.splits)

text \<open>Up to the record nothing touches the workspace.\<close>

lemma prepared_keeps:
  assumes "isolates g ws" "is_name i"
  shows "obeys (keeps ws) (mkdirA (b_host g) 448 (quarantine_of g i))"
    "obeys (keeps ws) (mkdirA (b_host g) 448 (apply_of g i))"
    "obeys (keeps ws) (on_errorA (prepare g plan t baseline i)
       (clean_up_unprepared g (apply_of g i) (quarantine_of g i)))"
proof -
  show "obeys (keeps ws) (mkdirA (b_host g) 448 (quarantine_of g i))"
    "obeys (keeps ws) (mkdirA (b_host g) 448 (apply_of g i))"
    unfolding quarantine_of_def apply_of_def using assms by (intro state_mkdir_keeps; simp)+
  have "rooted (quarantine_of g i)" "rooted (apply_of g i)"
    using assms by (simp_all add: quarantine_of_def apply_of_def)
  then have "obeys (keeps ws) (clean_up_unprepared g (apply_of g i) (quarantine_of g i))"
    unfolding clean_up_unprepared_def using assms(1) by (intro keeps.bind remove_if_there_keeps)
  then show "obeys (keeps ws) (on_errorA (prepare g plan t baseline i)
      (clean_up_unprepared g (apply_of g i) (quarantine_of g i)))"
    using prepare_keeps [OF assms] by (rule keeps.on_error [rotated])
qed

lemma commit_locked_unfold:
  "commit_locked g plan t baseline = thenA (recheck g plan t baseline)
     (bindA (new_id (b_host g) ''commit'') (\<lambda>i.
        thenA (mkdirA (b_host g) 448 (quarantine_of g i))
       (thenA (mkdirA (b_host g) 448 (apply_of g i))
       (bindA (on_errorA (prepare g plan t baseline i) (clean_up_unprepared g (apply_of g i) (quarantine_of g i)))
         (\<lambda>r. bindA (with_record (apply_record g plan (path_of (t_workspace_root t)) (apply_of g i))
           (rollback_failed_commit g (path_of (t_workspace_root t)) baseline) r)
             (\<lambda>r. thenA (finish_commit g plan t (apply_of g i) r) (returnA r)))))))"
  by (simp add: commit_locked_def Let_def quarantine_of_def apply_of_def)

lemma applied_outcome:
  assumes "isolates g ws" "no_state_links g" "is_name i"
    and "ready ws (quarantine_of g i) b (r, w)" "r_commit_id r = i" "r_plan_id r = p_id plan"
    and "look (quarantine_of g i) t0 = None" "look ws t0 = Some b"
    and "bindA (with_record (apply_record g plan ws (apply_of g i)) (rollback_failed_commit g ws baseline) r)
       (\<lambda>r. thenA (finish_commit g plan t (apply_of g i) r) (returnA r)) w = (x, w')"
  shows "wf_node (w_tree w') \<and> safe_outcome g ws plan t0 x (w_tree w')"
proof -
  note S = setting_of [OF assms(1,3)]
  let ?m = "on_errorA (apply_record g plan ws (apply_of g i)) (rollback_failed_commit g ws baseline)"
  from assms(9) show ?thesis
  proof (cases rule: bindA_cases)
    case (1 e)
    then obtain s' where m: "?m (r, w) = (Inl e, s')" "w' = snd s'"
      by (auto simp: with_record_def split: prod.splits sum.splits)
    have o: "(look ws (w_tree w') = Some b \<or> traced g r (w_tree w')) \<and> wf_node (w_tree w')"
      using apply_or_rollback [OF S assms(4) m(1)] m(2) by simp
    have "new_commit g (p_id plan) t0 r' (w_tree w') \<and> r_status r' \<noteq> ''rolled_back''"
      if "commit_path g i = Inr F" "record_at F (w_tree w') = Some r'" "(r_commit_id r', r_plan_id r') = (i, p_id plan)"
        "r_status r' \<noteq> ''rolled_back''" for r' F
      using that assms(7) by (simp add: new_commit_def)
    then show ?thesis using o assms(5,6,8) 1(2)
      by (fastforce simp: safe_outcome_def traced_def evidence_def)
  next
    case (2 r' w1)
    then have "?m (r, w) = (Inr (), (r', w1))"
      by (auto simp: with_record_def split: prod.splits sum.splits)
    then have a: "apply_record g plan ws (apply_of g i) (r, w) = (Inr (), (r', w1))"
      by (auto simp: on_errorA_def split: prod.splits sum.splits)
    note A = apply_record_success [OF S assms(4) a, unfolded fst_conv snd_conv]
    have n: "new_commit g (p_id plan) t0 r' (w_tree w1)"
      using A(4-6) assms(5-7) by (auto simp: new_commit_def)
    obtain y where f: "finish_commit g plan t (apply_of g i) r' w1 = (y, w')"
      and x: "x = Inr r' \<or> (\<exists>e. x = Inl e)"
      using 2(2) by (auto elim!: bindA_cases simp: returnA_def)
    have ws: "wf_node (w_tree w')" "look ws (w_tree w') = look ws (w_tree w1)"
      using obeysD [OF finish_keeps_workspace [OF assms(1,3)] f] A(1) by (simp_all add: on_trees_def)
    have F: "look F (w_tree w') = look F (w_tree w1)" if "commit_path g (r_commit_id r') = Inr F" for F
      using obeysD [OF finish_keeps_record [OF _ assms(2,3) that] f] assms(1) A(1) by (simp add: on_trees_def)
    have "new_commit g (p_id plan) t0 r' (w_tree w')" by (rule new_commit_keeps [OF n F])
    moreover have "has_digest g ws (w_tree w') (p_staged_digest plan)"
      using A(2) ws(2) by (simp add: has_digest_def)
    ultimately show ?thesis using x A(3) ws(1) by (auto simp: safe_outcome_def)
  qed
qed

text \<open>The manifest read from disk passed its check and is the one the plan names.\<close>

definition baseline_of :: "guard \<Rightarrow> commit_plan \<Rightarrow> tree_manifest \<Rightarrow> bool" where
  "baseline_of g plan baseline \<longleftrightarrow> (\<forall>p \<in> set (m_entries baseline). e_path (snd p) = fst p) \<and>
     manifest_digest (b_crypto g) (m_entries baseline) = p_baseline_digest plan"

text \<open>The scan of the workspace hashes to the digest of another manifest.\<close>

definition forged_baseline :: "guard \<Rightarrow> path \<Rightarrow> node \<Rightarrow> tree_manifest \<Rightarrow> bool" where
  "forged_baseline g ws t baseline \<longleftrightarrow>
     (\<exists>m. scan_tree (b_crypto g) (default_limits (b_excluded g)) ws (look ws t) = Inr m \<and>
        sha256_collision (b_crypto g) {manifest_text (m_entries baseline)} {manifest_text (m_entries m)})"

lemma recheck_plan:
  assumes "recheck g plan t baseline w = (Inr u, w1)" "baseline_of g plan baseline" "wf_node (w_tree w)"
    and "\<not> forged_baseline g (path_of (t_workspace_root t)) (w_tree w) baseline"
  obtains b s mr ms where "look (path_of (t_workspace_root t)) (w_tree w) = Some b" "w_tree w1 = w_tree w"
    "scan_of (b_crypto g) (b_excluded g) b mr" "scan_of (b_crypto g) (b_excluded g) s ms"
    "p_changes plan = diff_manifests mr ms"
proof -
  let ?lim = "default_limits (b_excluded g)"
  obtain mr ms where r: "scan_tree (b_crypto g) ?lim (path_of (t_workspace_root t))
       (look (path_of (t_workspace_root t)) (w_tree w)) = Inr mr" "m_digest mr = p_baseline_digest plan"
    "scan_tree (b_crypto g) ?lim (path_of (t_worktree_root t)) (look (path_of (t_worktree_root t)) (w_tree w)) = Inr ms"
    "m_digest ms = p_staged_digest plan" "p_changes plan = diff_manifests baseline ms" "w_tree w1 = w_tree w"
    by (rule recheck_Inr [OF assms(1)])
  obtain b s where bs: "look (path_of (t_workspace_root t)) (w_tree w) = Some b"
    "look (path_of (t_worktree_root t)) (w_tree w) = Some s"
    using scan_tree_SomeD [OF r(1)] scan_tree_SomeD [OF r(3)] by blast
  have wf: "wf_node b" "wf_node s" using look_wf [OF assms(3)] bs by blast+
  have so: "scan_of (b_crypto g) (b_excluded g) b mr" "scan_of (b_crypto g) (b_excluded g) s ms"
    using scan_ofI [OF wf(1) r(1) [unfolded bs(1)]] scan_ofI [OF wf(2) r(3) [unfolded bs(2)]] by (simp_all add: default_limits_def)
  have "map_of (m_entries baseline) = map_of (m_entries mr)"
  proof (rule digest_same_map)
    show "keyed (m_entries mr)" by (rule scan_of_keyed [OF so(1)])
    show "manifest_digest (b_crypto g) (m_entries baseline) = manifest_digest (b_crypto g) (m_entries mr)"
      using assms(2) r(2) scan_tree_Inr(4) [OF wf(1) r(1) [unfolded bs(1)]] by (simp add: baseline_of_def)
    show "\<not> sha256_collision (b_crypto g) {manifest_text (m_entries baseline)} {manifest_text (m_entries mr)}"
      using assms(4) r(1) by (auto simp: forged_baseline_def)
  qed (use assms(2) in \<open>simp add: baseline_of_def\<close>)
  then have "p_changes plan = diff_manifests mr ms" using r(5) diff_cong [of baseline mr ms] by simp
  with bs(1) r(6) so show ?thesis by (rule that)
qed

text \<open>Before the changes start, every way out leaves the workspace as it was.\<close>

definition unmoved :: "path \<Rightarrow> node \<Rightarrow> world \<Rightarrow> bool" where
  "unmoved ws t0 w \<longleftrightarrow> wf_node (w_tree w) \<and> look ws (w_tree w) = look ws t0"

definition safe_end :: "guard \<Rightarrow> path \<Rightarrow> commit_plan \<Rightarrow> node \<Rightarrow> commit_record result \<times> world \<Rightarrow> bool" where
  "safe_end g ws plan t0 s \<longleftrightarrow> wf_node (w_tree (snd s)) \<and> safe_outcome g ws plan t0 (fst s) (w_tree (snd s))"

lemma safe_early: "unmoved ws t0 w \<Longrightarrow> safe_end g ws plan t0 (Inl e, w)"
  by (simp add: unmoved_def safe_end_def safe_outcome_def)

lemma unmoved_keeps: "obeys (keeps ws) m \<Longrightarrow> unmoved ws t0 w \<Longrightarrow> m w = (y, w1) \<Longrightarrow> unmoved ws t0 w1"
  by (auto simp: unmoved_def on_trees_def dest!: obeysD)

lemma safe_bind:
  assumes "unmoved ws t0 w" "obeys (keeps ws) m"
    and "\<And>y w1. m w = (Inr y, w1) \<Longrightarrow> unmoved ws t0 w1 \<Longrightarrow> safe_end g ws plan t0 (f y w1)"
  shows "safe_end g ws plan t0 (bindA m f w)"
proof (cases "m w")
  case (Pair y w1)
  have u: "unmoved ws t0 w1" by (rule unmoved_keeps [OF assms(2,1) Pair])
  show ?thesis
  proof (cases y)
    case (Inl e)
    then show ?thesis using safe_early [OF u] Pair by (simp add: bindA_def)
  next
    case (Inr y')
    then show ?thesis using assms(3) [OF _ u] Pair by (simp add: bindA_def)
  qed
qed

lemma commit_locked_outcome:
  assumes "isolates g ws" "hd (b_root g) = ''/''" "no_state_links g" "wf_node (w_tree w)"
    and "ws = path_of (t_workspace_root t)" "baseline_of g plan baseline" "\<not> forged_baseline g ws (w_tree w) baseline"
    and "\<And>c. c \<in> set (p_changes plan) \<Longrightarrow> hd (parts c) \<noteq> ''_failed_new''"
  shows "safe_end g ws plan (w_tree w) (commit_locked g plan t baseline w)"
  unfolding commit_locked_unfold
proof (rule safe_bind [OF _ reads_keeps [OF recheck_reads]])
  show "unmoved ws (w_tree w) w" using assms(4) by (simp add: unmoved_def)
  fix u w1 assume r: "recheck g plan t baseline w = (Inr u, w1)" "unmoved ws (w_tree w) w1"
  obtain b s mr ms where p: "look ws (w_tree w) = Some b" "w_tree w1 = w_tree w"
    "scan_of (b_crypto g) (b_excluded g) b mr" "scan_of (b_crypto g) (b_excluded g) s ms"
    "p_changes plan = diff_manifests mr ms"
    by (rule recheck_plan [OF r(1) assms(6,4), folded assms(5), OF assms(7)])
  show "safe_end g ws plan (w_tree w) (bindA (new_id (b_host g) ''commit'') (\<lambda>i.
        thenA (mkdirA (b_host g) 448 (quarantine_of g i))
       (thenA (mkdirA (b_host g) 448 (apply_of g i))
       (bindA (on_errorA (prepare g plan t baseline i) (clean_up_unprepared g (apply_of g i) (quarantine_of g i)))
         (\<lambda>r. bindA (with_record (apply_record g plan (path_of (t_workspace_root t)) (apply_of g i))
           (rollback_failed_commit g (path_of (t_workspace_root t)) baseline) r)
             (\<lambda>r. thenA (finish_commit g plan t (apply_of g i) r) (returnA r)))))) w1)"
  proof (rule safe_bind [OF r(2) reading_keeps(3)])
    fix i w2 assume n: "new_id (b_host g) ''commit'' w1 = (Inr i, w2)" "unmoved ws (w_tree w) w2"
    have i: "is_name i" using new_id_names [OF n(1)] minted_name by auto
    have t2: "w_tree w2 = w_tree w" using obeysD [OF reading(3) n(1)] p(2) by simp
    note K = prepared_keeps [OF assms(1) i]
    show "safe_end g ws plan (w_tree w) (thenA (mkdirA (b_host g) 448 (quarantine_of g i))
       (thenA (mkdirA (b_host g) 448 (apply_of g i))
       (bindA (on_errorA (prepare g plan t baseline i) (clean_up_unprepared g (apply_of g i) (quarantine_of g i)))
         (\<lambda>r. bindA (with_record (apply_record g plan (path_of (t_workspace_root t)) (apply_of g i))
           (rollback_failed_commit g (path_of (t_workspace_root t)) baseline) r)
             (\<lambda>r. thenA (finish_commit g plan t (apply_of g i) r) (returnA r))))) w2)"
    proof (rule safe_bind [OF n(2) K(1)], rule safe_bind [OF _ K(2)], assumption, rule safe_bind [OF _ K(3)], assumption)
      fix v w3 w4 r w5
      assume q: "mkdirA (b_host g) 448 (quarantine_of g i) w2 = (Inr v, w3)"
        and u: "unmoved ws (w_tree w) w4"
        and m: "on_errorA (prepare g plan t baseline i) (clean_up_unprepared g (apply_of g i) (quarantine_of g i)) w4 = (Inr r, w5)"
      have q0: "look (quarantine_of g i) (w_tree w) = None" using mkdirA_fresh [OF q] t2 by simp
      have pr: "prepare g plan t baseline i w4 = (Inr r, w5)"
        using m by (auto simp: on_errorA_def split: prod.splits sum.splits)
      have u4: "wf_node (w_tree w4)" "look ws (w_tree w4) = Some b" using u p(1) by (simp_all add: unmoved_def)
      note R = prepare_ready [OF assms(1,2) i u4 p(3-5) assms(8) pr]
      show "safe_end g ws plan (w_tree w) (bindA (with_record (apply_record g plan (path_of (t_workspace_root t)) (apply_of g i))
           (rollback_failed_commit g (path_of (t_workspace_root t)) baseline) r)
             (\<lambda>r. thenA (finish_commit g plan t (apply_of g i) r) (returnA r)) w5)" (is "safe_end _ _ _ _ ?run")
        using applied_outcome [OF assms(1,3) i R(1) R(2) R(3) q0 p(1), of baseline t "fst ?run" "snd ?run"]
        unfolding assms(5) [symmetric] safe_end_def by simp
    qed
  qed
qed

subsection \<open>The whole commit\<close>

lemma verify_approval_reads: "obeys reads (verify_approval g token plan)"
  unfolding verify_approval_def by (intro reads.bind reads.pure reading)

lemma resolve_approval_reads: "obeys reads (resolve_approval g a)"
  unfolding resolve_approval_def
  by (cases a; simp only: approval_argument.case; intro reads.bind reads.pure read_json_reads)

lemma authorise_reads: "obeys reads (authorise g i a)"
  unfolding authorise_def
  by (intro reads.bind reads.pure reads.cond loads_read fresh_reads resolve_approval_reads verify_approval_reads)

lemma verified_baseline:
  assumes "load_baseline g t w = (Inr m, w1)"
  shows "\<forall>p \<in> set (m_entries m). e_path (snd p) = fst p" "manifest_digest (b_crypto g) (m_entries m) = t_baseline_digest t"
proof -
  have v: "verify_manifest (b_crypto g) (h_resolve (b_host g)) m (Some (path_of (t_workspace_root t))) = Inr ()"
    and d: "m_digest m = t_baseline_digest t"
    using assms by (auto simp: load_baseline_def bindA_Inr_iff requireA_iff liftA_def)
  show "\<forall>p \<in> set (m_entries m). e_path (snd p) = fst p"
    using v by (auto simp: verify_manifest_def bindE_Inr_iff split: if_splits dest: check_entries_keyed)
  show "manifest_digest (b_crypto g) (m_entries m) = t_baseline_digest t"
    using v d by (auto simp: verify_manifest_def bindE_Inr_iff split: if_splits)
qed

lemma authorise_Inr:
  assumes "authorise g i a w = (Inr (plan, t, baseline), w1)"
  shows "p_id plan = i" "p_state plan = PLAN_PENDING" "p_decision plan \<noteq> DENY" "t_state t = TX_PLANNED"
    "baseline_of g plan baseline"
    "p_decision plan = REQUIRE_APPROVAL \<Longrightarrow> \<exists>token now. check_token g token = Inr () \<and> check_binding token plan now = Inr ()"
proof -
  obtain wl where wl: "load_plan g i w = (Inr plan, wl)"
    using assms by (auto simp: authorise_def bindA_Inr_iff)
  then show "p_id plan = i"
    by (auto simp: load_plan_def bindA_Inr_iff requireA_iff validate_object_id_Inr_iff liftA_def)
  show "p_state plan = PLAN_PENDING" "p_decision plan \<noteq> DENY" "t_state t = TX_PLANNED"
    using assms by (auto simp: authorise_def bindA_Inr_iff requireA_iff assert_plan_pending_and_fresh_def)
  obtain w2 where "load_baseline g t w2 = (Inr baseline, w1)" "p_baseline_digest plan = t_baseline_digest t"
    using assms by (auto simp: authorise_def bindA_Inr_iff requireA_iff)
  then show "baseline_of g plan baseline"
    using verified_baseline by (simp add: baseline_of_def)
  assume r: "p_decision plan = REQUIRE_APPROVAL"
  then obtain token w3 w4 where "verify_approval g token plan w3 = (Inr (), w4)"
    using assms by (auto simp: authorise_def bindA_Inr_iff)
  then show "\<exists>token now. check_token g token = Inr () \<and> check_binding token plan now = Inr ()"
    by (auto simp: verify_approval_def bindA_Inr_iff liftA_def)
qed

lemma safe_end_start:
  assumes "safe_end g ws plan t1 s" "look ws t1 = look ws t0" "\<And>i. look (quarantine_of g i) t1 = look (quarantine_of g i) t0"
  shows "safe_end g ws plan t0 s"
  using assms(1) unfolding safe_end_def safe_outcome_def new_commit_def assms(2,3) .

lemma has_digest_keeps: "look ws t' = look ws t \<Longrightarrow> has_digest g ws t' d = has_digest g ws t d"
  by (simp add: has_digest_def)

lemma safe_outcome_keeps:
  assumes "safe_outcome g ws plan t0 x t" "look ws t' = look ws t"
    and "\<And>i F. commit_path g i = Inr F \<Longrightarrow> look F t' = look F t"
  shows "safe_outcome g ws plan t0 x t'" and "safe_outcome g ws plan t0 (Inl e) t'"
proof -
  have n: "new_commit g (p_id plan) t0 r t'" if "new_commit g (p_id plan) t0 r t" for r
    by (rule new_commit_keeps [OF that assms(3)])
  show "safe_outcome g ws plan t0 x t'"
    using assms(1) n unfolding safe_outcome_def assms(2) has_digest_keeps [OF assms(2)] by (cases x) auto
  show "safe_outcome g ws plan t0 (Inl e) t'"
    using assms(1) n unfolding safe_outcome_def assms(2) by (cases x) auto
qed

lemma safe_finally:
  assumes "safe_end g ws plan t0 (m w)" "obeys (keeps ws) n" "\<And>i F. commit_path g i = Inr F \<Longrightarrow> obeys (keeps F) n"
  shows "safe_end g ws plan t0 (finallyA m n w)"
proof -
  obtain x w1 y w2 where m: "m w = (x, w1)" and n: "n w1 = (y, w2)" by (metis surj_pair)
  have e: "wf_node (w_tree w1)" "safe_outcome g ws plan t0 x (w_tree w1)" using assms(1) m by (simp_all add: safe_end_def)
  have k: "wf_node (w_tree w2)" "look ws (w_tree w2) = look ws (w_tree w1)"
    "\<And>i F. commit_path g i = Inr F \<Longrightarrow> look F (w_tree w2) = look F (w_tree w1)"
    using obeysD [OF assms(2) n] obeysD [OF assms(3) n] e(1) by (simp_all add: on_trees_def)
  show ?thesis
    using k(1) safe_outcome_keeps [OF e(2) k(2,3)] m n by (cases y) (simp_all add: finallyA_def safe_end_def)
qed

lemma safe_lock:
  assumes "isolates g ws" "sha256_hex (b_crypto g)" "wf_node (w_tree w)"
    and "\<And>w1. wf_node (w_tree w1) \<Longrightarrow> look ws (w_tree w1) = look ws (w_tree w) \<Longrightarrow> safe_end g ws plan (w_tree w1) (body w1)"
  shows "safe_end g ws plan (w_tree w) (with_lock g ws body w)"
proof -
  let ?p = "lock_path g ws" and ?t0 = "w_tree w"
  have p: "rooted ?p" by (rule lock_path_rooted) (use assms in simp_all)
  have a: "apart ?p ws" using assms(1) by (auto simp: lock_path_def)
  have aq: "apart ?p (quarantine_of g i)" for i
    using assms(1) state_apart [of g "''locks''" "''quarantine''"] by (simp add: lock_path_def quarantine_of_def)
  have aF: "apart ?p F" if "commit_path g i = Inr F" for i F
    using that assms(1) state_apart [of g "''locks''" "''commits''"] by (auto simp: lock_path_def commit_path_def bindE_Inr_iff)
  have q: "look (quarantine_of g i) (w_tree w1) = look (quarantine_of g i) (w_tree w0)"
    if "os_call (b_host g) f w0 = (y, w1)" "wf_node (w_tree w0)" "\<And>i. obeys (keeps (quarantine_of g i)) (os_call (b_host g) f)"
    for f and y :: "unit result" and w0 w1 i
    using obeysD [OF that(3,1)] that(2) by (simp add: on_trees_def)
  show ?thesis
    unfolding with_lock_def Let_def
  proof (rule safe_bind [OF _ lock_calls_keep(1) [OF p a]], simp add: unmoved_def assms(3),
      rule safe_finally [OF safe_bind [OF _ lock_calls_keep(2) [OF p a]] lock_calls_keep(3) [OF p a] lock_calls_keep(3) [OF p aF]])
    fix y w1 z w2
    assume c: "os_call (b_host g) (create_lock_tree ?p) w = (Inr y, w1)" "unmoved ws ?t0 w1"
      "os_call (b_host g) (write_lock_tree ?p (''pid='' @ h_pid (b_host g) @ [CHR 0x0A])) w1 = (Inr z, w2)" "unmoved ws ?t0 w2"
    show "safe_end g ws plan ?t0 (body w2)"
      using q [OF c(1) assms(3) lock_calls_keep(1) [OF p aq]] q [OF c(3) _ lock_calls_keep(2) [OF p aq]] c(2,4)
      by (intro safe_end_start [OF assms(4)]) (simp_all add: unmoved_def)
  qed assumption+
qed

text \<open>The assumptions on the state root and on the hash\<close>

definition sound_broker :: "guard \<Rightarrow> bool" where
  "sound_broker g \<longleftrightarrow> guarded g \<and> hd (b_root g) = ''/'' \<and> no_state_links g \<and> sha256_hex (b_crypto g)"

text \<open>The name the rollback uses inside the quarantine is free.\<close>

definition spares_failed_new :: "commit_plan \<Rightarrow> bool" where
  "spares_failed_new plan \<longleftrightarrow> (\<forall>c \<in> set (p_changes plan). hd (parts c) \<noteq> ''_failed_new'')"

lemma commit_safe_end:
  assumes "sound_broker g" "wf_node (w_tree w)" "authorise g i a w = (Inr (plan, t, baseline), w1)"
    and "ws = path_of (t_workspace_root t)" "rooted ws" "apart (b_root g) ws" "spares_failed_new plan"
    and "\<not> forged_baseline g ws (w_tree w) baseline"
  shows "safe_end g ws plan (w_tree w) (commit g i a w)"
proof -
  have g: "isolates g ws" "hd (b_root g) = ''/''" "no_state_links g" "sha256_hex (b_crypto g)"
    using assms(1,5,6) by (simp_all add: sound_broker_def)
  have t1: "w_tree w1 = w_tree w" by (rule obeysD [OF authorise_reads assms(3)])
  have "safe_end g ws plan (w_tree w1) (with_lock g ws (commit_locked g plan t baseline) w1)"
  proof (rule safe_lock [OF g(1,4)])
    fix w2 :: world assume w2: "wf_node (w_tree w2)" "look ws (w_tree w2) = look ws (w_tree w1)"
    have "\<not> forged_baseline g ws (w_tree w2) baseline" using assms(8) t1 w2(2) by (simp add: forged_baseline_def)
    then show "safe_end g ws plan (w_tree w2) (commit_locked g plan t baseline w2)"
      using commit_locked_outcome [OF g(1-3) w2(1) assms(4) authorise_Inr(5) [OF assms(3)]] assms(7)
      by (simp add: spares_failed_new_def)
  qed (simp add: t1 assms(2))
  then show ?thesis using assms(3,4) t1 by (simp add: commit_def bindA_def)
qed

end
