(* ===== verification/SampleCommit.thy ===== *)
theory SampleCommit
  imports CommitSafety
begin

text \<open>
  A broker state with one approved plan, in which the theorems on commits can be applied: the
  workspace \<^verbatim>\<open>/w\<close> holds one file and the staged tree another version of it.
\<close>

subsection \<open>Reading state files on a quiet host\<close>

lemma read_json_quiet:
  "json_at p (w_tree w) = Some v \<Longrightarrow> \<not> h_fault h (w_calls w) \<Longrightarrow>
    read_json h p w = (Inr v, w\<lparr>w_calls := Suc (w_calls w)\<rparr>)"
  by (auto simp: read_json_def json_at_def os_call_def Let_def split: option.splits node.splits)

definition json_file :: "json \<Rightarrow> node" where
  "json_file v = FileN 1 384 (canonical_json v @ [CHR 0x0A])"

lemma json_at_file: "look p t = Some (json_file v) \<Longrightarrow> json_ok v \<Longrightarrow> json_at p t = Some (sort_keys v)"
  by (simp add: json_at_def json_file_def canonical_read loads_dumps)

subsection \<open>The records\<close>

definition fixed_crypto :: crypto where
  "fixed_crypto = \<lparr>sha256 = \<lambda>_. replicate 64 (CHR ''a''), hmac = \<lambda>_ _. replicate 32 (CHR ''a'')\<rparr>"

definition fixed_digest :: string where "fixed_digest = replicate 64 (CHR ''a'')"

definition fixed_guard :: guard where
  "fixed_guard = \<lparr>b_host = quiet_host, b_crypto = fixed_crypto, b_key = ''k'', b_root = [''/'', ''s''],
     b_policy = default_policy, b_excluded = []\<rparr>"

definition sample_body :: string where "sample_body = replicate 24 (CHR ''A'')"

definition sample_tx :: string where "sample_tx = ''tx_'' @ sample_body"
definition sample_plan_id :: string where "sample_plan_id = ''plan_'' @ sample_body"
definition sample_approval :: string where "sample_approval = ''approval_'' @ sample_body"

definition sample_dir :: path where "sample_dir = [''/'', ''s'', ''transactions'', sample_tx]"

definition sample_transaction :: transaction where
  "sample_transaction = sign_transaction fixed_guard
    \<lparr>t_id = sample_tx, t_task_id = ''t'', t_workspace_root = path_str [''/'', ''w''],
     t_transaction_root = path_str sample_dir, t_worktree_root = path_str (sample_dir @ [''worktree'']),
     t_home_root = path_str (sample_dir @ [''home'']), t_temp_root = path_str (sample_dir @ [''tmp'']),
     t_baseline_path = path_str (sample_dir @ [''baseline.json'']),
     t_baseline_digest = fixed_digest, t_created_at = 900, t_workspace_device = 1, t_state = TX_PLANNED,
     t_signature = ''''\<rparr>"

definition sample_entry :: "int \<Rightarrow> manifest_entry" where
  "sample_entry n = \<lparr>e_path = ''a'', e_kind = FILE, e_mode = 420, e_size = n, e_digest = fixed_digest, e_link = None\<rparr>"

definition sample_baseline :: tree_manifest where
  "sample_baseline = \<lparr>m_root = path_str [''/'', ''w''], m_entries = [(''a'', sample_entry 1)], m_digest = fixed_digest,
     m_total_files = 1, m_total_bytes = 1\<rparr>"

definition sample_plan :: commit_plan where
  "sample_plan = sign_plan fixed_guard
    \<lparr>p_protocol_version = PROTOCOL_VERSION, p_id = sample_plan_id, p_transaction_id = sample_tx,
     p_task_id = ''t'', p_workspace_root = path_str [''/'', ''w''], p_baseline_digest = fixed_digest, p_staged_digest = fixed_digest,
     p_policy_digest = fixed_digest,
     p_changes = [\<lparr>c_path = ''a'', c_kind = MODIFY, c_before = Some (sample_entry 1), c_after = Some (sample_entry 2)\<rparr>],
     p_findings = [], p_decision = REQUIRE_APPROVAL, p_fingerprint = fixed_digest, p_created_at = 950, p_expires_at = 4550,
     p_signature = '''', p_state = PLAN_PENDING,
     p_summary = [(''added'', 0), (''added_bytes'', 0), (''baseline_entries'', 1), (''delete_fraction_ppm'', 0),
       (''deleted'', 0), (''modified'', 1), (''removed_bytes'', 0), (''replacement_bytes'', 2), (''staged_entries'', 1),
       (''total_changes'', 1), (''type_changed'', 0)]\<rparr>"

definition sample_token :: approval_token where
  "sample_token = make_token fixed_guard sample_plan sample_approval ''me'' 960 600"

definition sample_before :: node where "sample_before = DirN 1 493 [(''a'', FileN 1 420 ''x'')]"
definition sample_after :: node where "sample_after = DirN 1 493 [(''a'', FileN 1 420 ''yy'')]"

definition planned_world :: world where
  "planned_world = \<lparr>w_tree = DirN 1 493
    [(''s'', DirN 1 448
       [(''apply'', DirN 1 448 []), (''approvals'', DirN 1 448 []), (''commits'', DirN 1 448 []), (''locks'', DirN 1 448 []),
        (''plans'', DirN 1 448 [(sample_plan_id @ ''.json'', json_file (plan_to_dict sample_plan))]),
        (''quarantine'', DirN 1 448 []),
        (''transactions'', DirN 1 448 [(sample_tx, DirN 1 448
          [(''baseline.json'', json_file (manifest_to_dict sample_baseline)),
           (''transaction.json'', json_file (transaction_to_dict sample_transaction)),
           (''worktree'', sample_after)])])]),
     (''w'', sample_before)],
    w_calls = 0, w_ticks = 0, w_draws = 0\<rparr>"

subsection \<open>They satisfy the assumptions\<close>

lemma fixed_guard_sound: "sound_broker fixed_guard"
  by (simp add: sound_broker_def guarded_def no_state_links_def fixed_guard_def fixed_crypto_def quiet_host_def
      sha256_hex_def hex_lower_def rooted_def is_name_def is_component_def)

lemma sample_body_chars: "length sample_body = 24" "set sample_body = {CHR ''A''}"
  by (simp_all add: sample_body_def)

lemma planned_world_wf: "wf_node (w_tree planned_world)"
  using sample_body_chars
  by (simp add: sample_tx_def sample_plan_id_def planned_world_def json_file_def sample_before_def sample_after_def is_name_def is_component_def
      less_char_def)

lemma sample_id:
  assumes "lower_alpha c" "\<forall>x \<in> set u. id_prefix_char x" "length u \<le> 31"
  shows "validate_object_id (JStr (c # u @ CHR ''_'' # sample_body)) (c # u) = Inr (c # u @ CHR ''_'' # sample_body)"
proof -
  have a: "id_body_char (CHR ''A'')" by (simp add: id_body_char_def upper_alpha_def)
  have "re_fullmatch object_id_re (c # u @ CHR ''_'' # sample_body)"
    unfolding object_id_re_iff
  proof (intro exI conjI)
    show "c # u @ CHR ''_'' # sample_body = c # u @ CHR ''_'' # sample_body" by (rule refl)
  qed (use assms sample_body_chars a in simp_all)
  then show ?thesis by (simp add: validate_object_id_Inr_iff)
qed

lemma sample_ids [simp]:
  "validate_object_id (JStr sample_plan_id) ''plan'' = Inr sample_plan_id"
  "validate_object_id (JStr sample_tx) ''tx'' = Inr sample_tx"
  "validate_object_id (JStr sample_approval) ''approval'' = Inr sample_approval"
  using sample_id [of "CHR ''p''" "''lan''"] sample_id [of "CHR ''t''" "''x''"] sample_id [of "CHR ''a''" "''pproval''"]
  by (simp_all add: lower_alpha_def id_prefix_char_def sample_tx_def sample_plan_id_def sample_approval_def)

lemma fixed_parts [simp]: "b_crypto fixed_guard = fixed_crypto" "b_host fixed_guard = quiet_host" "b_root fixed_guard = [''/'', ''s'']"
  "digest_json fixed_crypto v = fixed_digest"
  by (simp_all add: fixed_guard_def digest_json_def fixed_crypto_def fixed_digest_def)

lemma fixed_manifest_digest: "manifest_digest fixed_crypto es = fixed_digest"
  by (simp add: manifest_digest_def fixed_crypto_def fixed_digest_def)

lemma fixed_signature [simp]: "check_signature fixed_guard v (sign fixed_crypto (b_key fixed_guard) v) = Inr ()"
  by (simp add: check_signature_def)

lemma fixed_digest_valid [simp]: "validate_sha256 (JStr fixed_digest) what = Inr fixed_digest"
  by (simp add: validate_sha256_Inr_iff fixed_digest_def hex_lower_def)

subsection \<open>Reading them back\<close>

lemma sample_plan_codec: "plan_from_dict (sort_keys (plan_to_dict sample_plan)) = Inr sample_plan" "json_ok (plan_to_dict sample_plan)"
proof -
  have d: "distinct (map fst (p_summary sample_plan))" "plan_norm sample_plan = sample_plan"
    by (simp_all add: sample_plan_def sign_plan_def plan_norm_def less_char_def)
  show "plan_from_dict (sort_keys (plan_to_dict sample_plan)) = Inr sample_plan" "json_ok (plan_to_dict sample_plan)"
    using plan_codec.dec_enc [of sample_plan] plan_codec.enc_ok [of sample_plan] d by simp_all
qed

lemma sample_baseline_codec:
  "manifest_from_dict (sort_keys (manifest_to_dict sample_baseline)) = Inr sample_baseline" "json_ok (manifest_to_dict sample_baseline)"
proof -
  have d: "distinct (map fst (m_entries sample_baseline))" "sort_entries sample_baseline = sample_baseline"
    by (simp_all add: sample_baseline_def sort_entries_def)
  show "manifest_from_dict (sort_keys (manifest_to_dict sample_baseline)) = Inr sample_baseline"
    "json_ok (manifest_to_dict sample_baseline)"
    using manifest_codec.dec_enc [of sample_baseline] manifest_codec.enc_ok [of sample_baseline] d by simp_all
qed

lemma sample_names [simp]: "is_name sample_tx" "is_name ''baseline.json''" "is_name ''w''" "is_name ''s''"
  using sample_body_chars by (simp_all add: sample_tx_def is_name_def is_component_def)

lemma sample_paths [simp]:
  "path_of (path_str [''/'', ''w'']) = [''/'', ''w'']" "path_of (path_str sample_dir) = sample_dir"
  "\<forall>a \<in> set q. is_name a \<Longrightarrow> path_of (path_str (sample_dir @ q)) = sample_dir @ q"
  by (rule path_str_rooted; simp add: sample_dir_def rooted_def)+

lemma planned_files:
  "json_at [''/'', ''s'', ''plans'', sample_plan_id @ ''.json''] (w_tree planned_world) = Some (sort_keys (plan_to_dict sample_plan))"
  "json_at (sample_dir @ [''transaction.json'']) (w_tree planned_world) = Some (sort_keys (transaction_to_dict sample_transaction))"
  "json_at (sample_dir @ [''baseline.json'']) (w_tree planned_world) = Some (sort_keys (manifest_to_dict sample_baseline))"
  by (rule json_at_file; simp add: planned_world_def sample_dir_def sample_plan_codec sample_baseline_codec
      transaction_codec.enc_ok)+

lemma sample_load_plan:
  "load_plan fixed_guard sample_plan_id planned_world = (Inr sample_plan, planned_world\<lparr>w_calls := 1\<rparr>)"
proof -
  have c: "h_fault quiet_host (w_calls planned_world) = False" "w_calls planned_world = 0" by (simp_all add: planned_world_def)
  have p: "plan_path fixed_guard sample_plan_id = Inr [''/'', ''s'', ''plans'', sample_plan_id @ ''.json'']"
    by (simp add: plan_path_def)
  have f: "p_id sample_plan = sample_plan_id" "p_fingerprint sample_plan = fixed_digest"
    "check_signature fixed_guard (signed_record ''commit_plan'' (plan_signing_dict sample_plan)) (p_signature sample_plan) = Inr ()"
    by (simp_all add: sample_plan_def sign_plan_def check_signature_def plan_signing_dict_def plan_core_def)
  have c': "validate_relative_path (JStr ''a'') = Inr [''a'']" by code_simp
  have t: "validate_text_field (JStr ''t'') ''task id'' MAX_TASK_ID_LENGTH = Inr ''t''" by code_simp
  have v: "validate_plan_record sample_plan = Inr ()"
    by (simp add: validate_plan_record_def sample_plan_def sign_plan_def voidE_def requireE_def t
        is_absolute_def checksE.simps MAX_PLAN_TTL_SECONDS_def validate_change_def c' sample_entry_def)
  show ?thesis
    using read_json_quiet [OF planned_files(1), of quiet_host] c
    by (simp add: load_plan_def bindA_def liftA_def p sample_plan_codec f requireA_def v returnA_def)
qed

lemma sample_load_transaction:
  assumes "w_tree w = w_tree planned_world"
  shows "load_transaction fixed_guard sample_tx w = (Inr sample_transaction, w\<lparr>w_calls := Suc (w_calls w)\<rparr>)"
proof -
  have p: "transaction_path fixed_guard sample_tx = Inr (sample_dir @ [''transaction.json''])"
    by (simp add: transaction_path_def sample_dir_def)
  have f: "t_id sample_transaction = sample_tx"
    "check_signature fixed_guard (signed_record ''transaction'' (transaction_signing_dict sample_transaction)) (t_signature sample_transaction) = Inr ()"
    by (simp_all add: sample_transaction_def sign_transaction_def check_signature_def transaction_signing_dict_def transaction_core_def)
  have t: "validate_text_field (JStr ''t'') ''task id'' MAX_TASK_ID_LENGTH = Inr ''t''" by code_simp
  have v: "validate_transaction_record fixed_guard sample_transaction = Inr ()"
    by (simp add: validate_transaction_record_def Let_def sample_transaction_def sign_transaction_def voidE_def requireE_def
        t is_absolute_def) (simp add: sample_dir_def)
  show ?thesis
    using read_json_quiet [of "sample_dir @ [''transaction.json'']" w _ quiet_host] planned_files(2) assms
    by (simp add: load_transaction_def bindA_def liftA_def p transaction_codec.dec_enc f requireA_def v returnA_def)
qed

lemma sample_load_baseline:
  assumes "w_tree w = w_tree planned_world"
  shows "load_baseline fixed_guard sample_transaction w = (Inr sample_baseline, w\<lparr>w_calls := Suc (w_calls w)\<rparr>)"
proof -
  have p: "path_of (t_baseline_path sample_transaction) = sample_dir @ [''baseline.json'']"
    "path_of (t_workspace_root sample_transaction) = [''/'', ''w'']" "t_baseline_digest sample_transaction = m_digest sample_baseline"
    by (simp_all add: sample_transaction_def sign_transaction_def sample_baseline_def)
  have c: "validate_relative_path (JStr ''a'') = Inr [''a'']" by code_simp
  have v: "verify_manifest fixed_crypto (h_resolve quiet_host) sample_baseline (Some [''/'', ''w'']) = Inr ()"
    by (simp add: verify_manifest_def sample_baseline_def sample_entry_def check_entry_def c Let_def fixed_manifest_digest)
  show ?thesis
    using read_json_quiet [of "sample_dir @ [''baseline.json'']" w _ quiet_host] planned_files(3) assms
    by (simp add: load_baseline_def bindA_def liftA_def p sample_baseline_codec v requireA_def returnA_def)
qed

lemma sample_authorised:
  "authorise fixed_guard sample_plan_id (Approval_object sample_token) planned_world =
    (Inr (sample_plan, sample_transaction, sample_baseline), planned_world\<lparr>w_ticks := 2, w_calls := 3\<rparr>)"
proof -
  have tok: "check_token fixed_guard sample_token = Inr ()"
  proof -
    have a: "validate_text_field (JStr ''me'') ''approval actor'' MAX_ACTOR_LENGTH = Inr ''me''" by code_simp
    show ?thesis
      by (simp add: check_token_def sample_token_def make_token_def Let_def voidE_def a requireE_def MAX_APPROVAL_TTL_SECONDS_def
        sample_plan_def sign_plan_def check_signature_def token_core_def)
  qed
  have bind: "check_binding sample_token sample_plan 1001 = Inr ()"
    by (simp add: check_binding_def sample_token_def make_token_def Let_def voidE_def requireE_def sample_plan_def sign_plan_def)
  have p: "p_state sample_plan = PLAN_PENDING" "p_decision sample_plan = REQUIRE_APPROVAL" "p_expires_at sample_plan = 4550"
    "p_transaction_id sample_plan = sample_tx" "t_state sample_transaction = TX_PLANNED"
    "p_task_id sample_plan = t_task_id sample_transaction" "p_workspace_root sample_plan = t_workspace_root sample_transaction"
    "p_baseline_digest sample_plan = t_baseline_digest sample_transaction"
    by (simp_all add: sample_plan_def sign_plan_def sample_transaction_def sign_transaction_def)
  have w: "w_tree (planned_world\<lparr>w_calls := a, w_ticks := b\<rparr>) = w_tree planned_world"
    "w_tree (planned_world\<lparr>w_ticks := b, w_calls := a\<rparr>) = w_tree planned_world" "w_ticks planned_world = 0"
    "h_clock quiet_host n = 1000 + int n" for a b n
    by (simp_all add: planned_world_def quiet_host_def)
  show ?thesis
    using sample_load_transaction [of "planned_world\<lparr>w_calls := 1, w_ticks := 2\<rparr>"]
      sample_load_baseline [of "planned_world\<lparr>w_ticks := 2, w_calls := 2\<rparr>"]
    by (simp add: authorise_def bindA_def sample_load_plan assert_plan_pending_and_fresh_def p requireA_def utc_epoch_def w
        returnA_def resolve_approval_def verify_approval_def liftA_def tok bind numeral_2_eq_2 numeral_3_eq_3)
qed

lemma sample_spares: "spares_failed_new sample_plan"
proof -
  have "path_of ''a'' = [''a'']" by code_simp
  then show ?thesis by (simp add: spares_failed_new_def sample_plan_def sign_plan_def parts_def)
qed

lemma sample_scan_before:
  "scan_tree fixed_crypto (default_limits []) [''/'', ''w''] (Some sample_before) = Inr sample_baseline"
  by code_simp

lemma sample_not_forged: "\<not> forged_baseline fixed_guard [''/'', ''w''] (w_tree planned_world) sample_baseline"
proof -
  have "look [''/'', ''w''] (w_tree planned_world) = Some sample_before" "b_excluded fixed_guard = []"
    by (simp_all add: planned_world_def fixed_guard_def)
  then show ?thesis by (simp add: forged_baseline_def sample_scan_before sha256_collision_def)
qed

end
