(* ===== verification/CommitTheorems.thy ===== *)
theory CommitTheorems
  imports SampleCommit
begin

text \<open>
  The properties of a whole commit, each with an instance on the sample broker.
\<close>

text \<open>
  C1. All or nothing. A commit of an authorised plan, whichever calls fail, ends in one of three ways: it
  returns a record, the workspace has the digest of the staged tree of the plan, and the record is on
  disk as committed; or it fails and the workspace is exactly what it was; or it fails and a new record
  of this plan is on disk whose status does not claim a rollback. It never fails with a half-changed
  workspace and no trace of it. (The last way out is a SHA-256 collision between the baseline manifest and
  that of the workspace. The plan must not change a top-level entry called \<^verbatim>\<open>_failed_new\<close>.)
\<close>

theorem commit_all_or_nothing:
  assumes "sound_broker g" and "wf_node (w_tree w)"
    and "authorise g i a w = (Inr (plan, t, baseline), w1)"
    and "ws = path_of (t_workspace_root t)" and "rooted ws" and "apart (b_root g) ws" and "spares_failed_new plan"
  shows "(case commit g i a w of
       (Inr r, w') \<Rightarrow> has_digest g ws (w_tree w') (p_staged_digest plan) \<and> r_status r = ''committed'' \<and>
          new_commit g i (w_tree w) r (w_tree w')
     | (Inl e, w') \<Rightarrow> look ws (w_tree w') = look ws (w_tree w) \<or>
          (\<exists>r. new_commit g i (w_tree w) r (w_tree w') \<and> r_status r \<noteq> ''rolled_back''))
    \<or> forged_baseline g ws (w_tree w) baseline"
  using commit_safe_end [OF assms] authorise_Inr(1) [OF assms(3)]
  by (auto simp: safe_end_def safe_outcome_def split: prod.split sum.split)

theorem commit_all_or_nothing_witness:
  "case commit fixed_guard sample_plan_id (Approval_object sample_token) planned_world of
     (Inr r, w') \<Rightarrow> has_digest fixed_guard [''/'', ''w''] (w_tree w') fixed_digest \<and> r_status r = ''committed'' \<and>
       new_commit fixed_guard sample_plan_id (w_tree planned_world) r (w_tree w')
   | (Inl e, w') \<Rightarrow> look [''/'', ''w''] (w_tree w') = Some sample_before \<or>
       (\<exists>r. new_commit fixed_guard sample_plan_id (w_tree planned_world) r (w_tree w') \<and> r_status r \<noteq> ''rolled_back'')"
proof -
  let ?c = "commit fixed_guard sample_plan_id (Approval_object sample_token) planned_world"
  have ws: "[''/'', ''w''] = path_of (t_workspace_root sample_transaction)" "rooted [''/'', ''w'']" "apart (b_root fixed_guard) [''/'', ''w'']"
    by (simp_all add: sample_transaction_def sign_transaction_def rooted_def apart_def parallel_def)
  have sp: "spares_failed_new sample_plan" by (rule sample_spares)
  have d: "p_staged_digest sample_plan = fixed_digest" by (simp add: sample_plan_def sign_plan_def)
  have l: "look [''/'', ''w''] (w_tree planned_world) = Some sample_before" by (simp add: planned_world_def)
  show ?thesis
    using commit_all_or_nothing [OF fixed_guard_sound planned_world_wf sample_authorised ws sp] sample_not_forged
    unfolding d l by (simp only: simp_thms)
qed

text \<open>What a given approval lacks\<close>

definition not_approved :: "guard \<Rightarrow> commit_plan \<Rightarrow> approval_argument \<Rightarrow> bool" where
  "not_approved g plan a \<longleftrightarrow>
     (case a of
        No_approval \<Rightarrow> True
      | Approval_id _ \<Rightarrow> False
      | Approval_object token \<Rightarrow>
          a_plan_id token \<noteq> p_id plan \<or> a_plan_fingerprint token \<noteq> p_fingerprint plan \<or>
          a_expires_at token > p_expires_at plan \<or> a_expires_at token - a_created_at token > MAX_APPROVAL_TTL_SECONDS \<or>
          check_signature g (signed_core ''approval'' (JObj (token_core token))) (a_signature token) \<noteq> Inr ())"

lemma not_approved_refused:
  assumes "not_approved g plan a" "resolve_approval g a w = (Inr token, w1)"
  shows "verify_approval g token plan w1 \<noteq> (Inr (), w2)"
  using assms
  by (auto simp: not_approved_def resolve_approval_def raiseA_def returnA_def verify_approval_def bindA_Inr_iff liftA_def
      check_token_def check_binding_def split: approval_argument.splits)




definition sample_record :: commit_record where
  "sample_record = \<lparr>r_commit_id = ''c'', r_plan_id = sample_plan_id, r_transaction_id = sample_tx, r_workspace_root = ''/w'',
     r_quarantine_root = path_str (quarantine_of fixed_guard ''c''), r_apply_root = path_str (apply_of fixed_guard ''c''),
     r_operations = [\<lparr>o_path = ''a'', o_change_kind = MODIFY, o_before_kind = Some FILE, o_after_kind = Some FILE,
       o_backup_path = Some (path_str (quarantine_of fixed_guard ''c'' @ [''a''])), o_installed = False, o_backup_moved = False,
       o_phase = ''pending''\<rparr>],
     r_before_digest = fixed_digest, r_after_digest = fixed_digest, r_created_at = 1002, r_status = ''prepared'', r_signature = ''''\<rparr>"

lemma sample_record_ready: "ready [''/'', ''w''] (quarantine_of fixed_guard ''c'') sample_before (sample_record, planned_world)"
proof -
  have q: "path_of (path_str (quarantine_of fixed_guard ''c'' @ p)) = quarantine_of fixed_guard ''c'' @ p" if "\<forall>a \<in> set p. is_name a" for p
    using that by (intro path_str_rooted) (simp_all add: quarantine_of_def rooted_def is_name_def is_component_def)
  have a: "names_of ''a'' = [''a'']" "relative_text ''a''" "is_name ''a''" by code_simp+
  show ?thesis
    using q [of "[]"] q [of "[''a'']"] planned_world_wf a
    by (simp add: ready_def sample_record_def planned_def planned_op_def op_root_def all_names_def untouched_def flagged_def
        sample_before_def planned_world_def dir_at_def)
qed


end
