(* ===== verification/Completion.thy ===== *)
theory Completion
  imports CommitTheorems
begin

text \<open>
  Applying a prepared record succeeds. The triples of the rollback say nothing of a code that always fails; here each call is
  shown to return when the host fails none of them, and the whole loop is followed to its end: it turns the
  workspace into the replay of the staged payloads at the roots of the operations.
\<close>

subsection \<open>Total correctness of actions\<close>

text \<open>From every world with the tree \<open>t\<close>, and record \<open>r\<close>, the action returns, and then \<open>P\<close> holds.\<close>

definition goes :: "'a act \<Rightarrow> node \<Rightarrow> ('a \<Rightarrow> node \<Rightarrow> bool) \<Rightarrow> bool" where
  "goes m t P \<longleftrightarrow> (\<forall>w. w_tree w = t \<longrightarrow> (\<exists>x w'. m w = (Inr x, w') \<and> P x (w_tree w')))"

definition completes :: "(cstate, 'a) comp \<Rightarrow> commit_record \<Rightarrow> node \<Rightarrow> ('a \<Rightarrow> commit_record \<Rightarrow> node \<Rightarrow> bool) \<Rightarrow> bool" where
  "completes m r t P \<longleftrightarrow> (\<forall>w. w_tree w = t \<longrightarrow> (\<exists>x s'. m (r, w) = (Inr x, s') \<and> P x (fst s') (w_tree (snd s'))))"

lemma goes_weaken: "goes m t P \<Longrightarrow> (\<And>x t'. P x t' \<Longrightarrow> R x t') \<Longrightarrow> goes m t R"
  unfolding goes_def by blast

lemma completes_weaken: "completes m r t P \<Longrightarrow> (\<And>x r' t'. P x r' t' \<Longrightarrow> R x r' t') \<Longrightarrow> completes m r t R"
  unfolding completes_def by blast

lemma goes_bind: "goes m t (\<lambda>x t'. goes (f x) t' P) \<Longrightarrow> goes (bindA m f) t P"
  unfolding goes_def bindA_def by fastforce

lemma completes_bind: "completes m r t (\<lambda>x r' t'. completes (f x) r' t' P) \<Longrightarrow> completes (bindA m f) r t P"
  unfolding completes_def bindA_def by (fastforce split: prod.splits)

lemma goes_return: "P x t \<Longrightarrow> goes (returnA x) t P"
  by (simp add: goes_def)

lemma completes_return: "P x r t \<Longrightarrow> completes (returnA x) r t P"
  by (simp add: completes_def)

lemma completes_require: "c \<Longrightarrow> P () r t \<Longrightarrow> completes (requireA c e) r t P"
  by (simp add: completes_def requireA_def)

lemma completes_lift: "x = Inr y \<Longrightarrow> completes (f y) r t P \<Longrightarrow> completes (bindA (liftA x) f) r t P"
  by (simp add: completes_def bindA_def)

lemma completes_embed: "goes m t (\<lambda>x t'. P x r t') \<Longrightarrow> completes (embed m) r t P"
  unfolding completes_def goes_def embed_def by (fastforce split: prod.splits)

lemma completes_change: "P () (f r) t \<Longrightarrow> completes (change_record f) r t P"
  by (simp add: completes_def change_record_def)

lemma completes_the_record: "completes (f r) r t P \<Longrightarrow> completes (bindA the_record f) r t P"
  by (simp add: completes_def the_record_def bindA_def)

lemma completes_the_operation: "completes (f (r_operations r ! i)) r t P \<Longrightarrow> completes (bindA (the_operation i) f) r t P"
  by (simp add: completes_def the_operation_def the_record_def bindA_def)

lemma completes_for:
  assumes "\<And>i r t. i < n \<Longrightarrow> I i r t \<Longrightarrow> completes (f i) r t (\<lambda>_. I (Suc i))"
  shows "k \<le> n \<Longrightarrow> I k r t \<Longrightarrow> completes (forA f [k..<n]) r t (\<lambda>_. I n)"
proof (induction "n - k" arbitrary: k r t)
  case 0
  then show ?case by (simp add: completes_def)
next
  case (Suc m)
  then have "[k..<n] = k # [Suc k..<n]" by (simp add: upt_conv_Cons)
  moreover have "completes (f k) r t (\<lambda>_. I (Suc k))" using Suc by (intro assms) simp_all
  then have "completes (thenA (f k) (forA f [Suc k..<n])) r t (\<lambda>_. I n)"
    using Suc by (intro completes_bind) (auto elim!: completes_weaken)
  ultimately show ?case by simp
qed

subsection \<open>The calls\<close>

abbreviation quiet :: "host \<Rightarrow> bool" where
  "quiet h \<equiv> \<forall>i. \<not> h_fault h i"

lemma goes_call: "quiet h \<Longrightarrow> f t = Inr (x, t') \<Longrightarrow> P x t' \<Longrightarrow> goes (os_call h f) t P"
  by (auto simp: goes_def os_call_def Let_def)

lemma goes_exists: "P (look p t \<noteq> None) t \<Longrightarrow> goes (lexistsA p) t P"
  by (simp add: goes_def lexistsA_def)

lemma goes_fsync: "quiet h \<Longrightarrow> dir_there p t \<Longrightarrow> P () t \<Longrightarrow> goes (fsync_directory h p) t P"
  unfolding fsync_directory_def by (rule goes_call) simp_all

lemma goes_rename:
  assumes "quiet h" "look src t = Some n" "dir_there (butlast dst) t" "dev_of (butlast src) t = dev_of (butlast dst) t"
    "\<not> prefix src dst" "look dst t = None" "P () (change_tree dst (Some n) (change_tree src None t))"
  shows "goes (renameA h src dst) t P"
  unfolding renameA_def using assms by (intro goes_call) (auto simp: rename_tree_def strict_prefix_def)

lemma goes_mkdirs_there: "dir_there p t \<Longrightarrow> P () t \<Longrightarrow> goes (mkdirsA h m p) t P"
  by (simp add: goes_def mkdirsA.simps [of h m p])

text \<open>A directory on the device \<open>d\<close>\<close>

definition dir_on :: "int \<Rightarrow> path \<Rightarrow> node \<Rightarrow> bool" where
  "dir_on d p t \<longleftrightarrow> (\<exists>m ks. look p t = Some (DirN d m ks))"

lemma dir_on_there: "dir_on d p t \<Longrightarrow> dir_there p t" "dir_on d p t \<Longrightarrow> dev_of p t = d"
  by (auto simp: dir_on_def dir_there_def dev_of_def)

lemma dir_there_on: "dir_there p t \<Longrightarrow> \<exists>d. dir_on d p t"
  by (auto simp: dir_on_def dir_there_def split: option.splits dest: is_dirE)

text \<open>A change at a path that is neither the directory nor above it leaves the directory there.\<close>

lemma dir_on_change:
  assumes "wf_node t" "dir_on d p t" "\<not> prefix (tl q) (tl p)"
  shows "dir_on d p (change_tree q x t)"
proof -
  obtain m ks where l: "look p t = Some (DirN d m ks)" using assms(2) by (auto simp: dir_on_def)
  then obtain a p' where p: "p = a # p'" "prefix ''/'' a" "get p' t = Some (DirN d m ks)"
    by (cases p) (auto simp: look_def split: if_splits)
  show ?thesis
  proof (cases "prefix p' (tl q)")
    case True
    then obtain s where s: "tl q = p' @ s" "s \<noteq> []" using assms(3) p(1) by (auto elim!: prefixE)
    obtain b s' where b: "s = b # s'" using s(2) by (cases s) auto
    show ?thesis
      using get_upd_above [OF p(3) assms(1) s(2), of x] p(1,2) s(1)
      by (auto simp: b dir_on_def change_tree_def split: option.splits)
  next
    case False
    then have "tl q \<parallel> p'" using assms(3) p(1) by (simp add: parallel_def)
    then show ?thesis using get_upd_other [OF _ assms(1)] p by (simp add: dir_on_def change_tree_def)
  qed
qed

lemma dir_on_move:
  assumes "wf_node t" "rooted src" "dir_on d p t" "\<not> prefix (tl src) (tl p)" "\<not> prefix (tl dst) (tl p)"
  shows "dir_on d p (change_tree dst x (change_tree src None t))"
proof (rule dir_on_change [OF _ _ assms(5)])
  show "wf_node (change_tree src None t)" by (rule wf_change [OF assms(2,1)]) simp
  show "dir_on d p (change_tree src None t)" by (rule dir_on_change [OF assms(1,3,4)])
qed

text \<open>Nor does such a change put anything there.\<close>

lemma look_none_change:
  assumes "wf_node t" "look p t = None" "\<not> prefix (tl q) (tl p)"
  shows "look p (change_tree q x t) = None"
proof (cases "\<exists>a p'. p = a # p' \<and> prefix ''/'' a")
  case True
  then obtain a p' where p: "p = a # p'" "prefix ''/'' a" "get p' t = None" using assms(2) by (auto simp: look_def)
  show ?thesis
  proof (cases "prefix p' (tl q)")
    case True
    then obtain s where s: "tl q = p' @ s" "s \<noteq> []" using assms(3) p(1) by (auto elim!: prefixE)
    then show ?thesis using upd_missing [OF p(3) assms(1) s(2)] p by (simp add: change_tree_def)
  next
    case False
    then have "tl q \<parallel> p'" using assms(3) p(1) by (simp add: parallel_def)
    then show ?thesis using get_upd_other [OF _ assms(1)] p by (simp add: change_tree_def)
  qed
next
  case False
  then show ?thesis by (auto simp: look_def split: list.splits)
qed

text \<open>Missing directories are made below one that is there.\<close>

definition grown :: "int \<Rightarrow> path \<Rightarrow> path \<Rightarrow> node \<Rightarrow> node \<Rightarrow> bool" where
  "grown d base s t t' \<longleftrightarrow> wf_node t' \<and> (\<forall>p. prefix p s \<longrightarrow> dir_on d (base @ p) t') \<and>
     (\<forall>q. rooted q \<and> \<not> prefix (tl q) (tl (base @ s)) \<longrightarrow> look q t' = look q t) \<and>
     (\<forall>e q. rooted q \<and> dir_on e q t \<longrightarrow> dir_on e q t')"

lemma goes_mkdirs:
  assumes "quiet h" "wf_node t" "rooted base" "dir_on d base t" "\<forall>a \<in> set s. is_name a"
    and "\<And>p. prefix p s \<Longrightarrow> look (base @ p) t = None \<or> dir_on d (base @ p) t"
  shows "goes (mkdirsA h m (base @ s)) t (\<lambda>_. grown d base s t)"
  using assms(5,6)
proof (induction s arbitrary: m rule: rev_induct)
  case Nil
  show ?case
    using assms(2,4) by (intro goes_mkdirs_there) (auto simp: dir_on_there grown_def)
next
  case (snoc a s)
  let ?p = "base @ s @ [a]"
  have ne: "base \<noteq> []" using assms(3) by (auto simp: rooted_def)
  have rp: "rooted ?p" using rooted_add [OF assms(3)] snoc.prems(1) by simp
  show ?case
  proof (cases "look ?p t = None")
    case False
    have "dir_on d (base @ p) t" if p: "prefix p (s @ [a])" for p
    proof -
      obtain q where "s @ [a] = p @ q" using p by (auto elim: prefixE)
      then have "look (base @ p) t \<noteq> None" using False look_append [of "base @ p" q t] ne by (auto split: option.splits)
      then show ?thesis using snoc.prems(2) [OF p] by auto
    qed
    then show ?thesis
      using assms(2) dir_on_there(1) [of d ?p t] by (intro goes_mkdirs_there) (auto simp: grown_def)
  next
    case none: True
    have l: "\<not> dir_there ?p t" "\<not> length ?p \<le> 1" "butlast ?p = base @ s" using none ne by (simp_all add: dir_there_def butlast_append)
    have "goes (mkdirsA h 511 (base @ s)) t (\<lambda>_. grown d base s t)"
      using snoc.prems by (intro snoc.IH) auto
    then have "goes (thenA (mkdirsA h 511 (base @ s)) (mkdirA h m ?p)) t (\<lambda>_. grown d base (s @ [a]) t)"
    proof (rule goes_bind [OF goes_weaken])
      fix t1 assume g: "grown d base s t t1"
      then have wf1: "wf_node t1" and d1: "dir_on d (base @ s) t1" by (simp_all add: grown_def)
      have np: "\<not> prefix (tl ?p) (tl (base @ s))" using ne by simp
      then have n1: "look ?p t1 = None" using g rp none by (simp add: grown_def)
      let ?t2 = "\<lambda>m. change_tree ?p (Some (DirN d m [])) t1"
      have g2: "grown d base (s @ [a]) t (?t2 m)" for m
        unfolding grown_def
      proof (intro conjI allI impI)
        show "wf_node (?t2 m)" using wf_change [OF rp wf1] by simp
        fix p assume p: "prefix p (s @ [a])"
        show "dir_on d (base @ p) (?t2 m)"
        proof (cases "p = s @ [a]")
          case True
          then show ?thesis
            using look_change_same [OF rp wf1] dir_on_there(1) [OF d1] l(3) by (simp add: dir_on_def)
        next
          case False
          then have ps: "prefix p s" using p by auto
          have "\<not> prefix (tl ?p) (tl (base @ p))"
          proof
            assume "prefix (tl ?p) (tl (base @ p))"
            then show False using prefix_length_le [of "s @ [a]" p] prefix_length_le [OF ps] ne by simp
          qed
          then show ?thesis using dir_on_change [OF wf1] g ps by (simp add: grown_def)
        qed
      next
        fix q assume q: "rooted q \<and> \<not> prefix (tl q) (tl (base @ s @ [a]))"
        then have "\<not> prefix (tl q) (tl (base @ s))" using ne by (metis append_assoc prefix_prefix tl_append2)
        then have "look q t1 = look q t" using g q by (simp add: grown_def)
        then show "look q (?t2 m) = look q t"
          using look_change_above [OF rp wf1 _ n1] q dir_on_there(1) [OF d1] l(3) by simp
      next
        fix e q assume q: "rooted q \<and> dir_on e q t"
        have "\<not> prefix (tl ?p) (tl q)"
        proof
          assume "prefix (tl ?p) (tl q)"
          then obtain u where u: "tl q = tl ?p @ u" by (auto elim: prefixE)
          have "get (tl ?p) t = None" using none look_rooted [OF rp] by simp
          then have "look q t = None" using u q look_rooted [of q t] by (simp add: get_append)
          then show False using q by (simp add: dir_on_def)
        qed
        then show "dir_on e q (?t2 m)" using dir_on_change [OF wf1] g q by (simp add: grown_def)
      qed
      show "goes (mkdirA h m ?p) t1 (\<lambda>_. grown d base (s @ [a]) t)"
        unfolding mkdirA_def
        using assms(1) n1 l(3) dir_on_there [OF d1] g2 by (intro goes_call) (simp_all add: mkdir_tree_def)
    qed
    then show ?thesis
      using none l by (auto simp: goes_def mkdirsA.simps [of h m ?p])
  qed
qed

lemma not_below_parent: "rooted p \<Longrightarrow> \<not> prefix (tl p) (tl (butlast p))"
proof
  assume p: "rooted p" "prefix (tl p) (tl (butlast p))"
  obtain a b q where q: "p = a # b # q" using p(1) by (cases p; cases "tl p") (auto elim!: rootedE)
  have "length (b # q) \<le> length (butlast (b # q))" using prefix_length_le [OF p(2)] by (simp add: q)
  then show False by (cases q) (simp_all split: if_splits)
qed

text \<open>A state file that can be written: its directory is there and it is none itself\<close>

definition writable :: "path \<Rightarrow> node \<Rightarrow> bool" where
  "writable p t \<longleftrightarrow> rooted p \<and> dir_there (butlast p) t \<and> \<not> dir_there p t"

lemma goes_write:
  assumes "quiet h" "wf_node t" "writable p t"
    and "P () (change_tree p (Some (FileN (dev_of (butlast p) t) 384 (canonical_json v @ [CHR 0x0A]))) t)"
  shows "goes (atomic_write_json h p v) t P"
proof -
  let ?t = "change_tree p (Some (FileN (dev_of (butlast p) t) 384 (canonical_json v @ [CHR 0x0A]))) t"
  have p: "rooted p" "dir_there (butlast p) t" "\<not> dir_there p t" using assms(3) by (simp_all add: writable_def)
  obtain e where e: "dir_on e (butlast p) t" using dir_there_on [OF p(2)] by blast
  have "\<not> prefix (tl p) (tl (butlast p))" by (rule not_below_parent [OF p(1)])
  then have "dir_there (butlast p) ?t" using dir_on_there(1) [OF dir_on_change [OF assms(2) e]] by blast
  then have 1: "goes (fsync_directory h (butlast p)) ?t P" using goes_fsync assms(1,4) by blast
  have "replace_tree p 384 (canonical_json v @ [CHR 0x0A]) t = Inr ((), ?t)" using p by (simp add: replace_tree_def create_file_tree_def)
  then have 2: "goes (thenA (os_call h (replace_tree p 384 (canonical_json v @ [CHR 0x0A]))) (fsync_directory h (butlast p))) t P"
    by (rule goes_bind [OF goes_call [OF assms(1)]]) (rule 1)
  have 3: "goes (thenA (write_temporary h p)
      (thenA (os_call h (replace_tree p 384 (canonical_json v @ [CHR 0x0A]))) (fsync_directory h (butlast p)))) t P"
    unfolding write_temporary_def by (rule goes_bind [OF goes_call [OF assms(1)]]) (use p(2) 2 in simp_all)
  show ?thesis
    unfolding atomic_write_json_def by (rule goes_bind [OF goes_mkdirs_there [OF p(2)]]) (rule 3)
qed

text \<open>What a changed path leaves alone\<close>

definition aside :: "path \<Rightarrow> node \<Rightarrow> node \<Rightarrow> bool" where
  "aside q t t' \<longleftrightarrow> wf_node t' \<and> (\<forall>p. apart q p \<longrightarrow> look p t' = look p t) \<and>
     (\<forall>d p. dir_on d p t \<and> \<not> prefix (tl q) (tl p) \<longrightarrow> dir_on d p t') \<and>
     (\<forall>p. look p t = None \<and> \<not> prefix (tl q) (tl p) \<longrightarrow> look p t' = None)"

lemma change_aside: "rooted q \<Longrightarrow> wf_node t \<Longrightarrow> \<forall>v. x = Some v \<longrightarrow> wf_node v \<Longrightarrow> aside q t (change_tree q x t)"
  by (simp add: aside_def wf_change look_change_apart dir_on_change look_none_change)

lemma asideD:
  assumes "aside q t t'"
  shows "wf_node t'" "apart q p \<Longrightarrow> look p t' = look p t" "dir_on d p t \<Longrightarrow> \<not> prefix (tl q) (tl p) \<Longrightarrow> dir_on d p t'"
    "look p t = None \<Longrightarrow> \<not> prefix (tl q) (tl p) \<Longrightarrow> look p t' = None"
  using assms by (simp_all add: aside_def)

lemma completes_save:
  assumes "quiet (b_host g)" "commit_path g (r_commit_id r) = Inr F" "wf_node t" "writable F t"
    and "\<And>t'. aside F t t' \<Longrightarrow> writable F t' \<Longrightarrow> record_at F t' = Some (sign_commit g r) \<Longrightarrow> P () (sign_commit g r) t'"
  shows "completes (save_commit g) r t P"
proof -
  let ?v = "record_to_dict (sign_commit g r)"
  let ?t = "change_tree F (Some (FileN (dev_of (butlast F) t) 384 (canonical_json ?v @ [CHR 0x0A]))) t"
  have F: "rooted F" "dir_there (butlast F) t" using assms(4) by (simp_all add: writable_def)
  have c: "commit_path g (r_commit_id (sign_commit g r)) = Inr F" using assms(2) by (simp add: sign_commit_def)
  have a: "aside F t ?t" using F(1) assms(3) by (intro change_aside) simp_all
  have l: "look F ?t = Some (FileN (dev_of (butlast F) t) 384 (canonical_json ?v @ [CHR 0x0A]))"
    by (rule look_change_same [OF F(1) assms(3) F(2)])
  obtain e where e: "dir_on e (butlast F) t" using dir_there_on [OF F(2)] by blast
  have "\<not> prefix (tl F) (tl (butlast F))" by (rule not_below_parent [OF F(1)])
  then have "writable F ?t" using dir_on_there(1) [OF asideD(3) [OF a e]] F(1) l by (simp add: writable_def dir_there_def)
  moreover have "record_at F ?t = Some (sign_commit g r)"
  proof (rule record_at_stored)
    have "json_ok ?v" by (rule record_codec.enc_ok) simp
    then show "json_at F ?t = Some (sort_keys ?v)" using l by (simp add: json_at_def canonical_read loads_dumps)
  qed
  ultimately have P: "P () (sign_commit g r) ?t" by (intro assms(5) a)
  have "goes (atomic_write_json (b_host g) F ?v) t (\<lambda>x. P x (sign_commit g r))"
    by (rule goes_write [OF assms(1,3,4), where P = "\<lambda>x. P x (sign_commit g r)"]) (rule P)
  then have 1: "completes (bindA (liftA (commit_path g (r_commit_id (sign_commit g r))))
      (\<lambda>p. embed (atomic_write_json (b_host g) p ?v))) (sign_commit g r) t P"
    by (rule completes_lift [OF c completes_embed])
  show ?thesis
    unfolding save_commit_def by (rule completes_bind [OF completes_change], rule completes_the_record, rule 1)
qed

subsection \<open>The state between two steps\<close>

text \<open>Everything is where it must be for the operations of the list.\<close>

definition job :: "guard \<Rightarrow> path \<Rightarrow> path \<Rightarrow> path \<Rightarrow> path \<Rightarrow> node \<Rightarrow> commit_operation list \<Rightarrow> bool" where
  "job g ws Q A F b ops \<longleftrightarrow> setting g ws Q A \<and> (\<exists>i. commit_path g i = Inr F) \<and> planned Q b ops \<and> quiet (b_host g)"

definition payload_there :: "int \<Rightarrow> path \<Rightarrow> path \<Rightarrow> (commit_operation \<Rightarrow> node option) \<Rightarrow> commit_operation \<Rightarrow> node \<Rightarrow> bool" where
  "payload_there d ws A pay op t \<longleftrightarrow> dir_on d (ws @ butlast (op_root op)) t \<and>
     (o_after_kind op = None \<longrightarrow> pay op = None) \<and>
     (o_after_kind op \<noteq> None \<longrightarrow> pay op \<noteq> None \<and> look (A @ op_root op) t = pay op \<and> dir_on d (A @ butlast (op_root op)) t)"

definition backup_room :: "int \<Rightarrow> path \<Rightarrow> path \<Rightarrow> commit_operation \<Rightarrow> node \<Rightarrow> bool" where
  "backup_room d ws Q op t \<longleftrightarrow> look (Q @ op_root op) t = None \<and> (o_before_kind op = None \<longleftrightarrow> look (ws @ op_root op) t = None) \<and>
     (\<forall>p. prefix p (butlast (op_root op)) \<longrightarrow> look (Q @ p) t = None \<or> dir_on d (Q @ p) t)"

text \<open>The trees agree at every path apart from all of \<open>qs\<close>.\<close>

definition elsewhere :: "path list \<Rightarrow> node \<Rightarrow> node \<Rightarrow> bool" where
  "elsewhere qs t t' \<longleftrightarrow> (\<forall>p. rooted p \<and> (\<forall>q \<in> set qs. apart q p) \<longrightarrow> look p t' = look p t)"

lemma elsewhereD: "elsewhere qs t t' \<Longrightarrow> rooted p \<Longrightarrow> \<forall>q \<in> set qs. apart q p \<Longrightarrow> look p t' = look p t"
  by (simp add: elsewhere_def)

lemma elsewhere_refl: "elsewhere qs t t"
  by (simp add: elsewhere_def)

lemma elsewhere_trans: "elsewhere qs t t1 \<Longrightarrow> elsewhere qs t1 t2 \<Longrightarrow> elsewhere qs t t2"
  by (simp add: elsewhere_def)

lemma aside_elsewhere:
  assumes "aside (x @ y) t t'" "x \<noteq> []" "x \<in> set qs"
  shows "elsewhere qs t t'"
  using asideD(2) [OF assms(1)] apart_below [OF _ assms(2)] assms(3) by (simp add: elsewhere_def)

text \<open>
  The operations from \<open>k\<close> on have not been installed, those from \<open>l\<close> on not been backed up, and the workspace is \<open>W\<close>.
\<close>

definition underway ::
  "int \<Rightarrow> guard \<Rightarrow> path \<Rightarrow> path \<Rightarrow> path \<Rightarrow> path \<Rightarrow> commit_operation list \<Rightarrow> (commit_operation \<Rightarrow> node option) \<Rightarrow>
     node \<Rightarrow> nat \<Rightarrow> nat \<Rightarrow> node \<Rightarrow> commit_record \<Rightarrow> node \<Rightarrow> bool" where
  "underway d g ws Q A F ops pay t0 k l W r t \<longleftrightarrow> wf_node t \<and> writable F t \<and> look ws t = Some W \<and> dir_on d (butlast Q) t \<and>
     dir_on d A t \<and> elsewhere [F, ws, Q, A] t0 t \<and> commit_path g (r_commit_id r) = Inr F \<and> length (r_operations r) = length ops \<and>
     (\<forall>j < length ops. same_static (r_operations r ! j) (ops ! j)) \<and>
     (\<forall>j < length ops. (k \<le> j \<longrightarrow> payload_there d ws A pay (ops ! j) t) \<and> (l \<le> j \<longrightarrow> backup_room d ws Q (ops ! j) t))"

lemma underwayD:
  assumes "underway d g ws Q A F ops pay t0 k l W r t"
  shows "wf_node t" "writable F t" "look ws t = Some W" "dir_on d (butlast Q) t" "commit_path g (r_commit_id r) = Inr F"
    "length (r_operations r) = length ops" "\<And>j. j < length ops \<Longrightarrow> same_static (r_operations r ! j) (ops ! j)"
    "\<And>j. j < length ops \<Longrightarrow> k \<le> j \<Longrightarrow> payload_there d ws A pay (ops ! j) t"
    "\<And>j. j < length ops \<Longrightarrow> l \<le> j \<Longrightarrow> backup_room d ws Q (ops ! j) t"
    "dir_on d A t" "elsewhere [F, ws, Q, A] t0 t"
  using assms by (auto simp: underway_def)

lemma jobD:
  assumes "job g ws Q A F b ops"
  shows "setting g ws Q A" "planned Q b ops" "quiet (b_host g)" "\<And>j. j < length ops \<Longrightarrow> placed g ws Q A F (op_root (ops ! j))"
  using assms plannedD(2) by (auto simp: job_def placed_def)

lemma apart_quarantine_apply: "setting g ws Q A \<Longrightarrow> apart (Q @ x) (A @ y)"
  using root_not_Nil by (fastforce simp: setting_def apart_same parallel_def dest: settingD(1))

text \<open>Places of different operations, and the three places of one\<close>

lemma job_apart:
  assumes "job g ws Q A F b ops" "i < length ops" "j < length ops"
  shows "apart (ws @ op_root (ops ! i)) (Q @ y)" "apart (Q @ x) (ws @ y)" "apart (A @ x) (ws @ y)" "apart (ws @ x) (A @ y)"
    "apart (Q @ x) (A @ y)" "apart (A @ x) (Q @ y)" "apart F (ws @ x)" "apart F (Q @ x)" "apart F (A @ x)"
    "X \<noteq> [] \<Longrightarrow> i \<noteq> j \<Longrightarrow> apart (X @ op_root (ops ! i)) (X @ op_root (ops ! j))"
  using placedD [OF jobD(4) [OF assms(1,2)]] apart_quarantine_apply [OF jobD(1) [OF assms(1)]]
    plannedD(7) [OF jobD(2) [OF assms(1)] assms(3,2)] apart_sym
  by (blast+, simp add: apart_same)

text \<open>A path apart from a place is not at or above the directory the place is in.\<close>

lemma apart_not_parent: "apart q (X @ r) \<Longrightarrow> X \<noteq> [] \<Longrightarrow> \<not> prefix (tl q) (tl (X @ butlast r))"
proof
  assume q: "apart q (X @ r)" "X \<noteq> []" "prefix (tl q) (tl (X @ butlast r))"
  have "prefix (tl (X @ butlast r)) (tl (X @ r))" using q(2) by (cases r rule: rev_cases) simp_all
  with q(3) have "prefix (tl q) (tl (X @ r))" by (rule prefix_order.trans)
  then show False using q(1) by (auto simp: apart_def)
qed

lemma payload_aside:
  assumes "payload_there d ws A pay op t" "aside q t t'" "ws \<noteq> []" "A \<noteq> []"
    and "\<not> prefix (tl q) (tl (ws @ butlast (op_root op)))" "apart q (A @ op_root op)"
  shows "payload_there d ws A pay op t'"
  using assms(1) asideD(2,3) [OF assms(2)] assms(5,6) apart_not_parent [OF assms(6,4)] by (auto simp: payload_there_def)

lemma room_aside:
  assumes "backup_room d ws Q op t" "aside q t t'" "Q \<noteq> []" "apart q (ws @ op_root op)" "apart q (Q @ op_root op)"
  shows "backup_room d ws Q op t'"
proof -
  have "look (Q @ p) t' = None \<or> dir_on d (Q @ p) t'" if p: "prefix p (butlast (op_root op))" for p
  proof -
    have "prefix (tl (Q @ p)) (tl (Q @ butlast (op_root op)))" using p assms(3) by simp
    then have "\<not> prefix (tl q) (tl (Q @ p))" using apart_not_parent [OF assms(5,3)] prefix_order.trans by blast
    then show ?thesis using p assms(1) asideD(3,4) [OF assms(2)] by (auto simp: backup_room_def)
  qed
  then show ?thesis using assms(1) asideD(2) [OF assms(2) assms(4)] asideD(2) [OF assms(2) assms(5)] by (simp add: backup_room_def)
qed

lemma job_ne:
  assumes "job g ws Q A F b ops"
  shows "ws \<noteq> []" "Q \<noteq> []" "A \<noteq> []" "rooted ws" "rooted Q" "rooted A" "rooted F" "tl Q \<noteq> []" "rooted (butlast Q)"
proof -
  have S: "setting g ws Q A" by (rule jobD(1) [OF assms])
  show "rooted ws" "rooted Q" "rooted A" using settingD [OF S] by blast+
  then show "ws \<noteq> []" "Q \<noteq> []" "A \<noteq> []" "tl Q \<noteq> []" by (auto simp: rooted_def split: list.splits)
  obtain i where "commit_path g i = Inr F" using assms by (auto simp: job_def)
  then show "rooted F" by (rule commit_file_rooted [OF S])
  obtain c where "Q = b_root g @ [''quarantine'', c]" using S by (auto simp: setting_def)
  then have "butlast Q = b_root g @ [''quarantine'']" by (simp add: butlast_append)
  moreover have "rooted (b_root g)" using settingD(1) [OF S] by (simp add: guarded_def)
  ultimately show "rooted (butlast Q)" by (simp add: rooted_add is_name_def is_component_def)
qed

lemma writable_aside:
  assumes "writable F t" "aside q t t'" "apart q F"
  shows "writable F t'"
proof -
  have F: "rooted F" "dir_there (butlast F) t" "\<not> dir_there F t" using assms(1) by (simp_all add: writable_def)
  obtain e where e: "dir_on e (butlast F) t" using dir_there_on [OF F(2)] by blast
  have "butlast F = [hd F] @ butlast (tl F)" "F = [hd F] @ tl F" using F(1) by (auto elim!: rootedE)
  then have "\<not> prefix (tl q) (tl (butlast F))" using apart_not_parent [of q "[hd F]" "tl F"] assms(3) by simp
  then have "dir_there (butlast F) t'" using dir_on_there(1) asideD(3) [OF assms(2) e] by blast
  moreover have "\<not> dir_there F t'" using F(3) asideD(2) [OF assms(2,3)] by (simp add: dir_there_def)
  ultimately show ?thesis using F(1) by (simp add: writable_def)
qed

text \<open>A change of the tree that touches no place still needed\<close>

lemma underway_aside:
  assumes "underway d g ws Q A F ops pay t0 k l W r t" "job g ws Q A F b ops" "aside q t t'"
    and "apart q F" "\<not> prefix (tl q) (tl (butlast Q))" "look ws t' = Some W'"
    and "\<not> prefix (tl q) (tl A)" "q = x @ y" "x \<in> {ws, Q, A}"
    and "\<And>j. j < length ops \<Longrightarrow> k' \<le> j \<Longrightarrow> k \<le> j \<and> \<not> prefix (tl q) (tl (ws @ butlast (op_root (ops ! j)))) \<and> apart q (A @ op_root (ops ! j))"
    and "\<And>j. j < length ops \<Longrightarrow> l' \<le> j \<Longrightarrow> l \<le> j \<and> apart q (ws @ op_root (ops ! j)) \<and> apart q (Q @ op_root (ops ! j))"
  shows "underway d g ws Q A F ops pay t0 k' l' W' r t'"
proof -
  note U = underwayD [OF assms(1)] and N = job_ne [OF assms(2)]
  have "payload_there d ws A pay (ops ! j) t'" if "j < length ops" "k' \<le> j" for j
    using payload_aside [OF U(8) assms(3) N(1,3)] assms(10) [OF that] that(1) by blast
  moreover have "backup_room d ws Q (ops ! j) t'" if "j < length ops" "l' \<le> j" for j
    using room_aside [OF U(9) assms(3) N(2)] assms(11) [OF that] that(1) by blast
  moreover have "dir_on d (butlast Q) t'" using asideD(3) [OF assms(3) U(4) assms(5)] .
  moreover have "dir_on d A t'" using asideD(3) [OF assms(3) U(10) assms(7)] .
  moreover have "elsewhere [F, ws, Q, A] t0 t'"
    using elsewhere_trans [OF U(11) aside_elsewhere [OF assms(3) [unfolded assms(8)]]] assms(9) N(1-3) by auto
  ultimately show ?thesis
    using writable_aside [OF U(2) assms(3,4)] asideD(1) [OF assms(3)] assms(6) U(5,6,7) by (simp add: underway_def)
qed

text \<open>A change of the record that keeps what was planned\<close>

lemma underway_record:
  assumes "underway d g ws Q A F ops pay t0 k l W r t" "r_commit_id r' = r_commit_id r"
    and "length (r_operations r') = length (r_operations r)"
    and "\<And>j. j < length (r_operations r) \<Longrightarrow> same_static (r_operations r' ! j) (r_operations r ! j)"
  shows "underway d g ws Q A F ops pay t0 k l W r' t"
proof -
  have "same_static (r_operations r' ! j) (ops ! j)" if "j < length ops" for j
    using assms(4) [of j] underwayD(6,7) [OF assms(1)] that by (auto simp: same_static_def)
  then show ?thesis using assms(1-3) by (simp add: underway_def)
qed

lemma underway_set_operation:
  assumes "underway d g ws Q A F ops pay t0 k l W r t" "\<And>x. same_static (f x) x"
  shows "underway d g ws Q A F ops pay t0 k l W (set_operation i f r) t"
proof (rule underway_record [OF assms(1)])
  fix j assume "j < length (r_operations r)"
  then show "same_static (r_operations (set_operation i f r) ! j) (r_operations r ! j)"
    using assms(2) by (cases "i = j") (simp_all add: set_operation_def same_static_def nth_list_update)
qed (simp_all add: set_operation_def)

lemma completes_phase:
  assumes "underway d g ws Q A F ops pay t0 k l W r t" "\<And>x. same_static (f x) x"
    and "underway d g ws Q A F ops pay t0 k l W (set_operation i f r) t \<Longrightarrow> P () (set_operation i f r) t"
  shows "completes (change_record (set_operation i f)) r t P"
  by (rule completes_change) (rule assms(3) [OF underway_set_operation [OF assms(1,2)]])

lemma completes_save_underway:
  assumes "underway d g ws Q A F ops pay t0 k l W r t" "job g ws Q A F b ops"
    and "\<And>t'. underway d g ws Q A F ops pay t0 k l W (sign_commit g r) t' \<Longrightarrow> aside F t t' \<Longrightarrow>
      record_at F t' = Some (sign_commit g r) \<Longrightarrow> P () (sign_commit g r) t'"
  shows "completes (save_commit g) r t P"
proof (rule completes_save [OF jobD(3) [OF assms(2)]])
  note U = underwayD [OF assms(1)] and N = job_ne [OF assms(2)]
  show "commit_path g (r_commit_id r) = Inr F" "wf_node t" "writable F t" using U by blast+
  fix t' assume t': "aside F t t'" "writable F t'" "record_at F t' = Some (sign_commit g r)"
  obtain i where "commit_path g i = Inr F" using assms(2) by (auto simp: job_def)
  then have p: "placed g ws Q A F [''a'']"
    using jobD(1) [OF assms(2)] by (auto simp: placed_def all_names_def is_name_def is_component_def)
  note F = placedD(8-10) [OF p, THEN iffD1 [OF apart_sym]]
  obtain c where "Q = b_root g @ [''quarantine'', c]" using jobD(1) [OF assms(2)] by (auto simp: setting_def)
  then have Q: "butlast Q @ [c] = Q" by (simp add: butlast_append)
  have "butlast Q \<noteq> []" using N(9) by (auto simp: rooted_def)
  then have nq: "\<not> prefix (tl F) (tl (butlast Q))" if "apart F (Q @ [])"
    using apart_not_parent [of F "butlast Q" "[c]", unfolded Q] that by simp
  have wsF: "look ws t' = Some W" using asideD(2) [OF t'(1), of ws] F(1) [of "[]"] U(3) by simp
  have np: "\<not> prefix (tl F) (tl (ws @ x))" for x using F(1) [of x] by (auto simp: apart_def)
  have dA: "dir_on d A t'" using asideD(3) [OF t'(1) U(10)] F(3) [of "[]"] by (auto simp: apart_def)
  have el: "elsewhere [F, ws, Q, A] t0 t'"
    using elsewhere_trans [OF U(11) aside_elsewhere [of F "[]" t t']] t'(1) N(7) by (cases F) (simp_all add: rooted_def)
  have dq: "dir_on d (butlast Q) t'" using asideD(3) [OF t'(1) U(4)] nq F(2) [of "[]"] by simp
  have "payload_there d ws A pay (ops ! j) t'" if "j < length ops" "k \<le> j" for j
    by (rule payload_aside [OF U(8) [OF that] t'(1) N(1,3) np F(3)])
  moreover have "backup_room d ws Q (ops ! j) t'" if "j < length ops" "l \<le> j" for j
    by (rule room_aside [OF U(9) [OF that] t'(1) N(2) F(1,2)])
  ultimately have "underway d g ws Q A F ops pay t0 k l W r t'"
    using dq dA el wsF t'(2) asideD(1) [OF t'(1)] U(5,6,7) by (simp add: underway_def)
  then have "underway d g ws Q A F ops pay t0 k l W (sign_commit g r) t'"
    by (rule underway_record) (simp_all add: sign_commit_def same_static_def)
  then show "P () (sign_commit g r) t'" by (rule assms(3) [OF _ t'(1,3)])
qed

subsection \<open>One operation\<close>

lemma underway_grown:
  assumes "underway d g ws Q A F ops pay t0 k l W r t" "job g ws Q A F b ops" "i < length ops" "l \<le> i"
    and "grown d (butlast Q) (last Q # butlast (op_root (ops ! i))) t t'"
  shows "underway d g ws Q A F ops pay t0 k l W r t'" "dir_on d (Q @ butlast (op_root (ops ! i))) t'"
proof -
  let ?r = "op_root (ops ! i)"
  note U = underwayD [OF assms(1)] and N = job_ne [OF assms(2)] and J = jobD [OF assms(2)] and AP = job_apart [OF assms(2,3)]
  have path: "butlast Q @ last Q # x = Q @ x" for x using append_butlast_last_id [OF N(2)] by (metis append.assoc append_Cons append_Nil)
  have g: "wf_node t'" "\<And>p. prefix p (last Q # butlast ?r) \<Longrightarrow> dir_on d (butlast Q @ p) t'"
    "\<And>q. rooted q \<Longrightarrow> \<not> prefix (tl q) (tl (Q @ butlast ?r)) \<Longrightarrow> look q t' = look q t"
    "\<And>e q. rooted q \<Longrightarrow> dir_on e q t \<Longrightarrow> dir_on e q t'"
    using assms(5) path by (simp_all add: grown_def)
  show dQ: "dir_on d (Q @ butlast ?r) t'" using g(2) [of "last Q # butlast ?r"] path by simp
  have same: "look q t' = look q t" if "rooted q" "apart q (Q @ ?r)" for q
    using g(3) [OF that(1)] apart_not_parent [OF that(2) N(2)] by blast
  have rooted: "rooted (X @ op_root (ops ! j))" "rooted (X @ butlast (op_root (ops ! j)))" if "rooted X" "j < length ops" for X j
    using that plannedD(6) [OF J(2) that(2)] by (auto simp: rooted_add dest: in_set_butlastD)
  have "writable F t'"
  proof -
    have F: "rooted F" "dir_there (butlast F) t" "\<not> dir_there F t" using U(2) by (simp_all add: writable_def)
    have "\<not> dir_there F t'" using same [OF F(1) AP(8) [OF assms(3)]] F(3) by (simp add: dir_there_def)
    moreover obtain e where e: "dir_on e (butlast F) t" using dir_there_on [OF F(2)] by blast
    obtain c where "F = b_root g @ [''commits'', c]" using assms(2) by (auto simp: job_def commit_path_def bindE_Inr_iff)
    then have "rooted (butlast F)"
      using settingD(1) [OF J(1)] by (simp add: butlast_append guarded_def rooted_add is_name_def is_component_def)
    then have "dir_there (butlast F) t'" using g(4) [OF _ e] dir_on_there(1) by blast
    ultimately show ?thesis using F(1) by (simp add: writable_def)
  qed
  moreover have "payload_there d ws A pay (ops ! j) t'" if j: "j < length ops" "k \<le> j" for j
    using U(8) [OF j] g(4) rooted [OF N(4) j(1)] rooted [OF N(6) j(1)] same [OF rooted(1) [OF N(6) j(1)] AP(6) [OF j(1)]]
    by (auto simp: payload_there_def)
  moreover have "backup_room d ws Q (ops ! j) t'" if j: "j < length ops" "l \<le> j" for j
  proof -
    let ?s = "op_root (ops ! j)"
    have B: "look (Q @ ?s) t = None" "o_before_kind (ops ! j) = None \<longleftrightarrow> look (ws @ ?s) t = None"
      "\<And>p. prefix p (butlast ?s) \<Longrightarrow> look (Q @ p) t = None \<or> dir_on d (Q @ p) t"
      using U(9) [OF j] by (auto simp: backup_room_def)
    have "\<not> prefix ?s (butlast ?r)"
    proof
      assume s: "prefix ?s (butlast ?r)"
      then have "prefix ?s ?r" using prefixeq_butlast prefix_order.trans by blast
      then have "i = j" using plannedD(7) [OF J(2) assms(3) j(1)] by (metis parallel_def)
      then show False using prefix_length_le [OF s] plannedD(5) [OF J(2) assms(3)] by (cases ?r) simp_all
    qed
    then have n: "look (Q @ ?s) t' = look (Q @ ?s) t" using g(3) [OF rooted(1) [OF N(5) j(1)]] N(2) by simp
    have w: "look (ws @ ?s) t' = look (ws @ ?s) t" by (rule same [OF rooted(1) [OF N(4) j(1)]]) (rule job_apart(1) [OF assms(2) j(1) j(1)])
    have "look (Q @ p) t' = None \<or> dir_on d (Q @ p) t'" if p: "prefix p (butlast ?s)" for p
    proof (cases "prefix p (butlast ?r)")
      case True
      then show ?thesis using g(2) [of "last Q # p"] path by simp
    next
      case False
      have "rooted (Q @ p)" using rooted(2) [OF N(5) j(1)] p N(5) by (auto simp: rooted_add elim!: prefixE)
      then have "look (Q @ p) t' = look (Q @ p) t" using g(3) False N(2) by simp
      then show ?thesis using B(3) [OF p] by (simp add: dir_on_def)
    qed
    with n w B show ?thesis by (simp add: backup_room_def)
  qed
  moreover have "look ws t' = Some W" 
    using same [OF N(4)] U(3) apart_below [OF settingD(9) [OF J(1)] N(2)] by (simp add: apart_sym)
  moreover have "dir_on d A t'" by (rule g(4) [OF N(6) U(10)])
  moreover have "elsewhere [F, ws, Q, A] t t'" unfolding elsewhere_def
  proof (intro allI impI)
    fix p assume p: "rooted p \<and> (\<forall>q \<in> set [F, ws, Q, A]. apart q p)"
    then have "apart p (Q @ ?r)" using apart_below [OF _ N(2)] apart_sym by auto
    then show "look p t' = look p t" using same p by simp
  qed
  ultimately show "underway d g ws Q A F ops pay t0 k l W r t'"
    using g(1) g(2) [of "[]"] U(5,6,7) elsewhere_trans [OF U(11)] by (simp add: underway_def)
qed

text \<open>The directory for the backup is made.\<close>

lemma completes_backup_dir:
  assumes "underway d g ws Q A F ops pay t0 k l W r t" "job g ws Q A F b ops" "i < length ops" "l \<le> i"
    and "\<And>t'. underway d g ws Q A F ops pay t0 k l W r t' \<Longrightarrow> dir_on d (Q @ butlast (op_root (ops ! i))) t' \<Longrightarrow> P () r t'"
  shows "completes (embed (mkdirsA (b_host g) m (parent (Q @ op_root (ops ! i))))) r t P"
proof (rule completes_embed)
  let ?r = "op_root (ops ! i)"
  note U = underwayD [OF assms(1)] and N = job_ne [OF assms(2)] and J = jobD [OF assms(2)]
  have r: "?r \<noteq> []" "\<And>x. x \<in> set ?r \<Longrightarrow> is_name x" using plannedD(5,6) [OF J(2) assms(3)] by blast+
  have Q: "butlast Q @ [last Q] = Q" using N(2) by simp
  have names: "\<forall>x \<in> set (last Q # butlast ?r). is_name x"
  proof -
    have "is_name (last Q)" using N(5,8) by (cases Q) (auto simp: rooted_def)
    then show ?thesis using r(2) by (auto dest: in_set_butlastD)
  qed
  have room: "look (butlast Q @ p) t = None \<or> dir_on d (butlast Q @ p) t" if "prefix p (last Q # butlast ?r)" for p
  proof (cases p)
    case Nil
    then show ?thesis using U(4) by simp
  next
    case (Cons c p')
    then have "prefix p' (butlast ?r)" "butlast Q @ p = Q @ p'" using that Q by simp_all
    then show ?thesis using U(9) [OF assms(3,4)] by (simp add: backup_room_def)
  qed
  have path: "butlast Q @ last Q # butlast ?r = Q @ butlast ?r" using Q by simp
  have "goes (mkdirsA (b_host g) m (butlast Q @ last Q # butlast ?r)) t (\<lambda>_. grown d (butlast Q) (last Q # butlast ?r) t)"
    by (rule goes_mkdirs [OF J(3) U(1) N(9) U(4) names room])
  moreover have "parent (Q @ ?r) = Q @ butlast ?r" by (rule parent_below [OF N(2) r(1)])
  ultimately have go: "goes (mkdirsA (b_host g) m (parent (Q @ ?r))) t (\<lambda>_. grown d (butlast Q) (last Q # butlast ?r) t)"
    by (simp add: path)
  show "goes (mkdirsA (b_host g) m (parent (Q @ ?r))) t (\<lambda>x t'. P x r t')"
  proof (rule goes_weaken [OF go])
    fix x :: unit and t' assume "grown d (butlast Q) (last Q # butlast ?r) t t'"
    from underway_grown [OF assms(1-4) this] show "P x r t'" using assms(5) by simp
  qed
qed

text \<open>The target moves to its place in quarantine.\<close>

lemma not_below_quarantine: "Q \<noteq> [] \<Longrightarrow> tl Q \<noteq> [] \<Longrightarrow> \<not> prefix (tl (Q @ x)) (tl (butlast Q))"
proof
  assume Q: "Q \<noteq> []" "tl Q \<noteq> []" "prefix (tl (Q @ x)) (tl (butlast Q))"
  then have "length (tl (Q @ x)) \<le> length (tl (butlast Q))" by (intro prefix_length_le)
  then show False using Q(1,2) by (cases Q; cases "tl Q") simp_all
qed

lemma underway_moved_out:
  assumes "underway d g ws Q A F ops pay t0 i i W r t" "job g ws Q A F b ops" "i < length ops"
    and "get (op_root (ops ! i)) W = Some n"
  shows "underway d g ws Q A F ops pay t0 i (Suc i) (upd (op_root (ops ! i)) None W) r
      (change_tree (Q @ op_root (ops ! i)) (Some n) (change_tree (ws @ op_root (ops ! i)) None t))"
proof -
  let ?r = "op_root (ops ! i)"
  note U = underwayD [OF assms(1)] and N = job_ne [OF assms(2)] and J = jobD [OF assms(2)] and AP = job_apart [OF assms(2,3)]
  note P = placedD(1,2) [OF J(4) [OF assms(3)]]
  let ?t1 = "change_tree (ws @ ?r) None t"
  have wn: "wf_node n" using get_wf look_wf [OF U(1,3)] assms(4) by blast
  have a1: "aside (ws @ ?r) t ?t1" by (rule change_aside [OF P(1) U(1)]) simp
  have own: "\<not> prefix (tl (ws @ ?r)) (tl (ws @ butlast ?r))" "\<not> prefix (tl (Q @ ?r)) (tl (Q @ butlast ?r))"
    using not_below_parent [OF P(1)] not_below_parent [OF P(2)] plannedD(5) [OF J(2) assms(3)] by (simp_all add: butlast_append)
  have 1: "underway d g ws Q A F ops pay t0 i (Suc i) (upd ?r None W) r ?t1"
  proof (rule underway_aside [OF assms(1,2) a1])
    show "apart (ws @ ?r) F" using AP(7) [OF assms(3)] apart_sym by blast
    show "\<not> prefix (tl (ws @ ?r)) (tl (butlast Q))"
      using apart_not_above(2) [of Q "ws @ ?r"] AP(1) [OF assms(3), of "[]"] rooted_butlast [OF N(5)] by (simp add: apart_sym)
    show "\<not> prefix (tl (ws @ ?r)) (tl A)"
      using apart_not_above(1) [of A "ws @ ?r"] AP(3) [OF assms(3), of "[]" ?r] by simp
    show "ws @ ?r = ws @ ?r" "ws \<in> {ws, Q, A}" by simp_all
    show "look ws ?t1 = Some (upd ?r None W)"
      by (rule look_change_below [OF N(4) U(1,3)]) (rule plannedD(5) [OF J(2) assms(3)])
    fix j assume j: "j < length ops"
    show "i \<le> j \<Longrightarrow> i \<le> j \<and> \<not> prefix (tl (ws @ ?r)) (tl (ws @ butlast (op_root (ops ! j)))) \<and> apart (ws @ ?r) (A @ op_root (ops ! j))"
      using AP(4) [OF j] own(1) apart_not_parent [OF AP(10) [OF j N(1)] N(1)] by (cases "i = j") auto
    show "Suc i \<le> j \<Longrightarrow> i \<le> j \<and> apart (ws @ ?r) (ws @ op_root (ops ! j)) \<and> apart (ws @ ?r) (Q @ op_root (ops ! j))"
      using AP(1) [OF j] AP(10) [OF j N(1)] by auto
  qed
  have a2: "aside (Q @ ?r) ?t1 (change_tree (Q @ ?r) (Some n) ?t1)"
    by (rule change_aside [OF P(2) asideD(1) [OF a1]]) (simp add: wn)
  show ?thesis
  proof (rule underway_aside [OF 1 assms(2) a2])
    show "apart (Q @ ?r) F" using AP(8) [OF assms(3)] apart_sym by blast
    show "\<not> prefix (tl (Q @ ?r)) (tl (butlast Q))" by (rule not_below_quarantine [OF N(2,8)])
    show "\<not> prefix (tl (Q @ ?r)) (tl A)"
      using apart_not_above(1) [of A "Q @ ?r"] AP(5) [OF assms(3), of _ "[]"] by (simp add: apart_sym)
    show "Q @ ?r = Q @ ?r" "Q \<in> {ws, Q, A}" by simp_all
    have "apart (Q @ ?r) ws" using AP(2) [OF assms(3), of _ "[]"] by simp
    then show "look ws (change_tree (Q @ ?r) (Some n) ?t1) = Some (upd ?r None W)"
      using asideD(2) [OF a2] underwayD(3) [OF 1] by simp
    fix j assume j: "j < length ops"
    show "i \<le> j \<Longrightarrow> i \<le> j \<and> \<not> prefix (tl (Q @ ?r)) (tl (ws @ butlast (op_root (ops ! j)))) \<and> apart (Q @ ?r) (A @ op_root (ops ! j))"
      using AP(2,5) [OF j] apart_not_parent [OF AP(2) [OF j] N(1)] by blast
    show "Suc i \<le> j \<Longrightarrow> Suc i \<le> j \<and> apart (Q @ ?r) (ws @ op_root (ops ! j)) \<and> apart (Q @ ?r) (Q @ op_root (ops ! j))"
      using AP(2) [OF j] AP(10) [OF j N(2)] by auto
  qed
qed

lemma underway_moved_in:
  assumes "underway d g ws Q A F ops pay t0 i (Suc i) W r t" "job g ws Q A F b ops" "i < length ops" "wf_node n"
  shows "underway d g ws Q A F ops pay t0 (Suc i) (Suc i) (upd (op_root (ops ! i)) (Some n) W) r
      (change_tree (ws @ op_root (ops ! i)) (Some n) (change_tree (A @ op_root (ops ! i)) None t))"
proof -
  let ?r = "op_root (ops ! i)"
  note U = underwayD [OF assms(1)] and N = job_ne [OF assms(2)] and J = jobD [OF assms(2)] and AP = job_apart [OF assms(2,3)]
  note P = placedD(1,3) [OF J(4) [OF assms(3)]]
  let ?t1 = "change_tree (A @ ?r) None t"
  have a1: "aside (A @ ?r) t ?t1" by (rule change_aside [OF P(2) U(1)]) simp
  have 1: "underway d g ws Q A F ops pay t0 (Suc i) (Suc i) W r ?t1"
  proof (rule underway_aside [OF assms(1,2) a1])
    show "apart (A @ ?r) F" using AP(9) [OF assms(3)] apart_sym by blast
    show "\<not> prefix (tl (A @ ?r)) (tl (butlast Q))"
      using apart_not_above(2) [of Q "A @ ?r"] AP(5) [OF assms(3), of "[]"] rooted_butlast [OF N(5)] by simp
    show "\<not> prefix (tl (A @ ?r)) (tl A)"
    proof
      assume "prefix (tl (A @ ?r)) (tl A)"
      then show False using prefix_length_le plannedD(5) [OF J(2) assms(3)] N(3) by fastforce
    qed
    show "A @ ?r = A @ ?r" "A \<in> {ws, Q, A}" by simp_all
    have "apart (A @ ?r) ws" using AP(3) [OF assms(3), of _ "[]"] by simp
    then show "look ws ?t1 = Some W" using asideD(2) [OF a1] U(3) by simp
    fix j assume j: "j < length ops"
    show "Suc i \<le> j \<Longrightarrow> i \<le> j \<and> \<not> prefix (tl (A @ ?r)) (tl (ws @ butlast (op_root (ops ! j)))) \<and> apart (A @ ?r) (A @ op_root (ops ! j))"
      using AP(10) [OF j N(3)] apart_not_parent [OF AP(3) [OF j] N(1)] by auto
    show "Suc i \<le> j \<Longrightarrow> Suc i \<le> j \<and> apart (A @ ?r) (ws @ op_root (ops ! j)) \<and> apart (A @ ?r) (Q @ op_root (ops ! j))"
      using AP(3,6) [OF j] by blast
  qed
  note V = underwayD [OF 1]
  have a2: "aside (ws @ ?r) ?t1 (change_tree (ws @ ?r) (Some n) ?t1)"
    by (rule change_aside [OF P(1) asideD(1) [OF a1]]) (simp add: assms(4))
  show ?thesis
  proof (rule underway_aside [OF 1 assms(2) a2])
    show "apart (ws @ ?r) F" using AP(7) [OF assms(3)] apart_sym by blast
    show "\<not> prefix (tl (ws @ ?r)) (tl (butlast Q))"
      using apart_not_above(2) [of Q "ws @ ?r"] AP(1) [OF assms(3), of "[]"] rooted_butlast [OF N(5)] by (simp add: apart_sym)
    show "\<not> prefix (tl (ws @ ?r)) (tl A)"
      using apart_not_above(1) [of A "ws @ ?r"] AP(3) [OF assms(3), of "[]" ?r] by simp
    show "ws @ ?r = ws @ ?r" "ws \<in> {ws, Q, A}" by simp_all
    show "look ws (change_tree (ws @ ?r) (Some n) ?t1) = Some (upd ?r (Some n) W)"
      by (rule look_change_below [OF N(4) V(1,3)]) (rule plannedD(5) [OF J(2) assms(3)])
    fix j assume j: "j < length ops"
    show "Suc i \<le> j \<Longrightarrow> Suc i \<le> j \<and> \<not> prefix (tl (ws @ ?r)) (tl (ws @ butlast (op_root (ops ! j)))) \<and> apart (ws @ ?r) (A @ op_root (ops ! j))"
      using AP(4) [OF j] apart_not_parent [OF AP(10) [OF j N(1)] N(1)] by auto
    show "Suc i \<le> j \<Longrightarrow> Suc i \<le> j \<and> apart (ws @ ?r) (ws @ op_root (ops ! j)) \<and> apart (ws @ ?r) (Q @ op_root (ops ! j))"
      using AP(1) [OF j] AP(10) [OF j N(1)] by auto
  qed
qed

lemma goes_move:
  assumes "quiet h" "src \<noteq> []" "look src t = Some n" "dir_on d (butlast src) t" "dir_on d (butlast dst) t" "apart src dst"
    "look dst t = None" "P () (change_tree dst (Some n) (change_tree src None t))"
  shows "goes (renameA h src dst) t P"
proof (rule goes_rename [OF assms(1,3)])
  show "\<not> prefix src dst"
  proof
    assume "prefix src dst"
    then obtain u where "dst = src @ u" by (auto elim: prefixE)
    then show False using assms(2,6) by (auto simp: apart_def)
  qed
qed (use assms(4-8) dir_on_there in simp_all)

lemma completes_fsync:
  "quiet h \<Longrightarrow> dir_on d p t \<Longrightarrow> completes m r t P \<Longrightarrow> completes (thenA (embed (fsync_directory h p)) m) r t P"
  by (rule completes_bind [OF completes_embed [OF goes_fsync]], assumption, erule dir_on_there(1), assumption)

lemma completes_backup:
  assumes "underway d g ws Q A F ops pay t0 i i W r t" "job g ws Q A F b ops" "i < length ops"
    and "same_static op (ops ! i)" "o_before_kind op \<noteq> None"
    and "\<And>r' t'. underway d g ws Q A F ops pay t0 i (Suc i) (upd (op_root (ops ! i)) None W) r' t' \<Longrightarrow> P () r' t'"
  shows "completes (move_backup g (ws @ op_root (ops ! i)) i op) r t P"
proof -
  let ?r = "op_root (ops ! i)" and ?W = "upd (op_root (ops ! i)) None W" and ?h = "b_host g"
  let ?U = "underway d g ws Q A F ops pay t0"
  let ?settle = "thenA (change_record (set_operation i (\<lambda>x. x\<lparr>o_backup_moved := True, o_phase := ''backup_moved''\<rparr>)))
      (thenA (embed (fsync_directory ?h (parent (ws @ ?r)))) (thenA (embed (fsync_directory ?h (parent (Q @ ?r)))) (save_commit g)))"
  let ?move = "thenA (embed (renameA ?h (ws @ ?r) (Q @ ?r))) ?settle"
  note N = job_ne [OF assms(2)] and J = jobD [OF assms(2)] and AP = job_apart [OF assms(2,3,3)]
  have r: "?r \<noteq> []" by (rule plannedD(5) [OF J(2) assms(3)])
  have par: "parent (X @ ?r) = X @ butlast ?r" "butlast (X @ ?r) = X @ butlast ?r" if "X \<noteq> []" for X
    using parent_below [OF that r] r by (simp_all add: butlast_append)
  have "planned_op Q b op" using plannedD(1) [OF J(2) assms(3)] planned_op_static [OF assms(4)] by simp
  then obtain bk where bk: "o_backup_path op = Some bk" "path_of bk = Q @ ?r"
    using assms(5) static_root [OF assms(4)] by (auto simp: planned_op_def split: option.splits)
  have wsdir: "dir_on d (ws @ butlast ?r) t" if "?U i l W r t" for l W r t
    using underwayD(8) [OF that assms(3)] by (simp add: payload_there_def)
  have save: "completes (save_commit g) r t P" if "?U i (Suc i) ?W r t" for r t
    by (rule completes_save_underway [OF that assms(2)]) (rule assms(6))
  have moved: "completes ?settle r t P"
    if U: "?U i (Suc i) ?W r t" and D: "dir_on d (Q @ butlast ?r) t" for r t
    unfolding par(1) [OF N(1)] par(1) [OF N(2)]
    by (rule completes_bind, rule completes_phase [OF U], simp add: same_static_def,
        rule completes_fsync [OF J(3) wsdir], assumption, rule completes_fsync [OF J(3) D], rule save)
  have move: "completes ?move r t P"
    if U: "?U i i W r t" and D: "dir_on d (Q @ butlast ?r) t" for r t
  proof (rule completes_bind, rule completes_embed)
    have room: "look (Q @ ?r) t = None" "look (ws @ ?r) t \<noteq> None"
      using underwayD(9) [OF U assms(3)] assms(4,5) by (simp_all add: backup_room_def same_static_def)
    then obtain n where n: "look (ws @ ?r) t = Some n" by blast
    then have "get ?r W = Some n" using look_append [OF N(1), of ?r t] underwayD(3) [OF U] by simp
    note U' = underway_moved_out [OF U assms(2,3) this]
    have D': "dir_on d (Q @ butlast ?r) (change_tree (Q @ ?r) (Some n) (change_tree (ws @ ?r) None t))"
    proof (rule dir_on_move [OF underwayD(1) [OF U] _ D apart_not_parent [OF AP(1) N(2)]])
      note p = placedD(1,2) [OF J(4) [OF assms(3)]]
      show "rooted (ws @ ?r)" "\<not> prefix (tl (Q @ ?r)) (tl (Q @ butlast ?r))"
        using p(1) not_below_parent [OF p(2)] par(2) [OF N(2)] by simp_all
    qed
    show "goes (renameA ?h (ws @ ?r) (Q @ ?r)) t (\<lambda>x t'. completes ?settle r t' P)"
      by (rule goes_move [OF J(3) _ n _ _ AP(1) room(1)])
        (use N(1,2) par(2) wsdir [OF U] D moved [OF U' D'] in simp_all)
  qed
  have saved: "completes (thenA (save_commit g) (?move)) r t P"
    if U: "?U i i W r t" and D: "dir_on d (Q @ butlast ?r) t" for r t
  proof (rule completes_bind, rule completes_save_underway [OF U assms(2)])
    fix t' assume U': "?U i i W (sign_commit g r) t'" and a: "aside F t t'"
    have "dir_on d (Q @ butlast ?r) t'" by (rule asideD(3) [OF a D]) (rule apart_not_parent [OF AP(8) N(2)])
    then show "completes (?move)
      (sign_commit g r) t' P"
      by (rule move [OF U'])
  qed
  have "look (ws @ ?r) t \<noteq> None"
    using underwayD(9) [OF assms(1,3)] assms(4,5) by (simp add: backup_room_def same_static_def)
  then show ?thesis
    unfolding move_backup_def bk Let_def option.case
    by (intro completes_bind [OF completes_embed [OF goes_exists]] completes_bind [OF completes_require]
        completes_bind [OF completes_backup_dir [OF assms(1-3)]] completes_bind [OF completes_phase] saved) 
      (auto simp: same_static_def)
qed

text \<open>The payload moves to its place in the workspace.\<close>

lemma completes_install:
  assumes "underway d g ws Q A F ops pay t0 i (Suc i) W r t" "job g ws Q A F b ops" "i < length ops"
    and "o_after_kind (ops ! i) \<noteq> None" "get (op_root (ops ! i)) W = None"
    and "\<And>r' t'. underway d g ws Q A F ops pay t0 (Suc i) (Suc i) (upd (op_root (ops ! i)) (pay (ops ! i)) W) r' t' \<Longrightarrow> P () r' t'"
  shows "completes (install g (A @ op_root (ops ! i)) (ws @ op_root (ops ! i)) i) r t P"
proof -
  let ?r = "op_root (ops ! i)" and ?W = "upd (op_root (ops ! i)) (pay (ops ! i)) W" and ?h = "b_host g"
  let ?U = "underway d g ws Q A F ops pay t0"
  let ?settle = "thenA (change_record (set_operation i (\<lambda>x. x\<lparr>o_installed := True, o_phase := ''installed''\<rparr>)))
      (thenA (embed (fsync_directory ?h (parent (ws @ ?r)))) (save_commit g))"
  let ?move = "thenA (embed (renameA ?h (A @ ?r) (ws @ ?r))) ?settle"
  note N = job_ne [OF assms(2)] and J = jobD [OF assms(2)] and AP = job_apart [OF assms(2,3,3)]
  have r: "?r \<noteq> []" by (rule plannedD(5) [OF J(2) assms(3)])
  have par: "parent (X @ ?r) = X @ butlast ?r" "butlast (X @ ?r) = X @ butlast ?r" if "X \<noteq> []" for X
    using parent_below [OF that r] r by (simp_all add: butlast_append)
  have wsdir: "dir_on d (ws @ butlast ?r) t" if "?U i l V r t" for l V r t
    using underwayD(8) [OF that assms(3)] by (simp add: payload_there_def)
  have save: "completes (save_commit g) r t P" if "?U (Suc i) (Suc i) ?W r t" for r t
    by (rule completes_save_underway [OF that assms(2)]) (rule assms(6))
  have moved: "completes ?settle r t P" if U: "?U (Suc i) (Suc i) ?W r t" and D: "dir_on d (ws @ butlast ?r) t" for r t
    unfolding par(1) [OF N(1)]
    by (rule completes_bind, rule completes_phase [OF U], simp add: same_static_def, rule completes_fsync [OF J(3) D], rule save)
  have move: "completes ?move r t P" if U: "?U i (Suc i) W r t" for r t
  proof (rule completes_bind, rule completes_embed)
    have payload: "look (A @ ?r) t = pay (ops ! i)" "pay (ops ! i) \<noteq> None" "dir_on d (A @ butlast ?r) t"
      using underwayD(8) [OF U assms(3)] assms(4) by (auto simp: payload_there_def)
    then obtain n where n: "look (A @ ?r) t = Some n" "pay (ops ! i) = Some n" by auto
    have none: "look (ws @ ?r) t = None" using look_append [OF N(1), of ?r t] underwayD(3) [OF U] assms(5) by simp
    have U': "?U (Suc i) (Suc i) ?W r (change_tree (ws @ ?r) (Some n) (change_tree (A @ ?r) None t))"
      using underway_moved_in [OF U assms(2,3) look_wf [OF underwayD(1) [OF U] n(1)]] n(2) by simp
    have D': "dir_on d (ws @ butlast ?r) (change_tree (ws @ ?r) (Some n) (change_tree (A @ ?r) None t))"
    proof (rule dir_on_move [OF underwayD(1) [OF U] _ wsdir [OF U] apart_not_parent [OF AP(3) N(1)]])
      note p = placedD(1,3) [OF J(4) [OF assms(3)]]
      show "rooted (A @ ?r)" "\<not> prefix (tl (ws @ ?r)) (tl (ws @ butlast ?r))"
        using p(2) not_below_parent [OF p(1)] par(2) [OF N(1)] by simp_all
    qed
    show "goes (renameA ?h (A @ ?r) (ws @ ?r)) t (\<lambda>x t'. completes ?settle r t' P)"
      by (rule goes_move [OF J(3) _ n(1) _ _ AP(3) none])
        (use N(1,3) par(2) wsdir [OF U] payload(3) moved [OF U' D'] in simp_all)
  qed
  have saved: "completes (thenA (save_commit g) ?move) r t P" if U: "?U i (Suc i) W r t" for r t
    by (rule completes_bind, rule completes_save_underway [OF U assms(2)], rule move)
  have "dir_there (parent (ws @ ?r)) t" using dir_on_there(1) [OF wsdir [OF assms(1)]] par(1) [OF N(1)] by simp
  then show ?thesis
    unfolding install_def Let_def
    by (intro completes_bind [OF completes_embed [OF goes_mkdirs_there]] completes_bind [OF completes_phase [OF assms(1)]] saved)
      (auto simp: same_static_def)
qed

subsection \<open>The loop\<close>

text \<open>The workspace after the first operations\<close>

definition replayed :: "(commit_operation \<Rightarrow> node option) \<Rightarrow> commit_operation list \<Rightarrow> node \<Rightarrow> node" where
  "replayed pay ops b = fold (\<lambda>op. upd (op_root op) (pay op)) ops b"

lemma replayed_Suc:
  "i < length ops \<Longrightarrow> replayed pay (take (Suc i) ops) b = upd (op_root (ops ! i)) (pay (ops ! i)) (replayed pay (take i ops) b)"
  by (simp add: replayed_def take_Suc_conv_app_nth)

lemma completes_apply_operation:
  assumes "underway d g ws Q A F ops pay t0 i i W r t" "job g ws Q A F b ops" "i < length ops"
    and "\<And>r' t'. underway d g ws Q A F ops pay t0 (Suc i) (Suc i) (upd (op_root (ops ! i)) (pay (ops ! i)) W) r' t' \<Longrightarrow> P () r' t'"
  shows "completes (apply_operation g ws A i) r t P"
proof -
  let ?r = "op_root (ops ! i)" and ?U = "underway d g ws Q A F ops pay t0" and ?op = "r_operations r ! i"
  note N = job_ne [OF assms(2)] and J = jobD [OF assms(2)] and U = underwayD [OF assms(1)]
  have st: "same_static ?op (ops ! i)" by (rule U(7) [OF assms(3)])
  have r: "?r \<noteq> []" by (rule plannedD(5) [OF J(2) assms(3)])
  have "planned_op Q b ?op" using plannedD(1) [OF J(2) assms(3)] planned_op_static [OF st] by simp
  then have join: "safe_join X (o_path ?op) = Inr (X @ ?r)" for X using safe_join_planned static_root [OF st] by metis
  have wfW: "wf_node W" by (rule look_wf [OF U(1,3)])
  have second: "completes (if o_after_kind ?op \<noteq> None then install g (A @ ?r) (ws @ ?r) i else returnA ()) r' t' P"
    if V: "?U i (Suc i) (upd ?r None W) r' t'" and "get ?r (upd ?r None W) = None" for r' t'
  proof (cases "o_after_kind ?op = None")
    case True
    then have "pay (ops ! i) = None" using U(8) [OF assms(3)] st by (simp add: payload_there_def same_static_def)
    moreover have "?U (Suc i) (Suc i) (upd ?r None W) r' t'" using V by (auto simp: underway_def)
    ultimately show ?thesis using True assms(4) by (simp add: completes_def)
  next
    case False
    then have "o_after_kind (ops ! i) \<noteq> None" using st by (simp add: same_static_def)
    then have "completes (install g (A @ ?r) (ws @ ?r) i) r' t' P"
      by (rule completes_install [OF V assms(2,3) _ that(2)])
        (use assms(4) upd_upd [OF wfW r] in simp)
    then show ?thesis using False by simp
  qed
  have "dir_on d (ws @ butlast ?r) t" using U(8) [OF assms(3)] by (simp add: payload_there_def)
  then have "dir_at (butlast ?r) W" using look_append [OF N(1), of "butlast ?r" t] U(3) by (auto simp: dir_on_def dir_at_def)
  then have gone: "get ?r (upd ?r None W) = None" by (rule get_upd_same [OF wfW _ r])
  have "completes (thenA (if o_before_kind ?op \<noteq> None then move_backup g (ws @ ?r) i ?op else returnA ())
      (if o_after_kind ?op \<noteq> None then install g (A @ ?r) (ws @ ?r) i else returnA ())) r t P"
  proof (cases "o_before_kind ?op = None")
    case True
    then have "look (ws @ ?r) t = None" using U(9) [OF assms(3)] st by (simp add: backup_room_def same_static_def)
    then have "get ?r W = None" using look_append [OF N(1), of ?r t] U(3) by simp
    then have "upd ?r None W = W" using upd_none_id wfW by blast
    then have "?U i (Suc i) (upd ?r None W) r t" using assms(1) by (auto simp: underway_def)
    then show ?thesis using second [OF _ gone] True by (simp add: completes_def bindA_def)
  next
    case False
    have "completes (thenA (move_backup g (ws @ ?r) i ?op)
        (if o_after_kind ?op \<noteq> None then install g (A @ ?r) (ws @ ?r) i else returnA ())) r t P"
      by (rule completes_bind, rule completes_backup [OF assms(1-3) st False], rule second [OF _ gone])
    then show ?thesis using False by simp
  qed
  then show ?thesis
    unfolding apply_operation_def
    by (intro completes_the_operation completes_lift [OF join])
qed

lemma completes_apply_all:
  assumes "underway d g ws Q A F ops pay t0 0 0 b r t" "job g ws Q A F b ops"
    and "\<And>r' t'. underway d g ws Q A F ops pay t0 (length ops) (length ops) (replayed pay ops b) r' t' \<Longrightarrow> P () r' t'"
  shows "completes (apply_all g ws A) r t P"
proof -
  let ?I = "\<lambda>k r t. underway d g ws Q A F ops pay t0 k k (replayed pay (take k ops) b) r t"
  have step: "completes (apply_operation g ws A i) r t (\<lambda>_. ?I (Suc i))" if i: "i < length ops" and U: "?I i r t" for i r t
    by (rule completes_apply_operation [OF U assms(2) i]) (use replayed_Suc [OF i, of pay b] in simp)
  have "?I 0 r t" using assms(1) by (simp add: replayed_def)
  with completes_for [of "length ops" ?I, OF step] have "completes (forA (apply_operation g ws A) [0..<length ops]) r t (\<lambda>_. ?I (length ops))"
    by simp
  then have "completes (forA (apply_operation g ws A) [0..<length ops]) r t P"
    by (rule completes_weaken) (use assms(3) in simp)
  then show ?thesis
    unfolding apply_all_def using underwayD(6) [OF assms(1)] by (intro completes_the_record) simp
qed

lemma goes_scan:
  assumes "quiet (b_host g)" "scan_tree (b_crypto g) (default_limits (b_excluded g)) ws (look ws t) = Inr m" "P m t"
  shows "goes (scan g ws) t P"
  using assms by (auto simp: goes_def scan_def scanA_def Let_def)

lemma completes_apply_record:
  assumes "underway d g ws Q A F ops pay t0 0 0 b r t" "job g ws Q A F b ops"
    and "scan_tree (b_crypto g) (default_limits (b_excluded g)) ws (Some (replayed pay ops b)) = Inr m"
    and "m_digest m = p_staged_digest plan"
  shows "completes (apply_record g plan ws A) r t (\<lambda>_ r' t'. r_status r' = ''committed'' \<and>
    record_at F t' = Some r' \<and> underway d g ws Q A F ops pay t0 (length ops) (length ops) (replayed pay ops b) r' t')"
proof -
  let ?U = "underway d g ws Q A F ops pay t0" and ?W = "replayed pay ops b" and ?n = "length ops"
  let ?P = "\<lambda>_ r' t'. r_status r' = ''committed'' \<and> record_at F t' = Some r' \<and> ?U ?n ?n ?W r' t'"
  let ?done = "\<lambda>r. r\<lparr>r_status := ''committed'', r_operations := map (\<lambda>x. x\<lparr>o_phase := ''complete''\<rparr>) (r_operations r)\<rparr>"
  have last: "completes (thenA (change_record ?done) (save_commit g)) r t ?P" if U: "?U ?n ?n ?W r t" for r t
  proof (rule completes_bind, rule completes_change)
    have "?U ?n ?n ?W (?done r) t" by (rule underway_record [OF U]) (simp_all add: same_static_def)
    then show "completes (save_commit g) (?done r) t ?P"
    proof (rule completes_save_underway [OF _ assms(2)])
      fix t' assume "?U ?n ?n ?W (sign_commit g (?done r)) t'" and "record_at F t' = Some (sign_commit g (?done r))"
      moreover have "r_status (sign_commit g (?done r)) = ''committed''" by (simp add: sign_commit_def)
      ultimately show "?P () (sign_commit g (?done r)) t'" by blast
    qed
  qed
  have checked: "completes (bindA (embed (scan g ws)) (\<lambda>final_manifest.
      thenA (requireA (m_digest final_manifest = p_staged_digest plan)
        (IntegrityError ''post-commit workspace digest does not match the approved staged digest''))
      (thenA (change_record ?done) (save_commit g)))) r t ?P" if U: "?U ?n ?n ?W r t" for r t
  proof (rule completes_bind, rule completes_embed, rule goes_scan [OF jobD(3) [OF assms(2)]])
    show "scan_tree (b_crypto g) (default_limits (b_excluded g)) ws (look ws t) = Inr m" using assms(3) underwayD(3) [OF U] by simp
    show "completes (thenA (requireA (m_digest m = p_staged_digest plan)
        (IntegrityError ''post-commit workspace digest does not match the approved staged digest''))
      (thenA (change_record ?done) (save_commit g))) r t ?P"
      by (rule completes_bind, rule completes_require [OF assms(4)], rule last [OF U])
  qed
  show ?thesis
    unfolding apply_record_def
    by (rule completes_bind, rule completes_save_underway [OF assms(1,2)], rule completes_bind,
        rule completes_apply_all [OF _ assms(2)], assumption, rule checked)
qed

subsection \<open>A prepared record is applied\<close>

definition payload_of :: "path \<Rightarrow> node \<Rightarrow> commit_operation \<Rightarrow> node option" where
  "payload_of A t op = (if o_after_kind op = None then None else look (A @ op_root op) t)"

text \<open>
  What \<^verbatim>\<open>commit\<close> has made sure of before it applies: the record can be written, the quarantine of this commit is an empty
  directory, every payload is staged, and all is on one device.
\<close>

definition staged :: "guard \<Rightarrow> path \<Rightarrow> string \<Rightarrow> commit_operation list \<Rightarrow> path \<Rightarrow> node \<Rightarrow> bool" where
  "staged g ws i ops F t \<longleftrightarrow> writable F t \<and>
     (\<exists>d. dir_on d (b_root g @ [''quarantine'']) t \<and> (\<exists>m. look (quarantine_of g i) t = Some (DirN d m [])) \<and>
       dir_on d (apply_of g i) t \<and>
       (\<forall>op \<in> set ops. dir_on d (ws @ butlast (op_root op)) t \<and>
         (o_after_kind op \<noteq> None \<longrightarrow> look (apply_of g i @ op_root op) t \<noteq> None \<and> dir_on d (apply_of g i @ butlast (op_root op)) t)))"

lemma staged_underway:
  assumes "ready ws (quarantine_of g i) b (r, w)" "staged g ws i (r_operations r) F (w_tree w)" "commit_path g (r_commit_id r) = Inr F"
    and "ws \<noteq> []"
  shows "\<exists>d. underway d g ws (quarantine_of g i) (apply_of g i) F (r_operations r) (payload_of (apply_of g i) (w_tree w)) (w_tree w) 0 0 b r (w_tree w)"
proof -
  let ?Q = "quarantine_of g i" and ?A = "apply_of g i" and ?t = "w_tree w" and ?ops = "r_operations r"
  have R: "wf_node ?t" "look ws ?t = Some b" "planned ?Q b ?ops" using assms(1) by (simp_all add: ready_def)
  obtain d m where S: "writable F ?t" "look ?Q ?t = Some (DirN d m [])" "dir_on d (b_root g @ [''quarantine'']) ?t"
    "dir_on d ?A ?t" "\<And>op. op \<in> set ?ops \<Longrightarrow> dir_on d (ws @ butlast (op_root op)) ?t"
    "\<And>op. op \<in> set ?ops \<Longrightarrow> o_after_kind op \<noteq> None \<Longrightarrow> look (?A @ op_root op) ?t \<noteq> None \<and> dir_on d (?A @ butlast (op_root op)) ?t"
    using assms(2) by (auto simp: staged_def)
  have Q: "?Q \<noteq> []" "butlast ?Q = b_root g @ [''quarantine'']" by (simp_all add: quarantine_of_def butlast_append)
  have "payload_there d ws ?A (payload_of ?A ?t) (?ops ! j) ?t" if "j < length ?ops" for j
    using S(5,6) [OF nth_mem [OF that]] by (auto simp: payload_there_def payload_of_def)
  moreover have "backup_room d ws ?Q (?ops ! j) ?t" if j: "j < length ?ops" for j
  proof -
    have empty: "look (?Q @ p) ?t = (if p = [] then Some (DirN d m []) else None)" for p
      using look_append [OF Q(1), of p] S(2) by (cases p) simp_all
    moreover have "op_root (?ops ! j) \<noteq> []" by (rule plannedD(5) [OF R(3) j])
    moreover have "o_before_kind (?ops ! j) = None \<longleftrightarrow> look (ws @ op_root (?ops ! j)) ?t = None"
      using plannedD(1) [OF R(3) j] look_append [OF assms(4), of "op_root (?ops ! j)" ?t] R(2) by (simp add: planned_op_def)
    ultimately show ?thesis by (auto simp: backup_room_def dir_on_def)
  qed
  ultimately have "underway d g ws ?Q ?A F ?ops (payload_of ?A ?t) ?t 0 0 b r ?t"
    using R(1,2) S(1,3,4) Q(2) assms(3) elsewhere_refl by (simp add: underway_def same_static_def)
  then show ?thesis by blast
qed

text \<open>
  C5. Applying succeeds. When no call of the operating system fails, applying a prepared record whose payloads are staged returns,
  provided that the baseline with the payloads put at the roots of the operations has the approved digest: then the workspace
  is exactly that tree, and the record is stored as committed.
\<close>

theorem apply_completes:
  assumes "guarded g" and "rooted ws" and "apart (b_root g) ws" and "is_name i" and "\<forall>k. \<not> h_fault (b_host g) k"
    and "ready ws (quarantine_of g i) b (r, w)" and "commit_path g (r_commit_id r) = Inr F"
    and "staged g ws i (r_operations r) F (w_tree w)"
    and "W = replayed (payload_of (apply_of g i) (w_tree w)) (r_operations r) b"
    and "scan_tree (b_crypto g) (default_limits (b_excluded g)) ws (Some W) = Inr m" and "m_digest m = p_staged_digest plan"
  shows "\<exists>r' w'. apply_record g plan ws (apply_of g i) (r, w) = (Inr (), (r', w')) \<and> r_status r' = ''committed'' \<and>
    look ws (w_tree w') = Some W \<and> record_at F (w_tree w') = Some r'"
proof -
  have S: "setting g ws (quarantine_of g i) (apply_of g i)" using assms(1-4) by (intro setting_of) simp_all
  have job: "job g ws (quarantine_of g i) (apply_of g i) F b (r_operations r)"
    using S assms(5-7) by (auto simp: job_def ready_def)
  have "ws \<noteq> []" using assms(2) by (auto simp: rooted_def)
  then obtain d where "underway d g ws (quarantine_of g i) (apply_of g i) F (r_operations r)
      (payload_of (apply_of g i) (w_tree w)) (w_tree w) 0 0 b r (w_tree w)"
    using staged_underway [OF assms(6,8,7)] by blast
  from completes_apply_record [OF this job assms(10,11) [unfolded assms(9)]]
  show ?thesis unfolding completes_def assms(9) using underwayD(3) by fastforce
qed

subsection \<open>A record that is applied\<close>

definition staged_id :: string where "staged_id = ''commit_'' @ sample_body"

definition staged_file :: path where "staged_file = [''/'', ''s'', ''commits'', staged_id @ ''.json'']"

definition staged_record :: commit_record where
  "staged_record = sample_record\<lparr>r_commit_id := staged_id,
     r_quarantine_root := path_str (quarantine_of fixed_guard staged_id),
     r_operations := [\<lparr>o_path = ''a'', o_change_kind = MODIFY, o_before_kind = Some FILE, o_after_kind = Some FILE,
       o_backup_path = Some (path_str (quarantine_of fixed_guard staged_id @ [''a''])), o_installed = False, o_backup_moved = False,
       o_phase = ''pending''\<rparr>]\<rparr>"

definition staged_world :: world where
  "staged_world = \<lparr>w_tree = DirN 1 493
    [(''s'', DirN 1 448 [(''apply'', DirN 1 448 [(staged_id, DirN 1 448 [(''a'', FileN 1 420 ''yy'')])]),
       (''commits'', DirN 1 448 []), (''quarantine'', DirN 1 448 [(staged_id, DirN 1 448 [])])]),
     (''w'', sample_before)], w_calls = 0, w_ticks = 0, w_draws = 0\<rparr>"

lemma staged_name: "is_name staged_id" "validate_object_id (JStr staged_id) ''commit'' = Inr staged_id"
  using sample_body_chars sample_id [of "CHR ''c''" "''ommit''"]
  by (simp_all add: staged_id_def is_name_def is_component_def lower_alpha_def id_prefix_char_def)

lemma staged_ready: "ready [''/'', ''w''] (quarantine_of fixed_guard staged_id) sample_before (staged_record, staged_world)"
proof -
  have q: "path_of (path_str (quarantine_of fixed_guard staged_id @ p)) = quarantine_of fixed_guard staged_id @ p"
    if "\<forall>a \<in> set p. is_name a" for p
    using that staged_name(1) by (intro path_str_rooted) (simp_all add: quarantine_of_def rooted_def is_name_def is_component_def)
  have a: "names_of ''a'' = [''a'']" "relative_text ''a''" "is_name ''a''" by code_simp+
  have "wf_node (w_tree staged_world)"
    using staged_name(1) by (simp add: staged_world_def sample_before_def is_name_def is_component_def less_char_def)
  then show ?thesis
    using q [of "[]"] q [of "[''a'']"] a
    by (simp add: ready_def staged_record_def sample_record_def planned_def planned_op_def op_root_def all_names_def untouched_def
        flagged_def sample_before_def staged_world_def dir_at_def)
qed

lemma sample_scan_after:
  "map_sum id m_digest (scan_tree fixed_crypto (default_limits []) [''/'', ''w''] (Some sample_after)) = Inr fixed_digest"
  by code_simp

lemma staged_replay:
  "replayed (payload_of (apply_of fixed_guard staged_id) (w_tree staged_world)) (r_operations staged_record) sample_before = sample_after"
proof -
  have "names_of ''a'' = [''a'']" by code_simp
  then show ?thesis
    by (simp add: replayed_def payload_of_def staged_record_def op_root_def apply_of_def staged_world_def sample_before_def sample_after_def)
qed

lemma staged_staged: "staged fixed_guard [''/'', ''w''] staged_id (r_operations staged_record) staged_file (w_tree staged_world)"
proof -
  have "names_of ''a'' = [''a'']" by code_simp
  moreover have "is_name (staged_id @ ''.json'')"
    using sample_body_chars by (simp add: staged_id_def is_name_def is_component_def)
  ultimately show ?thesis
    by (simp add: staged_def writable_def staged_file_def rooted_def dir_there_def dir_on_def staged_record_def op_root_def
        quarantine_of_def apply_of_def staged_world_def sample_before_def is_name_def is_component_def)
qed

theorem apply_completes_witness:
  "\<exists>r' w'. apply_record fixed_guard sample_plan [''/'', ''w''] (apply_of fixed_guard staged_id) (staged_record, staged_world) =
      (Inr (), (r', w')) \<and> r_status r' = ''committed'' \<and> look [''/'', ''w''] (w_tree w') = Some sample_after \<and>
      record_at staged_file (w_tree w') = Some r'"
proof -
  have "\<exists>m. scan_tree fixed_crypto (default_limits []) [''/'', ''w''] (Some sample_after) = Inr m \<and> m_digest m = p_staged_digest sample_plan"
    using sample_scan_after
    by (cases "scan_tree fixed_crypto (default_limits []) [''/'', ''w''] (Some sample_after)") (simp_all add: sample_plan_def sign_plan_def)
  then obtain m where m: "scan_tree (b_crypto fixed_guard) (default_limits (b_excluded fixed_guard)) [''/'', ''w''] (Some sample_after) = Inr m"
    "m_digest m = p_staged_digest sample_plan" by (auto simp: fixed_guard_def)
  have "guarded fixed_guard" using fixed_guard_sound by (simp add: sound_broker_def)
  moreover have "commit_path fixed_guard (r_commit_id staged_record) = Inr staged_file"
    by (simp add: commit_path_def staged_record_def staged_name(2) staged_file_def)
  ultimately show ?thesis
    using apply_completes [OF _ _ _ staged_name(1) _ staged_ready _ staged_staged staged_replay [symmetric] m]
    by (simp add: rooted_def apart_def parallel_def is_name_def is_component_def)
qed

end
