(* ===== verification/Approvals.thy ===== *)
theory Approvals
  imports CommitSafety
begin

text \<open>
  What a loaded plan is known to satisfy, and what the token \<^verbatim>\<open>approve\<close> returns is good for.
\<close>

subsection \<open>Loaded plans\<close>

lemma load_plan_Inr:
  assumes "load_plan g i w = (Inr plan, w1)"
  shows "p_id plan = i" "validate_object_id (JStr i) ''plan'' = Inr i" "validate_plan_record plan = Inr ()"
    "digest_json (b_crypto g) (JObj (plan_core plan)) = p_fingerprint plan"
    "check_signature g (signed_record ''commit_plan'' (plan_signing_dict plan)) (p_signature plan) = Inr ()"
  using assms by (auto simp: load_plan_def bindA_Inr_iff requireA_iff liftA_def validate_object_id_Inr_iff)

lemma plan_record_facts:
  assumes "validate_plan_record plan = Inr ()"
  shows "p_protocol_version plan = 1" "0 \<le> p_created_at plan" "p_created_at plan < p_expires_at plan"
    "p_expires_at plan \<le> p_created_at plan + 3600" "\<exists>x. validate_sha256 (JStr (p_fingerprint plan)) ''plan fingerprint'' = Inr x"
    "c \<in> set (p_changes plan) \<Longrightarrow> relative_text (c_path c) \<and> (\<forall>e. c_before c = Some e \<or> c_after c = Some e \<longrightarrow> e_path e = c_path c)"
proof -
  note v = assms [unfolded validate_plan_record_def, simplified]
  show "p_protocol_version plan = 1" "0 \<le> p_created_at plan" "p_created_at plan < p_expires_at plan"
    "p_expires_at plan \<le> p_created_at plan + 3600"
    using v by (auto simp: PROTOCOL_VERSION_def MAX_PLAN_TTL_SECONDS_def)
  show "\<exists>x. validate_sha256 (JStr (p_fingerprint plan)) ''plan fingerprint'' = Inr x"
    using v by (auto simp: rewrap_Inr_iff voidE_def bindE_Inr_iff)
  assume "c \<in> set (p_changes plan)"
  then have "validate_change c = Inr ()" using v by auto
  then show "relative_text (c_path c) \<and> (\<forall>e. c_before c = Some e \<or> c_after c = Some e \<longrightarrow> e_path e = c_path c)"
    by (auto simp: validate_change_def voidE_def bindE_Inr_iff validate_relative_path_Inr_iff)
qed


subsection \<open>Tokens\<close>

lemma strip_strip: "strip (strip s) = strip s"
proof -
  have "dropWhile P (dropWhile P xs) = dropWhile P xs" for P and xs :: string by (induction xs) auto
  moreover have "dropWhile P (rev (dropWhile P (rev (dropWhile P xs)))) = rev (dropWhile P (rev (dropWhile P xs)))"
    for P and xs :: string
  proof -
    let ?d = "dropWhile P xs"
    have "hd ?d = hd (rev (dropWhile P (rev ?d)))" if "rev (dropWhile P (rev ?d)) \<noteq> []"
      using that by (metis hd_append takeWhile_dropWhile_id rev_append rev_rev_ident)
    moreover have "?d \<noteq> [] \<Longrightarrow> \<not> P (hd ?d)" by (rule hd_dropWhile)
    ultimately show ?thesis by (metis dropWhile_eq_self_iff dropWhile.simps(1) rev.simps(1))
  qed
  ultimately show ?thesis unfolding strip_def by (metis rev_rev_ident)
qed

lemma text_field_again:
  "validate_text_field v name n = Inr s \<Longrightarrow> validate_text_field (JStr s) name n = Inr s"
  by (auto simp: validate_text_field_def Let_def strip_strip split: json.splits if_splits)

lemma make_token_fields:
  "a_token_id (make_token g plan i actor c ttl) = i" "a_plan_id (make_token g plan i actor c ttl) = p_id plan"
  "a_plan_fingerprint (make_token g plan i actor c ttl) = p_fingerprint plan" "a_actor (make_token g plan i actor c ttl) = actor"
  "a_created_at (make_token g plan i actor c ttl) = c" "a_expires_at (make_token g plan i actor c ttl) = min (p_expires_at plan) (c + ttl)"
  "check_signature g (signed_core ''approval'' (JObj (token_core (make_token g plan i actor c ttl))))
     (a_signature (make_token g plan i actor c ttl)) = Inr ()"
  by (simp_all add: make_token_def Let_def check_signature_def token_core_def)


end
