(* ===== verification/ScanAlike.thy ===== *)
theory ScanAlike
  imports DiffFacts
begin

text \<open>
  A scan sees nothing of a tree but the labels at the included paths and the devices: two trees that agree there, each on
  one device, are scanned to the same manifest.
\<close>

subsection \<open>The walk is a loop over the listing\<close>

fun visits :: "crypto \<Rightarrow> scan_limits \<Rightarrow> int \<Rightarrow> (path \<times> node) list \<Rightarrow> walk_state \<Rightarrow> walk_state result" where
  "visits cr lim dev [] st = Inr st"
| "visits cr lim dev ((p, n) # xs) st =
     bindE (validate_relative_path (JStr (path_str p))) (\<lambda>_.
     bindE (visit cr lim dev (path_str p) n st) (visits cr lim dev xs))"

lemma visits_append: "visits cr lim dev (xs @ ys) st = bindE (visits cr lim dev xs st) (visits cr lim dev ys)"
proof (induction xs arbitrary: st)
  case Nil
  then show ?case by (simp add: bindE_def)
next
  case (Cons x xs)
  then show ?case by (cases x) (simp add: bindE_assoc Cons.IH [abs_def])
qed

lemma walk_visits:
  "wf_kids ks \<Longrightarrow> walk cr lim dev rel ks st = visits cr lim dev (listing rel (scanned_kids (l_excluded lim) rel ks)) st"
proof (induction cr lim dev rel ks st rule: walk.induct)
  case (2 cr lim dev rel a n ks st)
  have wf: "wf_kids ks" "wf_node n" "wf_kids (kids n)" using 2(4) wf_kids [of n] by auto
  show ?case
  proof (cases "rel = [] \<and> a \<in> set (l_excluded lim)")
    case True
    then show ?thesis using 2(1) [OF True wf(1)] by (simp add: scanned_kids_def)
  next
    case False
    let ?p = "rel @ [a]"
    have l: "listing rel (scanned_kids (l_excluded lim) rel ((a, n) # ks)) =
        (?p, n) # listing ?p (kids n) @ listing rel (scanned_kids (l_excluded lim) rel ks)"
      using False by (auto simp: scanned_kids_def)
    have sub: "(if is_dir n then walk cr lim dev ?p (sort_key fst (kids n)) st1 else Inr st1) = visits cr lim dev (listing ?p (kids n)) st1"
      if "validate_relative_path (JStr (path_str ?p)) = Inr u" "visit cr lim dev (path_str ?p) n st = Inr st1" for u st1
      using 2(2) [OF False that] wf by (cases "is_dir n") (simp_all add: wf_kids_sort scanned_kids_def not_dir_kids)
    show ?thesis
      unfolding l walk.simps visits.simps if_not_P [OF False] visits_append
    proof (cases "validate_relative_path (JStr (path_str ?p))")
      case u: (Inr u)
      show "bindE (validate_relative_path (JStr (path_str ?p))) (\<lambda>_. bindE (visit cr lim dev (path_str ?p) n st) (\<lambda>st1.
          bindE (if is_dir n then walk cr lim dev ?p (sort_key fst (kids n)) st1 else Inr st1) (walk cr lim dev rel ks))) =
        bindE (validate_relative_path (JStr (path_str ?p))) (\<lambda>_. bindE (visit cr lim dev (path_str ?p) n st) (\<lambda>st.
          bindE (visits cr lim dev (listing ?p (kids n)) st)
            (visits cr lim dev (listing rel (scanned_kids (l_excluded lim) rel ks)))))"
      proof (cases "visit cr lim dev (path_str ?p) n st")
        case v: (Inr st1)
        show ?thesis
        proof (cases "visits cr lim dev (listing ?p (kids n)) st1")
          case w: (Inr st2)
          have "walk cr lim dev rel ks st2 = visits cr lim dev (listing rel (scanned_kids (l_excluded lim) rel ks)) st2"
            by (rule 2(3) [OF False u v _ wf(1)]) (use sub [OF u v] w in simp)
          then show ?thesis using u v w sub [OF u v] by (simp add: bindE_def)
        qed (use u v sub [OF u v] in \<open>simp add: bindE_def\<close>)
      qed (simp add: u bindE_def)
    qed (simp add: bindE_def)
  qed
qed (simp add: scanned_kids_def)

text \<open>The loop looks at labels and devices only.\<close>

definition alike :: "int \<Rightarrow> path \<times> node \<Rightarrow> path \<times> node \<Rightarrow> bool" where
  "alike dev x y \<longleftrightarrow> fst x = fst y \<and> label (snd x) = label (snd y) \<and>
     (entry_kind_of_node (snd y) \<noteq> SYMLINK \<longrightarrow> node_dev (snd y) = dev)"

lemma label_entry:
  assumes "label n = label n'"
  shows "entry_of_node cr key n = entry_of_node cr key n'" "entry_kind_of_node n = entry_kind_of_node n'" "node_size n = node_size n'"
  using assms by (cases n; cases n'; simp add: entry_of_node_def)+

lemma visits_alike:
  "list_all2 (alike dev') xs ys \<Longrightarrow> visits cr lim dev xs st = Inr st' \<Longrightarrow> visits cr lim dev' ys st = Inr st'"
proof (induction xs ys arbitrary: st rule: list_all2_induct)
  case (Cons x xs y ys)
  obtain p n p' n' where xy: "x = (p, n)" "y = (p', n')" by (metis surj_pair)
  then have a: "p' = p" "label n = label n'" "entry_kind_of_node n' \<noteq> SYMLINK \<longrightarrow> node_dev n' = dev'"
    using Cons(1) by (simp_all add: alike_def)
  obtain u st1 where v: "validate_relative_path (JStr (path_str p)) = Inr u" "visit cr lim dev (path_str p) n st = Inr st1"
    "visits cr lim dev xs st1 = Inr st'"
    using Cons.prems by (auto simp: xy bindE_Inr_iff)
  have "visit cr lim dev' (path_str p) n' st = Inr st1"
    using v(2) a(3) label_entry [OF a(2)] by (auto simp: visit_def Let_def split: if_splits)
  then show ?case using v Cons.IH [OF v(3)] by (simp add: xy a(1) bindE_Inr_iff)
qed simp

subsection \<open>The listing is ordered\<close>

lemma append_less_append: "rel @ x < rel @ y \<longleftrightarrow> x < (y :: path)"
  by (induction rel) auto

lemma listing_sorted: "wf_kids ks \<Longrightarrow> sorted_wrt (<) (map fst (listing rel ks))"
proof (induction rel ks rule: listing.induct)
  case (2 rel a n ks)
  have wf: "wf_kids ks" "wf_kids (kids n)" using 2(3) wf_kids [of n] by auto
  have low: "b > a" if "b \<in> fst ` set ks" for b using that 2(3) by (auto simp: sorted_wrt_map)
  have up: "\<exists>b q. p = rel @ b # q \<and> a < b" if "p \<in> fst ` set (listing rel ks)" for p
    using that listing_prefix [OF wf(1), of p _ rel] low by fastforce
  have down: "\<exists>b q. p = rel @ a # b # q" if "p \<in> fst ` set (listing (rel @ [a]) (kids n))" for p
    using that listing_prefix [OF wf(2), of p _ "rel @ [a]"] by fastforce
  have "rel @ [a] < p" if "p \<in> fst ` set (listing (rel @ [a]) (kids n)) \<or> p \<in> fst ` set (listing rel ks)" for p
    using that
  proof
    assume "p \<in> fst ` set (listing (rel @ [a]) (kids n))"
    then show ?thesis using down [of p] by (auto simp: append_less_append)
  next
    assume "p \<in> fst ` set (listing rel ks)"
    then show ?thesis using up [of p] by (auto simp: append_less_append)
  qed
  moreover have "p < q" if "p \<in> fst ` set (listing (rel @ [a]) (kids n))" "q \<in> fst ` set (listing rel ks)" for p q
    using down [OF that(1)] up [OF that(2)] by (auto simp: append_less_append)
  ultimately show ?case using 2(1) [OF wf(2)] 2(2) [OF wf(1)] by (auto simp: sorted_wrt_append)
qed simp

lemma scan_listing_alike:
  assumes "wf_node t" "wf_node u" "same_tree ex t u"
    and "\<And>p n. included ex p \<Longrightarrow> get p u = Some n \<Longrightarrow> entry_kind_of_node n \<noteq> SYMLINK \<Longrightarrow> node_dev n = dev"
  shows "list_all2 (alike dev) (scan_listing ex t) (scan_listing ex u)"
proof -
  let ?x = "scan_listing ex t" and ?y = "scan_listing ex u"
  have mem: "(p, n) \<in> set (scan_listing ex v) \<longleftrightarrow> included ex p \<and> get p v = Some n" if "wf_node v" for p n v
    using scan_listing_mem [OF that] by (simp add: included_def)
  have lab: "map_option label (get p t) = map_option label (get p u)" if "included ex p" for p
    using assms(3) that by (simp add: same_tree_def)
  have keys: "fst ` set (scan_listing ex v) = {p. included ex p \<and> get p v \<noteq> None}" if "wf_node v" for v
    using mem [OF that] by force
  have "get p t = None \<longleftrightarrow> get p u = None" if "included ex p" for p using lab [OF that] by (cases "get p t"; cases "get p u") auto
  then have "{p. included ex p \<and> get p t \<noteq> None} = {p. included ex p \<and> get p u \<noteq> None}" by (intro Collect_cong) metis
  then have "set (map fst ?x) = set (map fst ?y)" using keys [OF assms(1)] keys [OF assms(2)] by simp
  moreover have "sorted_wrt (<) (map fst ?x)" "sorted_wrt (<) (map fst ?y)"
    unfolding scan_listing_def using assms(1,2) by (intro listing_sorted wf_scanned_kids wf_kids; simp)+
  ultimately have fst: "map fst ?x = map fst ?y"
    by (metis strict_sorted_iff sorted_distinct_set_unique)
  then have len: "length ?x = length ?y" using map_eq_imp_length_eq by blast
  show ?thesis
  proof (rule list_all2_all_nthI [OF len])
    fix i assume i: "i < length ?x"
    have f: "fst (?x ! i) = fst (?y ! i)" using fst i len by (metis nth_map)
    obtain p n n' where x: "?x ! i = (p, n)" "?y ! i = (p, n')" using f by (metis prod.collapse)
    have "(p, n) \<in> set ?x" "(p, n') \<in> set ?y" using x i len nth_mem by metis+
    then have m: "included ex p" "get p t = Some n" "get p u = Some n'" using mem assms(1,2) by blast+
    then show "alike dev (?x ! i) (?y ! i)" using lab [OF m(1)] assms(4) [OF m(1,3)] x by (simp add: alike_def)
  qed
qed

text \<open>Trees that agree at the included paths have the same scan.\<close>

lemma scan_same_tree:
  assumes "wf_node s" "scan_tree cr lim root (Some s) = Inr ms" "wf_node t" "is_dir t" "same_tree (l_excluded lim) s t"
    and "\<And>p n. included (l_excluded lim) p \<Longrightarrow> get p t = Some n \<Longrightarrow> entry_kind_of_node n \<noteq> SYMLINK \<Longrightarrow> node_dev n = node_dev t"
  shows "\<exists>m. scan_tree cr lim root' (Some t) = Inr m \<and> m_digest m = m_digest ms"
proof -
  let ?st = "\<lparr>w_entries = [], w_files = 0, w_bytes = 0\<rparr>"
  obtain st where w: "walk cr lim (node_dev s) [] (sort_key fst (kids s)) ?st = Inr st" and d: "m_digest ms = manifest_digest cr (w_entries st)"
    using assms(2) by (auto simp: scan_tree_def bindE_Inr_iff split: if_splits)
  have v: "visits cr lim (node_dev s) (scan_listing (l_excluded lim) s) ?st = Inr st"
    using w walk_visits [OF wf_kids [OF assms(1)], of cr lim "node_dev s" "[]" ?st] assms(1) by (simp add: wf_kids_sort scan_listing_def)
  have "visits cr lim (node_dev t) (scan_listing (l_excluded lim) t) ?st = Inr st"
    by (rule visits_alike [OF scan_listing_alike [OF assms(1,3,5,6)] v])
  then have "walk cr lim (node_dev t) [] (sort_key fst (kids t)) ?st = Inr st"
    using walk_visits [OF wf_kids [OF assms(3)], of cr lim "node_dev t" "[]" ?st] assms(3) by (simp add: wf_kids_sort scan_listing_def)
  moreover have "entry_kind_of_node t \<noteq> SYMLINK" using assms(4) by (cases t) simp_all
  ultimately show ?thesis using assms(4) d by (simp add: scan_tree_def bindE_def)
qed

subsection \<open>The device of a replayed tree\<close>

definition one_device :: "string list \<Rightarrow> int \<Rightarrow> node \<Rightarrow> bool" where
  "one_device ex d t \<longleftrightarrow> (\<forall>p n. included ex p \<and> get p t = Some n \<and> entry_kind_of_node n \<noteq> SYMLINK \<longrightarrow> node_dev n = d)"

lemma scan_one_device:
  assumes "wf_node t" "scan_tree cr lim root (Some t) = Inr m"
  shows "one_device (l_excluded lim) (node_dev t) t"
  unfolding one_device_def
proof (intro allI impI)
  fix p n assume p: "included (l_excluded lim) p \<and> get p t = Some n \<and> entry_kind_of_node n \<noteq> SYMLINK"
  then have "(p, n) \<in> set (scan_listing (l_excluded lim) t)" using scan_listing_mem [OF assms(1)] by (simp add: included_def)
  then have "good_visit (node_dev t) (p, n)" using scan_tree_Inr(7) [OF assms] unfolding list_all_iff by blast
  then show "node_dev n = node_dev t" using p by (simp add: good_visit_def)
qed

lemma node_dev_upd: "p \<noteq> [] \<Longrightarrow> node_dev (upd p x t) = node_dev t"
  by (induction p x t rule: upd.induct) (auto split: option.splits)

lemma entry_kind_upd: "p \<noteq> [] \<Longrightarrow> entry_kind_of_node (upd p x t) = entry_kind_of_node t"
  by (induction p x t rule: upd.induct) (auto split: option.splits)

lemma one_device_apply_root:
  assumes "wf_node b" "wf_node s" "good_roots ex b s (r # ps)" "one_device ex d b" "one_device ex d s"
  shows "one_device ex d (apply_root s r b)"
  unfolding one_device_def
proof (intro allI impI)
  fix p n assume p: "included ex p \<and> get p (apply_root s r b) = Some n \<and> entry_kind_of_node n \<noteq> SYMLINK"
  have r: "r \<noteq> []" "dir_at (butlast r) b" using assms(3) by (auto simp: good_roots_def included_def)
  show "node_dev n = d"
  proof (cases "prefix r p")
    case True
    then obtain q where q: "p = r @ q" by (auto elim: prefixE)
    have "get p s = Some n"
      using p apply_root_good(3) [OF assms(1-3)] by (simp add: q get_append)
    then show ?thesis using assms(5) p by (auto simp: one_device_def)
  next
    case np: False
    show ?thesis
    proof (cases "prefix p r")
      case True
      then obtain q where q: "r = p @ q" "q \<noteq> []" using np by (auto elim: prefixE)
      show ?thesis
      proof (cases "get p b")
        case None
        then show ?thesis using p q upd_missing [OF None assms(1) q(2)] by (simp add: apply_root_def)
      next
        case (Some k)
        then have "n = upd q (get r s) k" using get_upd_above [OF Some assms(1) q(2)] p q by (simp add: apply_root_def)
        then show ?thesis using Some p assms(4) node_dev_upd [OF q(2)] entry_kind_upd [OF q(2)] by (auto simp: one_device_def)
      qed
    next
      case False
      then have "get p b = Some n" using p np get_upd_other [OF _ assms(1), of r p] by (simp add: apply_root_def parallel_def)
      then show ?thesis using p assms(4) by (auto simp: one_device_def)
    qed
  qed
qed

lemma replay_one_device:
  "wf_node b \<Longrightarrow> wf_node s \<Longrightarrow> good_roots ex b s ps \<Longrightarrow> one_device ex d b \<Longrightarrow> one_device ex d s \<Longrightarrow> one_device ex d (replay s ps b)"
proof (induction ps arbitrary: b)
  case (Cons r ps)
  have "one_device ex d (replay s ps (apply_root s r b))"
    by (rule Cons.IH [OF apply_root_good(1) [OF Cons.prems(1-3)] Cons.prems(2) apply_root_good(2) [OF Cons.prems(1-3)]
        one_device_apply_root [OF Cons.prems] Cons.prems(5)])
  then show ?case by (simp add: replay_def)
qed (simp add: replay_def)

lemma replay_root: "[] \<notin> set ps \<Longrightarrow> is_dir (replay s ps b) = is_dir b \<and> node_dev (replay s ps b) = node_dev b"
proof (induction ps arbitrary: b)
  case (Cons r ps)
  have "r \<noteq> []" using Cons.prems by auto
  then have "is_dir (upd r (get r s) b) = is_dir b" "node_dev (upd r (get r s) b) = node_dev b"
    by (intro label_is_dir label_upd node_dev_upd; simp)+
  then show ?case using Cons by (simp add: replay_def apply_root_def node_dev_upd)
qed (simp add: replay_def)

text \<open>
  So the baseline with the subtrees of the other tree at the roots of the difference is scanned to the digest of that tree.
\<close>

lemma replay_scan:
  assumes "wf_node b" "scan_tree cr lim root (Some b) = Inr mb" "wf_node s" "scan_tree cr lim root' (Some s) = Inr ms"
    and "\<not> hidden_change cr (l_excluded lim) b s" "node_dev s = node_dev b"
  shows "same_tree (l_excluded lim) (replay s (map parts (operation_roots (diff_manifests mb ms))) b) s"
    "\<exists>m. scan_tree cr lim root (Some (replay s (map parts (operation_roots (diff_manifests mb ms))) b)) = Inr m \<and> m_digest m = m_digest ms"
proof -
  let ?ps = "map parts (operation_roots (diff_manifests mb ms))"
  note good = diff_good_roots [OF scan_ofI [OF assms(1,2)] scan_ofI [OF assms(3,4)] assms(5)]
  note same = replay_same_tree [OF assms(1,3) good]
  then show "same_tree (l_excluded lim) (replay s ?ps b) s" by simp
  then have sym: "same_tree (l_excluded lim) s (replay s ?ps b)" by (simp add: same_tree_def)
  have "[] \<notin> set ?ps" using good by (auto simp: good_roots_def included_def)
  note R = replay_root [OF this, of s b]
  have dev: "one_device (l_excluded lim) (node_dev (replay s ?ps b)) (replay s ?ps b)"
    using replay_one_device [OF assms(1,3) good scan_one_device [OF assms(1,2)]] scan_one_device [OF assms(3,4)] assms(6) R by simp
  show "\<exists>m. scan_tree cr lim root (Some (replay s ?ps b)) = Inr m \<and> m_digest m = m_digest ms"
    by (rule scan_same_tree [OF assms(3,4) _ _ sym])
      (use same R scan_tree_Inr(1) [OF assms(1,2)] dev in \<open>auto simp: one_device_def\<close>)
qed

end
