(* ===== verification/WholeCommit.thy ===== *)
theory WholeCommit
  imports Completion Approvals ScanAlike
begin

text \<open>
  A commit that is allowed goes through: on a host where no call fails, the lock is taken, the checks pass again, the payloads
  are staged, the record is applied and the bookkeeping is done.
\<close>

subsection \<open>Copying a payload\<close>

text \<open>A tree that \<^verbatim>\<open>copytree\<close> reproduces exactly on the device \<open>d\<close>\<close>

definition copies :: "int \<Rightarrow> node \<Rightarrow> bool" where
  "copies d n \<longleftrightarrow> copy_node [] d n = n \<and> \<not> has_special [] n"

lemma filter_map_fixed: "filter P (map f xs) = xs \<Longrightarrow> x \<in> set xs \<Longrightarrow> f x = x"
proof (induction xs)
  case (Cons y ys)
  have "P (f y)"
  proof (rule ccontr)
    assume "\<not> P (f y)"
    then have "filter P (map f ys) = y # ys" using Cons.prems(1) by simp
    then have "length (filter P (map f ys)) = Suc (length ys)" by simp
    moreover have "length (filter P (map f ys)) \<le> length ys" using length_filter_le [of P "map f ys"] by simp
    ultimately show False by simp
  qed
  then show ?case using Cons by auto
qed simp

lemma copies_kid: "copies d n \<Longrightarrow> map_of (kids n) a = Some k \<Longrightarrow> copies d k"
proof (cases n)
  case (DirN e m ks)
  assume c: "copies d n" and "map_of (kids n) a = Some k"
  then have mem: "(a, k) \<in> set ks" using DirN by (auto dest: map_of_SomeD)
  have "filter (\<lambda>p. fst p \<notin> set [] \<and> \<not> is_special (snd p)) (map (map_prod id (copy_node [] d)) ks) = ks"
    using c DirN by (auto simp: copies_def)
  from filter_map_fixed [OF this mem] have "copy_node [] d k = k" by simp
  moreover have "\<not> has_special [] k" using c DirN mem by (auto simp: copies_def list_ex_iff)
  ultimately show "copies d k" by (simp add: copies_def)
qed auto

lemma copies_get: "copies d n \<Longrightarrow> get p n = Some k \<Longrightarrow> copies d k"
  by (induction p n rule: get.induct) (auto split: option.splits dest: copies_kid)

lemma goes_lstat: "quiet h \<Longrightarrow> look p t = Some n \<Longrightarrow> P n t \<Longrightarrow> goes (lstatA h p) t P"
  unfolding lstatA_def by (rule goes_call) simp_all

lemma goes_lift: "r = Inr x \<Longrightarrow> goes (f x) t P \<Longrightarrow> goes (bindA (liftA r) f) t P"
  by (simp add: goes_def bindA_def)

lemma goes_require: "c \<Longrightarrow> goes m t P \<Longrightarrow> goes (thenA (requireA c e) m) t P"
  by (simp add: goes_def bindA_def requireA_def)

lemma goes_copytree:
  assumes "quiet h" "look src t = Some n" "is_dir n" "copies d n" "look dst t = None" "dir_on d (butlast dst) t"
    and "P () (change_tree dst (Some n) t)"
  shows "goes (copytreeA h [] src dst) t P"
proof -
  let ?t = "change_tree dst (Some n) t"
  have "copytree_tree [] src dst t = Inr (Inr (), ?t)"
    using assms(2-6) dir_on_there [OF assms(6)] by (simp add: copytree_tree_def copies_def)
  moreover have "goes (liftA (Inr ())) ?t P" using assms(7) by (simp add: goes_def)
  ultimately show ?thesis unfolding copytreeA_def by (intro goes_bind goes_call [OF assms(1)])
qed

text \<open>An entry is copied below a directory, where neither it nor anything but directories is in the way.\<close>

lemma goes_copy_entry:
  assumes "quiet h" "wf_node t" "rooted A" "dir_on d A t" "r \<noteq> []" "\<forall>a \<in> set r. is_name a"
    and "look src t = Some n" "copies d n" "rooted src" "apart A src"
    and "look (A @ r) t = None" "\<And>p. prefix p (butlast r) \<Longrightarrow> look (A @ p) t = None \<or> dir_on d (A @ p) t"
    and "\<And>t1. grown d A (butlast r) t t1 \<Longrightarrow> P () (change_tree (A @ r) (Some n) t1)"
  shows "goes (copy_entry h src (A @ r)) t P"
proof -
  have ne: "A \<noteq> []" using assms(3) by (auto simp: rooted_def)
  have bl: "butlast (A @ r) = A @ butlast r" using assms(5) by (simp add: butlast_append)
  have rAr: "rooted (A @ r)" using assms(3,6) by (simp add: rooted_add)
  have copy: "goes (case n of DirN _ _ _ \<Rightarrow> copytreeA h [] src (A @ r)
      | SpecialN _ _ _ _ \<Rightarrow> raiseA (GuardError ''special files are not supported by the reference broker'')
      | _ \<Rightarrow> os_call h (copy_file_tree (A @ r) n)) t1 P" if g: "grown d A (butlast r) t t1" for t1
  proof -
    have G: "look (A @ r) t1 = None" "dir_on d (A @ butlast r) t1" "look src t1 = Some n"
    proof -
      have np: "\<not> prefix (tl (A @ r)) (tl (A @ butlast r))" using not_below_parent [OF rAr] bl by simp
      show "look (A @ r) t1 = None" using g rAr np assms(11) by (simp add: grown_def)
      show "dir_on d (A @ butlast r) t1" using g by (simp add: grown_def)
      have "apart src (A @ butlast r)" using apart_below [OF assms(10) ne] by (simp add: apart_sym)
      then have "\<not> prefix (tl src) (tl (A @ butlast r))" by (auto simp: apart_def)
      then show "look src t1 = Some n" using g assms(7,9) by (simp add: grown_def)
    qed
    have plain: "goes (os_call h (copy_file_tree (A @ r) n)) t1 P" if "\<not> is_dir n"
      using assms(1,8) G(1,2) dir_on_there [OF G(2)] bl assms(13) [OF g]
      by (intro goes_call) (auto simp: copy_file_tree_def copies_def)
    show ?thesis
    proof (cases n)
      case (DirN e m ks)
      have "goes (copytreeA h [] src (A @ r)) t1 P"
        by (rule goes_copytree [OF assms(1) G(3) _ assms(8) G(1)]) (use DirN G(2) bl assms(13) [OF g] in simp_all)
      then show ?thesis using DirN by simp
    next
      case (SpecialN e m s k)
      then show ?thesis using assms(8) by (simp add: copies_def)
    qed (use plain in simp_all)
  qed
  have "goes (mkdirsA h 511 (A @ butlast r)) t (\<lambda>_. grown d A (butlast r) t)"
    using assms(6,12) by (intro goes_mkdirs [OF assms(1-4)]) (auto dest: in_set_butlastD)
  then have go: "goes (thenA (mkdirsA h 511 (butlast (A @ r))) (case n of DirN _ _ _ \<Rightarrow> copytreeA h [] src (A @ r)
      | SpecialN _ _ _ _ \<Rightarrow> raiseA (GuardError ''special files are not supported by the reference broker'')
      | _ \<Rightarrow> os_call h (copy_file_tree (A @ r) n))) t P"
    unfolding bl by (intro goes_bind) (auto elim!: goes_weaken intro: copy)
  show ?thesis
    unfolding copy_entry_def by (rule goes_bind, rule goes_lstat [OF assms(1,7)], rule go)
qed

subsection \<open>Staging all payloads\<close>

text \<open>
  \<open>rs\<close> are the roots with what is staged for them; those before the \<open>k\<close>th are there, for the others there is room.
\<close>

definition staging :: "int \<Rightarrow> path \<Rightarrow> node \<Rightarrow> (path \<times> node option) list \<Rightarrow> nat \<Rightarrow> node \<Rightarrow> bool" where
  "staging d A t0 rs k t \<longleftrightarrow> wf_node t \<and> dir_on d A t \<and> elsewhere [A] t0 t \<and>
     (\<forall>j < length rs. snd (rs ! j) \<noteq> None \<longrightarrow>
       (j < k \<longrightarrow> look (A @ fst (rs ! j)) t = snd (rs ! j) \<and> dir_on d (A @ butlast (fst (rs ! j))) t) \<and>
       (k \<le> j \<longrightarrow> look (A @ fst (rs ! j)) t = None \<and>
         (\<forall>p. prefix p (butlast (fst (rs ! j))) \<longrightarrow> look (A @ p) t = None \<or> dir_on d (A @ p) t)))"

definition root_list :: "(path \<times> node option) list \<Rightarrow> bool" where
  "root_list rs \<longleftrightarrow> (\<forall>r \<in> fst ` set rs. all_names r) \<and>
     (\<forall>i < length rs. \<forall>j < length rs. i \<noteq> j \<longrightarrow> fst (rs ! i) \<parallel> fst (rs ! j))"

lemma root_listD:
  assumes "root_list rs" "j < length rs"
  shows "all_names (fst (rs ! j))" "fst (rs ! j) \<noteq> []" "\<And>x. x \<in> set (fst (rs ! j)) \<Longrightarrow> is_name x"
    "\<And>i. i < length rs \<Longrightarrow> i \<noteq> j \<Longrightarrow> fst (rs ! i) \<parallel> fst (rs ! j)"
proof -
  show "all_names (fst (rs ! j))" using assms by (simp add: root_list_def)
  then show "fst (rs ! j) \<noteq> []" "\<And>x. x \<in> set (fst (rs ! j)) \<Longrightarrow> is_name x" by (auto simp: all_names_def)
  show "fst (rs ! i) \<parallel> fst (rs ! j)" if "i < length rs" "i \<noteq> j" for i
    using assms that by (simp add: root_list_def)
qed

lemma staging_step:
  assumes "staging d A t0 rs k t" "root_list rs" "k < length rs" "rooted A" "snd (rs ! k) = Some n" "wf_node n"
    and "grown d A (butlast (fst (rs ! k))) t t1"
  shows "staging d A t0 rs (Suc k) (change_tree (A @ fst (rs ! k)) (Some n) t1)"
proof -
  let ?r = "fst (rs ! k)" and ?t2 = "change_tree (A @ fst (rs ! k)) (Some n) t1"
  have ne: "A \<noteq> []" using assms(4) by (auto simp: rooted_def)
  note r = root_listD [OF assms(2,3)]
  have rA: "rooted (A @ fst (rs ! j))" "rooted (A @ butlast (fst (rs ! j)))" if "j < length rs" for j
    using assms(4) root_listD(3) [OF assms(2) that] by (auto simp: rooted_add dest: in_set_butlastD)
  have bl: "butlast (A @ ?r) = A @ butlast ?r" using r(2) by (simp add: butlast_append)
  have g: "wf_node t1" "\<And>p. prefix p (butlast ?r) \<Longrightarrow> dir_on d (A @ p) t1"
    "\<And>q. rooted q \<Longrightarrow> \<not> prefix (tl q) (tl (A @ butlast ?r)) \<Longrightarrow> look q t1 = look q t"
    "\<And>e q. rooted q \<Longrightarrow> dir_on e q t \<Longrightarrow> dir_on e q t1"
    using assms(7) by (simp_all add: grown_def)
  have a: "aside (A @ ?r) t1 ?t2" by (rule change_aside [OF rA(1) [OF assms(3)] g(1)]) (simp add: assms(6))
  have keep: "dir_on e q ?t2" if "rooted q" "dir_on e q t" "\<not> prefix (tl (A @ ?r)) (tl q)" for e q
    by (rule asideD(3) [OF a g(4) [OF that(1,2)] that(3)])
  have S: "wf_node t" "dir_on d A t" "elsewhere [A] t0 t" using assms(1) by (simp_all add: staging_def)
  have own: "look (A @ ?r) ?t2 = Some n" "dir_on d (A @ butlast ?r) ?t2"
  proof -
    have d1: "dir_on d (A @ butlast ?r) t1" using g(2) by simp
    then show "look (A @ ?r) ?t2 = Some n"
      using look_change_same [OF rA(1) [OF assms(3)] g(1)] dir_on_there(1) bl by simp
    show "dir_on d (A @ butlast ?r) ?t2"
      by (rule asideD(3) [OF a d1]) (use not_below_parent [OF rA(1) [OF assms(3)]] bl in simp)
  qed
  have longer: "\<not> prefix (tl (A @ ?r)) (tl A)"
  proof
    assume "prefix (tl (A @ ?r)) (tl A)"
    then show False using prefix_length_le r(2) ne by fastforce
  qed
  have out: "elsewhere [A] t ?t2" unfolding elsewhere_def
  proof (intro allI impI)
    fix p assume p: "rooted p \<and> (\<forall>q \<in> set [A]. apart q p)"
    then have "apart p (A @ butlast ?r)" "apart (A @ ?r) p" using apart_below [OF _ ne] apart_sym by auto
    then have "\<not> prefix (tl p) (tl (A @ butlast ?r))" "apart (A @ ?r) p" by (auto simp: apart_def)
    then show "look p ?t2 = look p t" using asideD(2) [OF a] g(3) p by simp
  qed
  have other: "(j < Suc k \<longrightarrow> look (A @ fst (rs ! j)) ?t2 = snd (rs ! j) \<and> dir_on d (A @ butlast (fst (rs ! j))) ?t2) \<and>
      (Suc k \<le> j \<longrightarrow> look (A @ fst (rs ! j)) ?t2 = None \<and>
        (\<forall>p. prefix p (butlast (fst (rs ! j))) \<longrightarrow> look (A @ p) ?t2 = None \<or> dir_on d (A @ p) ?t2))"
    if j: "j < length rs" "snd (rs ! j) \<noteq> None" "j \<noteq> k" for j
  proof -
    let ?s = "fst (rs ! j)"
    have par: "?s \<parallel> ?r" by (rule r(4) [OF j(1,3)])
    have np: "\<not> prefix (tl (A @ ?s)) (tl (A @ butlast ?r))"
    proof
      assume "prefix (tl (A @ ?s)) (tl (A @ butlast ?r))"
      then have "prefix ?s (butlast ?r)" using ne by simp
      then show False using par prefixeq_butlast prefix_order.trans by (metis parallel_def)
    qed
    have ap: "apart (A @ ?r) (A @ ?s)" using par apart_same [OF ne] by (simp add: parallel_commute)
    have same: "look (A @ ?s) ?t2 = look (A @ ?s) t" using asideD(2) [OF a ap] g(3) [OF rA(1) [OF j(1)] np] by simp
    have dirs: "look (A @ p) ?t2 = None \<or> dir_on d (A @ p) ?t2"
      if p: "prefix p (butlast ?s)" "look (A @ p) t = None \<or> dir_on d (A @ p) t" for p
    proof -
      have nq: "\<not> prefix (tl (A @ ?r)) (tl (A @ p))"
        using apart_not_parent [OF ap ne] p(1) ne by (auto dest: prefix_order.trans)
      have "look (A @ p) t1 = None \<or> dir_on d (A @ p) t1"
      proof (cases "prefix p (butlast ?r)")
        case True
        then show ?thesis using g(2) by blast
      next
        case False
        have "rooted (A @ p)" using rA(2) [OF j(1)] p(1) assms(4) by (auto simp: rooted_add elim!: prefixE)
        then have "look (A @ p) t1 = look (A @ p) t" using g(3) False ne by simp
        then show ?thesis using p(2) by (simp add: dir_on_def)
      qed
      then show ?thesis using asideD(3,4) [OF a _ nq] by blast
    qed
    have kept: "dir_on d (A @ butlast ?s) ?t2" if "dir_on d (A @ butlast ?s) t"
      by (rule keep [OF rA(2) [OF j(1)] that]) (rule apart_not_parent [OF ap ne])
    show ?thesis using assms(1) j same dirs kept by (auto simp: staging_def)
  qed
  have "(j < Suc k \<longrightarrow> look (A @ fst (rs ! j)) ?t2 = snd (rs ! j) \<and> dir_on d (A @ butlast (fst (rs ! j))) ?t2) \<and>
      (Suc k \<le> j \<longrightarrow> look (A @ fst (rs ! j)) ?t2 = None \<and>
        (\<forall>p. prefix p (butlast (fst (rs ! j))) \<longrightarrow> look (A @ p) ?t2 = None \<or> dir_on d (A @ p) ?t2))"
    if "j < length rs" "snd (rs ! j) \<noteq> None" for j
    using other [OF that] own assms(5) by (cases "j = k") auto
  then show ?thesis
    using asideD(1) [OF a] keep [OF assms(4) S(2) longer] elsewhere_trans [OF S(3) out] by (simp add: staging_def)
qed

lemma stagingD:
  assumes "staging d A t0 rs k t"
  shows "j < length rs \<Longrightarrow> snd (rs ! j) \<noteq> None \<Longrightarrow> j < k \<Longrightarrow>
      look (A @ fst (rs ! j)) t = snd (rs ! j) \<and> dir_on d (A @ butlast (fst (rs ! j))) t"
    "j < length rs \<Longrightarrow> snd (rs ! j) \<noteq> None \<Longrightarrow> k \<le> j \<Longrightarrow> look (A @ fst (rs ! j)) t = None"
    "j < length rs \<Longrightarrow> snd (rs ! j) \<noteq> None \<Longrightarrow> k \<le> j \<Longrightarrow> prefix p (butlast (fst (rs ! j))) \<Longrightarrow>
      look (A @ p) t = None \<or> dir_on d (A @ p) t"
    "wf_node t" "dir_on d A t" "elsewhere [A] t0 t"
  using assms unfolding staging_def by blast+

text \<open>What is staged for a root of the difference to the tree \<open>s\<close>\<close>

definition payload_at :: "node \<Rightarrow> change \<Rightarrow> path \<times> node option" where
  "payload_at s c = (parts c, if c_after c = None then None else get (parts c) s)"

text \<open>A change the staging accepts\<close>

definition stageable :: "node \<Rightarrow> change \<Rightarrow> bool" where
  "stageable s c \<longleftrightarrow> relative_text (c_path c) \<and> names_of (c_path c) = parts c \<and> all_names (parts c) \<and>
     (c_after c \<noteq> None \<longrightarrow> get (parts c) s \<noteq> None)"

lemma stageable_join: "stageable s c \<Longrightarrow> safe_join p (c_path c) = Inr (p @ parts c)"
  by (auto simp: stageable_def safe_join_Inr_iff all_names_def)

lemma stageable_operation: "stageable s c \<Longrightarrow> \<exists>op. operation_of Q c = Inr op"
  using stageable_join [of s c Q] by (auto simp: operation_of_def bindE_Inr_iff split: option.splits)

lemma goes_stage_payloads:
  assumes "quiet (b_host g)" "rooted A" "rooted worktree" "apart A worktree" "copies d s" "wf_node s" "look worktree t0 = Some s"
    and "\<forall>c \<in> set (ds @ cs). stageable s c" "root_list (map (payload_at s) (ds @ cs))"
    and "staging d A t0 (map (payload_at s) (ds @ cs)) (length ds) t"
  shows "goes (stage_payloads g worktree A Q cs) t (\<lambda>ops t'. list_all2 (\<lambda>c op. operation_of Q c = Inr op) cs ops \<and>
    staging d A t0 (map (payload_at s) (ds @ cs)) (length (ds @ cs)) t')"
  using assms(8-)
proof (induction cs arbitrary: ds t)
  case Nil
  then show ?case by (simp add: goes_def)
next
  case (Cons c cs)
  let ?rs = "map (payload_at s) (ds @ c # cs)" and ?k = "length ds"
  have st: "stageable s c" using Cons.prems(1) by simp
  have k: "?k < length ?rs" "?rs ! ?k = payload_at s c" by (simp_all add: nth_append)
  have S: "wf_node t" "dir_on d A t" "elsewhere [A] t0 t" using Cons.prems(3) by (simp_all add: staging_def)
  obtain op where op: "operation_of Q c = Inr op" using stageable_operation [OF st] by blast
  have rest: "goes (stage_payloads g worktree A Q cs) t1 (\<lambda>ops t'. list_all2 (\<lambda>c op. operation_of Q c = Inr op) cs ops \<and>
      staging d A t0 ?rs (length (ds @ c # cs)) t')" if "staging d A t0 ?rs (Suc ?k) t1" for t1
    using Cons.IH [of "ds @ [c]" t1] Cons.prems(1,2) that by simp
  have stage: "goes (stage_payload g worktree A c) t (\<lambda>_. staging d A t0 ?rs (Suc ?k))"
  proof (cases "c_after c = None")
    case True
    have n: "snd (?rs ! ?k) = None" unfolding k(2) using True by (simp add: payload_at_def)
    have "staging d A t0 ?rs (Suc ?k) t" using Cons.prems(3) n unfolding staging_def
      by (metis Suc_leD less_antisym)
    then show ?thesis using True by (simp add: stage_payload_def goes_def)
  next
    case False
    then obtain n where n: "get (parts c) s = Some n" using st by (auto simp: stageable_def)
    have r: "parts c \<noteq> []" "\<forall>a \<in> set (parts c). is_name a" using st by (auto simp: stageable_def all_names_def)
    have pk: "fst (?rs ! ?k) = parts c" "snd (?rs ! ?k) = Some n" unfolding k(2) using False n by (simp_all add: payload_at_def)
    have ne: "worktree \<noteq> []" "A \<noteq> []" using assms(2,3) by (auto simp: rooted_def)
    have "look worktree t = Some s" using elsewhereD [OF S(3) assms(3)] assms(4,7) by simp
    then have src: "look (worktree @ parts c) t = Some n" using look_append [OF ne(1)] n by simp
    have room: "look (A @ parts c) t = None" "\<And>p. prefix p (butlast (parts c)) \<Longrightarrow> look (A @ p) t = None \<or> dir_on d (A @ p) t"
      using stagingD(2,3) [OF Cons.prems(3) k(1)] unfolding pk by simp_all
    have go: "goes (copy_entry (b_host g) (worktree @ parts c) (A @ parts c)) t (\<lambda>_. staging d A t0 ?rs (Suc ?k))"
    proof (rule goes_copy_entry [OF assms(1) S(1) assms(2) S(2) r src copies_get [OF assms(5) n] _ _ room])
      show "rooted (worktree @ parts c)" using assms(3) r(2) by (simp add: rooted_add)
      show "apart A (worktree @ parts c)" using apart_below [of worktree A] assms(4) ne(1) by (simp add: apart_sym)
      fix t1 assume "grown d A (butlast (parts c)) t t1"
      then show "staging d A t0 ?rs (Suc ?k) (change_tree (A @ parts c) (Some n) t1)"
        using staging_step [OF Cons.prems(3,2) k(1) assms(2) pk(2)] get_wf [OF assms(6) n] pk(1) by simp
    qed
    show ?thesis unfolding stage_payload_def
      using False by (simp only: if_False) (rule goes_lift [OF stageable_join [OF st]], rule goes_lift [OF stageable_join [OF st]], rule go)
  qed
  show ?case
    unfolding stage_payloads.simps
  proof (rule goes_bind, rule goes_weaken [OF stage], rule goes_lift [OF op], rule goes_bind, rule goes_weaken [OF rest], assumption)
    fix ops t' assume "list_all2 (\<lambda>c op. operation_of Q c = Inr op) cs ops \<and> staging d A t0 ?rs (length (ds @ c # cs)) t'"
    then show "goes (returnA (op # ops)) t' (\<lambda>ops t'. list_all2 (\<lambda>c op. operation_of Q c = Inr op) (c # cs) ops \<and>
      staging d A t0 ?rs (length (ds @ c # cs)) t')" using op by (simp add: goes_def)
  qed
qed

subsection \<open>The prepared record\<close>

lemma goes_clock: "\<forall>n. P (h_clock h n) t \<Longrightarrow> goes (utc_epoch h) t P"
  by (simp add: goes_def utc_epoch_def)

lemma staging_start:
  assumes "wf_node t" "look A t = Some (DirN d m [])" "A \<noteq> []" "root_list rs"
  shows "staging d A t rs 0 t"
proof -
  have empty: "look (A @ p) t = (if p = [] then Some (DirN d m []) else None)" for p
    using look_append [OF assms(3), of p t] assms(2) by (cases p) simp_all
  then show ?thesis
    using assms(1,2) root_listD(2) [OF assms(4)] elsewhere_refl by (auto simp: staging_def dir_on_def)
qed

lemma goes_prepare:
  assumes "quiet (b_host g)" "rooted (apply_of g i)" "path_of (t_worktree_root tx) = worktree" "rooted worktree"
    and "apart (apply_of g i) worktree" "copies d s" "wf_node s" "wf_node t" "look worktree t = Some s"
    and "look (apply_of g i) t = Some (DirN d m [])" "cs = operation_roots (p_changes plan)"
    and "\<forall>c \<in> set cs. stageable s c" "root_list (map (payload_at s) cs)"
    and "scan_tree (b_crypto g) (default_limits (b_excluded g)) worktree (Some s) = Inr ms" "m_digest ms = p_staged_digest plan"
  shows "goes (prepare g plan tx baseline i) t (\<lambda>r t'.
    list_all2 (\<lambda>c op. operation_of (quarantine_of g i) c = Inr op) cs (r_operations r) \<and>
    staging d (apply_of g i) t (map (payload_at s) cs) (length cs) t')"
proof -
  let ?A = "apply_of g i" and ?Q = "quarantine_of g i" and ?rs = "map (payload_at s) cs"
  let ?S = "\<lambda>ops t'. list_all2 (\<lambda>c op. operation_of ?Q c = Inr op) cs ops \<and> staging d ?A t ?rs (length cs) t'"
  have ne: "?A \<noteq> []" by (simp add: apply_of_def)
  have "staging d ?A t ?rs 0 t" by (rule staging_start [OF assms(8,10) ne assms(13)])
  then have stage: "goes (stage_payloads g worktree ?A ?Q cs) t ?S"
    using goes_stage_payloads [OF assms(1,2,4,5,6,7,9), of "[]" cs] assms(12,13) by simp
  have rest: "goes (bindA (scan g worktree) (\<lambda>staged. thenA (requireA (m_digest staged = p_staged_digest plan) e)
      (bindA (utc_epoch (b_host g)) (\<lambda>created_at. returnA (f created_at))))) t1 (\<lambda>r t'. ?S (r_operations r) t')"
    if S: "?S ops t1" and f: "\<And>n. r_operations (f n) = ops" for ops t1 e f
  proof (rule goes_bind, rule goes_scan [OF assms(1)])
    have "look worktree t1 = Some s"
      using elsewhereD [OF stagingD(6) [OF conjunct2 [OF S]] assms(4)] assms(5,9) by simp
    then show "scan_tree (b_crypto g) (default_limits (b_excluded g)) worktree (look worktree t1) = Inr ms" using assms(14) by simp
    show "goes (thenA (requireA (m_digest ms = p_staged_digest plan) e)
        (bindA (utc_epoch (b_host g)) (\<lambda>created_at. returnA (f created_at)))) t1 (\<lambda>r t'. ?S (r_operations r) t')"
    proof (rule goes_require [OF assms(15)])
      have fin: "goes (returnA (f n)) t1 (\<lambda>r t'. ?S (r_operations r) t')" for n using S f by (simp add: goes_def)
      show "goes (bindA (utc_epoch (b_host g)) (\<lambda>created_at. returnA (f created_at))) t1 (\<lambda>r t'. ?S (r_operations r) t')"
        by (rule goes_bind, rule goes_clock) (use fin in blast)
    qed
  qed
  show ?thesis
    unfolding prepare_def Let_def quarantine_of_def [symmetric] apply_of_def [symmetric] assms(3) assms(11) [symmetric]
    by (rule goes_bind, rule goes_weaken [OF stage], rule rest) simp_all
qed

text \<open>What is then staged\<close>

lemma elsewhere_dir_on: "elsewhere qs t t' \<Longrightarrow> rooted p \<Longrightarrow> \<forall>q \<in> set qs. apart q p \<Longrightarrow> dir_on d p t \<Longrightarrow> dir_on d p t'"
  by (simp add: elsewhere_def dir_on_def)

lemma elsewhere_writable:
  assumes "elsewhere qs t t'" "writable F t" "rooted (butlast F)" "\<forall>q \<in> set qs. apart q F \<and> apart q (butlast F)"
  shows "writable F t'"
proof -
  have "look F t' = look F t" "look (butlast F) t' = look (butlast F) t"
    using assms elsewhereD [OF assms(1)] by (simp_all add: writable_def)
  then show ?thesis using assms(2) by (simp add: writable_def dir_there_def)
qed

text \<open>Places in the state directory\<close>

lemma state_places:
  assumes "setting g ws (quarantine_of g i) (apply_of g i)"
  shows "rooted (b_root g @ [''quarantine''])" "apart (apply_of g i) (b_root g @ [''quarantine''])"
    "commit_path g j = Inr F \<Longrightarrow> rooted F" "commit_path g j = Inr F \<Longrightarrow> rooted (butlast F)"
    "commit_path g j = Inr F \<Longrightarrow> apart (apply_of g i) F" "commit_path g j = Inr F \<Longrightarrow> apart (apply_of g i) (butlast F)"
    "rooted (quarantine_of g i)" "rooted (apply_of g i)" "apart (apply_of g i) (quarantine_of g i)"
proof -
  note S = settingD [OF assms]
  have r: "rooted (b_root g)" "b_root g \<noteq> []" using S(1) root_not_Nil by (simp_all add: guarded_def)
  show "rooted (b_root g @ [''quarantine''])" using r by (simp add: rooted_add is_name_def is_component_def)
  show "apart (apply_of g i) (b_root g @ [''quarantine''])" using r by (simp add: apply_of_def apart_same parallel_def)
  show "rooted (quarantine_of g i)" "rooted (apply_of g i)" "apart (apply_of g i) (quarantine_of g i)" using S by simp_all
  assume F: "commit_path g j = Inr F"
  then obtain x where x: "F = b_root g @ [''commits'', x]" by (auto simp: commit_path_def bindE_Inr_iff)
  show "rooted F" by (rule commit_file_rooted [OF assms F])
  show "rooted (butlast F)" using r by (simp add: x butlast_append rooted_add is_name_def is_component_def)
  show "apart (apply_of g i) F" "apart (apply_of g i) (butlast F)"
    using r by (simp_all add: x apply_of_def butlast_append apart_same parallel_def)
qed

lemma staged_operation:
  assumes "operation_of Q c = Inr op" "stageable s c"
  shows "op_root op = parts c" "o_after_kind op = None \<longleftrightarrow> c_after c = None"
  using assms operation_of_fields(1) [OF assms(1)]
  by (auto simp: op_root_def stageable_def operation_of_def bindE_Inr_iff split: option.splits)

text \<open>What is then staged\<close>

lemma staging_staged:
  assumes "staging d (apply_of g i) t (map (payload_at s) cs) (length cs) t'"
    and "list_all2 (\<lambda>c op. operation_of (quarantine_of g i) c = Inr op) cs ops" "\<forall>c \<in> set cs. stageable s c"
    and "setting g ws (quarantine_of g i) (apply_of g i)" "commit_path g j = Inr F" "writable F t"
    and "dir_on d (b_root g @ [''quarantine'']) t" "look (quarantine_of g i) t = Some (DirN d m [])"
    and "\<forall>c \<in> set cs. dir_on d (ws @ butlast (parts c)) t"
  shows "staged g ws i ops F t'"
    and "replayed (payload_of (apply_of g i) t') ops b = fold (\<lambda>(p, x). upd p x) (map (payload_at s) cs) b"
proof -
  let ?A = "apply_of g i" and ?Q = "quarantine_of g i" and ?rs = "map (payload_at s) cs"
  note E = stagingD(6) [OF assms(1)] and P = state_places [OF assms(4)] and S = settingD [OF assms(4)]
  have n: "length ops = length cs" using assms(2) by (simp add: list_all2_lengthD)
  have op: "op_root (ops ! k) = parts (cs ! k)" "o_after_kind (ops ! k) = None \<longleftrightarrow> c_after (cs ! k) = None" if "k < length cs" for k
    using staged_operation [OF list_all2_nthD [OF assms(2) that], of s] assms(3) that by auto
  have there: "look (?A @ parts (cs ! k)) t' = get (parts (cs ! k)) s \<and> get (parts (cs ! k)) s \<noteq> None \<and>
      dir_on d (?A @ butlast (parts (cs ! k))) t'" if "k < length cs" "c_after (cs ! k) \<noteq> None" for k
  proof -
    have "get (parts (cs ! k)) s \<noteq> None" using assms(3) that by (simp add: stageable_def)
    then show ?thesis using stagingD(1) [OF assms(1), of k] that by (simp add: payload_at_def)
  qed
  show "staged g ws i ops F t'"
    unfolding staged_def
  proof (rule conjI, goal_cases)
    case 1
    show ?case using elsewhere_writable [OF E assms(6) P(4) [OF assms(5)]] P(5,6) [OF assms(5)] by simp
  next
    case 2
    show ?case
    proof (rule exI [of _ d], intro conjI ballI)
    show "dir_on d (b_root g @ [''quarantine'']) t'" using elsewhere_dir_on [OF E P(1) _ assms(7)] P(2) by simp
    show "\<exists>m. look ?Q t' = Some (DirN d m [])" using elsewhereD [OF E P(7)] P(9) assms(8) by simp
    show "dir_on d ?A t'" by (rule stagingD(5) [OF assms(1)])
    fix x assume "x \<in> set ops"
    then obtain k where k: "k < length cs" "x = ops ! k" using n by (metis in_set_conv_nth)
    have c: "stageable s (cs ! k)" "dir_on d (ws @ butlast (parts (cs ! k))) t" using assms(3,9) k(1) by auto
    have "rooted (ws @ butlast (parts (cs ! k)))"
      using c(1) S(2) by (auto simp: rooted_add stageable_def all_names_def dest: in_set_butlastD)
    moreover have "apart ?A (ws @ butlast (parts (cs ! k)))" using S(4,10) apart_below by (metis apart_sym)
    ultimately show "dir_on d (ws @ butlast (op_root x)) t'" using elsewhere_dir_on [OF E _ _ c(2)] op(1) [OF k(1)] k(2) by simp
    show "o_after_kind x \<noteq> None \<longrightarrow> look (?A @ op_root x) t' \<noteq> None \<and> dir_on d (?A @ butlast (op_root x)) t'"
      using there [OF k(1)] op [OF k(1)] k(2) by simp
    qed
  qed
  have pay: "(op_root (ops ! k), payload_of ?A t' (ops ! k)) = payload_at s (cs ! k)" if "k < length cs" for k
    using there [OF that] op [OF that] by (simp add: payload_of_def payload_at_def)
  have "map (\<lambda>op. (op_root op, payload_of ?A t' op)) ops = ?rs"
    by (rule nth_equalityI) (use n pay in simp_all)
  then have "fold (\<lambda>(p, x). upd p x) ?rs b = fold (\<lambda>(p, x). upd p x) (map (\<lambda>op. (op_root op, payload_of ?A t' op)) ops) b" by simp
  then show "replayed (payload_of ?A t') ops b = fold (\<lambda>(p, x). upd p x) ?rs b"
    by (simp add: replayed_def fold_map comp_def)
qed

subsection \<open>The lock\<close>

lemma goes_finally: "goes m t (\<lambda>x t1. goes final t1 (\<lambda>_. P x)) \<Longrightarrow> goes (finallyA m final) t P"
  unfolding goes_def finallyA_def by (fastforce split: prod.splits sum.splits)

lemma goes_ignore_missing: "goes m t P \<Longrightarrow> goes (ignore_missingA m) t P"
  unfolding goes_def ignore_missingA_def by (fastforce split: prod.splits sum.splits)

lemma goes_on_error: "goes m t P \<Longrightarrow> goes (on_errorA m n) t P"
  unfolding goes_def on_errorA_def by (fastforce split: prod.splits sum.splits)

text \<open>The body of a lock finds the tree as it was, but for the lock file, and leaves that alone.\<close>

lemma goes_lock:
  assumes "quiet (b_host g)" "wf_node t" "rooted (lock_path g ws)" "dir_there (butlast (lock_path g ws)) t" "look (lock_path g ws) t = None"
    and "\<And>t1. aside (lock_path g ws) t t1 \<Longrightarrow>
      goes body t1 (\<lambda>x t2. look (lock_path g ws) t2 = look (lock_path g ws) t1 \<and> P x (change_tree (lock_path g ws) None t2))"
  shows "goes (with_lock g ws body) t P"
proof -
  let ?p = "lock_path g ws" and ?h = "b_host g"
  let ?f = "\<lambda>c. Some (FileN (dev_of (butlast ?p) t) 384 c)"
  let ?t1 = "change_tree ?p (?f []) t"
  have wf1: "wf_node ?t1" by (rule wf_change [OF assms(3,2)]) simp
  have l1: "look ?p ?t1 = ?f []" by (rule look_change_same [OF assms(3,2,4)])
  have body: "goes body t1 (\<lambda>x t2. goes (ignore_missingA (os_call ?h (unlink_tree ?p))) t2 (\<lambda>_. P x))"
    if t1: "t1 = change_tree ?p (?f c) ?t1" for t1 c
  proof -
    have up: "change_tree ?p (?f c) ?t1 = change_tree ?p (?f c) t"
      using assms(2,3) by (auto simp: change_tree_def upd_upd elim!: rootedE)
    have a: "aside ?p t t1" unfolding t1 up by (rule change_aside [OF assms(3,2)]) simp
    have l: "look ?p t1 = ?f c" unfolding t1 up by (rule look_change_same [OF assms(3,2,4)])
    show ?thesis
    proof (rule goes_weaken [OF assms(6) [OF a]])
      fix x t2 assume t2: "look ?p t2 = look ?p t1 \<and> P x (change_tree ?p None t2)"
      then have "look ?p t2 = ?f c" using l by simp
      then have "unlink_tree ?p t2 = Inr ((), change_tree ?p None t2)" by (simp add: unlink_tree_def)
      then show "goes (ignore_missingA (os_call ?h (unlink_tree ?p))) t2 (\<lambda>_. P x)"
        by (rule goes_ignore_missing [OF goes_call [OF assms(1)]]) (use t2 in simp)
    qed
  qed
  have locked: "goes (finallyA (thenA (os_call ?h (write_lock_tree ?p c)) body) (ignore_missingA (os_call ?h (unlink_tree ?p)))) ?t1 P" for c
  proof (rule goes_finally, rule goes_bind)
    have w: "write_lock_tree ?p c ?t1 = Inr ((), change_tree ?p (?f c) ?t1)" using l1 by (simp add: write_lock_tree_def)
    show "goes (os_call ?h (write_lock_tree ?p c)) ?t1 (\<lambda>_ t1. goes body t1
        (\<lambda>x t2. goes (ignore_missingA (os_call ?h (unlink_tree ?p))) t2 (\<lambda>_. P x)))"
      by (rule goes_call [OF assms(1)], rule w, rule body [OF refl])
  qed
  have "create_lock_tree ?p t = Inr ((), ?t1)" using assms(4,5) by (simp add: create_lock_tree_def create_file_tree_def)
  then show ?thesis
    unfolding with_lock_def Let_def by (intro goes_bind, intro goes_call [OF assms(1)]) (use locked in simp_all)
qed

subsection \<open>The checks under the lock\<close>

text \<open>What the checks compare, on the trees of the workspace and of the worktree\<close>

definition plan_holds :: "guard \<Rightarrow> commit_plan \<Rightarrow> transaction \<Rightarrow> tree_manifest \<Rightarrow> node \<Rightarrow> node \<Rightarrow> bool" where
  "plan_holds g plan tx baseline b s \<longleftrightarrow> (\<exists>mr ms decision findings summary.
     scan_tree (b_crypto g) (default_limits (b_excluded g)) (path_of (t_workspace_root tx)) (Some b) = Inr mr \<and>
     m_digest mr = p_baseline_digest plan \<and>
     scan_tree (b_crypto g) (default_limits (b_excluded g)) (path_of (t_worktree_root tx)) (Some s) = Inr ms \<and>
     m_digest ms = p_staged_digest plan \<and> p_policy_digest plan = fingerprint (b_crypto g) (b_policy g) \<and>
     evaluate (b_policy g) baseline ms (diff_manifests baseline ms) = Inr (decision, findings, summary) \<and>
     diff_manifests baseline ms = p_changes plan \<and> decision = p_decision plan \<and>
     map finding_to_dict findings = map finding_to_dict (p_findings plan) \<and>
     sort_key fst summary = sort_key fst (p_summary plan) \<and> node_dev b = t_workspace_device tx)"

lemma goes_stat_dev: "quiet h \<Longrightarrow> look p t = Some n \<Longrightarrow> P (node_dev n) t \<Longrightarrow> goes (stat_dev h p) t P"
  unfolding stat_dev_def by (rule goes_call) simp_all

lemma goes_recheck:
  assumes "quiet (b_host g)" "look (path_of (t_workspace_root tx)) t = Some b" "look (path_of (t_worktree_root tx)) t = Some s"
    and "plan_holds g plan tx baseline b s" "look (b_root g) t = Some n" "node_dev n = node_dev b" "P () t"
  shows "goes (recheck g plan tx baseline) t P"
proof -
  obtain mr ms decision findings summary where H:
    "scan_tree (b_crypto g) (default_limits (b_excluded g)) (path_of (t_workspace_root tx)) (Some b) = Inr mr"
    "m_digest mr = p_baseline_digest plan"
    "scan_tree (b_crypto g) (default_limits (b_excluded g)) (path_of (t_worktree_root tx)) (Some s) = Inr ms"
    "m_digest ms = p_staged_digest plan" "p_policy_digest plan = fingerprint (b_crypto g) (b_policy g)"
    "evaluate (b_policy g) baseline ms (diff_manifests baseline ms) = Inr (decision, findings, summary)"
    "diff_manifests baseline ms = p_changes plan" "decision = p_decision plan"
    "map finding_to_dict findings = map finding_to_dict (p_findings plan)"
    "sort_key fst summary = sort_key fst (p_summary plan)" "node_dev b = t_workspace_device tx"
    using assms(4) unfolding plan_holds_def by blast
  have q: "\<not> h_fault (b_host g) k" for k using assms(1) by blast
  show ?thesis
    unfolding recheck_def Let_def
    by (rule goes_bind, rule goes_scan [OF assms(1)], unfold assms(2), rule H(1),
        rule goes_bind, rule goes_scan [OF assms(1)], unfold assms(3), rule H(3),
        rule goes_require [OF H(2)], rule goes_require [OF H(4)], rule goes_require [OF H(5)], rule goes_lift [OF H(6)],
        unfold prod.case, rule goes_require, simp add: H(7-10),
        rule goes_bind, rule goes_stat_dev [OF assms(1,2)], rule goes_require [OF H(11)],
        rule goes_bind, unfold same_filesystem_def, rule goes_bind, rule goes_stat_dev [OF assms(1,2)],
        rule goes_bind, rule goes_stat_dev [OF assms(1,5)], rule goes_return)
      (use assms(6,7) in \<open>simp add: goes_def requireA_def\<close>)
qed

subsection \<open>The bookkeeping\<close>

lemma goes_keeps:
  assumes "goes m t P" "obeys (keeps q) m" "wf_node t"
  shows "goes m t (\<lambda>x t'. P x t' \<and> wf_node t' \<and> look q t' = look q t)"
  unfolding goes_def
proof (intro allI impI)
  fix w :: world assume w: "w_tree w = t"
  then obtain x w' where m: "m w = (Inr x, w')" "P x (w_tree w')" using assms(1) by (auto simp: goes_def)
  have "wf_node (w_tree w') \<and> look q (w_tree w') = look q t"
    using obeysD [OF assms(2) m(1)] w assms(3) by (simp add: on_trees_def)
  then show "\<exists>x w'. m w = (Inr x, w') \<and> P x (w_tree w') \<and> wf_node (w_tree w') \<and> look q (w_tree w') = look q t"
    using m by blast
qed

lemma goes_write_aside:
  assumes "quiet h" "wf_node t" "writable p t" "\<And>t'. aside p t t' \<Longrightarrow> P () t'"
  shows "goes (atomic_write_json h p v) t P"
proof (rule goes_write [OF assms(1-3)], rule assms(4))
  show "aside p t (change_tree p (Some (FileN (dev_of (butlast p) t) 384 (canonical_json v @ [CHR 0x0A]))) t)"
    using assms(2,3) by (intro change_aside) (simp_all add: writable_def)
qed

text \<open>The records of the plan and the transaction can be written, and the log verifies.\<close>

definition books :: "guard \<Rightarrow> commit_plan \<Rightarrow> transaction \<Rightarrow> node \<Rightarrow> bool" where
  "books g plan tx t \<longleftrightarrow> (\<exists>p. plan_path g (p_id plan) = Inr p \<and> writable p t) \<and>
     (\<exists>p. transaction_path g (t_id tx) = Inr p \<and> writable p t) \<and>
     (\<exists>c n head. log_content (audit_path g) t = Some c \<and> verify_log (b_crypto g) (Some (b_key g)) c = Inr (n, head))"

lemma goes_log_event:
  assumes "quiet (b_host g)" "guarded g" "wf_node t" "dir_there (b_root g) t" "strip ev \<noteq> []"
    and "log_content (audit_path g) t = Some c" "verify_log (b_crypto g) (Some (b_key g)) c = Inr (n, head)"
  shows "goes (log_event g ev kvs) t (\<lambda>_ _. True)"
proof -
  have p: "rooted (audit_path g)" "butlast (audit_path g) = b_root g"
    using assms(2) by (simp_all add: audit_path_def guarded_def rooted_add is_name_def is_component_def)
  have "goes (audit_append (b_host g) (b_crypto g) (Some (b_key g)) (audit_path g) ev (JObj kvs)) t (\<lambda>_ _. True)"
    unfolding goes_def
  proof (intro allI impI)
    fix w :: world assume "w_tree w = t"
    then show "\<exists>x w'. audit_append (b_host g) (b_crypto g) (Some (b_key g)) (audit_path g) ev (JObj kvs) w = (Inr x, w') \<and> True"
      using append_returns [OF assms(1) _ p(1) _ assms(5) _ assms(7), of w] assms(3,4,6) p(2) by simp
  qed
  then show ?thesis unfolding log_event_def by (intro goes_bind) (simp add: goes_def)
qed

lemma goes_remove:
  assumes "quiet (b_host g)" "no_state_links g" "dir_there (b_root g @ p) t" "p \<noteq> []" "P () (change_tree (b_root g @ p) None t)"
  shows "goes (remove_if_there g (b_root g @ p)) t P"
proof -
  let ?p = "b_root g @ p"
  have r: "h_resolve (b_host g) ?p = ?p" "h_resolve (b_host g) (b_root g) = b_root g"
    using assms(2) by (auto simp: no_state_links_def)
  have there: "look ?p t \<noteq> None" using assms(3) by (auto simp: dir_there_def split: option.splits)
  have rm: "goes (os_call (b_host g) (rmtree_tree ?p)) t P"
    by (rule goes_call [OF assms(1)]) (use assms(3,5) in \<open>simp_all add: rmtree_tree_def\<close>)
  have "goes (remove_state_tree (b_host g) (b_root g) ?p) t P"
    unfolding remove_state_tree_def Let_def r
    by (rule goes_bind, rule goes_exists, rule goes_require [OF there]) (use rm assms(4) in \<open>simp add: is_relative_to_def\<close>)
  then show ?thesis
    unfolding remove_if_there_def by (intro goes_bind goes_exists) (use there in simp)
qed

lemma not_prefix_longer: "p \<noteq> [] \<Longrightarrow> r \<noteq> [] \<Longrightarrow> \<not> prefix (tl (p @ r)) (tl p)"
  using prefix_length_le [of "tl p @ r" "tl p"] by auto

text \<open>The files of the bookkeeping\<close>

lemma book_places:
  assumes "guarded g" "plan_path g i = Inr p" "transaction_path g j = Inr q"
  obtains x y where "p = b_root g @ [''plans'', x]" "q = b_root g @ [''transactions'', y, ''transaction.json'']" "rooted p" "rooted q"
proof -
  have "rooted p" "rooted q" using state_paths(2) [OF assms(1,2)] state_paths(1) [OF assms(1,3)] by simp_all
  moreover obtain x where "p = b_root g @ [''plans'', x]" using assms(2) by (auto simp: plan_path_def bindE_Inr_iff)
  moreover obtain y where "q = b_root g @ [''transactions'', y, ''transaction.json'']"
    using assms(3) by (auto simp: transaction_path_def bindE_Inr_iff)
  ultimately show ?thesis using that by blast
qed

lemma goes_finish:
  assumes "quiet (b_host g)" "guarded g" "no_state_links g" "wf_node t" "is_name i" "dir_there (apply_of g i) t" "books g plan tx t"
  shows "goes (finish_commit g plan tx (apply_of g i) r) t (\<lambda>_ _. True)"
proof -
  let ?A = "apply_of g i" and ?log = "audit_path g"
  obtain p q c n head where B: "plan_path g (p_id plan) = Inr p" "writable p t" "transaction_path g (t_id tx) = Inr q" "writable q t"
    "log_content ?log t = Some c" "verify_log (b_crypto g) (Some (b_key g)) c = Inr (n, head)"
    using assms(7) by (auto simp: books_def)
  obtain x y where pq: "p = b_root g @ [''plans'', x]" "q = b_root g @ [''transactions'', y, ''transaction.json'']" "rooted p" "rooted q"
    by (rule book_places [OF assms(2) B(1,3)])
  have root: "b_root g \<noteq> []" using assms(2) root_not_Nil by blast
  have A: "?A = b_root g @ [''apply'', i]" by (simp add: apply_of_def)
  have rA: "rooted ?A" using assms(2,5) by (simp add: A guarded_def rooted_add is_name_def is_component_def)
  have ap: "apart ?A p" "apart ?A q" "apart ?A ?log" "apart p q" "apart p ?log" "apart q ?log"
    using root by (simp_all add: A pq(1,2) audit_path_def apart_same parallel_def)
  have up: "\<not> prefix (tl ?A) (tl (b_root g))" "\<not> prefix (tl p) (tl (b_root g))" "\<not> prefix (tl q) (tl (b_root g))"
    using not_prefix_longer [OF root] by (simp_all only: A pq(1,2)) simp_all
  have "look (b_root g) t \<noteq> None \<and> dir_there (b_root g) t"
  proof -
    obtain e where "dir_on e (butlast p) t" using B(2) dir_there_on by (auto simp: writable_def)
    then obtain m ks where l: "look (b_root g @ [''plans'']) t = Some (DirN e m ks)" using root by (auto simp: pq(1) dir_on_def butlast_append)
    then show ?thesis using look_append [OF root, of "[''plans'']" t]
      by (cases "look (b_root g) t"; cases "the (look (b_root g) t)") (auto simp: dir_there_def)
  qed
  then obtain e where e: "dir_on e (b_root g) t" using dir_there_on by blast
  have logged: "goes (log_event g ev kvs) t3 (\<lambda>_ _. True)"
    if "wf_node t3" "dir_on e (b_root g) t3" "look ?log t3 = look ?log t" "strip ev \<noteq> []" for t3 ev kvs
    using that B(5,6) dir_on_there(1) by (intro goes_log_event [OF assms(1,2)]) (auto simp: log_content_def)
  have closed: "goes (thenA (save_transaction g tx') (log_event g ev kvs)) t2 (\<lambda>_ _. True)"
    if t2: "wf_node t2" "writable q t2" "dir_on e (b_root g) t2" "look ?log t2 = look ?log t" and x: "t_id tx' = t_id tx" "strip ev \<noteq> []"
    for t2 tx' ev kvs
  proof -
    have "goes (save_transaction g tx') t2 (\<lambda>_ t3. goes (log_event g ev kvs) t3 (\<lambda>_ _. True))"
      unfolding save_transaction_def x(1)
    proof (rule goes_lift [OF B(3)], rule goes_write_aside [OF assms(1) t2(1,2)])
      fix t3 assume a: "aside q t2 t3"
      show "goes (log_event g ev kvs) t3 (\<lambda>_ _. True)"
        by (rule logged [OF asideD(1) [OF a] asideD(3) [OF a t2(3) up(3)] _ x(2)]) (use asideD(2) [OF a ap(6)] t2(4) in simp)
    qed
    then show ?thesis by (rule goes_bind)
  qed
  have saved: "goes (thenA (save_plan g plan') (thenA (save_transaction g tx') (log_event g ev kvs))) t1 (\<lambda>_ _. True)"
    if t1: "wf_node t1" "writable p t1" "writable q t1" "dir_on e (b_root g) t1" "look ?log t1 = look ?log t"
      and x: "p_id plan' = p_id plan" "t_id tx' = t_id tx" "strip ev \<noteq> []"
    for t1 plan' tx' ev kvs
  proof -
    have "goes (save_plan g plan') t1 (\<lambda>_ t2. goes (thenA (save_transaction g tx') (log_event g ev kvs)) t2 (\<lambda>_ _. True))"
      unfolding save_plan_def x(1)
    proof (rule goes_lift [OF B(1)], rule goes_write_aside [OF assms(1) t1(1,2)])
      fix t2 assume a: "aside p t1 t2"
      show "goes (thenA (save_transaction g tx') (log_event g ev kvs)) t2 (\<lambda>_ _. True)"
        by (rule closed [OF asideD(1) [OF a] writable_aside [OF t1(3) a ap(4)] asideD(3) [OF a t1(4) up(2)] _ x(2,3)])
          (use asideD(2) [OF a ap(5)] t1(5) in simp)
    qed
    then show ?thesis by (rule goes_bind)
  qed
  have a: "aside ?A t (change_tree ?A None t)" by (rule change_aside [OF rA assms(4)]) simp
  have ev: "strip ''commit_completed'' \<noteq> []" by code_simp
  have rest: "goes (thenA (save_plan g (plan\<lparr>p_state := PLAN_COMMITTED\<rparr>)) (thenA (save_transaction g (tx\<lparr>t_state := TX_COMMITTED\<rparr>))
      (log_event g ''commit_completed'' kvs))) (change_tree ?A None t) (\<lambda>_ _. True)" for kvs
    by (rule saved [OF asideD(1) [OF a] writable_aside [OF B(2) a ap(1)] writable_aside [OF B(4) a ap(2)]
        asideD(3) [OF a e up(1)] asideD(2) [OF a ap(3)] _ _ ev]) simp_all
  have "goes (remove_if_there g ?A) t (\<lambda>_ t1. goes (thenA (save_plan g (plan\<lparr>p_state := PLAN_COMMITTED\<rparr>))
      (thenA (save_transaction g (tx\<lparr>t_state := TX_COMMITTED\<rparr>)) (log_event g ''commit_completed'' kvs))) t1 (\<lambda>_ _. True))" for kvs
    using goes_remove [OF assms(1,3), of "[''apply'', i]" t] assms(6) rest unfolding A by simp
  then show ?thesis unfolding finish_commit_def by (rule goes_bind)
qed

subsection \<open>From the prepared record to the end\<close>

lemma goes_with_record:
  assumes "completes m r t P"
  shows "goes (with_record m handler r) t (\<lambda>r' t'. \<exists>x. P x r' t')"
  unfolding goes_def
proof (intro allI impI)
  fix w :: world assume "w_tree w = t"
  then obtain x s' where "m (r, w) = (Inr x, s')" "P x (fst s') (w_tree (snd s'))" using assms by (auto simp: completes_def)
  then show "\<exists>x w'. with_record m handler r w = (Inr x, w') \<and> (\<exists>y. P y x (w_tree w'))"
    by (cases s') (auto simp: with_record_def on_errorA_def)
qed

lemma goes_applied:
  assumes "guarded g" "quiet (b_host g)" "rooted ws" "apart (b_root g) ws" "is_name i"
    and "ready ws (quarantine_of g i) b (r, w)" "w_tree w = t" "commit_path g (r_commit_id r) = Inr F"
    and "staged g ws i (r_operations r) F t"
    and "W = replayed (payload_of (apply_of g i) t) (r_operations r) b"
    and "scan_tree (b_crypto g) (default_limits (b_excluded g)) ws (Some W) = Inr m" "m_digest m = p_staged_digest plan"
  shows "goes (with_record (apply_record g plan ws (apply_of g i)) handler r) t (\<lambda>_ t'. wf_node t' \<and> look ws t' = Some W \<and>
    elsewhere [F, ws, quarantine_of g i, apply_of g i] t t' \<and> dir_there (apply_of g i) t')"
proof -
  have S: "setting g ws (quarantine_of g i) (apply_of g i)" using assms(1,3-5) by (intro setting_of) simp_all
  have job: "job g ws (quarantine_of g i) (apply_of g i) F b (r_operations r)"
    using S assms(2,6,8) by (auto simp: job_def ready_def)
  have "ws \<noteq> []" using assms(3) by (auto simp: rooted_def)
  then obtain d where "underway d g ws (quarantine_of g i) (apply_of g i) F (r_operations r) (payload_of (apply_of g i) t) t 0 0 b r t"
    using staged_underway [OF assms(6) _ assms(8)] assms(7,9) by auto
  note C = goes_with_record [OF completes_apply_record [OF this job assms(11,12) [unfolded assms(10)]]]
  show ?thesis
  proof (rule goes_weaken [OF C])
    fix r' :: commit_record and t'
    assume "\<exists>x. r_status r' = ''committed'' \<and> record_at F t' = Some r' \<and> underway d g ws (quarantine_of g i) (apply_of g i) F
      (r_operations r) (payload_of (apply_of g i) t) t (length (r_operations r)) (length (r_operations r))
      (replayed (payload_of (apply_of g i) t) (r_operations r) b) r' t'"
    then have U: "underway d g ws (quarantine_of g i) (apply_of g i) F
      (r_operations r) (payload_of (apply_of g i) t) t (length (r_operations r)) (length (r_operations r)) W r' t'" by (simp add: assms(10))
    show "wf_node t' \<and> look ws t' = Some W \<and> elsewhere [F, ws, quarantine_of g i, apply_of g i] t t' \<and> dir_there (apply_of g i) t'"
      using underwayD(1,3,10,11) [OF U] dir_on_there(1) by blast
  qed
qed

text \<open>The roots of the difference between the workspace and the worktree can be staged.\<close>

lemma roots_stageable:
  assumes "wf_node b" "scan_tree cr lim root (Some b) = Inr mb" "wf_node s" "scan_tree cr lim root' (Some s) = Inr ms"
    and "cs = operation_roots (diff_manifests mb ms)" "\<forall>c \<in> set (diff_manifests mb ms). relative_text (c_path c)"
  shows "\<forall>c \<in> set cs. stageable s c" "root_list (map (payload_at s) cs)"
    "fold (\<lambda>(p, x). upd p x) (map (payload_at s) cs) b = replay s (map parts cs) b"
    "look ws t = Some b \<Longrightarrow> ws \<noteq> [] \<Longrightarrow> \<forall>c \<in> set cs. dir_on (node_dev b) (ws @ butlast (parts c)) t"
proof -
  note so = scan_ofI [OF assms(1,2)] scan_ofI [OF assms(3,4)]
  note roots = operation_roots_correct [OF diff_parts_distinct [OF so]]
  note shape = diff_roots_shape [OF so]
  have ch: "c \<in> set (diff_manifests mb ms)" if "c \<in> set cs" for c using roots(2) that by (auto simp: assms(5))
  note cc = diff_change [OF so ch]
  have comp: "all_names (parts c)" if "c \<in> set cs" for c
    using cc [OF that] by (auto simp: all_names_def included_def)
  show "\<forall>c \<in> set cs. stageable s c"
  proof
    fix c assume c: "c \<in> set cs"
    have "names_of (c_path c) = parts c"
      using cc [OF c] comp [OF c] names_of_path_str [of "parts c"] is_name_component by (metis all_names_def)
    then show "stageable s c" using cc [OF c] comp [OF c] assms(6) ch [OF c] by (auto simp: stageable_def)
  qed
  have pay: "payload_at s c = (parts c, get (parts c) s)" if "c \<in> set cs" for c
    using cc [OF that] by (auto simp: payload_at_def)
  have par: "parts (cs ! i) \<parallel> parts (cs ! j)" if "i < length cs" "j < length cs" "i \<noteq> j" for i j
    using shape(2) [of "cs ! i" "cs ! j"] roots(3) that by (simp add: assms(5) distinct_conv_nth)
  show "root_list (map (payload_at s) cs)"
    unfolding root_list_def using comp par by (auto simp: payload_at_def)
  show "fold (\<lambda>(p, x). upd p x) (map (payload_at s) cs) b = replay s (map parts cs) b"
    using pay
  proof (induction cs arbitrary: b)
    case (Cons c cs)
    have "fold (\<lambda>(p, x). upd p x) (map (payload_at s) cs) (upd (parts c) (get (parts c) s) b) =
        replay s (map parts cs) (upd (parts c) (get (parts c) s) b)"
      by (rule Cons.IH) (use Cons.prems in simp)
    then show ?case using Cons.prems [of c] by (simp add: replay_def apply_root_def)
  qed (simp add: replay_def)
  assume l: "look ws t = Some b" "ws \<noteq> []"
  show "\<forall>c \<in> set cs. dir_on (node_dev b) (ws @ butlast (parts c)) t"
  proof
    fix c assume c: "c \<in> set cs"
    let ?p = "butlast (parts c)"
    have "dir_at ?p b" using shape(1) c by (simp add: assms(5))
    then obtain n where n: "get ?p b = Some n" "is_dir n" by (auto simp: dir_at_def split: option.splits)
    have "node_dev n = node_dev b"
    proof (cases "?p = []")
      case True
      then show ?thesis using n by simp
    next
      case False
      have "hd ?p = hd (parts c)" using False by (metis append_butlast_last_id butlast.simps(1) hd_append2)
      then have "included (l_excluded lim) ?p" using cc [OF c] False by (simp add: included_def)
      moreover have "entry_kind_of_node n \<noteq> SYMLINK" using n(2) by (cases n) simp_all
      ultimately show ?thesis using scan_one_device [OF assms(1,2)] n(1) by (auto simp: one_device_def)
    qed
    then show "dir_on (node_dev b) (ws @ ?p) t"
      using n look_append [OF l(2), of ?p t] l(1) by (cases n) (simp_all add: dir_on_def)
  qed
qed

lemma goes_outcome:
  assumes "goes m t P" "\<And>w x w'. w_tree w = t \<Longrightarrow> m w = (Inr x, w') \<Longrightarrow> P x (w_tree w') \<Longrightarrow> R x (w_tree w')"
  shows "goes m t R"
  using assms unfolding goes_def by blast

text \<open>What a commit needs of the state directory: room for its identifier, whichever is drawn\<close>

definition room :: "int \<Rightarrow> guard \<Rightarrow> node \<Rightarrow> bool" where
  "room d g t \<longleftrightarrow> dir_on d (b_root g) t \<and> dir_on d (b_root g @ [''quarantine'']) t \<and> dir_on d (b_root g @ [''apply'']) t \<and>
     dir_there (b_root g @ [''commits'']) t \<and>
     (\<forall>k. let i = random_id ''commit'' (h_random (b_host g) k)
       in length (h_random (b_host g) k) = 18 \<and> look (quarantine_of g i) t = None \<and> look (apply_of g i) t = None \<and>
         look (b_root g @ [''commits'', i @ ''.json'']) t = None)"

lemma goes_new_id: "(\<And>k. P (random_id pre (h_random h k)) t) \<Longrightarrow> goes (new_id h pre) t P"
  by (simp add: goes_def new_id_def bindA_def drawA_def)

text \<open>State files that no step of a commit before its bookkeeping touches\<close>

definition spared :: "guard \<Rightarrow> string list \<Rightarrow> path list \<Rightarrow> bool" where
  "spared g names qs \<longleftrightarrow> (\<forall>q \<in> set qs. \<forall>a \<in> set names. \<forall>x. apart q (b_root g @ a # x))"

abbreviation book_names :: "string list" where
  "book_names \<equiv> [''plans'', ''transactions'', ''audit.jsonl'']"

lemma spared_setting:
  assumes "setting g ws (quarantine_of g i) (apply_of g i)" "commit_path g j = Inr F"
  shows "spared g (''locks'' # book_names) [F, ws, quarantine_of g i, apply_of g i]"
proof -
  note S = settingD [OF assms(1)]
  obtain x where x: "F = b_root g @ [''commits'', x]" using assms(2) by (auto simp: commit_path_def bindE_Inr_iff)
  have "apart ws (b_root g @ y)" for y using apart_below [of "b_root g" ws y] S(3) root_not_Nil [OF S(1)] by (simp add: apart_sym)
  then show ?thesis using state_apart [OF S(1)] by (auto simp: spared_def x quarantine_of_def apply_of_def)
qed

lemma books_elsewhere:
  assumes "books g plan tx t" "elsewhere qs t t'" "spared g names qs" "set book_names \<subseteq> set names" "guarded g"
  shows "books g plan tx t'"
proof -
  have root: "rooted (b_root g)" using assms(5) by (simp add: guarded_def)
  have same: "look (b_root g @ a # x) t' = look (b_root g @ a # x) t"
    if "a \<in> set book_names" "\<forall>y \<in> set (a # x). is_name y" for a x
  proof (rule elsewhereD [OF assms(2)])
    show "rooted (b_root g @ a # x)" using that(2) root by (simp add: rooted_add)
    show "\<forall>q \<in> set qs. apart q (b_root g @ a # x)" using assms(3,4) that(1) unfolding spared_def by blast
  qed
  have w: "writable p t'" if p: "writable p t" "p = b_root g @ a # x @ [y]" "a \<in> {''plans'', ''transactions''}" for p a x y
  proof -
    have "\<forall>z \<in> set (a # x @ [y]). is_name z" using p(1) rooted_add [OF root] by (simp add: writable_def p(2))
    then have "look p t' = look p t" "look (butlast p) t' = look (butlast p) t"
      using p(3) same [of a "x @ [y]"] same [of a x] by (auto simp: p(2) butlast_append)
    then show ?thesis using p(1) by (simp add: writable_def dir_there_def)
  qed
  obtain p q where B: "plan_path g (p_id plan) = Inr p" "writable p t" "transaction_path g (t_id tx) = Inr q" "writable q t"
    using assms(1) by (auto simp: books_def)
  obtain x y where pq: "p = b_root g @ [''plans'', x]" "q = b_root g @ [''transactions'', y, ''transaction.json'']" "rooted p" "rooted q"
    by (rule book_places [OF assms(5) B(1,3)])
  have "writable p t'" "writable q t'"
    using w [OF B(2), of "''plans''" "[]" x] w [OF B(4), of "''transactions''" "[y]" "''transaction.json''"] pq(1,2) by simp_all
  moreover have "log_content (audit_path g) t' = log_content (audit_path g) t"
    using same [of "''audit.jsonl''" "[]"] by (simp add: log_content_def audit_path_def is_name_def is_component_def)
  ultimately show ?thesis using assms(1) B(1,3) by (auto simp: books_def)
qed

lemma goes_mkdir:
  assumes "quiet h" "look p t = None" "dir_on d (butlast p) t" "P () (change_tree p (Some (DirN d (m AND NOT (h_umask h)) [])) t)"
  shows "goes (mkdirA h m p) t P"
  unfolding mkdirA_def using assms(2-4) dir_on_there [OF assms(3)]
  by (intro goes_call [OF assms(1)]) (simp_all add: mkdir_tree_def)

lemma finish_keeps_state:
  assumes "guarded g" "no_state_links g" "is_name i" "rooted (b_root g @ a # x)" "a \<notin> {''apply'', ''plans'', ''transactions'', ''audit.jsonl''}"
  shows "obeys (keeps (b_root g @ a # x)) (finish_commit g plan t (apply_of g i) r)"
proof -
  let ?q = "b_root g @ a # x"
  have "obeys (keeps ?q) (remove_if_there g (apply_of g i))"
    unfolding apply_of_def using assms state_apart by (intro remove_keeps) auto
  moreover have "obeys (keeps ?q) (atomic_write_json (b_host g) p v)"
    if "plan_path g y = Inr p \<or> transaction_path g y = Inr p" for p y v
    using that assms(4,5) state_apart [OF assms(1)] state_paths(1,2) [OF assms(1), of y p]
    by (intro atomic_write_json_keeps) (auto simp: plan_path_def transaction_path_def bindE_Inr_iff)
  moreover have "obeys (keeps ?q) (log_event g ev kvs)" for ev kvs
    using assms(1,4,5) state_apart by (intro log_event_apart) (auto simp: audit_path_def)
  ultimately show ?thesis
    unfolding finish_commit_def save_plan_def save_transaction_def by (intro keeps.bind keeps.pure bind_lift_keeps) auto
qed

lemma baseline_same:
  assumes "baseline_of g plan baseline" "\<not> forged_baseline g ws t baseline" "look ws t = Some b" "wf_node b"
    and "scan_tree (b_crypto g) (default_limits (b_excluded g)) ws (Some b) = Inr mr" "m_digest mr = p_baseline_digest plan"
  shows "diff_manifests baseline ms = diff_manifests mr ms"
proof (rule diff_cong, rule digest_same_map)
  show "keyed (m_entries mr)" by (rule scan_of_keyed [OF scan_ofI [OF assms(4,5)]])
  show "manifest_digest (b_crypto g) (m_entries baseline) = manifest_digest (b_crypto g) (m_entries mr)"
    using assms(1,6) scan_tree_Inr(4) [OF assms(4,5)] by (simp add: baseline_of_def)
  show "\<not> sha256_collision (b_crypto g) {manifest_text (m_entries baseline)} {manifest_text (m_entries mr)}"
    using assms(2,3,5) by (auto simp: forged_baseline_def)
qed (use assms(1) in \<open>simp add: baseline_of_def\<close>)

subsection \<open>The commit under the lock\<close>

text \<open>The two directories of a commit\<close>

lemma goes_two_directories:
  assumes "quiet (b_host g)" "setting g ws (quarantine_of g i) (apply_of g i)" "wf_node t"
    and "dir_on d (b_root g @ [''quarantine'']) t" "dir_on d (b_root g @ [''apply'']) t"
    and "look (quarantine_of g i) t = None" "look (apply_of g i) t = None"
    and "\<And>t2 m n. wf_node t2 \<Longrightarrow> elsewhere [quarantine_of g i, apply_of g i] t t2 \<Longrightarrow> look (quarantine_of g i) t2 = Some (DirN d m []) \<Longrightarrow>
      look (apply_of g i) t2 = Some (DirN d n []) \<Longrightarrow> dir_on d (b_root g @ [''quarantine'']) t2 \<Longrightarrow> goes rest t2 P"
  shows "goes (thenA (mkdirA (b_host g) 448 (quarantine_of g i)) (thenA (mkdirA (b_host g) 448 (apply_of g i)) rest)) t P"
proof -
  let ?Q = "quarantine_of g i" and ?A = "apply_of g i" and ?m = "448 AND NOT (h_umask (b_host g))"
  note S = settingD [OF assms(2)]
  have root: "b_root g \<noteq> []" using root_not_Nil [OF S(1)] .
  have pQ: "butlast ?Q = b_root g @ [''quarantine'']" and pA: "butlast ?A = b_root g @ [''apply'']"
    by (simp_all add: quarantine_of_def apply_of_def butlast_append)
  let ?t1 = "change_tree ?Q (Some (DirN d ?m [])) t"
  let ?t2 = "change_tree ?A (Some (DirN d ?m [])) ?t1"
  have a1: "aside ?Q t ?t1" by (rule change_aside [OF S(12) assms(3)]) simp
  have l1: "look ?Q ?t1 = Some (DirN d ?m [])"
    by (rule look_change_same [OF S(12) assms(3)]) (use assms(4) pQ dir_on_there(1) in simp)
  have up: "\<not> prefix (tl ?Q) (tl (b_root g @ [x]))" "\<not> prefix (tl ?A) (tl (b_root g @ [x]))" for x
    using root by (auto simp: quarantine_of_def apply_of_def dest: prefix_length_le)
  have d1: "dir_on d (b_root g @ [''apply'']) ?t1" "dir_on d (b_root g @ [''quarantine'']) ?t1"
    by (rule asideD(3) [OF a1 assms(5) up(1)], rule asideD(3) [OF a1 assms(4) up(1)])
  have AQ: "apart ?Q ?A" "apart ?A ?Q" using S(11) apart_sym by blast+
  have n1: "look ?A ?t1 = None" using asideD(2) [OF a1 AQ(1)] assms(7) by simp
  have a2: "aside ?A ?t1 ?t2" by (rule change_aside [OF S(13) asideD(1) [OF a1]]) simp
  have l2: "look ?A ?t2 = Some (DirN d ?m [])"
    by (rule look_change_same [OF S(13) asideD(1) [OF a1]]) (use d1 pA dir_on_there(1) in simp)
  have q2: "look ?Q ?t2 = Some (DirN d ?m [])" using asideD(2) [OF a2 AQ(2)] l1 by simp
  have e1: "elsewhere [?Q, ?A] t ?t1" by (rule aside_elsewhere [of ?Q "[]"]) (use a1 S(5) in simp_all)
  have e2: "elsewhere [?Q, ?A] ?t1 ?t2" by (rule aside_elsewhere [of ?A "[]"]) (use a2 S(6) in simp_all)
  note e = elsewhere_trans [OF e1 e2]
  have go: "goes rest ?t2 P" by (rule assms(8) [OF asideD(1) [OF a2] e q2 l2 asideD(3) [OF a2 d1(2) up(2)]])
  show ?thesis
    by (rule goes_bind, rule goes_mkdir [OF assms(1,6)], unfold pQ, rule assms(4),
        rule goes_bind, rule goes_mkdir [OF assms(1) n1], unfold pA, rule d1(1), rule go)
qed

lemma elsewhere_mono: "elsewhere qs t t' \<Longrightarrow> set qs \<subseteq> set rs \<Longrightarrow> elsewhere rs t t'"
  unfolding elsewhere_def by blast

text \<open>Under which a commit can go through: the checks hold, there is room, and the records can be written.\<close>

definition feasible :: "guard \<Rightarrow> commit_plan \<Rightarrow> transaction \<Rightarrow> tree_manifest \<Rightarrow> node \<Rightarrow> node \<Rightarrow> node \<Rightarrow> bool" where
  "feasible g plan tx baseline b s t \<longleftrightarrow> look (path_of (t_workspace_root tx)) t = Some b \<and> look (path_of (t_worktree_root tx)) t = Some s \<and>
     plan_holds g plan tx baseline b s \<and> copies (node_dev b) s \<and> room (node_dev b) g t \<and> books g plan tx t"

text \<open>From the staged payloads to the end\<close>

lemma goes_rest:
  assumes "isolates g ws" "no_state_links g" "quiet (b_host g)" "is_name i" "wf_node t0" "books g plan tx t0"
    and "ready ws (quarantine_of g i) b (r, w)" "w_tree w = t" "commit_path g (r_commit_id r) = Inr F"
    and "staged g ws i (r_operations r) F t" "W = replayed (payload_of (apply_of g i) t) (r_operations r) b"
    and "scan_tree (b_crypto g) (default_limits (b_excluded g)) ws (Some W) = Inr m" "m_digest m = p_staged_digest plan"
    and "elsewhere [F, ws, quarantine_of g i, apply_of g i] t0 t" "rooted (b_root g @ ''locks'' # y)"
  shows "goes (bindA (with_record (apply_record g plan ws (apply_of g i)) handler r)
     (\<lambda>r. thenA (finish_commit g plan tx (apply_of g i) r) (returnA r))) t
     (\<lambda>_ t'. wf_node t' \<and> look ws t' = Some W \<and> look (b_root g @ ''locks'' # y) t' = look (b_root g @ ''locks'' # y) t0)"
proof (rule goes_bind, rule goes_weaken [OF goes_applied [OF _ assms(3) _ _ assms(4,7-13)]])
  show "guarded g" "rooted ws" "apart (b_root g) ws" using assms(1) by simp_all
  fix r' t1
  let ?L = "b_root g @ ''locks'' # y" and ?qs = "[F, ws, quarantine_of g i, apply_of g i]"
  assume t1: "wf_node t1 \<and> look ws t1 = Some W \<and> elsewhere ?qs t t1 \<and> dir_there (apply_of g i) t1"
  have e: "elsewhere ?qs t0 t1" using elsewhere_trans [OF assms(14)] t1 by blast
  have sp: "spared g (''locks'' # book_names) ?qs" by (rule spared_setting [OF setting_of [OF assms(1,4)] assms(9)])
  have L: "look ?L t1 = look ?L t0"
  proof (rule elsewhereD [OF e assms(15)])
    show "\<forall>q \<in> set ?qs. apart q ?L" using sp unfolding spared_def by (meson list.set_intros(1))
  qed
  have g: "guarded g" using assms(1) by simp
  have fin: "goes (finish_commit g plan tx (apply_of g i) r') t1 (\<lambda>_ _. True)"
    by (rule goes_finish [OF assms(3) g assms(2) _ assms(4) _ books_elsewhere [OF assms(6) e sp _ g]]) (use t1 in auto)
  have k: "obeys (keeps ws) (finish_commit g plan tx (apply_of g i) r')" "obeys (keeps ?L) (finish_commit g plan tx (apply_of g i) r')"
    by (rule finish_keeps_workspace [OF assms(1,4)], rule finish_keeps_state [OF g assms(2,4,15)]) simp
  have fin2: "goes (finish_commit g plan tx (apply_of g i) r') t1
      (\<lambda>_ t'. (True \<and> wf_node t' \<and> look ws t' = look ws t1) \<and> wf_node t' \<and> look ?L t' = look ?L t1)"
    by (rule goes_keeps [OF goes_keeps [OF fin k(1)] k(2)]) (use t1 in simp_all)
  show "goes (thenA (finish_commit g plan tx (apply_of g i) r') (returnA r')) t1
     (\<lambda>_ t'. wf_node t' \<and> look ws t' = Some W \<and> look ?L t' = look ?L t0)"
    by (rule goes_bind, rule goes_weaken [OF fin2], rule goes_return) (use t1 L in simp)
qed

text \<open>What the checks establish: the changes are the difference of the trees on disk, and their replay has the approved digest.\<close>

lemma feasible_changes:
  assumes "wf_node t" "look (path_of (t_workspace_root tx)) t = Some b" "look (path_of (t_worktree_root tx)) t = Some s"
    and "plan_holds g plan tx baseline b s" "baseline_of g plan baseline" "copies (node_dev b) s"
    and "\<not> forged_baseline g (path_of (t_workspace_root tx)) t baseline"
    and "\<not> hidden_change (b_crypto g) (b_excluded g) b s"
    and "W = replay s (map parts (operation_roots (p_changes plan))) b"
  obtains mr ms m where "wf_node b" "scan_tree (b_crypto g) (default_limits (b_excluded g)) (path_of (t_workspace_root tx)) (Some b) = Inr mr"
    "wf_node s" "scan_tree (b_crypto g) (default_limits (b_excluded g)) (path_of (t_worktree_root tx)) (Some s) = Inr ms"
    "m_digest ms = p_staged_digest plan" "p_changes plan = diff_manifests mr ms" "same_tree (b_excluded g) W s"
    "scan_tree (b_crypto g) (default_limits (b_excluded g)) (path_of (t_workspace_root tx)) (Some W) = Inr m"
    "m_digest m = p_staged_digest plan"
proof -
  obtain mr ms where H: "scan_tree (b_crypto g) (default_limits (b_excluded g)) (path_of (t_workspace_root tx)) (Some b) = Inr mr"
    "m_digest mr = p_baseline_digest plan"
    "scan_tree (b_crypto g) (default_limits (b_excluded g)) (path_of (t_worktree_root tx)) (Some s) = Inr ms"
    "m_digest ms = p_staged_digest plan" "diff_manifests baseline ms = p_changes plan"
    using assms(4) unfolding plan_holds_def by blast
  have wf: "wf_node b" "wf_node s" using look_wf [OF assms(1)] assms(2,3) by blast+
  have ch: "p_changes plan = diff_manifests mr ms"
    using baseline_same [OF assms(5,7,2) wf(1) H(1,2), of ms] H(5) by simp
  have "is_dir s" by (rule scan_tree_Inr(1) [OF wf(2) H(3)])
  then have dev: "node_dev s = node_dev b" using assms(6) by (cases s) (simp_all add: copies_def)
  have ex: "l_excluded (default_limits (b_excluded g)) = b_excluded g" by (simp add: default_limits_def)
  note R = replay_scan [OF wf(1) H(1) wf(2) H(3), unfolded ex, OF assms(8) dev, folded ch, folded assms(9)]
  obtain m where m: "scan_tree (b_crypto g) (default_limits (b_excluded g)) (path_of (t_workspace_root tx)) (Some W) = Inr m"
    "m_digest m = m_digest ms" using R(2) by blast
  show ?thesis by (rule that [OF wf(1) H(1) wf(2) H(3,4) ch R(1) m(1)]) (use m(2) H(4) in simp)
qed

lemma goes_commit_locked:
  assumes "sound_broker g" "quiet (b_host g)" "ws = path_of (t_workspace_root tx)" "rooted ws" "apart (b_root g) ws"
    and "path_of (t_worktree_root tx) = b_root g @ [''transactions'', x, ''worktree'']" "is_name x"
    and "wf_node t" "feasible g plan tx baseline b s t" "baseline_of g plan baseline" "spares_failed_new plan"
    and "\<And>c. c \<in> set (p_changes plan) \<Longrightarrow> relative_text (c_path c)"
    and "\<not> forged_baseline g ws t baseline"
    and "\<not> hidden_change (b_crypto g) (b_excluded g) b s"
    and "W = replay s (map parts (operation_roots (p_changes plan))) b" "rooted (b_root g @ ''locks'' # y)"
  shows "goes (commit_locked g plan tx baseline) t
    (\<lambda>_ t'. wf_node t' \<and> look ws t' = Some W \<and> look (b_root g @ ''locks'' # y) t' = look (b_root g @ ''locks'' # y) t)"
proof -
  let ?wt = "path_of (t_worktree_root tx)" and ?d = "node_dev b" and ?cs = "operation_roots (p_changes plan)"
  let ?P = "\<lambda>_ t'. wf_node t' \<and> look ws t' = Some W \<and> look (b_root g @ ''locks'' # y) t' = look (b_root g @ ''locks'' # y) t"
  have g: "isolates g ws" "guarded g" "hd (b_root g) = ''/''" "no_state_links g"
    using assms(1,4,5) by (simp_all add: sound_broker_def)
  have root: "rooted (b_root g)" "b_root g \<noteq> []" using g(2) root_not_Nil by (simp_all add: guarded_def)
  have wt: "rooted ?wt" using root(1) assms(6,7) by (simp add: rooted_add is_name_def is_component_def)
  have F: "look ws t = Some b" "look ?wt t = Some s" "plan_holds g plan tx baseline b s" "copies ?d s" "room ?d g t" "books g plan tx t"
    using assms(9) by (simp_all add: feasible_def assms(3))
  obtain mr ms m where M: "wf_node b" "scan_tree (b_crypto g) (default_limits (b_excluded g)) ws (Some b) = Inr mr"
    "wf_node s" "scan_tree (b_crypto g) (default_limits (b_excluded g)) ?wt (Some s) = Inr ms"
    "m_digest ms = p_staged_digest plan" "p_changes plan = diff_manifests mr ms" "same_tree (b_excluded g) W s"
    "scan_tree (b_crypto g) (default_limits (b_excluded g)) ws (Some W) = Inr m" "m_digest m = p_staged_digest plan"
    by (rule feasible_changes [OF assms(8) F(1) [unfolded assms(3)] F(2-3) assms(10) F(4) assms(13) [unfolded assms(3)] assms(14,15),
        folded assms(3)])
  note so = scan_ofI [OF M(1,2)] scan_ofI [OF M(3,4)]
  have rel: "\<forall>c \<in> set (diff_manifests mr ms). relative_text (c_path c)" using assms(12) M(6) by simp
  have cs: "?cs = operation_roots (diff_manifests mr ms)" by (simp add: M(6))
  note R = roots_stageable [OF M(1-4) cs rel]
  have ne: "ws \<noteq> []" using assms(4) by (auto simp: rooted_def)
  have R4: "\<forall>c \<in> set ?cs. dir_on ?d (ws @ butlast (parts c)) t'" if "look ws t' = Some b" for t'
    by (rule R(4) [OF that ne])
  obtain n where n: "look (b_root g) t = Some n" "node_dev n = ?d" using F(5) by (auto simp: room_def dir_on_def)
  have after: "goes (bindA (new_id (b_host g) ''commit'') (\<lambda>i.
      thenA (mkdirA (b_host g) 448 (quarantine_of g i))
     (thenA (mkdirA (b_host g) 448 (apply_of g i))
     (bindA (on_errorA (prepare g plan tx baseline i) (clean_up_unprepared g (apply_of g i) (quarantine_of g i)))
       (\<lambda>r. bindA (with_record (apply_record g plan ws (apply_of g i)) (rollback_failed_commit g ws baseline) r)
           (\<lambda>r. thenA (finish_commit g plan tx (apply_of g i) r) (returnA r))))))) t ?P"
  proof (rule goes_bind, rule goes_new_id)
    fix k
    let ?i = "random_id ''commit'' (h_random (b_host g) k)"
    let ?Q = "quarantine_of g ?i" and ?A = "apply_of g ?i" and ?F = "b_root g @ [''commits'', ?i @ ''.json'']"
    have i: "is_name ?i" by (rule minted_name)
    have rm: "length (h_random (b_host g) k) = 18" "look ?Q t = None" "look ?A t = None" "look ?F t = None"
      "dir_on ?d (b_root g @ [''quarantine'']) t" "dir_on ?d (b_root g @ [''apply'']) t" "dir_there (b_root g @ [''commits'']) t"
      using F(5) by (auto simp: room_def Let_def)
    have c: "commit_path g ?i = Inr ?F" using minted_id [OF rm(1), of "''commit''"] by (simp add: commit_path_def)
    note set = setting_of [OF g(1) i] and S = settingD [OF setting_of [OF g(1) i]] and P = state_places [OF setting_of [OF g(1) i]]
    have wF: "writable ?F t" using P(3) [OF c] rm(4,7) by (simp add: writable_def dir_there_def butlast_append)
    have Awt: "apart ?A ?wt" "apart ?Q ?wt" using state_apart [OF g(2)] by (simp_all add: assms(6) apply_of_def quarantine_of_def)
    have QF: "apart ?Q ?F \<and> apart ?Q (butlast ?F)" "apart ?A ?F \<and> apart ?A (butlast ?F)"
      using state_apart [OF g(2)] by (simp_all add: apply_of_def quarantine_of_def butlast_append)
    show "goes (thenA (mkdirA (b_host g) 448 ?Q) (thenA (mkdirA (b_host g) 448 ?A)
       (bindA (on_errorA (prepare g plan tx baseline ?i) (clean_up_unprepared g ?A ?Q))
         (\<lambda>r. bindA (with_record (apply_record g plan ws ?A) (rollback_failed_commit g ws baseline) r)
           (\<lambda>r. thenA (finish_commit g plan tx ?A r) (returnA r)))))) t ?P"
    proof (rule goes_two_directories [OF assms(2) set assms(8) rm(5,6,2,3)])
      fix t2 p q
      assume t2: "wf_node t2" "elsewhere [?Q, ?A] t t2" "look ?Q t2 = Some (DirN ?d p [])" "look ?A t2 = Some (DirN ?d q [])"
        "dir_on ?d (b_root g @ [''quarantine'']) t2"
      have l2: "look ws t2 = Some b" "look ?wt t2 = Some s"
        using elsewhereD [OF t2(2) assms(4)] elsewhereD [OF t2(2) wt] S(9,10) Awt F(1,2) by simp_all
      have w2: "writable ?F t2" by (rule elsewhere_writable [OF t2(2) wF P(4) [OF c]]) (use QF in simp)
      have pr: "goes (prepare g plan tx baseline ?i) t2 (\<lambda>r t3. \<exists>w. w_tree w = t3 \<and> ready ws ?Q b (r, w) \<and> r_commit_id r = ?i \<and>
          list_all2 (\<lambda>c op. operation_of ?Q c = Inr op) ?cs (r_operations r) \<and>
          staging ?d ?A t2 (map (payload_at s) ?cs) (length ?cs) t3)"
      proof (rule goes_outcome [OF goes_prepare [OF assms(2) S(13) refl wt Awt(1) F(4) M(3) t2(1) l2(2) t2(4) refl R(1,2) M(4,5)]])
        fix w r w'
        assume w: "w_tree w = t2" "prepare g plan tx baseline ?i w = (Inr r, w')"
          "list_all2 (\<lambda>c op. operation_of ?Q c = Inr op) ?cs (r_operations r) \<and>
            staging ?d ?A t2 (map (payload_at s) ?cs) (length ?cs) (w_tree w')"
        have "ready ws ?Q b (r, w')" "r_commit_id r = ?i"
          using prepare_ready [OF g(1,3) i _ _ so M(6) _ w(2)] w(1) t2(1) l2(1) assms(11) by (simp_all add: spares_failed_new_def)
        then show "\<exists>wa. w_tree wa = w_tree w' \<and> ready ws ?Q b (r, wa) \<and> r_commit_id r = ?i \<and>
          list_all2 (\<lambda>c op. operation_of ?Q c = Inr op) ?cs (r_operations r) \<and>
          staging ?d ?A t2 (map (payload_at s) ?cs) (length ?cs) (w_tree w')" using w(3) by blast
      qed
      show "goes (bindA (on_errorA (prepare g plan tx baseline ?i) (clean_up_unprepared g ?A ?Q))
         (\<lambda>r. bindA (with_record (apply_record g plan ws ?A) (rollback_failed_commit g ws baseline) r)
           (\<lambda>r. thenA (finish_commit g plan tx ?A r) (returnA r)))) t2 ?P"
      proof (rule goes_bind, rule goes_on_error, rule goes_weaken [OF pr])
        fix r t3
        assume "\<exists>w. w_tree w = t3 \<and> ready ws ?Q b (r, w) \<and> r_commit_id r = ?i \<and>
          list_all2 (\<lambda>c op. operation_of ?Q c = Inr op) ?cs (r_operations r) \<and>
          staging ?d ?A t2 (map (payload_at s) ?cs) (length ?cs) t3"
        then obtain w where w: "w_tree w = t3" "ready ws ?Q b (r, w)" "r_commit_id r = ?i"
          "list_all2 (\<lambda>c op. operation_of ?Q c = Inr op) ?cs (r_operations r)"
          "staging ?d ?A t2 (map (payload_at s) ?cs) (length ?cs) t3" by blast
        note G = staging_staged [OF w(5,4) R(1) set c w2 t2(5,3) R4 [OF l2(1)]]
        have WW: "W = replayed (payload_of ?A t3) (r_operations r) b" using G(2) [of b] R(3) assms(15) by simp
        have e: "elsewhere [?F, ws, ?Q, ?A] t t3"
          using elsewhere_trans [OF elsewhere_mono [OF t2(2)] elsewhere_mono [OF stagingD(6) [OF w(5)]]] by simp
        show "goes (bindA (with_record (apply_record g plan ws ?A) (rollback_failed_commit g ws baseline) r)
           (\<lambda>r. thenA (finish_commit g plan tx ?A r) (returnA r))) t3 ?P"
          by (rule goes_rest [OF g(1,4) assms(2) i assms(8) F(6) w(2,1) _ G(1) WW M(8,9) e assms(16)]) (use c w(3) in simp)
      qed
    qed
  qed
  show ?thesis
    unfolding commit_locked_unfold assms(3) [symmetric]
    by (rule goes_bind, rule goes_recheck [OF assms(2) F(1) [unfolded assms(3)] F(2,3) n], rule after)
qed

subsection \<open>The whole commit\<close>

text \<open>The lock file changes nothing of this.\<close>

lemma room_aside_lock:
  assumes "room d g t" "guarded g" "aside (b_root g @ ''locks'' # y) t t'"
  shows "room d g t'"
proof -
  let ?L = "b_root g @ ''locks'' # y"
  have root: "b_root g \<noteq> []" by (rule root_not_Nil [OF assms(2)])
  have same: "look (b_root g @ a # x) t' = look (b_root g @ a # x) t" if "a \<noteq> ''locks''" for a x
    by (rule asideD(2) [OF assms(3) state_apart [OF assms(2)]]) (use that in simp)
  have "\<not> prefix (tl ?L) (tl (b_root g))" using not_prefix_longer [OF root] by blast
  then have "dir_on d (b_root g) t'" using asideD(3) [OF assms(3)] assms(1) by (simp add: room_def)
  then show ?thesis
    using assms(1) same by (simp add: room_def dir_on_def dir_there_def quarantine_of_def apply_of_def)
qed

lemma feasible_locked:
  assumes "feasible g plan tx baseline b s t" "isolates g (path_of (t_workspace_root tx))"
    and "path_of (t_worktree_root tx) = b_root g @ [''transactions'', x, ''worktree'']" "aside (b_root g @ ''locks'' # y) t t'"
    and "rooted (b_root g @ ''locks'' # y)"
  shows "feasible g plan tx baseline b s t'"
proof -
  let ?L = "b_root g @ ''locks'' # y" and ?ws = "path_of (t_workspace_root tx)"
  have g: "guarded g" using assms(2) by simp
  have "apart ?L ?ws" using assms(2) by auto
  then have w: "look ?ws t' = look ?ws t" by (rule asideD(2) [OF assms(4)])
  have s: "look (path_of (t_worktree_root tx)) t' = look (path_of (t_worktree_root tx)) t"
    unfolding assms(3) by (rule asideD(2) [OF assms(4) state_apart [OF g]]) simp
  have "elsewhere [?L] t t'" by (rule aside_elsewhere [of ?L "[]"]) (use assms(4) root_not_Nil [OF g] in simp_all)
  moreover have "spared g book_names [?L]" using state_apart [OF g] by (simp add: spared_def)
  ultimately have "books g plan tx t'" using books_elsewhere g assms(1) by (metis feasible_def order_refl)
  then show ?thesis using assms(1) w s room_aside_lock [OF _ g assms(4)] by (simp add: feasible_def)
qed

lemma authorise_more:
  assumes "authorise g i a w = (Inr (plan, tx, baseline), w1)" "guarded g"
  shows "path_of (t_worktree_root tx) = b_root g @ [''transactions'', p_transaction_id plan, ''worktree'']" "is_name (p_transaction_id plan)"
    "c \<in> set (p_changes plan) \<Longrightarrow> relative_text (c_path c)"
proof -
  obtain w2 w3 where l: "load_plan g i w = (Inr plan, w2)" "\<exists>w4. load_transaction g (p_transaction_id plan) w4 = (Inr tx, w3)"
    using assms(1) by (auto simp: authorise_def bindA_Inr_iff)
  then show "path_of (t_worktree_root tx) = b_root g @ [''transactions'', p_transaction_id plan, ''worktree'']"
    "is_name (p_transaction_id plan)" using transaction_root_path(2,3) [OF _ assms(2)] by blast+
  show "relative_text (c_path c)" if "c \<in> set (p_changes plan)"
    using plan_record_facts(6) [OF load_plan_Inr(3) [OF l(1)] that] by blast
qed

lemma goes_commit:
  assumes "sound_broker g" "quiet (b_host g)" "wf_node (w_tree w)" "authorise g i a w = (Inr (plan, tx, baseline), w1)"
    and "ws = path_of (t_workspace_root tx)" "rooted ws" "apart (b_root g) ws" "spares_failed_new plan"
    and "feasible g plan tx baseline b s (w_tree w)" "dir_there (b_root g @ [''locks'']) (w_tree w)" "look (lock_path g ws) (w_tree w) = None"
    and "\<not> forged_baseline g ws (w_tree w) baseline"
    and "\<not> hidden_change (b_crypto g) (b_excluded g) b s"
    and "W = replay s (map parts (operation_roots (p_changes plan))) b"
  obtains r w' where "commit g i a w = (Inr r, w')" "look ws (w_tree w') = Some W"
proof -
  let ?L = "lock_path g ws"
  have g: "isolates g ws" "guarded g" "sha256_hex (b_crypto g)" using assms(1,6,7) by (simp_all add: sound_broker_def)
  have t1: "w_tree w1 = w_tree w" by (rule obeysD [OF authorise_reads assms(4)])
  obtain y where y: "?L = b_root g @ ''locks'' # y" "butlast ?L = b_root g @ [''locks'']"
    by (simp add: lock_path_def butlast_append)
  have L: "rooted ?L" by (rule lock_path_rooted [OF g(2,3)])
  have aL: "apart ?L ws" using g(1) y(1) by auto
  note A = authorise_more [OF assms(4) g(2)]
  have "goes (with_lock g ws (commit_locked g plan tx baseline)) (w_tree w) (\<lambda>_ t'. look ws t' = Some W)"
  proof (rule goes_lock [OF assms(2,3) L])
    show "dir_there (butlast ?L) (w_tree w)" using assms(10) y(2) by simp
    show "look ?L (w_tree w) = None" by (rule assms(11))
    fix t2 assume a: "aside ?L (w_tree w) t2"
    have f: "feasible g plan tx baseline b s t2"
      by (rule feasible_locked [OF assms(9) _ A(1) a [unfolded y(1)] L [unfolded y(1)]]) (use g(1) assms(5) in simp)
    have "look ws t2 = look ws (w_tree w)" by (rule asideD(2) [OF a aL])
    then have nf: "\<not> forged_baseline g ws t2 baseline" using assms(12) by (simp add: forged_baseline_def)
    have go: "goes (commit_locked g plan tx baseline) t2 (\<lambda>_ t'. wf_node t' \<and> look ws t' = Some W \<and> look ?L t' = look ?L t2)"
      unfolding y(1)
      by (rule goes_commit_locked [OF assms(1,2,5-7) A(1,2) asideD(1) [OF a] f authorise_Inr(5) [OF assms(4)] assms(8) A(3) nf assms(13,14)
          L [unfolded y(1)]])
    show "goes (commit_locked g plan tx baseline) t2
        (\<lambda>_ t3. look ?L t3 = look ?L t2 \<and> look ws (change_tree ?L None t3) = Some W)"
    proof (rule goes_weaken [OF go])
      fix x t3 assume t3: "wf_node t3 \<and> look ws t3 = Some W \<and> look ?L t3 = look ?L t2"
      have "aside ?L t3 (change_tree ?L None t3)" by (rule change_aside [OF L]) (use t3 in simp_all)
      then have "look ws (change_tree ?L None t3) = look ws t3" by (rule asideD(2) [OF _ aL])
      then show "look ?L t3 = look ?L t2 \<and> look ws (change_tree ?L None t3) = Some W" using t3 by simp
    qed
  qed
  then show ?thesis using that t1 assms(4,5) unfolding goes_def commit_def bindA_def by fastforce
qed

text \<open>
  C4. An allowed commit goes through. On a host where no call fails, a commit of an authorised plan succeeds as soon as what it checks
  again holds of the trees on disk, the state directory has room for its identifier, the records can be written and the lock is
  free. The workspace is then exactly the old tree with the subtrees of the worktree at the roots of the operations, which agrees
  with the worktree at every included path, and the record is on disk as committed. (Excluded are a baseline manifest whose
  digest collides with that of the workspace, and a file changed into another one with the same entry in the manifest.)
\<close>

theorem commit_completes:
  assumes "sound_broker g" and "\<forall>k. \<not> h_fault (b_host g) k" and "wf_node (w_tree w)"
    and "authorise g i a w = (Inr (plan, tx, baseline), w1)"
    and "ws = path_of (t_workspace_root tx)" and "rooted ws" and "apart (b_root g) ws" and "spares_failed_new plan"
    and "feasible g plan tx baseline b s (w_tree w)"
    and "dir_there (b_root g @ [''locks'']) (w_tree w)" and "look (lock_path g ws) (w_tree w) = None"
    and "\<not> forged_baseline g ws (w_tree w) baseline" and "\<not> hidden_change (b_crypto g) (b_excluded g) b s"
    and "W = replay s (map parts (operation_roots (p_changes plan))) b"
  shows "\<exists>r w'. commit g i a w = (Inr r, w') \<and> r_status r = ''committed'' \<and> new_commit g i (w_tree w) r (w_tree w') \<and>
    look ws (w_tree w') = Some W \<and> same_tree (b_excluded g) W s"
proof -
  obtain r w' where c: "commit g i a w = (Inr r, w')" "look ws (w_tree w') = Some W"
    by (rule goes_commit [OF assms])
  have "safe_end g ws plan (w_tree w) (commit g i a w)" by (rule commit_safe_end [OF assms(1,3-8,12)])
  then have "r_status r = ''committed''" "new_commit g i (w_tree w) r (w_tree w')"
    using c(1) authorise_Inr(1) [OF assms(4)] by (simp_all add: safe_end_def safe_outcome_def)
  moreover have "same_tree (b_excluded g) W s"
  proof -
    have F: "look (path_of (t_workspace_root tx)) (w_tree w) = Some b" "look (path_of (t_worktree_root tx)) (w_tree w) = Some s"
      "plan_holds g plan tx baseline b s" "copies (node_dev b) s" using assms(9) by (simp_all add: feasible_def)
    show ?thesis
      by (rule feasible_changes [OF assms(3) F(1-3) authorise_Inr(5) [OF assms(4)] F(4) assms(12) [unfolded assms(5)] assms(13,14)])
  qed
  ultimately show ?thesis using c by blast
qed

subsection \<open>A commit that goes through\<close>

lemma sample_tx_roots [simp]:
  "path_of (t_workspace_root sample_transaction) = [''/'', ''w'']"
  "path_of (t_worktree_root sample_transaction) = sample_dir @ [''worktree'']"
proof -
  have "is_name ''worktree''" by (simp add: is_name_def is_component_def)
  then show "path_of (t_workspace_root sample_transaction) = [''/'', ''w'']"
    "path_of (t_worktree_root sample_transaction) = sample_dir @ [''worktree'']"
    by (simp_all add: sample_transaction_def sign_transaction_def)
qed

lemma sample_get:
  "get p sample_before = (if p = [] then Some sample_before else if p = [''a''] then Some (FileN 1 420 ''x'') else None)"
  "get p sample_after = (if p = [] then Some sample_after else if p = [''a''] then Some (FileN 1 420 ''yy'') else None)"
  by (cases p; cases "tl p"; simp add: sample_before_def sample_after_def)+

lemma sample_not_hidden: "\<not> hidden_change fixed_crypto [] sample_before sample_after"
  by (auto simp: hidden_change_def included_def sample_get entry_of_node_def)

definition sample_staged_manifest :: tree_manifest where
  "sample_staged_manifest = \<lparr>m_root = path_str (sample_dir @ [''worktree'']), m_entries = [(''a'', sample_entry 2)],
     m_digest = fixed_digest, m_total_files = 1, m_total_bytes = 2\<rparr>"

lemma sample_scan_staged:
  "scan_tree fixed_crypto (default_limits []) (sample_dir @ [''worktree'']) (Some sample_after) = Inr sample_staged_manifest"
  by code_simp

definition sample_change :: change where
  "sample_change = \<lparr>c_path = ''a'', c_kind = MODIFY, c_before = Some (sample_entry 1), c_after = Some (sample_entry 2)\<rparr>"

lemma sample_difference: "diff_manifests sample_baseline sample_staged_manifest = [sample_change]"
  by code_simp

text \<open>What the policy says of it\<close>

definition sample_state :: eval_state where
  "sample_state = eval_start\<lparr>v_counts := (\<lambda>_. 0)(MODIFY := 1), v_replacement_bytes := 2, v_destructive := True\<rparr>"

lemma sample_eval_changes: "eval_changes default_policy [sample_change] eval_start = Inr sample_state"
proof -
  have "path_of ''a'' = [''a'']" "casefold ''a'' \<notin> set (protected_names default_policy)" "\<not> is_sensitive default_policy sample_change"
    by code_simp+
  then show ?thesis
    by (simp add: eval_change_def sample_change_def check_protected_def check_sensitive_def check_executable_def is_executable_def
        check_symlink_def is_kind_def check_special_def check_destructive_def count_bytes_def Let_def sample_entry_def
        sample_state_def eval_start_def)
qed

lemma sample_evaluation:
  "\<exists>summary. evaluate default_policy sample_baseline sample_staged_manifest [sample_change] = Inr (REQUIRE_APPROVAL, [], summary) \<and>
     sort_key fst summary = sort_key fst (p_summary sample_plan)"
  unfolding evaluate_def sample_eval_changes
  by (simp add: bindE_def Let_def check_add_budget_def add_only_def sample_change_def check_change_budget_def default_policy_def
      check_mass_delete_def is_mass_delete_def sample_state_def eval_start_def decide_def summary_of_def sample_baseline_def
      sample_staged_manifest_def fraction_ppm_def float_div_def sample_plan_def sign_plan_def less_char_def)

lemma sample_plan_holds: "plan_holds fixed_guard sample_plan sample_transaction sample_baseline sample_before sample_after"
proof -
  obtain summary where e: "evaluate default_policy sample_baseline sample_staged_manifest [sample_change] = Inr (REQUIRE_APPROVAL, [], summary)"
    "sort_key fst summary = sort_key fst (p_summary sample_plan)"
    using sample_evaluation by blast
  have b: "b_policy fixed_guard = default_policy" "b_excluded fixed_guard = []" by (simp_all add: fixed_guard_def)
  have f: "fingerprint fixed_crypto default_policy = fixed_digest" by (simp add: fingerprint_def)
  have p: "p_baseline_digest sample_plan = m_digest sample_baseline" "p_staged_digest sample_plan = m_digest sample_staged_manifest"
    "p_decision sample_plan = REQUIRE_APPROVAL" "p_findings sample_plan = []" "t_workspace_device sample_transaction = 1"
    "node_dev sample_before = 1" "p_policy_digest sample_plan = fixed_digest" "p_changes sample_plan = [sample_change]"
    by (simp_all add: sample_plan_def sign_plan_def sample_baseline_def sample_staged_manifest_def sample_transaction_def
        sign_transaction_def sample_before_def sample_change_def)
  show ?thesis
    unfolding plan_holds_def b sample_tx_roots fixed_parts p f
    using sample_scan_before sample_scan_staged sample_difference e
    by (intro exI [of _ sample_baseline] exI [of _ sample_staged_manifest] exI [of _ REQUIRE_APPROVAL] exI [of _ "[] :: finding list"]
        exI [of _ summary]) simp
qed

lemma sample_feasible:
  "feasible fixed_guard sample_plan sample_transaction sample_baseline sample_before sample_after (w_tree planned_world)"
proof -
  have n: "is_name ''plans''" "is_name ''transactions''" "is_name (sample_plan_id @ ''.json'')" "is_name ''transaction.json''"
    using sample_body_chars by (simp_all add: sample_plan_id_def is_name_def is_component_def)
  have i: "p_id sample_plan = sample_plan_id" "t_id sample_transaction = sample_tx"
    by (simp_all add: sample_plan_def sign_plan_def sample_transaction_def sign_transaction_def)
  have "books fixed_guard sample_plan sample_transaction (w_tree planned_world)"
    using n by (simp add: books_def plan_path_def transaction_path_def i writable_def rooted_def dir_there_def planned_world_def
        json_file_def log_content_def audit_path_def)
  moreover have "room 1 fixed_guard (w_tree planned_world)"
    by (simp add: room_def dir_on_def dir_there_def planned_world_def quarantine_of_def apply_of_def quiet_host_def)
  moreover have "copies 1 sample_after" by (simp add: copies_def sample_after_def)
  moreover have "node_dev sample_before = 1" by (simp add: sample_before_def)
  moreover have "look [''/'', ''w''] (w_tree planned_world) = Some sample_before"
    "look (sample_dir @ [''worktree'']) (w_tree planned_world) = Some sample_after"
    by (simp_all add: planned_world_def sample_dir_def)
  ultimately show ?thesis by (simp add: feasible_def sample_plan_holds)
qed

theorem commit_completes_witness:
  "\<exists>r w'. commit fixed_guard sample_plan_id (Approval_object sample_token) planned_world = (Inr r, w') \<and>
     r_status r = ''committed'' \<and> new_commit fixed_guard sample_plan_id (w_tree planned_world) r (w_tree w') \<and>
     look [''/'', ''w''] (w_tree w') = Some sample_after"
proof -
  let ?W = "replay sample_after (map parts (operation_roots (p_changes sample_plan))) sample_before"
  have "p_changes sample_plan = [sample_change]" by (simp add: sample_plan_def sign_plan_def sample_change_def)
  moreover have "replay sample_after (map parts (operation_roots [sample_change])) sample_before = sample_after" by code_simp
  ultimately have W: "?W = sample_after" by (simp only:)
  have ws: "[''/'', ''w''] = path_of (t_workspace_root sample_transaction)" "rooted [''/'', ''w'']" "apart (b_root fixed_guard) [''/'', ''w'']"
    by (simp_all add: rooted_def apart_def parallel_def)
  have q: "\<forall>k. \<not> h_fault (b_host fixed_guard) k" by simp
  have l: "dir_there (b_root fixed_guard @ [''locks'']) (w_tree planned_world)" "look (lock_path fixed_guard [''/'', ''w'']) (w_tree planned_world) = None"
    by (simp_all add: dir_there_def planned_world_def lock_path_def)
  have h: "\<not> hidden_change (b_crypto fixed_guard) (b_excluded fixed_guard) sample_before sample_after"
    using sample_not_hidden by (simp add: fixed_guard_def)
  show ?thesis
    using commit_completes [OF fixed_guard_sound q planned_world_wf sample_authorised ws sample_spares sample_feasible l sample_not_forged h refl]
    unfolding W by blast
qed

end
