(* ===== verification/Confinement.thy ===== *)
theory Confinement
  imports CommitTheorems
begin

text \<open>
  What \<^verbatim>\<open>commit\<close> and \<^verbatim>\<open>restore\<close> can touch at all: the workspace they work on and the state root. No other
  path of the file tree changes, whatever a stored record says and whichever calls fail.
\<close>

subsection \<open>A path outside\<close>

definition outside :: "guard \<Rightarrow> path \<Rightarrow> path \<Rightarrow> bool" where
  "outside g ws q \<longleftrightarrow> guarded g \<and> rooted ws \<and> apart (b_root g) ws \<and> rooted q \<and> apart (b_root g) q \<and> apart ws q"

lemma outsideD:
  assumes "outside g ws q"
  shows "isolates g q" "isolates g ws" "rooted q"
    "prefix (b_root g) p \<Longrightarrow> apart p q" "prefix ws p \<Longrightarrow> apart p q"
    "prefix (b_root g) p \<Longrightarrow> prefix ws p' \<Longrightarrow> apart p p'"
proof -
  have o: "guarded g" "rooted ws" "apart (b_root g) ws" "rooted q" "apart (b_root g) q" "apart ws q"
    using assms by (simp_all add: outside_def)
  show "isolates g q" "isolates g ws" "rooted q" using o by simp_all
  have n: "ws \<noteq> []" using o(2) by (auto simp: rooted_def)
  show "prefix (b_root g) p \<Longrightarrow> apart p q" using prefix_apart [OF o(1,5)] .
  show "prefix ws p \<Longrightarrow> apart p q" using apart_below [OF o(6) n] by (auto elim!: prefixE)
  assume p: "prefix (b_root g) p" "prefix ws p'"
  show "apart p p'"
    using apart_below2 [OF o(3) root_not_Nil [OF o(1)] n] p by (auto elim!: prefixE)
qed

text \<open>A place in the workspace or in the state root\<close>

definition inside :: "guard \<Rightarrow> path \<Rightarrow> path \<Rightarrow> bool" where
  "inside g ws p \<longleftrightarrow> rooted p \<and> (prefix ws p \<or> prefix (b_root g) p)"

lemma inside_apart: "outside g ws q \<Longrightarrow> inside g ws p \<Longrightarrow> rooted p \<and> apart p q"
  using outsideD by (auto simp: inside_def)

lemma safe_join_inside:
  assumes "safe_join root s = Inr p" "inside g ws root"
  shows "inside g ws p" "prefix root p"
proof -
  have p: "p = root @ names_of s" "relative_text s" using assms(1) by (simp_all add: safe_join_Inr_iff)
  then show "prefix root p" by simp
  have "rooted p" using p assms(2) names_of_is_name by (simp add: inside_def rooted_add)
  then show "inside g ws p" using p(1) assms(2) by (auto simp: inside_def prefix_def)
qed

lemma mkdirs_outside:
  assumes "outside g ws q" "inside g ws p" shows "obeys (keeps q) (mkdirsA h m (parent p))"
proof -
  have p: "rooted p" "apart p q" using inside_apart [OF assms] by simp_all
  have e: "parent p = butlast p" using p(1) by (cases p) (auto simp: parent_def rooted_def)
  show ?thesis
    unfolding e using mkdirsA_keeps [OF outsideD(3) [OF assms(1)] rooted_dir [OF p(1)]] apart_not_above(2) [OF p(2)] p(1)
    by (simp add: rooted_butlast)
qed

text \<open>Every rename moves between the workspace and the state root.\<close>

lemma renames_outside:
  assumes "outside g ws q" "inside g ws p" "inside g ws p'" "prefix ws p" "prefix (b_root g) p'"
  shows "obeys (keeps q) (renameA h p p')" "obeys (keeps q) (renameA h p' p)"
  using inside_apart [OF assms(1,2)] inside_apart [OF assms(1,3)] outsideD(6) [OF assms(1,5,4)] apart_sym
  by (auto intro!: renameA_keeps)

lemma displace_outside:
  assumes "outside g ws q" "inside g ws p" "prefix ws p" "rooted root" "prefix (b_root g) root"
  shows "obeys (keeps q) (displace g p root s)"
  unfolding displace_def
proof (rule bind_lift_keeps)
  fix d assume d: "safe_join root s = Inr d"
  have i: "inside g ws d" "prefix (b_root g) d"
    using safe_join_inside [OF d, of g ws] assms(4,5) prefix_order.trans by (auto simp: inside_def)
  show "obeys (keeps q) (thenA (mkdirsA (b_host g) 511 (parent d)) (renameA (b_host g) p d))"
    using mkdirs_outside [OF assms(1) i(1)] renames_outside(1) [OF assms(1,2) i(1) assms(3) i(2)] by (intro keeps.bind)
qed

lemma put_back_outside:
  assumes "outside g ws q" "inside g ws p" "prefix ws p" "rooted b" "prefix (b_root g) b"
  shows "obeys (keeps q) (put_back g b p)"
proof -
  have "inside g ws b" using assms(4,5) by (simp add: inside_def)
  then show ?thesis
    unfolding put_back_def
    using mkdirs_outside [OF assms(1,2)] renames_outside(2) [OF assms(1,2) _ assms(3,5)] by (intro keeps.bind)
qed

subsection \<open>The record of a commit\<close>

text \<open>Its quarantine and its backups lie in the state root.\<close>

definition tame :: "guard \<Rightarrow> commit_record \<Rightarrow> bool" where
  "tame g r \<longleftrightarrow> rooted (path_of (r_quarantine_root r)) \<and> prefix (b_root g) (path_of (r_quarantine_root r)) \<and>
     (\<forall>op \<in> set (r_operations r). \<forall>b. o_backup_path op = Some b \<longrightarrow> rooted (path_of b) \<and> prefix (b_root g) (path_of b))"

definition lodged :: "guard \<Rightarrow> path \<Rightarrow> node option \<Rightarrow> string \<Rightarrow> nat \<Rightarrow> cstate \<Rightarrow> bool" where
  "lodged g q v root n s \<longleftrightarrow> wf_node (w_tree (snd s)) \<and> look q (w_tree (snd s)) = v \<and> tame g (fst s) \<and>
     r_quarantine_root (fst s) = root \<and> length (r_operations (fst s)) = n"

lemma lodged_keeps: "obeys (keeps q) m \<Longrightarrow> obeys (stays (lodged g q v root n)) (embed m)"
  by (rule stays_embed) (auto simp: lodged_def on_trees_def dest: obeysD)

lemma lodged_change:
  assumes "\<And>r. r_quarantine_root (f r) = r_quarantine_root r \<and>
      map o_backup_path (r_operations (f r)) = map o_backup_path (r_operations r)"
  shows "obeys (stays (lodged g q v root n)) (change_record f)"
proof (rule stays_change)
  fix r w assume l: "lodged g q v root n (r, w)"
  have f: "r_quarantine_root (f r) = r_quarantine_root r" "map o_backup_path (r_operations (f r)) = map o_backup_path (r_operations r)"
    using assms by simp_all
  have "length (r_operations (f r)) = length (r_operations r)" using f(2) by (rule map_eq_imp_length_eq)
  moreover have "o_backup_path ` set (r_operations (f r)) = o_backup_path ` set (r_operations r)"
    using f(2) by (metis set_map)
  then have "tame g (f r) = tame g r" unfolding tame_def f(1) by (metis (mono_tags, lifting) imageE imageI)
  ultimately show "lodged g q v root n (f r, w)" using l f(1) by (simp add: lodged_def)
qed

lemma lodged_set_operation:
  assumes "\<And>x. o_backup_path (f x) = o_backup_path x"
  shows "obeys (stays (lodged g q v root n)) (change_record (set_operation i f))"
proof (rule lodged_change)
  fix r
  show "r_quarantine_root (set_operation i f r) = r_quarantine_root r \<and>
      map o_backup_path (r_operations (set_operation i f r)) = map o_backup_path (r_operations r)"
    using assms list_update_id [of "map o_backup_path (r_operations r)" i]
    by (cases "i < length (r_operations r)") (simp_all add: set_operation_def map_update list_update_beyond)
qed

lemma lodged_save:
  assumes "isolates g q" shows "obeys (stays (lodged g q v root n)) (save_commit g)"
proof -
  have p: "obeys (keeps q) (atomic_write_json h p x)" if "commit_path g i = Inr p" for h p x i
    using assms state_paths(4) [OF _ that] by (intro state_write_keeps [of g]) auto
  have w: "obeys (stays (lodged g q v root n)) (bindA (liftA (commit_path g (r_commit_id r)))
      (\<lambda>p. embed (atomic_write_json (b_host g) p (record_to_dict r))))" for r
    by (cases "commit_path g (r_commit_id r)")
      (auto simp: bindA_def liftA_def obeys_def dest!: p intro: staysD [OF lodged_keeps])
  show ?thesis
    unfolding save_commit_def
    by (rule stays.bind, rule lodged_change, simp add: sign_commit_def, rule stays.bind, rule stays_the_record, rule w)
qed

text \<open>An operation of the list keeps its backup in the state root.\<close>

lemma lodged_operation:
  assumes "i < n"
    and "\<And>op. (\<And>b. o_backup_path op = Some b \<Longrightarrow> rooted (path_of b) \<and> prefix (b_root g) (path_of b)) \<Longrightarrow>
      obeys (stays (lodged g q v root n)) (f op)"
  shows "obeys (stays (lodged g q v root n)) (bindA (the_operation i) f)"
proof (rule obeysI, rule impI)
  fix s x s' assume m: "bindA (the_operation i) f s = (x, s')" and k: "lodged g q v root n s"
  have "r_operations (fst s) ! i \<in> set (r_operations (fst s))" using k assms(1) by (simp add: lodged_def)
  then have "obeys (stays (lodged g q v root n)) (f (r_operations (fst s) ! i))"
    using k by (intro assms(2)) (auto simp: lodged_def tame_def)
  from this k m [unfolded the_operation_bind] show "lodged g q v root n s'" by (rule staysD)
qed

lemma lodged_bind_lift:
  "(\<And>y. r = Inr y \<Longrightarrow> obeys (stays T) (f y)) \<Longrightarrow> obeys (stays T) (bindA (liftA r) f)"
  by (cases r) (simp_all add: obeys_def bindA_def liftA_def)

lemma lodged_record:
  assumes "\<And>r. tame g r \<Longrightarrow> r_quarantine_root r = root \<Longrightarrow> length (r_operations r) = n \<Longrightarrow>
    obeys (stays (lodged g q v root n)) (f r)"
  shows "obeys (stays (lodged g q v root n)) (bindA the_record f)"
proof (rule obeysI, rule impI)
  fix s x s' assume m: "bindA the_record f s = (x, s')" and k: "lodged g q v root n s"
  have "obeys (stays (lodged g q v root n)) (f (fst s))" using k by (intro assms) (simp_all add: lodged_def)
  from this k m [unfolded the_record_bind] show "lodged g q v root n s'" by (rule staysD)
qed

lemmas lodged_reading = reading [THEN reads_keeps, THEN lodged_keeps] fsync_directory_reads [THEN reads_keeps, THEN lodged_keeps]

lemmas lodged_steps = stays.bind stays.pure stays.cond stays.catch stays_the_record lodged_reading

lemma lodged_phases:
  "obeys (stays (lodged g q v root n)) (change_record (set_operation i (\<lambda>x. x\<lparr>o_phase := p\<rparr>)))"
  "obeys (stays (lodged g q v root n)) (change_record (set_operation i (\<lambda>x. x\<lparr>o_backup_moved := c, o_phase := p\<rparr>)))"
  "obeys (stays (lodged g q v root n)) (change_record (set_operation i (\<lambda>x. x\<lparr>o_installed := c, o_phase := p\<rparr>)))"
  by (rule lodged_set_operation, simp)+

subsection \<open>Applying and rolling back\<close>

lemma lodged_move_backup:
  assumes "outside g ws q" "inside g ws p" "prefix ws p"
    and "\<And>b. o_backup_path op = Some b \<Longrightarrow> rooted (path_of b) \<and> prefix (b_root g) (path_of b)"
  shows "obeys (stays (lodged g q v root n)) (move_backup g p i op)"
proof (cases "o_backup_path op")
  case None
  then show ?thesis unfolding move_backup_def by (simp only: option.case) (intro lodged_steps)
next
  case (Some b)
  have b: "inside g ws (path_of b)" "prefix (b_root g) (path_of b)" using assms(4) [OF Some] by (simp_all add: inside_def)
  have mk: "obeys (keeps q) (mkdirsA (b_host g) 511 (parent (path_of b)))" by (rule mkdirs_outside [OF assms(1) b(1)])
  have ren: "obeys (keeps q) (renameA (b_host g) p (path_of b))" by (rule renames_outside(1) [OF assms(1,2) b(1) assms(3) b(2)])
  show ?thesis
    unfolding move_backup_def Some Let_def
    by (simp only: option.case) (intro lodged_steps lodged_phases lodged_save outsideD(1) [OF assms(1)]
      mk [THEN lodged_keeps] ren [THEN lodged_keeps])
qed

lemma lodged_install:
  assumes "outside g ws q" "inside g ws p" "prefix ws p" "inside g ws a" "prefix (b_root g) a"
  shows "obeys (stays (lodged g q v root n)) (install g a p i)"
proof -
  have mk: "obeys (keeps q) (mkdirsA (b_host g) 511 (parent p))" by (rule mkdirs_outside [OF assms(1,2)])
  have ren: "obeys (keeps q) (renameA (b_host g) a p)" by (rule renames_outside(2) [OF assms(1,2,4,3,5)])
  show ?thesis
    unfolding install_def Let_def
    by (intro lodged_steps lodged_phases lodged_save outsideD(1) [OF assms(1)] mk [THEN lodged_keeps] ren [THEN lodged_keeps])
qed

lemma lodged_apply_operation:
  assumes "outside g ws q" "rooted A" "prefix (b_root g) A" "i < n"
  shows "obeys (stays (lodged g q v root n)) (apply_operation g ws A i)"
  unfolding apply_operation_def
proof (rule lodged_operation [OF assms(4)], rule lodged_bind_lift, rule lodged_bind_lift)
  fix op :: commit_operation and p a
  assume b: "\<And>b. o_backup_path op = Some b \<Longrightarrow> rooted (path_of b) \<and> prefix (b_root g) (path_of b)"
    and p: "safe_join ws (o_path op) = Inr p" and a: "safe_join A (o_path op) = Inr a"
  have i: "inside g ws ws" "inside g ws A" using assms(1-3) by (simp_all add: inside_def outside_def)
  note P = safe_join_inside [OF p i(1)] and A = safe_join_inside [OF a i(2)]
  have "prefix (b_root g) a" using A(2) assms(3) prefix_order.trans by blast
  then show "obeys (stays (lodged g q v root n))
      (thenA (if o_before_kind op \<noteq> None then move_backup g p i op else returnA ())
       (if o_after_kind op \<noteq> None then install g a p i else returnA ()))"
    using b P A(1) by (intro lodged_steps lodged_move_backup [OF assms(1)] lodged_install [OF assms(1)])
qed

lemma lodged_apply_all:
  assumes "outside g ws q" "rooted A" "prefix (b_root g) A"
  shows "obeys (stays (lodged g q v root n)) (apply_all g ws A)"
  unfolding apply_all_def
  by (rule lodged_record) (auto intro!: stays.for_each lodged_apply_operation [OF assms])

lemma lodged_apply_record:
  assumes "outside g ws q" "rooted A" "prefix (b_root g) A"
  shows "obeys (stays (lodged g q v root n)) (apply_record g plan ws A)"
proof -
  have c: "obeys (stays (lodged g q v root n)) (change_record (\<lambda>r. r\<lparr>r_status := s,
      r_operations := map (\<lambda>x. x\<lparr>o_phase := p\<rparr>) (r_operations r)\<rparr>))" for s p
    by (rule lodged_change) simp
  show ?thesis
    unfolding apply_record_def
    by (intro lodged_steps lodged_save lodged_apply_all [OF assms] c outsideD(1) [OF assms(1)])
qed

lemma lodged_rollback_operation:
  assumes "outside g ws q" "rooted R" "prefix (b_root g) R" "i < n"
  shows "obeys (stays (lodged g q v root n)) (rollback_operation g ws R i)"
  unfolding rollback_operation_def
proof (rule lodged_operation [OF assms(4)], rule lodged_bind_lift)
  fix op :: commit_operation and p
  assume b: "\<And>b. o_backup_path op = Some b \<Longrightarrow> rooted (path_of b) \<and> prefix (b_root g) (path_of b)"
    and p: "safe_join ws (o_path op) = Inr p"
  have i: "inside g ws ws" using assms(1) by (simp add: inside_def outside_def)
  note P = safe_join_inside [OF p i]
  have one: "obeys (stays (lodged g q v root n)) (embed (bindA (lexistsA p) (\<lambda>there.
      if c \<and> there then displace g p R (o_path op) else returnA ())))" for c
    using displace_outside [OF assms(1) P assms(2,3)] by (intro lodged_keeps keeps.bind keeps.cond keeps.pure reading_keeps)
  have two: "obeys (stays (lodged g q v root n)) (case map_option path_of (o_backup_path op) of
        None \<Rightarrow> returnA ()
      | Some backup \<Rightarrow> embed (bindA (lexistsA backup) (\<lambda>there.
          if c \<and> there then put_back g backup p else returnA ())))" for c
  proof (cases "o_backup_path op")
    case (Some bk)
    have "obeys (keeps q) (put_back g (path_of bk) p)" using put_back_outside [OF assms(1) P] b [OF Some] by blast
    then show ?thesis unfolding Some option.map option.case
      by (intro lodged_keeps keeps.bind keeps.cond keeps.pure reading_keeps)
  qed (simp add: stays.pure)
  show "obeys (stays (lodged g q v root n)) (bindA (catch_osA
       (thenA (embed (bindA (lexistsA p) (\<lambda>there.
            if o_installed op \<and> there then displace g p R (o_path op) else returnA ())))
       (thenA (case map_option path_of (o_backup_path op) of
            None \<Rightarrow> returnA ()
          | Some backup \<Rightarrow> embed (bindA (lexistsA backup) (\<lambda>there.
              if o_backup_moved op \<and> there then put_back g backup p else returnA ())))
          (change_record (set_operation i (\<lambda>x. x\<lparr>o_phase := ''rolled_back''\<rparr>)))))) (\<lambda>caught.
       returnA (case caught of None \<Rightarrow> [] | Some exc \<Rightarrow> [o_path op @ '': '' @ exc])))"
    by (intro stays.bind stays.catch stays.pure one two lodged_phases)
qed

lemma lodged_rollback_operations:
  assumes "outside g ws q" "rooted R" "prefix (b_root g) R"
  shows "(\<And>i. i \<in> set is \<Longrightarrow> i < n) \<Longrightarrow>
    obeys (stays (lodged g q v root n)) (rollback_operations g ws R is errors)"
proof (induction "is" arbitrary: errors)
  case (Cons i "is")
  then show ?case by (simp add: stays.bind lodged_rollback_operation [OF assms])
qed (simp add: stays.pure)

text \<open>A directory below the quarantine of a record\<close>

lemma tame_below: "rooted p \<and> prefix (b_root g) p \<Longrightarrow> is_name a \<Longrightarrow> rooted (p @ [a]) \<and> prefix (b_root g) (p @ [a])"
  by (simp add: rooted_add)

lemma lodged_rollback:
  assumes "outside g ws q"
  shows "obeys (stays (lodged g q v root n)) (rollback_failed_commit g ws baseline)"
  unfolding rollback_failed_commit_def
proof (rule lodged_record)
  fix r assume r: "tame g r" "r_quarantine_root r = root" "length (r_operations r) = n"
  have q: "isolates g q" by (rule outsideD(1) [OF assms])
  have c: "obeys (stays (lodged g q v root n)) (change_record (\<lambda>r. r\<lparr>r_status := s\<rparr>))" for s
    by (rule lodged_change) simp
  have R: "rooted (path_of (r_quarantine_root r) @ [''_failed_new''])" "prefix (b_root g) (path_of (r_quarantine_root r) @ [''_failed_new''])"
    using r(1) by (simp_all add: tame_def rooted_add)
  show "obeys (stays (lodged g q v root n)) (bindA (rollback_operations g ws (path_of (r_quarantine_root r) @ [''_failed_new''])
        (rev [0..<length (r_operations r)]) []) (\<lambda>errors.
     thenA (change_record (\<lambda>r. r\<lparr>r_status := (if errors \<noteq> [] then ''rollback_failed'' else ''rolled_back'')\<rparr>))
    (thenA (save_commit g)
    (bindA (if errors = []
        then bindA (embed (scan g ws)) (\<lambda>restored.
          returnA (if m_digest restored \<noteq> m_digest baseline
            then [''workspace digest differs from baseline after rollback''] else []))
        else returnA errors) (\<lambda>rollback_errors.
     thenA (bindA the_record (\<lambda>r. embed (log_event g ''commit_failed''
       [(''commit_id'', JStr (r_commit_id r)), (''plan_id'', JStr (r_plan_id r)),
        (''status'', JStr (r_status r)), (''rollback_errors'', JList (map JStr rollback_errors))])))
       (requireA (rollback_errors = []) (IntegrityError ''commit failed and rollback was incomplete'')))))))"
    by (rule stays.bind, rule lodged_rollback_operations [OF assms R], simp add: r(3),
      intro lodged_steps c lodged_save q lodged_keeps [OF log_event_keeps])
qed

subsection \<open>Restoring\<close>

lemma lodged_restore_operation:
  assumes "outside g ws q" "rooted R" "prefix (b_root g) R" "i < n"
  shows "obeys (stays (lodged g q v root n)) (restore_operation g ws R i)"
  unfolding restore_operation_def
proof (rule lodged_operation [OF assms(4)], rule lodged_bind_lift)
  fix op :: commit_operation and p
  assume b: "\<And>b. o_backup_path op = Some b \<Longrightarrow> rooted (path_of b) \<and> prefix (b_root g) (path_of b)"
    and p: "safe_join ws (o_path op) = Inr p"
  have i: "inside g ws ws" using assms(1) by (simp add: inside_def outside_def)
  note P = safe_join_inside [OF p i]
  have d: "obeys (keeps q) (displace g p R (o_path op))" by (rule displace_outside [OF assms(1) P assms(2,3)])
  have two: "obeys (stays (lodged g q v root n)) (bindA (embed (case o_backup_path op of None \<Rightarrow> returnA False | Some b \<Rightarrow> lexistsA (path_of b)))
     (\<lambda>there. thenA (requireA there e)
       (thenA (embed (put_back g (path_of (the (o_backup_path op))) p)) (embed (fsync_directory (b_host g) (parent p))))))" for e
  proof (cases "o_backup_path op")
    case None
    then show ?thesis by (auto simp: obeys_def bindA_def embed_def returnA_def requireA_def)
  next
    case (Some bk)
    have "obeys (keeps q) (put_back g (path_of bk) p)" using put_back_outside [OF assms(1) P] b [OF Some] by blast
    then show ?thesis unfolding Some option.case option.sel by (intro lodged_steps lodged_keeps)
  qed
  show "obeys (stays (lodged g q v root n)) (thenA (if o_installed op
       then bindA (embed (lexistsA p)) (\<lambda>there.
            thenA (requireA there (StalePlan ''committed target disappeared before restore''))
           (thenA (embed (displace g p R (o_path op)))
             (embed (fsync_directory (b_host g) (parent p)))))
       else returnA ())
    (thenA (if o_backup_moved op
       then bindA (embed (case o_backup_path op of None \<Rightarrow> returnA False | Some b \<Rightarrow> lexistsA (path_of b))) (\<lambda>there.
            thenA (requireA there (IntegrityError ''quarantine backup is missing for restore''))
           (thenA (embed (put_back g (path_of (the (o_backup_path op))) p))
             (embed (fsync_directory (b_host g) (parent p)))))
       else returnA ())
       (change_record (set_operation i (\<lambda>x. x\<lparr>o_phase := ''restored''\<rparr>)))))"
    by (intro stays.bind stays.cond stays.pure two lodged_phases lodged_reading lodged_keeps [OF d])
qed

lemma lodged_restore_record:
  assumes "outside g ws q"
  shows "obeys (stays (lodged g q v root n)) (restore_record g plan ws)"
  unfolding restore_record_def
proof (rule lodged_record, rule stays.bind)
  fix r assume r: "tame g r" "r_quarantine_root r = root" "length (r_operations r) = n"
  have q: "isolates g q" by (rule outsideD(1) [OF assms])
  have c: "obeys (stays (lodged g q v root n)) (change_record (\<lambda>r. r\<lparr>r_status := s\<rparr>))" for s
    by (rule lodged_change) simp
  have R: "rooted (path_of (r_quarantine_root r) @ [''_restore_current''])"
    "prefix (b_root g) (path_of (r_quarantine_root r) @ [''_restore_current''])"
    using r(1) by (simp_all add: tame_def rooted_add)
  show "obeys (stays (lodged g q v root n)) (forA (restore_operation g ws (path_of (r_quarantine_root r) @ [''_restore_current'']))
       (rev [0..<length (r_operations r)]))"
    by (rule stays.for_each, rule lodged_restore_operation [OF assms R]) (simp add: r(3))
  show "obeys (stays (lodged g q v root n)) (bindA (embed (scan g ws)) (\<lambda>restored.
     thenA (requireA (m_digest restored = r_before_digest r)
       (IntegrityError ''restored workspace does not match the original baseline''))
    (thenA (change_record (\<lambda>r. r\<lparr>r_status := ''restored''\<rparr>))
    (thenA (save_commit g)
       (embed (log_event g ''commit_restored''
         [(''commit_id'', JStr (r_commit_id r)), (''plan_id'', JStr (p_id plan)),
          (''workspace_root'', JStr (r_workspace_root r)),
          (''restored_digest'', JStr (m_digest restored))]))))))"
    by (intro lodged_steps c lodged_save q lodged_keeps [OF log_event_keeps])
qed

subsection \<open>The whole operations\<close>

lemma with_record_outside:
  assumes "\<And>v root n. obeys (stays (lodged g q v root n)) m" "\<And>v root n. obeys (stays (lodged g q v root n)) handler" "tame g r"
  shows "obeys (keeps q) (with_record m handler r)"
proof (rule obeysI)
  fix w x w' assume m: "with_record m handler r w = (x, w')"
  let ?L = "lodged g q (look q (w_tree w)) (r_quarantine_root r) (length (r_operations r))"
  obtain y s' where s: "on_errorA m handler (r, w) = (y, s')" "w' = snd s'"
    using m by (auto simp: with_record_def split: prod.splits sum.splits)
  have k: "obeys (stays ?L) (on_errorA m handler)" using assms(1,2) by (rule stays.on_error)
  have "?L (r, w)" if "wf_node (w_tree w)" using that assms(3) by (simp add: lodged_def)
  from staysD [OF k this s(1)] show "keeps q w w'" by (auto simp: on_trees_def lodged_def s(2))
qed

lemma stage_payloads_tame:
  assumes "stage_payloads g worktree A Q cs w = (Inr ops, w')" "rooted Q" "hd Q = ''/''" "op \<in> set ops" "o_backup_path op = Some b"
  shows "rooted (path_of b) \<and> prefix Q (path_of b)"
proof -
  obtain i where i: "i < length cs" "op = ops ! i"
    using assms(4) stage_payloads_ops(1) [OF assms(1)] by (metis in_set_conv_nth)
  note F = operation_of_fields [OF stage_payloads_ops(2) [OF assms(1) i(1)]]
  have "c_before (cs ! i) \<noteq> None" using F(5) assms(5) i(2) by auto
  then have b: "relative_text (c_path (cs ! i))" "b = path_str (Q @ names_of (c_path (cs ! i)))"
    using F(4) assms(5) i(2) by auto
  have "\<forall>a \<in> set (names_of (c_path (cs ! i))). is_name a" using b(1) names_of_is_name by blast
  then have r: "rooted (Q @ names_of (c_path (cs ! i)))" using assms(2) by (simp add: rooted_add)
  have "Q \<noteq> []" using assms(2) by (auto simp: rooted_def)
  then show ?thesis using path_str_rooted [OF r] r assms(3) b(2) by simp
qed

lemma prepare_tame:
  assumes "guarded g" "hd (b_root g) = ''/''" "is_name i" "prepare g plan t baseline i w = (Inr r, w')"
  shows "tame g r"
proof -
  let ?Q = "quarantine_of g i"
  have Q: "rooted ?Q" "hd ?Q = ''/''" "prefix (b_root g) ?Q"
    using assms(1-3) root_not_Nil by (simp_all add: quarantine_of_def)
  obtain ops w1 where s: "stage_payloads g (path_of (t_worktree_root t)) (apply_of g i) ?Q (operation_roots (p_changes plan)) w = (Inr ops, w1)"
    and r: "r_operations r = ops" "r_quarantine_root r = path_str ?Q"
    using assms(4) unfolding prepare_def Let_def quarantine_of_def [symmetric] apply_of_def [symmetric]
    by (auto simp: bindA_Inr_iff)
  show ?thesis
    using stage_payloads_tame [OF s Q(1,2)] path_str_rooted [OF Q(1,2)] Q prefix_order.trans unfolding tame_def r by metis
qed

lemma load_commit_tame:
  assumes "guarded g" "load_commit g i w = (Inr r, w')" shows "tame g r"
proof -
  let ?Q = "b_root g @ [''quarantine'', r_commit_id r]"
  have v: "validate_commit_record g r = Inr ()"
    using assms(2) by (auto simp: load_commit_def bindA_Inr_iff liftA_def)
  then obtain x where x: "validate_object_id (JStr (r_commit_id r)) ''commit'' = Inr x"
    and q: "path_of (r_quarantine_root r) = ?Q" and o: "validate_operations ?Q [] (r_operations r) = Inr ()"
    by (auto simp: validate_commit_record_def Let_def voidE_def bindE_Inr_iff)
  have "x = r_commit_id r" using x by (simp add: validate_object_id_Inr_iff)
  then have n: "is_name (r_commit_id r)" using object_id_name(1) [OF x] by simp
  have Q: "rooted ?Q" using assms(1) n by simp
  have "rooted (path_of b) \<and> prefix ?Q (path_of b)"
    if "op \<in> set ops" "o_backup_path op = Some b" "validate_operations ?Q seen ops = Inr ()" for op b ops seen
    using that
  proof (induction ops arbitrary: seen)
    case (Cons x ops)
    from Cons.prems(3) have x: "validate_operation ?Q seen x = Inr ()" "validate_operations ?Q (o_path x # seen) ops = Inr ()"
      by (auto simp: bindE_Inr_iff)
    show ?case
    proof (cases "op = x")
      case True
      then have p: "safe_join ?Q (o_path x) = Inr (path_of b)"
        using x(1) Cons.prems(2) by (auto simp: validate_operation_def bindE_Inr_iff)
      have "inside g ?Q ?Q" using Q by (simp add: inside_def)
      from safe_join_inside [OF p this] show ?thesis by (simp add: inside_def)
    qed (use Cons.IH [OF _ Cons.prems(2) x(2)] Cons.prems(1) in simp)
  qed simp
  from this [OF _ _ o] show ?thesis using Q by (auto simp: tame_def q prefix_def)
qed

lemma with_lock_outside:
  assumes "guarded g" "sha256_hex (b_crypto g)" "isolates g q" "obeys (keeps q) body"
  shows "obeys (keeps q) (with_lock g ws body)"
proof -
  have p: "rooted (lock_path g ws)" by (rule lock_path_rooted [OF assms(1,2)])
  have a: "apart (lock_path g ws) q" using assms(3) by (auto simp: lock_path_def)
  show ?thesis
    unfolding with_lock_def Let_def by (intro keeps.bind keeps.final lock_calls_keep [OF p a] assms(4))
qed

lemma commit_locked_outside:
  assumes "outside g (path_of (t_workspace_root t)) q" "hd (b_root g) = ''/''"
  shows "obeys (keeps q) (commit_locked g plan t baseline)"
  unfolding commit_locked_unfold
proof (rule keeps.bind [OF reads_keeps [OF recheck_reads]], rule keeps.bind_result [OF reading_keeps(3)])
  fix u i w w' assume n: "new_id (b_host g) ''commit'' w = (Inr i, w')"
  have q: "isolates g q" by (rule outsideD(1) [OF assms(1)])
  have i: "is_name i" using new_id_names [OF n] minted_name by auto
  note K = prepared_keeps [OF q i]
  have A: "rooted (apply_of g i)" "prefix (b_root g) (apply_of g i)" using q i by (simp_all add: apply_of_def)
  show "obeys (keeps q) (thenA (mkdirA (b_host g) 448 (quarantine_of g i))
       (thenA (mkdirA (b_host g) 448 (apply_of g i))
       (bindA (on_errorA (prepare g plan t baseline i) (clean_up_unprepared g (apply_of g i) (quarantine_of g i)))
         (\<lambda>r. bindA (with_record (apply_record g plan (path_of (t_workspace_root t)) (apply_of g i))
           (rollback_failed_commit g (path_of (t_workspace_root t)) baseline) r)
             (\<lambda>r. thenA (finish_commit g plan t (apply_of g i) r) (returnA r))))))"
  proof (rule keeps.bind [OF K(1)], rule keeps.bind [OF K(2)], rule keeps.bind_result [OF K(3)])
    fix r w w' assume "on_errorA (prepare g plan t baseline i) (clean_up_unprepared g (apply_of g i) (quarantine_of g i)) w = (Inr r, w')"
    then have "prepare g plan t baseline i w = (Inr r, w')" by (auto simp: on_errorA_def split: prod.splits sum.splits)
    then have t: "tame g r" using prepare_tame [OF _ assms(2) i] q by blast
    show "obeys (keeps q) (bindA (with_record (apply_record g plan (path_of (t_workspace_root t)) (apply_of g i))
           (rollback_failed_commit g (path_of (t_workspace_root t)) baseline) r)
             (\<lambda>r. thenA (finish_commit g plan t (apply_of g i) r) (returnA r)))"
      by (intro keeps.bind keeps.pure with_record_outside [OF lodged_apply_record [OF assms(1) A] lodged_rollback [OF assms(1)] t]
          finish_keeps_workspace [OF q i])
  qed
qed

lemma restore_locked_outside:
  assumes "outside g (path_of (r_workspace_root r)) q" "tame g r"
  shows "obeys (keeps q) (restore_locked g plan r)"
  unfolding restore_locked_def Let_def
  by (intro keeps.bind keeps.pure reading_keeps with_record_outside [OF lodged_restore_record [OF assms(1)] stays.pure(1) assms(2)])

subsection \<open>Runs of the broker\<close>

text \<open>
  The calls a client can make, one after the other, each from the world the one before left behind. The
  workspaces whose plans are committed or whose commits are restored are collected in \<open>W\<close>.
\<close>

inductive broker_step :: "guard \<Rightarrow> path set \<Rightarrow> world \<Rightarrow> world \<Rightarrow> bool" for g W where
  step_begin: "broker_step g W w (snd (begin_transaction g candidate task w))"
| step_plan: "broker_step g W w (snd (plan_transaction g i ttl w))"
| step_approve: "broker_step g W w (snd (approve g i actor ttl w))"
| step_discard: "broker_step g W w (snd (discard g i w))"
| step_environment: "broker_step g W w (snd (environment g i w))"
| step_commit: "(\<And>plan t b w1. authorise g i a w = (Inr (plan, t, b), w1) \<Longrightarrow> path_of (t_workspace_root t) \<in> W) \<Longrightarrow>
    broker_step g W w (snd (commit g i a w))"
| step_restore: "(\<And>r w1. load_commit g i w = (Inr r, w1) \<Longrightarrow> path_of (r_workspace_root r) \<in> W) \<Longrightarrow>
    broker_step g W w (snd (restore g i w))"

inductive broker_run :: "guard \<Rightarrow> path set \<Rightarrow> world \<Rightarrow> world \<Rightarrow> bool" for g W where
  run_none: "broker_run g W w w"
| run_step: "broker_run g W w w1 \<Longrightarrow> broker_step g W w1 w2 \<Longrightarrow> broker_run g W w w2"

lemma keeps_next: "keeps q w w1 \<Longrightarrow> obeys (keeps q) m \<Longrightarrow> keeps q w (snd (m w1))"
  using obeysD [of "keeps q" m w1 "fst (m w1)" "snd (m w1)"] keeps.trans_R by fastforce

lemma commit_keeps:
  assumes "guarded g" "hd (b_root g) = ''/''" "sha256_hex (b_crypto g)" "isolates g q"
    and "\<And>plan t b w1. authorise g i a w = (Inr (plan, t, b), w1) \<Longrightarrow> outside g (path_of (t_workspace_root t)) q"
  shows "keeps q w (snd (commit g i a w))"
proof -
  obtain x w1 where a: "authorise g i a w = (x, w1)" by (metis surj_pair)
  have k1: "keeps q w w1" using obeysD [OF reads_keeps [OF authorise_reads] a] .
  show ?thesis
  proof (cases x)
    case (Inl e)
    then show ?thesis using k1 a by (simp add: commit_def bindA_def)
  next
    case (Inr y)
    then obtain plan t b where y: "x = Inr (plan, t, b)" by (metis prod_cases3)
    have l: "obeys (keeps q) (with_lock g (path_of (t_workspace_root t)) (commit_locked g plan t b))"
      using commit_locked_outside [OF assms(5) assms(2)] a y by (intro with_lock_outside assms) blast
    have c: "commit g i a w = with_lock g (path_of (t_workspace_root t)) (commit_locked g plan t b) w1"
      using a y by (simp add: commit_def bindA_def)
    show ?thesis
      unfolding c by (rule keeps_next [OF k1 l])
  qed
qed

lemma restore_keeps:
  assumes "guarded g" "sha256_hex (b_crypto g)" "isolates g q"
    and "\<And>r w1. load_commit g i w = (Inr r, w1) \<Longrightarrow> outside g (path_of (r_workspace_root r)) q"
  shows "keeps q w (snd (restore g i w))"
proof -
  obtain x w1 where a: "load_commit g i w = (x, w1)" by (metis surj_pair)
  have k1: "keeps q w w1" using obeysD [OF reads_keeps [OF loads_read(3)] a] .
  show ?thesis
  proof (cases x)
    case (Inl e)
    then show ?thesis using k1 a by (simp add: restore_def bindA_def)
  next
    case (Inr r)
    have t: "tame g r" using load_commit_tame [OF assms(1)] a Inr by blast
    have l: "obeys (keeps q) (with_lock g (path_of (r_workspace_root r)) (restore_locked g plan r))" for plan
      using restore_locked_outside [OF assms(4) t] a Inr by (intro with_lock_outside assms) blast
    let ?rest = "thenA (requireA (r_status r = ''committed'') (GuardError ''commit is not restorable in this state''))
    (bindA (load_plan g (r_plan_id r)) (\<lambda>plan.
     thenA (requireA (p_state plan = PLAN_COMMITTED)
       (IntegrityError ''restorable commit references a non-committed plan''))
    (thenA (requireA (\<not> (r_transaction_id r \<noteq> p_transaction_id plan \<or> r_workspace_root r \<noteq> p_workspace_root plan
         \<or> r_before_digest r \<noteq> p_baseline_digest plan \<or> r_after_digest r \<noteq> p_staged_digest plan))
       (IntegrityError ''commit record does not match its signed plan''))
       (with_lock g (path_of (r_workspace_root r)) (restore_locked g plan r)))))"
    have k: "obeys (keeps q) ?rest" by (intro keeps.bind keeps.pure reading_keeps l)
    have c: "restore g i w = ?rest w1" using a Inr by (simp add: restore_def bindA_def)
    show ?thesis
      unfolding c by (rule keeps_next [OF k1 k])
  qed
qed

lemma broker_step_keeps:
  assumes "guarded g" "hd (b_root g) = ''/''" "sha256_hex (b_crypto g)" "\<forall>ws \<in> W. outside g ws q" "isolates g q"
    and "broker_step g W w w'"
  shows "keeps q w w'"
proof -
  note k = keeps_next [OF keeps.refl_R]
  from assms(6) show ?thesis
  proof cases
    case (step_commit i a)
    then show ?thesis using commit_keeps [OF assms(1-3,5), of i a w] assms(4) by blast
  next
    case (step_restore i)
    then show ?thesis using restore_keeps [OF assms(1,3,5), of i w] assms(4) by blast
  qed (simp_all add: k begin_keeps [OF assms(5)] plan_keeps [OF assms(5)] approve_keeps [OF assms(5)] discard_keeps [OF assms(5)]
      reads_keeps [OF environment_reads])
qed

lemma broker_run_keeps:
  assumes "guarded g" "hd (b_root g) = ''/''" "sha256_hex (b_crypto g)" "\<forall>ws \<in> W. outside g ws q" "isolates g q"
    and "broker_run g W w w'"
  shows "keeps q w w'"
  using assms(6)
proof (induction rule: broker_run.induct)
  case (run_step w w1 w2)
  then show ?case using broker_step_keeps [OF assms(1-5)] keeps.trans_R by blast
qed (rule keeps.refl_R)

text \<open>
  C7. Confinement. Along every run of the broker (any sequence of begin, plan, approve, discard, environment, commit and
  restore with any arguments, each with any of its calls failing), no path changes that is apart from the state root and
  from the workspaces committed to or restored: not its content, not its mode, and nothing appears or disappears
  there.
\<close>

theorem broker_confined:
  assumes "guarded g" and "hd (b_root g) = ''/''" and "sha256_hex (b_crypto g)"
    and "\<forall>ws \<in> W. rooted ws \<and> apart (b_root g) ws \<and> apart ws q" and "rooted q" and "apart (b_root g) q"
    and "wf_node (w_tree w)" and "broker_run g W w w'"
  shows "wf_node (w_tree w') \<and> look q (w_tree w') = look q (w_tree w)"
proof -
  have "\<forall>ws \<in> W. outside g ws q" "isolates g q" using assms(1,4-6) by (simp_all add: outside_def)
  from broker_run_keeps [OF assms(1-3) this assms(8)] assms(7) show ?thesis by (simp add: on_trees_def)
qed

definition commit_world :: world where
  "commit_world = snd (commit fixed_guard sample_plan_id (Approval_object sample_token) planned_world)"

lemma sample_run: "broker_run fixed_guard {[''/'', ''w'']} planned_world commit_world"
  unfolding commit_world_def
  by (rule run_step [OF run_none step_commit]) (auto simp: sample_authorised sample_transaction_def sign_transaction_def)

theorem broker_confined_witness:
  "wf_node (w_tree commit_world) \<and> look [''/'', ''etc'', ''passwd''] (w_tree commit_world) = None"
proof -
  have g: "guarded fixed_guard" "hd (b_root fixed_guard) = ''/''" "sha256_hex (b_crypto fixed_guard)"
    using fixed_guard_sound by (simp_all add: sound_broker_def)
  have q: "\<forall>ws \<in> {[''/'', ''w'']}. rooted ws \<and> apart (b_root fixed_guard) ws \<and> apart ws [''/'', ''etc'', ''passwd'']"
    "rooted [''/'', ''etc'', ''passwd'']" "apart (b_root fixed_guard) [''/'', ''etc'', ''passwd'']"
    by (simp_all add: rooted_def apart_def parallel_def is_name_def is_component_def)
  have l: "look [''/'', ''etc'', ''passwd''] (w_tree planned_world) = None" by (simp add: planned_world_def)
  show ?thesis using broker_confined [OF g q planned_world_wf sample_run] unfolding l .
qed

end
