(* ===== verification/Beginning.thy ===== *)
theory Beginning
  imports Approvals SampleCommit
begin

text \<open>
  What \<^verbatim>\<open>begin\<close> leaves behind when it returns: an exact copy of the workspace, which is untouched, and a signed record
  of the transaction.
\<close>

lemma on_errorA_Inr: "on_errorA m n w = (Inr x, w') \<longleftrightarrow> m w = (Inr x, w')"
  by (auto simp: on_errorA_def split: prod.splits sum.splits)

lemma liftA_iff: "liftA r w = (Inr x, w') \<longleftrightarrow> r = Inr x \<and> w' = w"
  by (auto simp: liftA_def)

lemma returnA_iff: "returnA x w = (Inr y, w') \<longleftrightarrow> y = x \<and> w' = w"
  by (auto simp: returnA_def)

lemma transaction_files_keep:
  assumes "guarded g" "is_name i" "is_name a" "is_name b" "a \<noteq> b"
  shows "obeys (keeps (b_root g @ [''transactions'', i, b])) (atomic_write_json h (b_root g @ [''transactions'', i, a]) v)"
  using assms root_not_Nil by (intro atomic_write_json_keeps) (simp_all add: apart_same parallel_def)

lemma log_keeps_transaction:
  assumes "guarded g" "is_name i" "is_name b"
  shows "obeys (keeps (b_root g @ [''transactions'', i, b])) (log_event g ev kvs)"
  using assms root_not_Nil
  by (intro log_event_apart) (auto simp: audit_path_def apart_same parallel_def)

lemma sign_transaction_again: "sign_transaction g (sign_transaction g t) = sign_transaction g t"
  by (simp add: sign_transaction_def transaction_signing_dict_def transaction_core_def)

lemma disjoint_apart:
  assumes "assert_disjoint p q = Inr u" "rooted p" "rooted q" "hd p = hd q"
  shows "apart q p"
proof -
  have e: "p = hd p # tl p" "q = hd p # tl q" using assms(2-4) by (cases p; cases q; simp add: rooted_def)+
  have "\<not> prefix p q" "\<not> prefix q p"
    using assms(1) by (auto simp: assert_disjoint_def is_relative_to_def split: if_splits)
  then have "\<not> prefix (tl p) (tl q)" "\<not> prefix (tl q) (tl p)" using e by (metis Cons_prefix_Cons)+
  then show ?thesis by (auto simp: apart_def parallel_def)
qed

lemma ensure_resolves:
  "ensure_absolute_directory h name False p w = (Inr ws, w') \<Longrightarrow> ws = h_resolve h p"
  by (auto simp: ensure_absolute_directory_def bindA_Inr_iff os_call_def Let_def returnA_def
      split: if_splits sum.splits option.splits node.splits)

lemma scan_digest: "scan g p w = (Inr m, w') \<Longrightarrow> has_digest g p (w_tree w) (m_digest m) \<and> w_tree w' = w_tree w"
  using scan_Inr [of g p w m w'] by (auto simp: has_digest_def)

lemma populate_copies:
  assumes "populate g ws (b_root g @ [''transactions'', i]) m w = (Inr u, w')"
  shows "has_digest g ws (w_tree w') (m_digest m)" "has_digest g (b_root g @ [''transactions'', i, ''worktree'']) (w_tree w') (m_digest m)"
  using assms by (auto simp: populate_def Let_def bindA_Inr_iff requireA_iff dest!: scan_digest)

lemma record_transaction_Inr:
  assumes "guarded g" "is_name i" "wf_node (w_tree w)"
    and "record_transaction g i task ws (b_root g @ [''transactions'', i]) m w = (Inr t, w')"
  shows "t_id t = i" "t_workspace_root t = path_str ws" "t_state t = TX_OPEN" "t_baseline_digest t = m_digest m"
    "t_worktree_root t = path_str (b_root g @ [''transactions'', i, ''worktree''])" "wf_node (w_tree w')"
    "look (b_root g @ [''transactions'', i, ''worktree'']) (w_tree w') = look (b_root g @ [''transactions'', i, ''worktree'']) (w_tree w)"
    "transaction_path g i = Inr (b_root g @ [''transactions'', i, ''transaction.json''])"
    "json_at (b_root g @ [''transactions'', i, ''transaction.json'']) (w_tree w') = Some (sort_keys (transaction_to_dict t))"
proof -
  let ?d = "\<lambda>a. b_root g @ [''transactions'', i, a]"
  let ?t = "\<lambda>n dev. sign_transaction g
      \<lparr>t_id = i, t_task_id = task, t_workspace_root = path_str ws,
       t_transaction_root = path_str (b_root g @ [''transactions'', i]),
       t_worktree_root = path_str (?d ''worktree''), t_home_root = path_str (?d ''home''), t_temp_root = path_str (?d ''tmp''),
       t_baseline_path = path_str (?d ''baseline.json''), t_baseline_digest = m_digest m,
       t_created_at = n, t_workspace_device = dev, t_state = TX_OPEN, t_signature = ''''\<rparr>"
  let ?receipt = "\<lambda>t. JObj (receipt_core t @ [(''signature'', JStr (sign (b_crypto g) (b_key g)
      (signed_core ''capability_receipt'' (JObj (receipt_core t)))))])"
  from assms(4) obtain u1 u2 u3 w1 wa wb n dev w3 w4 where r:
    "atomic_write_json (b_host g) (?d ''baseline.json'') (manifest_to_dict m) w = (Inr u1, w1)"
    "utc_epoch (b_host g) w1 = (Inr n, wa)" "stat_dev (b_host g) ws wa = (Inr dev, wb)"
    "save_transaction g (?t n dev) wb = (Inr u2, w3)"
    "atomic_write_json (b_host g) (?d ''capability-receipt.json'') (?receipt (?t n dev)) w3 = (Inr u3, w4)"
    "returnA (?t n dev) w4 = (Inr t, w')"
    unfolding record_transaction_def Let_def append_assoc append_Cons append_Nil bindA_Inr_iff by blast
  have w: "w_tree wb = w_tree w1" using obeysD [OF reading(2) r(2)] obeysD [OF reading(4) r(3)] by simp
  have t: "t = ?t n dev" and w4: "w4 = w'" using r(6) by (simp_all add: returnA_def)
  note s = r(1) w r(4) [folded t] r(5) [folded t, unfolded w4]
  show f: "t_id t = i" "t_workspace_root t = path_str ws" "t_state t = TX_OPEN" "t_baseline_digest t = m_digest m"
    "t_worktree_root t = path_str (?d ''worktree'')"
    by (simp_all add: t sign_transaction_def)
  obtain p where p: "transaction_path g i = Inr p" "atomic_write_json (b_host g) p (transaction_to_dict t) wb = (Inr u2, w3)"
  proof -
    have "sign_transaction g t = t" unfolding t by (rule sign_transaction_again)
    then show ?thesis using s(3) that by (auto simp: save_transaction_def f(1) bindA_Inr_iff liftA_def)
  qed
  have pe: "p = ?d ''transaction.json''" using p(1) by (auto simp: transaction_path_def bindE_Inr_iff validate_object_id_Inr_iff)
  then show "transaction_path g i = Inr (?d ''transaction.json'')" using p(1) by simp
  note K = transaction_files_keep [OF assms(1,2)]
  have w1: "wf_node (w_tree w1)" "look (?d ''worktree'') (w_tree w1) = look (?d ''worktree'') (w_tree w)"
    using obeysD [OF K s(1), of "''worktree''"] assms(3) by (simp_all add: on_trees_def)
  have w3: "wf_node (w_tree w3)" "look (?d ''worktree'') (w_tree w3) = look (?d ''worktree'') (w_tree wb)"
    using obeysD [OF K p(2) [unfolded pe], of "''worktree''"] w1(1) s(2) by (simp_all add: on_trees_def)
  show "wf_node (w_tree w')" "look (?d ''worktree'') (w_tree w') = look (?d ''worktree'') (w_tree w)"
    using obeysD [OF K s(4), of "''worktree''"] w3 w1 s(2) by (simp_all add: on_trees_def)
  have "json_at p (w_tree w3) = Some (sort_keys (transaction_to_dict t))"
    using atomic_write_json_stores(1) [of wb p "transaction_to_dict t" "b_host g" u2 w3] w1(1) s(2) p(2) pe assms(1,2)
      transaction_codec.enc_ok [of t] by simp
  moreover have "look p (w_tree w') = look p (w_tree w3)"
    using obeysD [OF K s(4), of "''transaction.json''"] w3(1) pe by (simp add: on_trees_def)
  ultimately show "json_at (?d ''transaction.json'') (w_tree w') = Some (sort_keys (transaction_to_dict t))"
    by (simp add: json_at_def pe)
qed



end
