(* ===== verification/Restoring.thy ===== *)
theory Restoring
  imports Confinement Beginning
begin

text \<open>
  What \<^verbatim>\<open>restore\<close> guarantees: it brings back the digest from before the commit, or refuses to touch a workspace that
  changed since; and what the lock both operations take excludes.
\<close>

subsection \<open>The lock\<close>

lemma held_lock: "look p (w_tree w) \<noteq> None \<Longrightarrow> \<exists>e w'. os_call h (create_lock_tree p) w = (Inl e, w') \<and> w_tree w' = w_tree w"
  by (auto simp: os_call_def create_lock_tree_def Let_def)

text \<open>
  C11. Mutual exclusion. While the lock file of a workspace exists, no operation enters: \<^verbatim>\<open>with_lock\<close> fails and changes no file, whatever
  its body would do.
\<close>

theorem lock_excludes:
  assumes "look (lock_path g ws) (w_tree w) \<noteq> None"
  shows "\<exists>e w'. with_lock g ws body w = (Inl e, w') \<and> w_tree w' = w_tree w"
  using held_lock [OF assms, of "b_host g"] by (auto simp: with_lock_def Let_def bindA_def)

definition locked_world :: world where
  "locked_world = \<lparr>w_tree = DirN 1 493 [(''s'', DirN 1 448 [(''locks'', DirN 1 448
     [(take 32 fixed_digest @ ''.lock'', FileN 1 384 ''pid=1'')])])], w_calls = 0, w_ticks = 0, w_draws = 0\<rparr>"

theorem lock_excludes_witness:
  "\<exists>e w'. with_lock fixed_guard [''/'', ''w''] (raiseA (GuardError ''x'') :: unit act) locked_world = (Inl e, w') \<and> w_tree w' = w_tree locked_world"
  by (rule lock_excludes) (simp add: lock_path_def locked_world_def)

text \<open>An operation that came back from under the lock\<close>

lemma with_lock_Inr:
  assumes "with_lock g ws body w = (Inr x, w')" "guarded g" "sha256_hex (b_crypto g)" "wf_node (w_tree w)"
  obtains w1 w2 where "body w1 = (Inr x, w2)" "wf_node (w_tree w1)"
    "\<And>q. apart (b_root g) q \<Longrightarrow> look q (w_tree w1) = look q (w_tree w)"
    "\<And>q. wf_node (w_tree w2) \<Longrightarrow> apart (lock_path g ws) q \<Longrightarrow> look q (w_tree w') = look q (w_tree w2)"
proof -
  let ?p = "lock_path g ws"
  have p: "rooted ?p" by (rule lock_path_rooted [OF assms(2,3)])
  have a: "apart ?p q" if "apart (b_root g) q" for q using assms(2) that by (auto simp: lock_path_def)
  note K = lock_calls_keep [OF p]
  obtain u w0 where c: "os_call (b_host g) (create_lock_tree ?p) w = (Inr u, w0)"
    and f: "finallyA (thenA (os_call (b_host g) (write_lock_tree ?p (''pid='' @ h_pid (b_host g) @ [CHR 0x0A]))) body)
        (ignore_missingA (os_call (b_host g) (unlink_tree ?p))) w0 = (Inr x, w')"
    using assms(1) by (auto simp: with_lock_def Let_def bindA_Inr_iff)
  obtain v w1 w2 where d: "os_call (b_host g) (write_lock_tree ?p (''pid='' @ h_pid (b_host g) @ [CHR 0x0A])) w0 = (Inr v, w1)"
    "body w1 = (Inr x, w2)" and e: "ignore_missingA (os_call (b_host g) (unlink_tree ?p)) w2 = (Inr (), w')"
    using f by (auto simp: finallyA_def bindA_Inr_iff split: prod.splits sum.splits)
  have s: "apart ?p (b_root g @ [''commits''])"
    using state_apart [OF assms(2), of "''locks''" "''commits''" "[_]" "[]"] by (simp add: lock_path_def)
  have w0: "wf_node (w_tree w0)" using obeysD [OF K(1) [OF s] c] assms(4) by (simp add: on_trees_def)
  have w1: "wf_node (w_tree w1)" using obeysD [OF K(2) [OF s] d(1)] w0 by (simp add: on_trees_def)
  show ?thesis
  proof (rule that [OF d(2) w1])
    show "look q (w_tree w1) = look q (w_tree w)" if "apart (b_root g) q" for q
      using obeysD [OF K(1) [OF a [OF that]] c] obeysD [OF K(2) [OF a [OF that]] d(1)] assms(4) w0 by (simp add: on_trees_def)
    show "look q (w_tree w') = look q (w_tree w2)" if "wf_node (w_tree w2)" "apart ?p q" for q
      using obeysD [OF K(3) [OF that(2)] e] that(1) by (simp add: on_trees_def)
  qed
qed

subsection \<open>Restoring a record\<close>

lemma ex_outside:
  assumes "isolates g ws" shows "\<exists>q. outside g ws q"
proof -
  obtain a b r where ws: "ws = a # b # r" using assms by (cases ws; cases "tl ws") (auto simp: rooted_def)
  obtain c d s where root: "b_root g = c # d # s" using assms by (cases "b_root g"; cases "tl (b_root g)") (auto simp: guarded_def rooted_def)
  obtain x where x: "x \<in> {''a'', ''b'', ''c''}" "x \<noteq> b" "x \<noteq> d" by (cases "b = ''a''"; cases "b = ''b''"; cases "d = ''a''"; cases "d = ''b''") auto
  have "rooted [''/'', x]" using x(1) by (auto simp: rooted_def is_name_def is_component_def)
  moreover have "apart (b_root g) [''/'', x]" "apart ws [''/'', x]" using x(2,3) by (simp_all add: ws root apart_def parallel_def)
  ultimately show ?thesis using assms unfolding outside_def by blast
qed

lemma lodged_wf:
  assumes "\<And>q v. outside g ws q \<Longrightarrow> obeys (stays (lodged g q v (r_quarantine_root r0) (length (r_operations r0)))) m"
    and "isolates g ws" "tame g r0" "wf_node (w_tree w)" "m (r0, w) = (x, s')"
  shows "wf_node (w_tree (snd s'))"
proof -
  obtain q where q: "outside g ws q" using ex_outside [OF assms(2)] by blast
  have "lodged g q (look q (w_tree w)) (r_quarantine_root r0) (length (r_operations r0)) (r0, w)"
    using assms(3,4) by (simp add: lodged_def)
  from staysD [OF assms(1) [OF q] this assms(5)] show ?thesis by (simp add: lodged_def)
qed

lemma same_id:
  "obeys (stays (\<lambda>s. r_commit_id (fst s) = c)) (embed m)"
  "(\<And>r. r_commit_id (f r) = r_commit_id r) \<Longrightarrow> obeys (stays (\<lambda>s. r_commit_id (fst s) = c)) (change_record f)"
  by (auto intro!: stays_embed stays_change)

lemma same_id_restore:
  "obeys (stays (\<lambda>s. r_commit_id (fst s) = c)) (forA (restore_operation g ws R) is)"
  by (rule stays.for_each)
    (unfold restore_operation_def, intro stays.bind stays.pure stays.cond stays_the_operation same_id, simp)

lemma restore_record_Inr:
  assumes "isolates g ws" "tame g r0" "wf_node (w_tree w)" "restore_record g plan ws (r0, w) = (Inr u, (r, w'))"
    and "commit_path g (r_commit_id r0) = Inr F"
  shows "has_digest g ws (w_tree w') (r_before_digest r0)" "r_status r = ''restored''" "record_at F (w_tree w') = Some r" "wf_node (w_tree w')"
proof -
  let ?R = "path_of (r_quarantine_root r0) @ [''_restore_current'']"
  let ?f = "\<lambda>r. r\<lparr>r_status := ''restored''\<rparr>"
  have g: "guarded g" using assms(1) by simp
  obtain s1 s2 s3 m u3 kv where r: "forA (restore_operation g ws ?R) (rev [0..<length (r_operations r0)]) (r0, w) = (Inr (), s1)"
    "embed (scan g ws) s1 = (Inr m, s2)" "m_digest m = r_before_digest r0"
    "save_commit g (?f (fst s2), snd s2) = (Inr u3, s3)" "embed (log_event g ''commit_restored'' kv) s3 = (Inr u, (r, w'))"
    using assms(4) unfolding restore_record_def
    by (auto simp: bindA_Inr_iff the_record_def requireA_iff change_record_def)
  have R: "rooted ?R" "prefix (b_root g) ?R" using assms(2) by (simp_all add: tame_def rooted_add)
  have wf1: "wf_node (w_tree (snd s1))"
  proof (rule lodged_wf [where m = "forA (restore_operation g ws ?R) (rev [0..<length (r_operations r0)])", OF _ assms(1-3) r(1)])
    fix q v assume o: "outside g ws q"
    show "obeys (stays (lodged g q v (r_quarantine_root r0) (length (r_operations r0))))
        (forA (restore_operation g ws ?R) (rev [0..<length (r_operations r0)]))"
      by (rule stays.for_each, rule lodged_restore_operation [OF o R]) simp
  qed
  have id: "r_commit_id (fst s1) = r_commit_id r0"
    using staysD [OF same_id_restore [of "r_commit_id r0"] _ r(1)] by simp
  have s2: "fst s2 = fst s1" "w_tree (snd s2) = w_tree (snd s1)" "has_digest g ws (w_tree (snd s1)) (r_before_digest r0)"
    using r(2,3) scan_digest [of g ws "snd s1"] by (auto simp: embed_def split: prod.splits)
  have c: "commit_path g (r_commit_id (sign_commit g (?f (fst s2)))) = Inr F" using assms(5) id by (simp add: sign_commit_def s2(1))
  have F: "rooted F" "prefix (b_root g) F" using state_paths(4) [OF g assms(5)] by simp_all
  obtain w3 where w3: "atomic_write_json (b_host g) F (record_to_dict (sign_commit g (?f (fst s2)))) (snd s2) = (Inr u3, w3)"
    "s3 = (sign_commit g (?f (fst s2)), w3)"
    using r(4) c by (auto simp: save_commit_def bindA_def the_record_def change_record_def embed_def liftA_def split: prod.splits)
  have k3: "wf_node (w_tree w3)" "look ws (w_tree w3) = look ws (w_tree (snd s1))"
    using obeysD [OF state_write_keeps [OF assms(1), of F] w3(1)] F wf1 by (simp_all add: on_trees_def s2(2))
  have l: "log_event g ''commit_restored'' kv w3 = (Inr u, w')" and e: "r = sign_commit g (?f (fst s2))"
    using r(5) by (auto simp: embed_def w3(2) split: prod.splits)
  obtain j where j: "F = b_root g @ [''commits'', j]" using assms(5) by (auto simp: commit_path_def bindE_Inr_iff)
  have kl: "wf_node (w_tree w')" "look ws (w_tree w') = look ws (w_tree w3)" "look F (w_tree w') = look F (w_tree w3)"
    using obeysD [OF log_event_keeps [OF assms(1)] l] obeysD [OF log_event_apart [OF g F(1)] l] k3(1) state_apart [OF g]
    by (simp_all add: on_trees_def audit_path_def j)
  show "wf_node (w_tree w')" by (rule kl(1))
  show "has_digest g ws (w_tree w') (r_before_digest r0)" using s2(3) k3(2) kl(2) by (simp add: has_digest_def)
  show "r_status r = ''restored''" by (simp add: e sign_commit_def)
  have "record_at F (w_tree w3) = Some r"
    using write_record(2) [of "snd s2" F "b_host g" r "Inr u3" w3] wf1 s2(2) F(1) w3(1) e by simp
  then show "record_at F (w_tree w') = Some r" using kl(3) by (simp add: record_at_def json_at_def)
qed

lemma load_commit_Inr:
  assumes "load_commit g i w = (Inr r, w1)"
  shows "r_commit_id r = i" "\<exists>F. commit_path g i = Inr F"
  using assms by (auto simp: load_commit_def bindA_Inr_iff requireA_iff liftA_def validate_object_id_Inr_iff)

lemma with_record_Inr:
  assumes "with_record m (returnA ()) r0 w = (Inr r, w')" shows "m (r0, w) = (Inr (), (r, w'))"
proof -
  obtain y s where m: "m (r0, w) = (y, s)" by (metis surj_pair)
  show ?thesis
  proof (cases y)
    case (Inl e)
    then show ?thesis using assms m by (cases s) (simp add: with_record_def on_errorA_def returnA_def)
  next
    case (Inr u)
    then show ?thesis using assms m by (cases s) (simp add: with_record_def on_errorA_def)
  qed
qed

lemma restore_locked_at: "restore_locked g plan r0 w = bindA (scan g (path_of (r_workspace_root r0))) (\<lambda>current.
         thenA (requireA (m_digest current = r_after_digest r0)
           (StalePlan ''workspace changed after commit; automatic restore would overwrite later work''))
           (with_record (restore_record g plan (path_of (r_workspace_root r0))) (returnA ()) r0)) w"
  by (simp only: restore_locked_def Let_def)

lemma restore_locked_steps:
  assumes "restore_locked g plan r0 w = (Inr r, w')"
  shows "\<exists>m w1. scan g (path_of (r_workspace_root r0)) w = (Inr m, w1) \<and> m_digest m = r_after_digest r0 \<and>
    with_record (restore_record g plan (path_of (r_workspace_root r0))) (returnA ()) r0 w1 = (Inr r, w')"
  using assms unfolding restore_locked_at bindA_Inr_iff requireA_iff
  by (elim exE conjE) (intro exI conjI, assumption+, simp)

lemma restore_locked_Inr:
  assumes "isolates g (path_of (r_workspace_root r0))" "tame g r0" "wf_node (w_tree w)"
    and "restore_locked g plan r0 w = (Inr r, w')" "commit_path g (r_commit_id r0) = Inr F"
  shows "has_digest g (path_of (r_workspace_root r0)) (w_tree w) (r_after_digest r0)"
    "has_digest g (path_of (r_workspace_root r0)) (w_tree w') (r_before_digest r0)"
    "r_status r = ''restored''" "record_at F (w_tree w') = Some r" "wf_node (w_tree w')"
proof -
  obtain m w1 where s: "scan g (path_of (r_workspace_root r0)) w = (Inr m, w1)" "m_digest m = r_after_digest r0"
    "with_record (restore_record g plan (path_of (r_workspace_root r0))) (returnA ()) r0 w1 = (Inr r, w')"
    using restore_locked_steps [OF assms(4)] by blast
  have t: "w_tree w1 = w_tree w" "has_digest g (path_of (r_workspace_root r0)) (w_tree w) (r_after_digest r0)"
    using scan_digest [OF s(1)] s(2) by simp_all
  show "has_digest g (path_of (r_workspace_root r0)) (w_tree w) (r_after_digest r0)" by (rule t(2))
  have wf: "wf_node (w_tree w1)" using t(1) assms(3) by simp
  note R = restore_record_Inr [OF assms(1,2) wf with_record_Inr [OF s(3)] assms(5)]
  show "has_digest g (path_of (r_workspace_root r0)) (w_tree w') (r_before_digest r0)" by (rule R(1))
  show "r_status r = ''restored''" by (rule R(2))
  show "record_at F (w_tree w') = Some r" by (rule R(3))
  show "wf_node (w_tree w')" by (rule R(4))
qed

text \<open>A workspace that changed is left alone.\<close>

lemma restore_locked_stale:
  assumes "ws = path_of (r_workspace_root r0)" "\<not> has_digest g ws (w_tree w) (r_after_digest r0)"
  shows "\<exists>e w'. restore_locked g plan r0 w = (Inl e, w') \<and> w_tree w' = w_tree w"
proof -
  obtain x w1 where s: "scan g ws w = (x, w1)" by (metis surj_pair)
  have t: "w_tree w1 = w_tree w" by (rule obeysD [OF reading(1) s])
  have b: "restore_locked g plan r0 w = bindA (scan g ws) (\<lambda>current.
         thenA (requireA (m_digest current = r_after_digest r0)
           (StalePlan ''workspace changed after commit; automatic restore would overwrite later work''))
           (with_record (restore_record g plan ws) (returnA ()) r0)) w"
    by (simp only: restore_locked_def Let_def assms(1))
  show ?thesis
  proof (cases x)
    case (Inr m)
    have "m_digest m \<noteq> r_after_digest r0" using scan_digest [OF s [unfolded Inr]] assms(2) by auto
    then show ?thesis unfolding b bindA_def s Inr using t by (simp add: requireA_def)
  next
    case (Inl e)
    then show ?thesis unfolding b bindA_def s using t by simp
  qed
qed

text \<open>Under the lock, a body that fails and changes nothing leaves a path apart from the state root alone.\<close>

lemma with_lock_idle:
  assumes "guarded g" "sha256_hex (b_crypto g)" "apart (b_root g) q" "wf_node (w_tree w)"
    and "\<And>w1. wf_node (w_tree w1) \<Longrightarrow> look q (w_tree w1) = look q (w_tree w) \<Longrightarrow>
      \<exists>e w2. body w1 = (Inl e, w2) \<and> w_tree w2 = w_tree w1"
  shows "\<exists>e w'. with_lock g ws body w = (Inl e, w') \<and> look q (w_tree w') = look q (w_tree w)"
proof -
  let ?p = "lock_path g ws"
  let ?create = "os_call (b_host g) (create_lock_tree ?p)"
  let ?saved = "os_call (b_host g) (write_lock_tree ?p (''pid='' @ h_pid (b_host g) @ [CHR 0x0A]))"
  let ?unlink = "ignore_missingA (os_call (b_host g) (unlink_tree ?p))"
  have p: "rooted ?p" by (rule lock_path_rooted [OF assms(1,2)])
  have a: "apart ?p q" using assms(1,3) by (auto simp: lock_path_def)
  note K = lock_calls_keep [OF p a]
  obtain x1 w1 where c: "?create w = (x1, w1)" by (metis surj_pair)
  have w1: "wf_node (w_tree w1)" "look q (w_tree w1) = look q (w_tree w)" using obeysD [OF K(1) c] assms(4) by (simp_all add: on_trees_def)
  show ?thesis
  proof (cases x1)
    case (Inl e)
    then show ?thesis using c w1 by (simp add: with_lock_def Let_def bindA_def)
  next
    case (Inr u)
    obtain e w2 where b: "thenA ?saved body w1 = (Inl e, w2)" "wf_node (w_tree w2)" "look q (w_tree w2) = look q (w_tree w)"
    proof -
      obtain y wy where y: "?saved w1 = (y, wy)" by (metis surj_pair)
      have wy: "wf_node (w_tree wy)" "look q (w_tree wy) = look q (w_tree w)" using obeysD [OF K(2) y] w1 by (simp_all add: on_trees_def)
      show ?thesis
      proof (cases y)
        case (Inl e)
        then show ?thesis using that y wy by (simp add: bindA_def)
      next
        case (Inr v)
        then show ?thesis using that y wy assms(5) [OF wy] by (auto simp: bindA_def)
      qed
    qed
    obtain z w3 where z: "?unlink w2 = (z, w3)" by (metis surj_pair)
    have "look q (w_tree w3) = look q (w_tree w)" using obeysD [OF K(3) z] b(2,3) by (simp add: on_trees_def)
    then show ?thesis
      using c Inr b(1) z by (auto simp: with_lock_def Let_def bindA_def [of ?create] finallyA_def split: sum.splits)
  qed
qed

lemma restore_gate:
  assumes "(thenA (requireA a e1) (bindA (load_plan g p) (\<lambda>plan.
      thenA (requireA (b plan) (e2 plan)) (thenA (requireA (c plan) (e3 plan)) (rest plan))))) w1 = (x, w')"
  shows "(\<exists>e. x = Inl e \<and> w_tree w' = w_tree w1) \<or> (\<exists>plan w2. a \<and> w_tree w2 = w_tree w1 \<and> rest plan w2 = (x, w'))"
proof -
  obtain y w2 where l: "load_plan g p w1 = (y, w2)" by (metis surj_pair)
  have "w_tree w2 = w_tree w1" by (rule obeysD [OF loads_read(2) l])
  then show ?thesis using assms l by (auto simp: bindA_def requireA_def split: if_splits sum.splits)
qed


subsection \<open>A stored commit\<close>

definition sample_commit_id :: string where "sample_commit_id = ''commit_'' @ sample_body"

definition stored_record :: commit_record where
  "stored_record = sign_commit fixed_guard
    \<lparr>r_commit_id = sample_commit_id, r_plan_id = sample_plan_id, r_transaction_id = sample_tx,
     r_workspace_root = path_str [''/'', ''w''], r_quarantine_root = path_str (quarantine_of fixed_guard sample_commit_id),
     r_apply_root = path_str (apply_of fixed_guard sample_commit_id),
     r_operations = [\<lparr>o_path = ''a'', o_change_kind = MODIFY, o_before_kind = Some FILE, o_after_kind = Some FILE,
       o_backup_path = Some (path_str (quarantine_of fixed_guard sample_commit_id @ [''a''])), o_installed = True,
       o_backup_moved = True, o_phase = ''complete''\<rparr>],
     r_before_digest = fixed_digest, r_after_digest = fixed_digest, r_created_at = 1002, r_status = ''committed'',
     r_signature = ''''\<rparr>"

definition committed_world :: world where
  "committed_world = \<lparr>w_tree = DirN 1 493
    [(''s'', DirN 1 448 [(''commits'', DirN 1 448 [(sample_commit_id @ ''.json'', json_file (record_to_dict stored_record))])]),
     (''w'', sample_after)],
    w_calls = 0, w_ticks = 0, w_draws = 0\<rparr>"

lemma sample_commit_valid [simp]: "validate_object_id (JStr sample_commit_id) ''commit'' = Inr sample_commit_id"
  using sample_id [of "CHR ''c''" "''ommit''"] by (simp add: lower_alpha_def id_prefix_char_def sample_commit_id_def)

lemma sample_commit_name [simp]: "is_name sample_commit_id" "is_name (sample_commit_id @ ''.json'')"
  using sample_body_chars by (simp_all add: sample_commit_id_def is_name_def is_component_def)

lemma committed_world_wf: "wf_node (w_tree committed_world)"
  by (simp add: committed_world_def json_file_def sample_after_def is_name_def is_component_def less_char_def
      sample_commit_name [unfolded is_name_def is_component_def])

lemma stored_load:
  "load_commit fixed_guard sample_commit_id committed_world = (Inr stored_record, committed_world\<lparr>w_calls := 1\<rparr>)"
proof -
  let ?p = "[''/'', ''s'', ''commits'', sample_commit_id @ ''.json'']"
  have p: "commit_path fixed_guard sample_commit_id = Inr ?p" by (simp add: commit_path_def)
  have j: "json_at ?p (w_tree committed_world) = Some (sort_keys (record_to_dict stored_record))"
    by (rule json_at_file; simp add: committed_world_def record_codec.enc_ok)
  have q: "path_of (path_str (quarantine_of fixed_guard sample_commit_id @ r)) = quarantine_of fixed_guard sample_commit_id @ r"
    "path_of (path_str (apply_of fixed_guard sample_commit_id)) = apply_of fixed_guard sample_commit_id" if "\<forall>a \<in> set r. is_name a" for r
    using that by (auto intro!: path_str_rooted simp: quarantine_of_def apply_of_def rooted_def)
  have a: "validate_relative_path (JStr ''a'') = Inr [''a'']" "names_of ''a'' = [''a'']" "relative_text ''a''" "is_name ''a''" by code_simp+
  have sj: "safe_join [''/'', ''s'', ''quarantine'', sample_commit_id] ''a'' = Inr [''/'', ''s'', ''quarantine'', sample_commit_id, ''a'']"
    using a by (simp add: safe_join_Inr_iff)
  have v: "validate_commit_record fixed_guard stored_record = Inr ()"
    using q [of "[]"] q(1) [of "[''a'']"] a sj
    by (simp add: validate_commit_record_def Let_def stored_record_def sign_commit_def voidE_def requireE_def is_absolute_def
        checksE.simps allowed_statuses_def validate_operation_def quarantine_of_def apply_of_def)
  have f: "r_commit_id stored_record = sample_commit_id"
    "check_signature fixed_guard (signed_core ''commit_record'' (JObj (record_core stored_record))) (r_signature stored_record) = Inr ()"
    by (simp_all add: stored_record_def sign_commit_def check_signature_def record_core_def)
  show ?thesis
    using read_json_quiet [of ?p committed_world _ quiet_host] j
    by (simp add: load_commit_def bindA_def liftA_def p record_codec.dec_enc f requireA_def v returnA_def)
      (simp add: committed_world_def)
qed


end
