(* ===== verification/CommandLine.thy ===== *)
theory CommandLine
  imports Commit
begin

text \<open>
  \<^verbatim>\<open>cli.py\<close>: the options of the subcommands and \<^verbatim>\<open>main\<close>, which opens the broker, runs one of its operations
  and prints the result as JSON. What \<^verbatim>\<open>argparse\<close> does before is to split the arguments into the options before the
  subcommand, the subcommand and its options; an option comes here with its full name and its value.
\<close>

subsection \<open>Printed JSON\<close>

text \<open>\<^verbatim>\<open>ensure_ascii=True\<close>, the default: everything but printable ASCII is escaped\<close>

definition ascii_char :: "char \<Rightarrow> string" where
  "ascii_char c =
     (if code c < 127 then escape_char c
      else [CHR 0x5C, CHR ''u'', CHR ''0'', CHR ''0'', hex_digit (code c div 16), hex_digit (code c mod 16)])"

definition ascii_quote :: "string \<Rightarrow> string" where
  "ascii_quote s = CHR 0x22 # concat (map ascii_char s) @ [CHR 0x22]"

definition new_line :: "nat \<Rightarrow> string" where
  "new_line d = CHR 0x0A # replicate (2 * d) (CHR '' '')"

text \<open>The items of a list or object at depth \<open>d\<close>, between brackets\<close>

definition bracketed :: "string \<Rightarrow> string \<Rightarrow> nat \<Rightarrow> string list \<Rightarrow> string" where
  "bracketed l r d items =
     (if items = [] then l @ r
      else l @ new_line (d + 1) @ join_with ('','' @ new_line (d + 1)) items @ new_line d @ r)"

text \<open>\<^verbatim>\<open>json.dumps(data, indent=2)\<close> at depth \<open>d\<close>\<close>

primrec indented :: "json \<Rightarrow> nat \<Rightarrow> string" where
  "indented JNull = (\<lambda>d. ''null'')"
| "indented (JBool b) = (\<lambda>d. if b then ''true'' else ''false'')"
| "indented (JInt i) = (\<lambda>d. int_str i)"
| "indented (JFloat t) = (\<lambda>d. t)"
| "indented (JStr s) = (\<lambda>d. ascii_quote s)"
| "indented (JList vs) = (\<lambda>d. bracketed ''['' '']'' d (map (\<lambda>f. f (d + 1)) (map indented vs)))"
| "indented (JObj kvs) = (\<lambda>d. bracketed ''{'' ''}'' d
     (map (\<lambda>(k, f). ascii_quote k @ '': '' @ f (d + 1)) (map (map_prod id indented) kvs)))"

text \<open>What \<^verbatim>\<open>_json\<close> prints\<close>

definition json_text :: "json \<Rightarrow> string" where
  "json_text data = indented (sort_keys data) 0 @ [CHR 0x0A]"

fun error_class :: "error \<Rightarrow> string" where
  "error_class (GuardError _) = ''GuardError''"
| "error_class (PolicyDenied _) = ''PolicyDenied''"
| "error_class (StalePlan _) = ''StalePlan''"
| "error_class (ApprovalError _) = ''ApprovalError''"
| "error_class (IntegrityError _) = ''IntegrityError''"
| "error_class (UnsafePath _) = ''UnsafePath''"
| "error_class (OSError _) = ''OSError''"
| "error_class (PyError t) = t"

definition error_text :: "error \<Rightarrow> string" where
  "error_text e =
     ''{'' @ ascii_quote ''error'' @ '': '' @ ascii_quote (error_class e) @ '', '' @
       ascii_quote ''message'' @ '': '' @ ascii_quote (message e) @ ''}'' @ [CHR 0x0A]"

subsection \<open>The options of \<^verbatim>\<open>build_parser\<close>\<close>

record option_spec =
  s_name :: string
  s_required :: bool
  s_int :: bool
  s_default :: json

definition required_option :: "string \<Rightarrow> option_spec" where
  "required_option n = \<lparr>s_name = n, s_required = True, s_int = False, s_default = JNull\<rparr>"

definition int_option :: "string \<Rightarrow> int \<Rightarrow> option_spec" where
  "int_option n i = \<lparr>s_name = n, s_required = False, s_int = True, s_default = JInt i\<rparr>"

definition plain_option :: "string \<Rightarrow> json \<Rightarrow> option_spec" where
  "plain_option n v = \<lparr>s_name = n, s_required = False, s_int = False, s_default = v\<rparr>"

definition state_option :: "string option \<Rightarrow> option_spec" where
  "state_option env = plain_option ''--state'' (of_opt_str env)"

definition subcommands :: "(string \<times> option_spec list) list" where
  "subcommands =
     [(''begin'', [required_option ''--workspace'', required_option ''--task-id'']),
      (''env'', [required_option ''--transaction'']),
      (''plan'', [required_option ''--transaction'', int_option ''--ttl'' 1800]),
      (''approve'', [required_option ''--plan'', required_option ''--actor'', int_option ''--ttl'' 900]),
      (''commit'', [required_option ''--plan'', plain_option ''--token'' JNull]),
      (''restore'', [required_option ''--commit'']),
      (''discard'', [required_option ''--transaction'']),
      (''verify-audit'', []),
      (''inspect'', [plain_option ''--shell'' (JStr ''unknown''), plain_option ''--command-text'' JNull,
         plain_option ''--command-file'' JNull])]"

text \<open>
  The namespace after the given options: the last value of an option counts, an unknown option, a value that is no
  integer where one is asked for, or a missing required option is an error of usage.
\<close>

definition option_value :: "option_spec \<Rightarrow> string \<Rightarrow> json option" where
  "option_value o_spec v =
     (if s_int o_spec then (case int_of_str v of Inl _ \<Rightarrow> None | Inr i \<Rightarrow> Some (JInt i)) else Some (JStr v))"

fun take_options :: "option_spec list \<Rightarrow> (string \<times> string) list \<Rightarrow> (string \<times> json) list option" where
  "take_options specs [] = Some []"
| "take_options specs ((n, v) # rest) =
     (case find (\<lambda>s. s_name s = n) specs of
        None \<Rightarrow> None
      | Some s \<Rightarrow>
          (case option_value s v of
             None \<Rightarrow> None
           | Some x \<Rightarrow> map_option (\<lambda>given. if n \<in> fst ` set given then given else (n, x) # given) (take_options specs rest)))"

definition namespace :: "option_spec list \<Rightarrow> (string \<times> string) list \<Rightarrow> (string \<times> json) list option" where
  "namespace specs options =
     (case take_options specs options of
        None \<Rightarrow> None
      | Some given \<Rightarrow>
          if list_ex (\<lambda>s. s_required s \<and> s_name s \<notin> fst ` set given) specs then None
          else Some (map (\<lambda>s. (s_name s, case map_of given (s_name s) of None \<Rightarrow> s_default s | Some x \<Rightarrow> x)) specs))"

text \<open>The namespace \<^verbatim>\<open>parse_args\<close> returns, by subcommand\<close>

datatype command_source = Command_text string | Command_file string

datatype request =
    Begin_request string string
  | Env_request string
  | Plan_request string int
  | Approve_request string string int
  | Commit_request string "string option"
  | Restore_request string
  | Discard_request string
  | Verify_request
  | Inspect_request string command_source

definition str_arg :: "string \<Rightarrow> (string \<times> json) list \<Rightarrow> string" where
  "str_arg n ns = (case map_of ns n of Some (JStr s) \<Rightarrow> s | _ \<Rightarrow> '''')"

definition opt_arg :: "string \<Rightarrow> (string \<times> json) list \<Rightarrow> string option" where
  "opt_arg n ns = (case map_of ns n of Some (JStr s) \<Rightarrow> Some s | _ \<Rightarrow> None)"

definition int_arg :: "string \<Rightarrow> (string \<times> json) list \<Rightarrow> int" where
  "int_arg n ns = (case map_of ns n of Some (JInt i) \<Rightarrow> i | _ \<Rightarrow> 0)"

text \<open>\<^verbatim>\<open>--command-text\<close> and \<^verbatim>\<open>--command-file\<close> exclude each other, and one of them is required.\<close>

definition source_arg :: "(string \<times> json) list \<Rightarrow> command_source option" where
  "source_arg ns =
     (case (opt_arg ''--command-text'' ns, opt_arg ''--command-file'' ns) of
        (Some s, None) \<Rightarrow> Some (Command_text s)
      | (None, Some f) \<Rightarrow> Some (Command_file f)
      | _ \<Rightarrow> None)"

definition request_of :: "string \<Rightarrow> (string \<times> json) list \<Rightarrow> request option" where
  "request_of subcommand ns =
     (if subcommand = ''begin'' then Some (Begin_request (str_arg ''--workspace'' ns) (str_arg ''--task-id'' ns))
      else if subcommand = ''env'' then Some (Env_request (str_arg ''--transaction'' ns))
      else if subcommand = ''plan'' then Some (Plan_request (str_arg ''--transaction'' ns) (int_arg ''--ttl'' ns))
      else if subcommand = ''approve''
      then Some (Approve_request (str_arg ''--plan'' ns) (str_arg ''--actor'' ns) (int_arg ''--ttl'' ns))
      else if subcommand = ''commit'' then Some (Commit_request (str_arg ''--plan'' ns) (opt_arg ''--token'' ns))
      else if subcommand = ''restore'' then Some (Restore_request (str_arg ''--commit'' ns))
      else if subcommand = ''discard'' then Some (Discard_request (str_arg ''--transaction'' ns))
      else if subcommand = ''verify-audit'' then Some Verify_request
      else if subcommand = ''inspect'' then map_option (Inspect_request (str_arg ''--shell'' ns)) (source_arg ns)
      else None)"

text \<open>The arguments as \<^verbatim>\<open>argparse\<close> splits them\<close>

record cli_call =
  k_before :: "(string \<times> string) list"
  k_command :: string
  k_options :: "(string \<times> string) list"

text \<open>\<open>None\<close> stands for \<^verbatim>\<open>parser.error\<close>: usage on the error stream, and exit with status 2.\<close>

definition parse_args :: "string option \<Rightarrow> cli_call \<Rightarrow> (string option \<times> request) option" where
  "parse_args env_state call =
     (case (namespace [state_option env_state] (k_before call), map_of subcommands (k_command call)) of
        (Some outer, Some specs) \<Rightarrow>
          (case namespace specs (k_options call) of
             None \<Rightarrow> None
           | Some ns \<Rightarrow> map_option (Pair (opt_arg ''--state'' outer)) (request_of (k_command call) ns))
      | _ \<Rightarrow> None)"

subsection \<open>Paths on the command line\<close>

text \<open>
  What the process knows: \<^verbatim>\<open>AWG_STATE_ROOT\<close>, the working directory, and the home directories
  \<^verbatim>\<open>os.path.expanduser\<close> finds for \<^verbatim>\<open>~user\<close>.
\<close>

record cli_env =
  e_state_root :: "string option"
  e_cwd :: path
  e_user_home :: "string \<Rightarrow> path option"

text \<open>\<^verbatim>\<open>Path(s).expanduser()\<close>, made absolute\<close>

definition absolute_path :: "host \<Rightarrow> cli_env \<Rightarrow> string \<Rightarrow> path result" where
  "absolute_path h env s =
     (let p = path_of s
      in case p of
           (CHR ''~'' # user) # rest \<Rightarrow>
             (case (if user = [] then Some (h_home h) else e_user_home env user) of
                None \<Rightarrow> Inl (PyError ''RuntimeError'')
              | Some home \<Rightarrow> Inr (joinpath (e_cwd env) (home @ rest)))
         | _ \<Rightarrow> Inr (joinpath (e_cwd env) p))"

text \<open>\<^verbatim>\<open>Path(file).read_text(encoding="utf-8")\<close>\<close>

definition read_text :: "host \<Rightarrow> path \<Rightarrow> string act" where
  "read_text h p = os_call h (\<lambda>t.
     case look p t of
       None \<Rightarrow> Inl (OSError ''FileNotFoundError'')
     | Some (FileN _ _ content) \<Rightarrow>
         (case utf8_decode content of
            None \<Rightarrow> Inl (PyError ''UnicodeDecodeError'')
          | Some s \<Rightarrow> Inr (universal_newlines s, t))
     | Some _ \<Rightarrow> Inl (OSError ''cannot read the file''))"

subsection \<open>\<^verbatim>\<open>main\<close>\<close>

definition string_dict :: "(string \<times> string) list \<Rightarrow> json" where
  "string_dict d = JObj (map (map_prod id JStr) d)"

definition inspect_output :: "host \<Rightarrow> crypto \<Rightarrow> cli_env \<Rightarrow> string \<Rightarrow> command_source \<Rightarrow> json act" where
  "inspect_output h cr env shell source =
     bindA (case source of
         Command_text s \<Rightarrow> returnA s
       | Command_file f \<Rightarrow> read_text h (joinpath (e_cwd env) (path_of f)))
       (\<lambda>command. returnA (inspection_to_dict (inspect_shell_command cr (JStr command) shell)))"

text \<open>What is printed for each operation of the broker\<close>

definition broker_output :: "cli_env \<Rightarrow> guard \<Rightarrow> request \<Rightarrow> json act" where
  "broker_output env g r =
     (case r of
        Begin_request workspace task_id \<Rightarrow>
          \<comment> \<open>\<^verbatim>\<open>begin\<close> looks at the task before the path\<close>
          thenA (liftA (validate_text_field (JStr task_id) ''task id'' MAX_TASK_ID_LENGTH))
         (bindA (liftA (absolute_path (b_host g) env workspace)) (\<lambda>candidate.
          bindA (begin_transaction g candidate (JStr task_id)) (\<lambda>t.
          bindA (environment g (t_id t)) (\<lambda>variables.
          returnA (JObj [(''transaction'', transaction_to_dict t), (''environment'', string_dict variables),
            (''cwd'', JStr (t_worktree_root t))])))))
      | Env_request i \<Rightarrow>
          bindA (load_transaction g i) (\<lambda>t.
          bindA (environment g i) (\<lambda>variables.
          returnA (JObj [(''cwd'', JStr (t_worktree_root t)), (''environment'', string_dict variables)])))
      | Plan_request i ttl \<Rightarrow>
          bindA (plan_transaction g i (JInt ttl)) (\<lambda>p. returnA (plan_to_dict p))
      | Approve_request i actor ttl \<Rightarrow>
          bindA (approve g i (JStr actor) (JInt ttl)) (\<lambda>token. returnA (token_to_dict token))
      | Commit_request i token \<Rightarrow>
          bindA (commit g i (case token of None \<Rightarrow> No_approval | Some t \<Rightarrow> Approval_id t))
            (\<lambda>record. returnA (record_to_dict record))
      | Restore_request i \<Rightarrow> bindA (restore g i) (\<lambda>record. returnA (record_to_dict record))
      | Discard_request i \<Rightarrow> thenA (discard g i) (returnA (JObj [(''discarded'', JStr i)]))
      | Verify_request \<Rightarrow>
          bindA (verify_audit g) (\<lambda>count. returnA (JObj [(''verified_events'', JInt (int count))]))
      | Inspect_request shell source \<Rightarrow> inspect_output (b_host g) (b_crypto g) env shell source)"

record cli_result =
  x_stdout :: string
  x_stderr :: string
  x_status :: int

text \<open>\<^verbatim>\<open>parser.error\<close>; the usage text itself is left out\<close>

definition usage_error :: cli_result where
  "usage_error = \<lparr>x_stdout = '''', x_stderr = ''usage'', x_status = 2\<rparr>"

text \<open>\<^verbatim>\<open>try: _json(body) except GuardError\<close>: the printed result, or the error; any other exception escapes\<close>

definition report :: "json act \<Rightarrow> cli_result act" where
  "report body w =
     (case body w of
        (Inr v, w') \<Rightarrow> (Inr \<lparr>x_stdout = json_text v, x_stderr = '''', x_status = 0\<rparr>, w')
      | (Inl e, w') \<Rightarrow>
          if is_guard_error e then (Inr \<lparr>x_stdout = '''', x_stderr = error_text e, x_status = 2\<rparr>, w')
          else (Inl e, w'))"

definition main :: "host \<Rightarrow> crypto \<Rightarrow> cli_env \<Rightarrow> cli_call \<Rightarrow> cli_result act" where
  "main h cr env call =
     (case parse_args (e_state_root env) call of
        None \<Rightarrow> returnA usage_error
      | Some (_, Inspect_request shell source) \<Rightarrow> report (inspect_output h cr env shell source)
      | Some (state, r) \<Rightarrow>
          (case state of
             None \<Rightarrow> returnA usage_error
           | Some s \<Rightarrow>
               if s = '''' then returnA usage_error
               else report
                 (bindA (liftA (absolute_path h env s)) (\<lambda>candidate.
                  bindA (open_guard h cr candidate None DEFAULT_EXCLUDED_TOP_LEVEL) (\<lambda>g.
                  broker_output env g r)))))"

end
