(* ===== verification/CommandFacts.thy ===== *)
theory CommandFacts
  imports CommandLine BrokerFacts
begin

text \<open>
  What a call of \<^verbatim>\<open>awg\<close> reports, what it gives away of an inspected command, and which calls can touch a workspace.
\<close>

subsection \<open>Reports\<close>

lemma report_cases:
  assumes "report body w = (x, w')"
  obtains v where "body w = (Inr v, w')" "x = Inr \<lparr>x_stdout = json_text v, x_stderr = '''', x_status = 0\<rparr>"
  | e where "body w = (Inl e, w')" "is_guard_error e" "x = Inr \<lparr>x_stdout = '''', x_stderr = error_text e, x_status = 2\<rparr>"
  | e where "body w = (Inl e, w')" "\<not> is_guard_error e" "x = Inl e"
  using assms by (auto simp: report_def split: prod.splits sum.splits if_splits)

text \<open>\<^verbatim>\<open>main\<close> as one of its three ways: a usage error, an inspection, an operation of the broker\<close>

definition broker_call :: "host \<Rightarrow> crypto \<Rightarrow> cli_env \<Rightarrow> string \<Rightarrow> request \<Rightarrow> json act" where
  "broker_call h cr env s r =
     bindA (liftA (absolute_path h env s)) (\<lambda>candidate.
     bindA (open_guard h cr candidate None DEFAULT_EXCLUDED_TOP_LEVEL) (\<lambda>g. broker_output env g r))"

lemma main_cases:
  obtains (usage) "main h cr env call = returnA usage_error"
  | (inspect) st shell source where "parse_args (e_state_root env) call = Some (st, Inspect_request shell source)"
      "main h cr env call = report (inspect_output h cr env shell source)"
  | (broker) s r where "parse_args (e_state_root env) call = Some (Some s, r)" "s \<noteq> ''''"
      "\<And>shell source. r \<noteq> Inspect_request shell source" "main h cr env call = report (broker_call h cr env s r)"
proof (cases "parse_args (e_state_root env) call")
  case None
  then show ?thesis using usage by (simp add: main_def)
next
  case (Some y)
  obtain st r where y: "y = (st, r)" by (cases y)
  show ?thesis
  proof (cases "\<exists>shell source. r = Inspect_request shell source")
    case True
    then show ?thesis using inspect Some y by (auto simp: main_def)
  next
    case False
    then have m: "main h cr env call = (case st of None \<Rightarrow> returnA usage_error
        | Some s \<Rightarrow> if s = '''' then returnA usage_error else report (broker_call h cr env s r))"
      using Some y by (cases r; cases st) (auto simp: main_def broker_call_def)
    show ?thesis
    proof (cases "st = None \<or> st = Some ''''")
      case True
      then show ?thesis using usage m by auto
    next
      case s: False
      then show ?thesis using broker m Some y False by (cases st) auto
    qed
  qed
qed

text \<open>
  A call that returns prints one JSON document and exits with status 0, or prints nothing on
  standard output and exits with status 2, after a usage error that changed nothing or with the class and the message
  of one of the broker's errors; no error of the broker's own classes escapes as an exception.
\<close>

theorem command_line_reports:
  "case main h cr env call w of
     (Inr r, w') \<Rightarrow>
       x_status r = 0 \<and> x_stderr r = '''' \<and> (\<exists>v. x_stdout r = json_text v) \<or>
       x_status r = 2 \<and> x_stdout r = '''' \<and>
         (r = usage_error \<and> w' = w \<or> (\<exists>e. is_guard_error e \<and> x_stderr r = error_text e))
   | (Inl e, _) \<Rightarrow> \<not> is_guard_error e"
proof -
  obtain x w' where m: "main h cr env call w = (x, w')" by (metis surj_pair)
  show ?thesis
  proof (cases rule: main_cases [of h cr env call])
    case usage
    then show ?thesis by (simp add: usage_error_def)
  next
    case (inspect st shell source)
    then show ?thesis using m by (auto elim!: report_cases)
  next
    case (broker s r)
    then show ?thesis using m by (auto elim!: report_cases)
  qed
qed

subsection \<open>What an inspection gives away\<close>

text \<open>Every finding the gate can report: none of them holds text of the command.\<close>

definition gate_findings :: "finding list" where
  "gate_findings =
     [plain_finding ''empty_command'' ''error'' ''empty shell payloads are rejected'',
      plain_finding ''command_too_large'' ''error'' ''shell payload exceeds the inspection budget'',
      plain_finding ''reserved_environment_mutation'' ''error''
        ''the command assigns to broker-owned home, temp, or user-state identity'',
      plain_finding ''sandbox_boundary_mutation'' ''error''
        ''privilege, mount, filesystem-format, or ACL mutation is outside the task capability'',
      plain_finding ''destructive_intent'' ''warning''
        (''destructive or overwrite-capable activity must remain inside the transaction '' @
         ''and be reviewed as an exact diff''),
      plain_finding ''catastrophic_target'' ''error''
        (''the payload references a root, home/profile, parent, current-directory, '' @
         ''or default-to-root target''),
      plain_finding ''nested_dynamic_destructive_shell'' ''warning''
        ''nested or evaluated shell code prevents reliable lexical interpretation'',
      plain_finding ''cross_shell_redirection'' ''warning''
        ''Bash redirection was used in PowerShell; use 2>$null'']"

lemma add_findings:
  "set (gs_findings (add n v t d st)) \<subseteq> insert (plain_finding n v t) (set (gs_findings st))"
  by (auto simp: add_def)

lemma check_findings:
  "set (gs_findings (check_reserved c st)) \<subseteq> set gate_findings \<union> set (gs_findings st)"
  "set (gs_findings (check_host_escape c st)) \<subseteq> set gate_findings \<union> set (gs_findings st)"
  "set (gs_findings (check_intent c b st)) \<subseteq> set gate_findings \<union> set (gs_findings st)"
  "set (gs_findings (check_dynamic c b st)) \<subseteq> set gate_findings \<union> set (gs_findings st)"
  "set (gs_findings (check_redirection c sh st)) \<subseteq> set gate_findings \<union> set (gs_findings st)"
  unfolding check_reserved_def check_host_escape_def check_intent_def check_dynamic_def check_redirection_def Let_def
  by (auto simp: gate_findings_def add_def split: if_splits)

lemma inspect_text_findings: "set (gs_findings (inspect_text c sh)) \<subseteq> set gate_findings"
proof -
  have "set (gs_findings st') \<subseteq> set gate_findings \<Longrightarrow> set (gs_findings st) \<subseteq> set gate_findings \<union> set (gs_findings st') \<Longrightarrow>
      set (gs_findings st) \<subseteq> set gate_findings" for st st' by blast
  note step = this [OF _ check_findings(1)] this [OF _ check_findings(2)] this [OF _ check_findings(3)]
    this [OF _ check_findings(4)] this [OF _ check_findings(5)]
  show ?thesis unfolding inspect_text_def Let_def by (intro step) simp
qed


definition inspect_call :: cli_call where
  "inspect_call = \<lparr>k_before = [], k_command = ''inspect'',
     k_options = [(''--shell'', ''bash''), (''--command-text'', ''rm -rf / # marker'')]\<rparr>"

definition plain_env :: cli_env where
  "plain_env = \<lparr>e_state_root = None, e_cwd = [''/'', ''w''], e_user_home = \<lambda>_. None\<rparr>"

lemma inspect_call_parsed:
  "parse_args (e_state_root plain_env) inspect_call = Some (None, Inspect_request ''bash'' (Command_text ''rm -rf / # marker''))"
  by code_simp


subsection \<open>What a call can touch\<close>

text \<open>Where the broker keeps its state, and a path apart from it\<close>

definition state_root :: "host \<Rightarrow> path \<Rightarrow> bool" where
  "state_root h c \<longleftrightarrow> rooted c \<and> h_resolve h c = c \<and> (\<forall>p. rooted p \<longrightarrow> rooted (h_resolve h p))"

lemma parent_child: "rooted p \<Longrightarrow> parent p = c \<Longrightarrow> rooted c \<Longrightarrow> \<exists>a. p = c @ [a]"
proof -
  assume "rooted p" "parent p = c"
  then have "p \<noteq> []" "butlast p = c" by (auto elim!: rootedE simp: parent_def)
  then show ?thesis by (metis append_butlast_last_id)
qed

lemma chmod_keeps: "rooted p \<Longrightarrow> apart p q \<Longrightarrow> obeys (keeps q) (chmodA h m p)"
  unfolding chmodA_def
proof (rule os_call_keeps)
  fix t x t' assume p: "rooted p" "apart p q" and t: "wf_node t"
    and f: "(case look p t of None \<Rightarrow> Inl (OSError ''FileNotFoundError'')
      | Some n \<Rightarrow> Inr ((), change_tree p (Some (set_mode m n)) t)) = Inr (x, t')"
  then obtain n where n: "look p t = Some n" "t' = change_tree p (Some (set_mode m n)) t" by (auto split: option.splits)
  have "wf_node (set_mode m n)" using look_wf [OF t n(1)] by (cases n) simp_all
  then show "wf_node t' \<and> look q t' = look q t" using n(2) wf_change [OF p(1) t] look_change_apart [OF p(2) t] by simp
qed

lemma open_keeps:
  assumes "state_root h c" "rooted q" "apart c q"
  shows "obeys (keeps q) (open_guard h cr c policy ex)"
proof -
  have c: "rooted c" "h_resolve h c = c" "\<And>p. rooted p \<Longrightarrow> rooted (h_resolve h p)" using assms(1) by (simp_all add: state_root_def)
  have below: "rooted (c @ [d])" "apart (c @ [d]) q" if "is_name d" for d
  proof -
    show "rooted (c @ [d])" using rooted_append [OF c(1)] that by simp
    have "c \<noteq> []" using c(1) by (auto simp: rooted_def)
    then show "apart (c @ [d]) q" using apart_below assms(3) by blast
  qed
  have mk: "obeys (keeps q) (mkdirsA h m c)" for m
    using mkdirsA_keeps [OF assms(2)] c(1) apart_not_above(1) [OF assms(3)] by blast
  have sub: "obeys (keeps q) (ensure_private_directory h (c @ [d]) c)" if d: "is_name d" for d
  proof -
    let ?p = "c @ [d]"
    have "obeys (keeps q) (mkdirA h 448 ?p)"
      using below [OF d] assms(2) apart_not_above(1) by (intro mkdirA_keeps) auto
    note mk_dir = this
    have rest: "obeys (keeps q) (thenA (requireA (parent (h_resolve h ?p) = h_resolve h c) e)
        (thenA (ignore_osA (chmodA h 448 (h_resolve h ?p))) (returnA (h_resolve h ?p))))" for e
    proof (cases "parent (h_resolve h ?p) = c")
      case True
      then obtain a where a: "h_resolve h ?p = c @ [a]" using parent_child c below(1) [OF d] by blast
      then have "rooted (c @ [a])" "apart (c @ [a]) q"
        using c(3) [OF below(1) [OF d]] c(1) assms(3) by (auto intro!: apart_below simp: rooted_def)
      then show ?thesis unfolding a by (intro keeps.bind keeps.pure keeps.ignore chmod_keeps)
    next
      case False
      then show ?thesis using c(2) by (auto simp: obeys_def bindA_def requireA_def on_trees_def)
    qed
    have "obeys (keeps q) (os_call h (\<lambda>t. if dir_there ?p t then Inr ((), t) else Inl e))" for e :: error
      by (intro reads_keeps os_call_reads) (auto split: if_splits)
    note tail = keeps.bind [OF this [of "UnsafePath ''broker state entry must be a real directory''"]
      rest [of "UnsafePath ''broker directory is outside its state namespace''"]]
    have "obeys (keeps q) (if there then returnA () else mkdirA h 448 ?p)" for there
      using mk_dir by (rule keeps.cond [OF keeps.pure(1)])
    then show ?thesis
      unfolding ensure_private_directory_def by (rule keeps.bind [OF reading_keeps(5) keeps.bind [OF _ tail]])
  qed
  have names: "is_name d" if "d \<in> set state_directories" for d
    using that by (auto simp: state_directories_def is_name_def is_component_def)
  have key: "is_name ''secret.key''" "is_name ''audit.jsonl''" by (simp_all add: is_name_def is_component_def)
  have "obeys (keeps q) (os_call h (create_file_tree (c @ [''secret.key'']) m k))" for m k
    using below [OF key(1)] by (intro change_keeps [of "c @ [''secret.key'']"]) (auto simp: create_file_tree_def split: if_splits)
  moreover have draw: "obeys (keeps q) (drawA h)" by (rule reads_keeps) (auto intro!: obeysI simp: drawA_def)
  moreover have stat: "obeys (keeps q) (lstatA h p)" for p
    unfolding lstatA_def by (intro reads_keeps os_call_reads) (auto split: option.splits)
  ultimately have k: "obeys (keeps q) (load_or_create_key h (c @ [''secret.key'']))"
    unfolding load_or_create_key_def butlast_snoc
    using mk chmod_keeps [OF below [OF key(1)]]
    by (auto intro!: keeps.bind keeps.pure keeps.os keeps.ignore reading_keeps split: node.splits)
  have "obeys (keeps q) (os_call h (\<lambda>t. if dir_there c t then Inr ((), t) else Inl e))" for e :: error
    by (intro reads_keeps os_call_reads) (auto split: if_splits)
  moreover have "obeys (keeps q) (os_call h (\<lambda>t. case look p t of None \<Rightarrow> Inr ((), t) | Some (FileN _ _ _) \<Rightarrow> Inr ((), t) | Some _ \<Rightarrow> Inl e))"
    for p and e :: error
    by (intro reads_keeps os_call_reads) (auto split: option.splits node.splits)
  ultimately have a: "obeys (keeps q) (audit_open h cr k (c @ [''audit.jsonl'']))" for k
    unfolding audit_open_def audit_verify_def butlast_snoc
    using mk by (auto intro!: keeps.bind keeps.pure reads_keeps [OF verify_unlocked_reads] split: prod.splits)
  have "obeys (keeps q) (ensure_absolute_directory h n True c)" for n
    unfolding ensure_absolute_directory_def if_True
    by (intro keeps.bind mk reads_keeps os_call_reads) (auto split: option.splits node.splits if_splits)
  then show ?thesis
    unfolding open_guard_def
  proof (rule keeps.bind_result)
    fix root w w' assume "ensure_absolute_directory h ''state root'' True c w = (Inr root, w')"
    then have "root = c" using c(2)
      by (auto simp: ensure_absolute_directory_def bindA_Inr_iff os_call_def Let_def split: if_splits option.splits node.splits)
    then show "obeys (keeps q) (thenA (ignore_osA (chmodA h 448 root))
      (thenA (liftA (reject_dangerous_workspace_root (h_resolve h (h_home h)) root))
      (thenA (forA (\<lambda>d. thenA (ensure_private_directory h (root @ [d]) root) (returnA ())) state_directories)
      (bindA (load_or_create_key h (root @ [''secret.key''])) (\<lambda>key.
       thenA (audit_open h cr (Some key) (root @ [''audit.jsonl'']))
         (returnA \<lparr>b_host = h, b_crypto = cr, b_key = key, b_root = root,
            b_policy = (case policy of Some p \<Rightarrow> p | None \<Rightarrow> default_policy\<lparr>g_protected_top_level := ex\<rparr>),
            b_excluded = ex\<rparr>))))))"
      using chmod_keeps [OF c(1) assms(3)] sub names k a
      by (auto intro!: keeps.bind keeps.pure keeps.ignore keeps.for_each)
  qed
qed

lemma open_guard_Inr:
  "open_guard h cr c policy ex w = (Inr g, w') \<Longrightarrow> b_host g = h \<and> b_crypto g = cr \<and> b_root g = h_resolve h c"
  by (auto simp: open_guard_def bindA_Inr_iff ensure_absolute_directory_def returnA_def os_call_def Let_def
      split: if_splits option.splits node.splits)

definition changes_workspace :: "request \<Rightarrow> bool" where
  "changes_workspace r \<longleftrightarrow> (case r of Commit_request _ _ \<Rightarrow> True | Restore_request _ \<Rightarrow> True | _ \<Rightarrow> False)"

lemma inspect_keeps: "obeys (keeps q) (inspect_output h cr env shell source)"
proof -
  have "obeys (keeps q) (read_text h p)" for p
    unfolding read_text_def by (intro reads_keeps os_call_reads) (auto split: option.splits node.splits)
  then show ?thesis
    unfolding inspect_output_def by (intro keeps.bind keeps.pure) (cases source; simp only: command_source.case keeps.pure)
qed

lemma broker_output_keeps:
  assumes "isolates g q" "\<not> changes_workspace r"
  shows "obeys (keeps q) (broker_output env g r)"
proof -
  note K = begin_keeps [OF assms(1)] plan_keeps [OF assms(1)] approve_keeps [OF assms(1)] discard_keeps [OF assms(1)]
    reads_keeps [OF environment_reads] reads_keeps [OF verify_unlocked_reads]
  show ?thesis
    unfolding broker_output_def verify_audit_def audit_verify_def using assms(2) K inspect_keeps
    by (cases r) (auto simp: changes_workspace_def intro!: keeps.bind keeps.pure bind_lift_keeps reading_keeps split: prod.splits)
qed

lemma broker_call_keeps:
  assumes "state_root h c" "rooted q" "apart c q" "absolute_path h env s = Inr c" "\<not> changes_workspace r"
  shows "obeys (keeps q) (broker_call h cr env s r)"
proof -
  have "obeys (keeps q) (broker_output env g r)"
    if "open_guard h cr c None DEFAULT_EXCLUDED_TOP_LEVEL w = (Inr g, w')" for g w w'
    using open_guard_Inr [OF that] assms by (intro broker_output_keeps) (auto simp: guarded_def state_root_def)
  then show ?thesis
    unfolding broker_call_def assms(4) using open_keeps [OF assms(1-3)]
    by (intro bind_lift_keeps) (auto intro!: keeps.bind_result)
qed

lemma report_obeys: "obeys R body \<Longrightarrow> obeys R (report body)"
  by (auto simp: obeys_def elim!: report_cases)

text \<open>
  C34. Only \<^verbatim>\<open>commit\<close> and \<^verbatim>\<open>restore\<close> can change a workspace: whatever else \<^verbatim>\<open>awg\<close> is called with, opening the broker and running the
  operation leave everything apart from the state root exactly as it was, whichever calls fail.
\<close>

theorem only_commit_changes_workspace:
  assumes "state_root h c" and "rooted q" and "apart c q" and "wf_node (w_tree w)"
    and "\<And>st r. parse_args (e_state_root env) call = Some (st, r) \<Longrightarrow>
      \<not> changes_workspace r \<and> (\<forall>s. st = Some s \<longrightarrow> absolute_path h env s = Inr c)"
  shows "look q (w_tree (snd (main h cr env call w))) = look q (w_tree w)"
proof -
  have "obeys (keeps q) (main h cr env call)"
  proof (cases rule: main_cases [of h cr env call])
    case usage
    then show ?thesis by auto
  next
    case (inspect st shell source)
    then show ?thesis using report_obeys [OF inspect_keeps] by simp
  next
    case (broker s r)
    then show ?thesis using report_obeys [OF broker_call_keeps [OF assms(1-3), of env s r cr]] assms(5) [OF broker(1)] by simp
  qed
  then have "keeps q w (snd (main h cr env call w))" by (metis obeysD surj_pair snd_conv)
  then show ?thesis using assms(4) by (simp add: on_trees_def)
qed

definition begin_call :: cli_call where
  "begin_call = \<lparr>k_before = [], k_command = ''begin'',
     k_options = [(''--task-id'', ''t''), (''--workspace'', ''/w'')]\<rparr>"

definition busy_env :: cli_env where
  "busy_env = \<lparr>e_state_root = Some ''/s'', e_cwd = [''/'', ''w''], e_user_home = \<lambda>_. None\<rparr>"

lemma begin_call_parsed:
  "parse_args (e_state_root busy_env) begin_call = Some (Some ''/s'', Begin_request ''/w'' ''t'')"
  "absolute_path quiet_host busy_env ''/s'' = Inr [''/'', ''s'']"
  by code_simp+

theorem only_commit_changes_workspace_witness:
  "look [''/'', ''w''] (w_tree (snd (main quiet_host sample_crypto busy_env begin_call busy_world))) =
    look [''/'', ''w''] (w_tree busy_world)"
proof (rule only_commit_changes_workspace)
  show "state_root quiet_host [''/'', ''s'']" by (simp add: state_root_def quiet_host_def rooted_def is_name_def is_component_def)
  show "rooted [''/'', ''w'']" "apart [''/'', ''s''] [''/'', ''w'']"
    by (simp_all add: rooted_def is_name_def is_component_def apart_def parallel_def)
qed (simp_all add: busy_world_wf begin_call_parsed changes_workspace_def)

end
