(* ===== verification/RepoManifest.thy ===== *)
theory RepoManifest
  imports CommandLine
begin

unbundle bit_operations_syntax

text \<open>
  \<^verbatim>\<open>scripts/verify_manifest.py\<close>: the SHA-256 manifest of the files of the repository, how it is written, parsed and
  compared with the tree. A \<^verbatim>\<open>RuntimeError\<close> of the script is the \<open>PyError\<close> with that name and the message.
\<close>

subsection \<open>The files of the repository\<close>

definition IGNORED_DIRECTORIES :: "string list" where
  "IGNORED_DIRECTORIES =
     [''.git'', ''.venv'', ''.awg-state'', ''__pycache__'', ''build'', ''dist'', ''dist-release'', ''htmlcov'', ''release'']"

definition IGNORED_SUFFIXES :: "string list" where
  "IGNORED_SUFFIXES = [''.pyc'', ''.pyo'']"

definition IGNORED_NAMES :: "string list" where
  "IGNORED_NAMES = [''.coverage'', ''.DS_Store'', ''Thumbs.db'', ''MANIFEST.sha256'']"

definition ignored :: "path \<Rightarrow> bool" where
  "ignored relative \<longleftrightarrow>
     path_name relative \<in> set IGNORED_NAMES \<or> path_suffix relative \<in> set IGNORED_SUFFIXES \<or>
     list_ex (\<lambda>part. part \<in> set IGNORED_DIRECTORIES \<or> endswith part ''.egg-info'') relative"

definition runtime_error :: "string \<Rightarrow> error" where
  "runtime_error t = PyError (''RuntimeError: '' @ t)"

fun is_link :: "node \<Rightarrow> bool" where
  "is_link (LinkN _ _ _) = True"
| "is_link _ = False"

fun is_regular :: "node \<Rightarrow> bool" where
  "is_regular (FileN _ _ _) = True"
| "is_regular _ = False"

text \<open>\<^verbatim>\<open>ROOT.rglob("*")\<close> lists every node below the root and enters no symbolic link.\<close>

definition repository_files :: "node \<Rightarrow> path list result" where
  "repository_files root =
     (let found = filter (\<lambda>(relative, _). \<not> ignored relative) (listing [] (kids root))
      in if list_ex (\<lambda>(_, n). is_link n) found
         then Inl (runtime_error ''repository manifest does not permit symlinks'')
         else Inr (sort_key path_str (map fst (filter (\<lambda>(_, n). is_regular n) found))))"

definition repository_filesA :: "host \<Rightarrow> path \<Rightarrow> path list act" where
  "repository_filesA h root = bindA (os_call h (\<lambda>t.
     case look root t of
       None \<Rightarrow> Inr (Inr [], t)
     | Some n \<Rightarrow> Inr (repository_files n, t))) liftA"

text \<open>\<^verbatim>\<open>_sha256\<close>: the digest is updated with one chunk of the file after another\<close>

function read_chunks :: "nat \<Rightarrow> string \<Rightarrow> string list" where
  "read_chunks n s = (if n = 0 \<or> s = [] then [] else take n s # read_chunks n (drop n s))"
  by pat_completeness auto
termination by (relation "measure (\<lambda>(n, s). length s)") auto

declare read_chunks.simps [simp del]

definition digest_of_chunks :: "crypto \<Rightarrow> string list \<Rightarrow> string" where
  "digest_of_chunks cr chunks = sha256 cr (concat chunks)"

definition file_sha256 :: "host \<Rightarrow> crypto \<Rightarrow> path \<Rightarrow> string act" where
  "file_sha256 h cr p = os_call h (\<lambda>t.
     case look p t of
       Some (FileN _ _ content) \<Rightarrow> Inr (digest_of_chunks cr (read_chunks (1024 * 1024) content), t)
     | None \<Rightarrow> Inl (OSError ''FileNotFoundError'')
     | Some _ \<Rightarrow> Inl (OSError ''cannot read the file''))"

subsection \<open>Reading the manifest\<close>

text \<open>\<^verbatim>\<open>str.splitlines\<close>: Python breaks a line at more characters than the newline.\<close>

definition is_line_break :: "char \<Rightarrow> bool" where
  "is_line_break c \<longleftrightarrow> c \<in> {CHR 0x0A, CHR 0x0B, CHR 0x0C, CHR 0x0D, CHR 0x1C, CHR 0x1D, CHR 0x1E, CHR 0x85}"

function splitlines :: "string \<Rightarrow> string list" where
  "splitlines [] = []"
| "splitlines (c # cs) =
     (if is_line_break c
      then [] # splitlines (if c = CHR 0x0D \<and> prefix [CHR 0x0A] cs then tl cs else cs)
      else case splitlines cs of [] \<Rightarrow> [[c]] | w # ws \<Rightarrow> (c # w) # ws)"
  by pat_completeness auto
termination by (relation "measure length") auto

text \<open>\<^verbatim>\<open>line.split("  ", 1)\<close>, when there is a separator\<close>

fun split_two_spaces :: "string \<Rightarrow> (string \<times> string) option" where
  "split_two_spaces (c # d # cs) =
     (if c = CHR '' '' \<and> d = CHR '' '' then Some ([], cs)
      else map_option (\<lambda>(a, b). (c # a, b)) (split_two_spaces (d # cs)))"
| "split_two_spaces _ = None"

definition DIGEST_RE :: regex where
  "DIGEST_RE = seqs [TextStart, rep 64 64 (Cls hex_lower), TextEnd]"

text \<open>One line; the records are the dictionary so far.\<close>

definition parse_line :: "(string \<times> string) list \<Rightarrow> string \<Rightarrow> (string \<times> string) list result" where
  "parse_line records line =
     (if line = [] \<or> startswith line ''#'' then Inr records
      else
        case split_two_spaces line of
          None \<Rightarrow> Inl (runtime_error ''invalid manifest line'')
        | Some (digest, raw_path) \<Rightarrow>
            let relative = path_of raw_path; normalized = path_str relative
            in if \<not> re_fullmatch DIGEST_RE digest then Inl (runtime_error ''invalid SHA-256 on manifest line'')
               else if raw_path = [] \<or> is_absolute relative \<or> CHR 0x5C \<in> set raw_path \<or>
                   list_ex (\<lambda>part. part \<in> {'''', ''.'', ''..''}) relative
               then Inl (runtime_error ''unsafe manifest path'')
               else if normalized \<in> fst ` set records
               then Inl (runtime_error ''duplicate manifest path'')
               else Inr (records @ [(normalized, digest)]))"

fun parse_lines :: "(string \<times> string) list \<Rightarrow> string list \<Rightarrow> (string \<times> string) list result" where
  "parse_lines records [] = Inr records"
| "parse_lines records (l # ls) = bindE (parse_line records l) (\<lambda>records. parse_lines records ls)"

definition manifest_file :: "path \<Rightarrow> path" where
  "manifest_file root = root @ [''MANIFEST.sha256'']"

definition parse_manifest :: "host \<Rightarrow> path \<Rightarrow> (string \<times> string) list act" where
  "parse_manifest h root =
     bindA (\<lambda>w. case read_text h (manifest_file root) w of
         (Inl (OSError t), w') \<Rightarrow>
           (Inl (if t = ''FileNotFoundError'' then runtime_error ''manifest is missing'' else OSError t), w')
       | r \<Rightarrow> r)
       (\<lambda>s. liftA (parse_lines [] (splitlines s)))"

subsection \<open>Writing the manifest\<close>

fun forall_sha256 :: "host \<Rightarrow> crypto \<Rightarrow> path \<Rightarrow> path list \<Rightarrow> (string \<times> string) list act" where
  "forall_sha256 h cr root [] = returnA []"
| "forall_sha256 h cr root (p # ps) =
     bindA (file_sha256 h cr (root @ p)) (\<lambda>d.
     bindA (forall_sha256 h cr root ps) (\<lambda>rest. returnA ((path_str p, d) # rest)))"

definition manifest_header :: "string list" where
  "manifest_header =
     [''# Agent Workspace Guard repository SHA-256 manifest'',
      ''# Generated by scripts/verify_manifest.py; excludes MANIFEST.sha256 and generated artifacts.'']"

definition manifest_payload :: "(string \<times> string) list \<Rightarrow> string" where
  "manifest_payload records =
     join_with [CHR 0x0A] (manifest_header @ map (\<lambda>(p, d). d @ ''  '' @ p) records @ [[]])"

text \<open>\<^verbatim>\<open>Path.write_text\<close>: the file is opened, which empties or creates it, and then written.\<close>

definition open_write_tree :: "int \<Rightarrow> path \<Rightarrow> node \<Rightarrow> (unit \<times> node) result" where
  "open_write_tree umask p t =
     (case look p t of
        None \<Rightarrow> create_file_tree p (438 AND NOT umask) [] t
      | Some (FileN d m _) \<Rightarrow> Inr ((), change_tree p (Some (FileN d m [])) t)
      | Some _ \<Rightarrow> Inl (OSError ''cannot write the file''))"

definition fill_tree :: "path \<Rightarrow> string \<Rightarrow> node \<Rightarrow> (unit \<times> node) result" where
  "fill_tree p bytes t =
     (case look p t of
        Some (FileN d m _) \<Rightarrow> Inr ((), change_tree p (Some (FileN d m bytes)) t)
      | _ \<Rightarrow> Inl (OSError ''the file is gone''))"

definition write_text :: "host \<Rightarrow> path \<Rightarrow> string \<Rightarrow> unit act" where
  "write_text h p s =
     thenA (os_call h (open_write_tree (h_umask h) p)) (os_call h (fill_tree p (utf8_encode s)))"

definition write_manifest :: "host \<Rightarrow> crypto \<Rightarrow> path \<Rightarrow> string act" where
  "write_manifest h cr root =
     bindA (repository_filesA h root) (\<lambda>files.
     bindA (forall_sha256 h cr root files) (\<lambda>records.
     thenA (write_text h (manifest_file root) (manifest_payload records))
       (returnA (''Manifest written: '' @ nat_str (length records) @ '' files'' @ [CHR 0x0A]))))"

subsection \<open>Comparing it with the tree\<close>

fun digest_mismatches :: "host \<Rightarrow> crypto \<Rightarrow> path \<Rightarrow> (string \<times> string) list \<Rightarrow> string list \<Rightarrow> string list act" where
  "digest_mismatches h cr root expected [] = returnA []"
| "digest_mismatches h cr root expected (p # ps) =
     bindA (file_sha256 h cr (joinpath root (path_of p))) (\<lambda>d.
     bindA (digest_mismatches h cr root expected ps) (\<lambda>errors.
       let e = the (map_of expected p)
       in returnA (if d \<noteq> e
            then (''digest mismatch for '' @ p @ '': expected '' @ e @ '', got '' @ d) # errors
            else errors)))"

definition set_errors :: "string \<Rightarrow> string list \<Rightarrow> string list" where
  "set_errors title names = (if names = [] then [] else [title @ join_with '', '' names])"

definition verify_repository :: "host \<Rightarrow> crypto \<Rightarrow> path \<Rightarrow> string act" where
  "verify_repository h cr root =
     bindA (parse_manifest h root) (\<lambda>expected.
     bindA (repository_filesA h root) (\<lambda>files.
       let actual_files = map path_str files;
           expected_files = map fst expected;
           missing_from_manifest = sort (filter (\<lambda>p. p \<notin> set expected_files) (remdups actual_files));
           missing_from_tree = sort (filter (\<lambda>p. p \<notin> set actual_files) expected_files)
       in bindA (digest_mismatches h cr root expected (sort (filter (\<lambda>p. p \<in> set actual_files) expected_files)))
            (\<lambda>mismatches.
              let errors = set_errors ''files omitted from manifest: '' missing_from_manifest @
                    set_errors ''manifest files missing from tree: '' missing_from_tree @ mismatches
              in if errors \<noteq> []
                 then raiseA (runtime_error (''repository manifest verification failed:'' @ [CHR 0x0A] @ ''- '' @
                   join_with ([CHR 0x0A] @ ''- '') errors))
                 else returnA (''Manifest verified: '' @ nat_str (length expected) @ '' files'' @ [CHR 0x0A]))))"

text \<open>\<^verbatim>\<open>main\<close>: \<open>write_option\<close> is \<^verbatim>\<open>--write\<close>; an \<^verbatim>\<open>OSError\<close> or a \<^verbatim>\<open>RuntimeError\<close> is printed, any other exception escapes.\<close>

fun is_script_error :: "error \<Rightarrow> bool" where
  "is_script_error (PyError t) = prefix ''RuntimeError'' t"
| "is_script_error _ = True"

definition manifest_main :: "host \<Rightarrow> crypto \<Rightarrow> path \<Rightarrow> bool \<Rightarrow> cli_result act" where
  "manifest_main h cr root write_option w =
     (case (if write_option then write_manifest h cr root else verify_repository h cr root) w of
        (Inr printed, w') \<Rightarrow> (Inr \<lparr>x_stdout = printed, x_stderr = '''', x_status = 0\<rparr>, w')
      | (Inl e, w') \<Rightarrow>
          if is_script_error e
          then (Inr \<lparr>x_stdout = '''', x_stderr = ''manifest error: '' @ message e @ [CHR 0x0A], x_status = 1\<rparr>, w')
          else (Inl e, w'))"

end
