(* ===== verification/RepoFacts.thy ===== *)
theory RepoFacts
  imports RepoManifest RollbackFacts
begin

text \<open>
  When the repository manifest verifies, and that what \<^verbatim>\<open>--write\<close> writes does.
\<close>

subsection \<open>The manifest as a map\<close>

text \<open>The digest of each file the manifest is to list, and what a tree may not contain\<close>

definition tracked :: "crypto \<Rightarrow> node \<Rightarrow> string \<Rightarrow> string option" where
  "tracked cr root = map_of (map (\<lambda>(p, n). (path_str p, node_digest cr n))
     (filter (\<lambda>(p, n). \<not> ignored p \<and> is_regular n) (listing [] (kids root))))"

definition linkless :: "node \<Rightarrow> bool" where
  "linkless root \<longleftrightarrow> list_all (\<lambda>(p, n). ignored p \<or> \<not> is_link n) (listing [] (kids root))"

text \<open>The records in the manifest file of a tree\<close>

definition stored_manifest :: "path \<Rightarrow> node \<Rightarrow> (string \<times> string) list option" where
  "stored_manifest root t =
     (case look (manifest_file root) t of
        Some (FileN _ _ content) \<Rightarrow>
          (case utf8_decode content of
             None \<Rightarrow> None
           | Some s \<Rightarrow>
               (case parse_lines [] (splitlines (universal_newlines s)) of Inl _ \<Rightarrow> None | Inr records \<Rightarrow> Some records))
      | _ \<Rightarrow> None)"

lemma listed_iff:
  assumes "wf_node root"
  shows "(p, n) \<in> set (listing [] (kids root)) \<longleftrightarrow> p \<noteq> [] \<and> get p root = Some n"
  unfolding listing_mem [OF wf_kids [OF assms]] by (cases p) (auto split: option.splits)

lemma listed_names:
  assumes "wf_node root" "(p, n) \<in> set (listing [] (kids root))"
  shows "p \<noteq> []" "\<forall>a \<in> set p. is_component a"
  using assms get_wf [OF assms(1), of p n] by (auto simp: listed_iff is_name_def)

lemma path_of_listed:
  "wf_node root \<Longrightarrow> (p, n) \<in> set (listing [] (kids root)) \<Longrightarrow> path_of (path_str p) = p"
  by (rule path_of_path_str) (simp_all add: listed_names)

lemma map_of_unique: "(\<And>x y. (k, x) \<in> set xs \<Longrightarrow> (k, y) \<in> set xs \<Longrightarrow> x = y) \<Longrightarrow> (k, v) \<in> set xs \<Longrightarrow> map_of xs k = Some v"
  by (metis map_of_SomeD map_of_eq_None_iff fst_conv image_eqI not_None_eq)

lemma tracked_iff:
  assumes "wf_node root"
  shows "tracked cr root q = Some d \<longleftrightarrow>
    (\<exists>p n. p \<noteq> [] \<and> get p root = Some n \<and> \<not> ignored p \<and> is_regular n \<and> q = path_str p \<and> d = node_digest cr n)"
    (is "?l \<longleftrightarrow> ?r")
proof -
  let ?xs = "map (\<lambda>(p, n). (path_str p, node_digest cr n))
     (filter (\<lambda>(p, n). \<not> ignored p \<and> is_regular n) (listing [] (kids root)))"
  have r: "?r \<longleftrightarrow> (q, d) \<in> set ?xs" using listed_iff [OF assms] by (auto simp:  image_iff)
  have "x = y" if "(q, x) \<in> set ?xs" "(q, y) \<in> set ?xs" for x y
    using that by (auto simp: listed_iff [OF assms]) (metis path_of_listed [OF assms] listed_iff [OF assms] option.inject)
  then show ?thesis unfolding tracked_def r by (metis map_of_SomeD map_of_unique)
qed

lemma concat_chunks: "0 < n \<Longrightarrow> concat (read_chunks n s) = s"
  by (induction n s rule: read_chunks.induct) (subst read_chunks.simps, simp)

lemma file_sha256_Inr:
  "file_sha256 h cr p w = (Inr d, w') \<Longrightarrow>
    w_tree w' = w_tree w \<and> (\<exists>n. look p (w_tree w) = Some n \<and> is_regular n \<and> d = node_digest cr n)"
  by (auto simp: file_sha256_def os_call_def Let_def digest_of_chunks_def concat_chunks split: if_splits option.splits node.splits)

lemma file_sha256_quiet:
  assumes "\<forall>i. \<not> h_fault h i" "look p (w_tree w) = Some n" "is_regular n"
  shows "\<exists>w'. file_sha256 h cr p w = (Inr (node_digest cr n), w') \<and> w_tree w' = w_tree w"
  using assms by (cases n) (auto simp: file_sha256_def os_call_def Let_def digest_of_chunks_def concat_chunks)

subsection \<open>The repository's files\<close>

lemma repository_files_Inr:
  assumes "wf_node root"
  shows "repository_files root = Inr files \<longleftrightarrow>
    linkless root \<and> files = sort_key path_str (map fst (filter (\<lambda>(p, n). \<not> ignored p \<and> is_regular n) (listing [] (kids root))))"
proof -
  have "list_ex (\<lambda>(_, n). is_link n) (filter (\<lambda>(relative, _). \<not> ignored relative) (listing [] (kids root))) \<longleftrightarrow> \<not> linkless root"
    by (force simp: linkless_def list_ex_iff list_all_iff)
  then show ?thesis by (auto simp: repository_files_def Let_def case_prod_unfold conj_commute)
qed

lemma repository_files_set:
  assumes "wf_node root" "repository_files root = Inr files"
  shows "p \<in> set files \<longleftrightarrow> p \<noteq> [] \<and> (\<exists>n. get p root = Some n \<and> \<not> ignored p \<and> is_regular n)"
    "distinct files" "path_str ` set files = dom (tracked cr root)" "p \<in> set files \<Longrightarrow> path_of (path_str p) = p"
proof -
  let ?xs = "filter (\<lambda>(p, n). \<not> ignored p \<and> is_regular n) (listing [] (kids root))"
  have f: "files = sort_key path_str (map fst ?xs)" using assms by (simp add: repository_files_Inr)
  show s: "p \<in> set files \<longleftrightarrow> p \<noteq> [] \<and> (\<exists>n. get p root = Some n \<and> \<not> ignored p \<and> is_regular n)" for p
    using listed_iff [OF assms(1)] by (auto simp: f image_iff) 
  have "distinct (map fst ?xs)" by (rule distinct_map_filter [OF listing_distinct [OF wf_kids [OF assms(1)]]])
  then show "distinct files" by (simp add: f)
  show "path_str ` set files = dom (tracked cr root)" using tracked_iff [OF assms(1)] s by (auto simp: dom_def image_iff) metis+
  show "p \<in> set files \<Longrightarrow> path_of (path_str p) = p"
    using path_of_listed [OF assms(1)] listed_iff [OF assms(1)] by (simp only: s) blast
qed

subsection \<open>The verification\<close>

lemma parse_manifest_Inr:
  "parse_manifest h root w = (Inr records, w') \<Longrightarrow>
    w_tree w' = w_tree w \<and> stored_manifest root (w_tree w) = Some records"
  by (auto simp: parse_manifest_def read_text_def os_call_def Let_def stored_manifest_def bindA_def
      split: if_splits option.splits node.splits)

lemma parse_manifest_quiet:
  assumes "\<forall>i. \<not> h_fault h i" "stored_manifest root (w_tree w) = Some records"
  shows "\<exists>w'. parse_manifest h root w = (Inr records, w') \<and> w_tree w' = w_tree w"
  using assms by (auto simp: parse_manifest_def read_text_def os_call_def Let_def stored_manifest_def bindA_def
      split: if_splits option.splits node.splits sum.splits)

lemma repository_filesA_Inr:
  assumes "look root (w_tree w) = Some n"
  shows "repository_filesA h root w = (Inr files, w') \<Longrightarrow> w_tree w' = w_tree w \<and> repository_files n = Inr files"
    "\<forall>i. \<not> h_fault h i \<Longrightarrow> \<exists>w'. repository_filesA h root w = (repository_files n, w') \<and> w_tree w' = w_tree w"
  using assms by (auto simp: repository_filesA_def os_call_def Let_def bindA_def split: if_splits)

lemma digest_mismatches_Inr:
  "digest_mismatches h cr root expected ps w = (Inr errors, w') \<Longrightarrow> p \<in> set ps \<Longrightarrow>
    \<exists>n. look (joinpath root (path_of p)) (w_tree w) = Some n \<and> is_regular n \<and>
      (errors = [] \<longrightarrow> node_digest cr n = the (map_of expected p))"
proof (induction ps arbitrary: w errors w')
  case (Cons a ps)
  from Cons.prems(1) obtain d w1 rest w2 where r: "file_sha256 h cr (joinpath root (path_of a)) w = (Inr d, w1)"
    "digest_mismatches h cr root expected ps w1 = (Inr rest, w2)" "errors = [] \<Longrightarrow> d = the (map_of expected a) \<and> rest = []"
    by (auto simp: bindA_Inr_iff Let_def returnA_def split: if_splits)
  note d = file_sha256_Inr [OF r(1)]
  show ?case using Cons.IH [OF r(2)] Cons.prems(2) d r(3) by (cases "p = a") auto
qed simp

lemma digest_mismatches_tree:
  "digest_mismatches h cr root expected ps w = (Inr errors, w') \<Longrightarrow> w_tree w' = w_tree w"
  by (induction ps arbitrary: w errors) (fastforce simp: bindA_Inr_iff Let_def returnA_def dest: file_sha256_Inr)+

lemma digest_mismatches_quiet:
  assumes "\<forall>i. \<not> h_fault h i"
    and "\<And>p. p \<in> set ps \<Longrightarrow> \<exists>n. look (joinpath root (path_of p)) (w_tree w) = Some n \<and> is_regular n \<and>
      node_digest cr n = the (map_of expected p)"
  shows "\<exists>w'. digest_mismatches h cr root expected ps w = (Inr [], w') \<and> w_tree w' = w_tree w"
  using assms(2)
proof (induction ps arbitrary: w)
  case (Cons a ps)
  from Cons.prems [of a] obtain n where n: "look (joinpath root (path_of a)) (w_tree w) = Some n" "is_regular n"
    "node_digest cr n = the (map_of expected a)" by auto
  from file_sha256_quiet [where cr = cr, OF assms(1) n(1,2)] obtain w1 where
    w1: "file_sha256 h cr (joinpath root (path_of a)) w = (Inr (node_digest cr n), w1)" "w_tree w1 = w_tree w" by blast
  have "\<exists>w'. digest_mismatches h cr root expected ps w1 = (Inr [], w') \<and> w_tree w' = w_tree w1"
    using Cons.IH [of w1] Cons.prems w1(2) by simp
  then show ?case using w1 n(3) by (auto simp: bindA_def returnA_def)
qed simp

lemma parse_line_keys:
  "parse_line records l = Inr records' \<Longrightarrow> distinct (map fst records) \<Longrightarrow> distinct (map fst records')"
  by (auto simp: parse_line_def Let_def split: if_splits option.splits)

lemma parse_lines_keys:
  "parse_lines records ls = Inr records' \<Longrightarrow> distinct (map fst records) \<Longrightarrow> distinct (map fst records')"
  by (induction records ls rule: parse_lines.induct) (auto simp: bindE_Inr_iff dest: parse_line_keys)

lemma joinpath_names: "\<forall>a \<in> set p. is_component a \<Longrightarrow> joinpath root p = root @ p"
  by (cases p) (auto simp: joinpath_def is_absolute_def component_not_anchor)

lemma set_errors_iff: "set_errors title names = [] \<longleftrightarrow> names = []"
  by (simp add: set_errors_def)

lemma filter_sort_none: "sort (filter P xs) = [] \<longleftrightarrow> (\<forall>x \<in> set xs. \<not> P x)"
  by (metis filter_empty_conv set_empty set_sort)

definition manifest_agrees :: "crypto \<Rightarrow> path \<Rightarrow> node \<Rightarrow> node \<Rightarrow> bool" where
  "manifest_agrees cr root t n \<longleftrightarrow> linkless n \<and>
     (case stored_manifest root t of None \<Rightarrow> False | Some records \<Rightarrow> map_of records = tracked cr n)"

lemma stored_distinct: "stored_manifest root t = Some records \<Longrightarrow> distinct (map fst records)"
  by (auto simp: stored_manifest_def split: option.splits node.splits sum.splits dest: parse_lines_keys)

lemma tracked_look:
  assumes "wf_node n" "root \<noteq> []" "look root t = Some n" "tracked cr n q = Some d"
  shows "\<exists>m. look (joinpath root (path_of q)) t = Some m \<and> is_regular m \<and> node_digest cr m = d"
proof -
  obtain p m where p: "p \<noteq> []" "get p n = Some m" "is_regular m" "q = path_str p" "d = node_digest cr m"
    using assms(4) unfolding tracked_iff [OF assms(1)] by blast
  have "\<forall>a \<in> set p. is_component a" using get_wf [OF assms(1) p(2)] by (simp add: is_name_def)
  moreover from this have "path_of q = p" using p(1,4) path_of_path_str by blast
  ultimately show ?thesis using p assms(2,3) by (auto simp: joinpath_names look_append)
qed

text \<open>The checks of \<^verbatim>\<open>verify_manifest\<close> before the digests: the same paths on both sides\<close>

lemma same_paths:
  assumes "wf_node n" "repository_files n = Inr files"
  shows "set_errors a (sort (filter (\<lambda>p. p \<notin> set (map fst expected)) (remdups (map path_str files)))) = [] \<and>
      set_errors b (sort (filter (\<lambda>p. p \<notin> set (map path_str files)) (map fst expected))) = [] \<longleftrightarrow>
    dom (map_of expected) = dom (tracked cr n)"
  unfolding set_errors_iff filter_sort_none
  using repository_files_set(3) [OF assms, of cr] by (simp add: dom_map_of_conv_image_fst) blast

lemma verify_repository_sound:
  assumes "wf_node (w_tree w)" "root \<noteq> []" "look root (w_tree w) = Some n" "verify_repository h cr root w = (Inr s, w')"
  shows "w_tree w' = w_tree w \<and> manifest_agrees cr root (w_tree w) n"
proof -
  have wf: "wf_node n" by (rule look_wf [OF assms(1,3)])
  obtain expected w1 files w2 mismatches w3 where
    e: "parse_manifest h root w = (Inr expected, w1)" and f: "repository_filesA h root w1 = (Inr files, w2)" and
    m: "digest_mismatches h cr root expected
        (sort (filter (\<lambda>p. p \<in> set (map path_str files)) (map fst expected))) w2 = (Inr mismatches, w3)" and
    z: "set_errors ''files omitted from manifest: ''
        (sort (filter (\<lambda>p. p \<notin> set (map fst expected)) (remdups (map path_str files)))) = []"
      "set_errors ''manifest files missing from tree: ''
        (sort (filter (\<lambda>p. p \<notin> set (map path_str files)) (map fst expected))) = []" "mismatches = []" "w3 = w'"
    using assms(4) unfolding verify_repository_def Let_def bindA_Inr_iff
    by (auto simp: returnA_def raiseA_def split: if_splits)
  note E = parse_manifest_Inr [OF e]
  have n1: "look root (w_tree w1) = Some n" using E assms(3) by simp
  note F = repository_filesA_Inr(1) [OF n1 f]
  have ex: "distinct (map fst expected)" using stored_distinct E by blast
  have lk: "linkless n" using F wf by (simp add: repository_files_Inr)
  have dom: "dom (map_of expected) = dom (tracked cr n)"
    using same_paths [OF wf conjunct2 [OF F], THEN iffD1, OF conjI, OF z(1,2)] .
  have eq: "map_of expected q = tracked cr n q" if q: "q \<in> dom (tracked cr n)" for q
  proof -
    obtain d where d: "tracked cr n q = Some d" using q by auto
    have qe: "q \<in> set (map fst expected)" using q dom by (metis dom_map_of_conv_image_fst set_map)
    moreover have "q \<in> set (map path_str files)" using repository_files_set(3) [OF wf conjunct2 [OF F], of cr] q by simp
    ultimately obtain k where "look (joinpath root (path_of q)) (w_tree w2) = Some k" "node_digest cr k = the (map_of expected q)"
      using digest_mismatches_Inr [OF m, of q] z(3) by auto
    then have "the (map_of expected q) = d"
      using tracked_look [OF wf assms(2) n1 d] F by auto
    moreover obtain c where "map_of expected q = Some c" using q dom by auto
    ultimately show ?thesis using d by simp
  qed
  have "map_of expected = tracked cr n"
  proof
    show "map_of expected q = tracked cr n q" for q using dom eq [of q] by (cases "q \<in> dom (tracked cr n)") (auto simp: domIff)
  qed
  then show ?thesis using E F z(4) lk digest_mismatches_tree [OF m] by (simp add: manifest_agrees_def)
qed

lemma verify_repository_complete:
  assumes "wf_node (w_tree w)" "root \<noteq> []" "look root (w_tree w) = Some n" "\<forall>i. \<not> h_fault h i"
    and "manifest_agrees cr root (w_tree w) n"
  shows "\<exists>s w'. verify_repository h cr root w = (Inr s, w')"
proof -
  have wf: "wf_node n" by (rule look_wf [OF assms(1,3)])
  obtain expected where e: "stored_manifest root (w_tree w) = Some expected" "map_of expected = tracked cr n" "linkless n"
    using assms(5) by (auto simp: manifest_agrees_def split: option.splits)
  obtain w1 where w1: "parse_manifest h root w = (Inr expected, w1)" "w_tree w1 = w_tree w"
    using parse_manifest_quiet [where w = w, OF assms(4) e(1)] by blast
  obtain files where f: "repository_files n = Inr files" using e(3) wf by (simp add: repository_files_Inr)
  obtain w2 where w2: "repository_filesA h root w1 = (Inr files, w2)" "w_tree w2 = w_tree w"
    using repository_filesA_Inr(2) [of root w1 n h] w1(2) assms(3,4) f by metis
  let ?ps = "sort (filter (\<lambda>p. p \<in> set (map path_str files)) (map fst expected))"
  obtain w3 where w3: "digest_mismatches h cr root expected ?ps w2 = (Inr [], w3)"
  proof (rule exE [OF digest_mismatches_quiet [OF assms(4), of ?ps root w2 cr expected]])
    fix p assume "p \<in> set ?ps"
    then have "p \<in> dom (tracked cr n)" using repository_files_set(3) [OF wf f, of cr] by auto
    then show "\<exists>m. look (joinpath root (path_of p)) (w_tree w2) = Some m \<and> is_regular m \<and>
        node_digest cr m = the (map_of expected p)"
      using tracked_look [OF wf assms(2), of "w_tree w2" cr p] w2(2) assms(3) e(2) by auto
  qed blast
  have "dom (map_of expected) = dom (tracked cr n)" using e(2) by simp
  from same_paths [OF wf f, THEN iffD2, OF this] w1(1) w2(1) w3 show ?thesis
    unfolding verify_repository_def Let_def bindA_Inr_iff by (simp add: returnA_def)
qed

subsection \<open>Parsing what was written\<close>

definition plain_name :: "string \<Rightarrow> bool" where
  "plain_name q \<longleftrightarrow> list_all (\<lambda>c. \<not> is_line_break c \<and> c \<noteq> CHR 0x5C) q"

lemma splitlines_line: "\<forall>c \<in> set w. \<not> is_line_break c \<Longrightarrow> splitlines (w @ CHR 0x0A # s) = w # splitlines s"
  by (induction w) (auto simp: is_line_break_def)

lemma splitlines_join:
  "\<forall>w \<in> set ws. \<forall>c \<in> set w. \<not> is_line_break c \<Longrightarrow> splitlines (join_with [CHR 0x0A] (ws @ [[]])) = ws"
proof (induction ws)
  case (Cons w ws)
  have "join_with [CHR 0x0A] ((w # ws) @ [[]]) = w @ CHR 0x0A # join_with [CHR 0x0A] (ws @ [[]])"
    by (cases "ws @ [[]]") simp_all
  then show ?case using Cons splitlines_line by simp
qed simp

lemma join_chars: "c \<in> set (join_with sep ws) \<Longrightarrow> c \<in> set sep \<or> (\<exists>w \<in> set ws. c \<in> set w)"
  by (induction sep ws rule: join_with.induct) auto

lemma split_two_spaces_at: "CHR '' '' \<notin> set d \<Longrightarrow> split_two_spaces (d @ ''  '' @ p) = Some (d, p)"
proof (induction d)
  case (Cons c d)
  then show ?case by (cases "d @ ''  '' @ p") auto
qed simp

lemma hex_lower_plain: "hex_lower c \<Longrightarrow> c \<noteq> CHR '' '' \<and> c \<noteq> CHR ''#'' \<and> \<not> is_line_break c"
  by (auto simp: hex_lower_def is_digit_def is_line_break_def less_eq_char_def)

definition good_record :: "string \<times> string \<Rightarrow> bool" where
  "good_record r \<longleftrightarrow> plain_name (fst r) \<and> length (snd r) = 64 \<and> list_all hex_lower (snd r) \<and>
     fst r \<noteq> [] \<and> path_of (fst r) \<noteq> [] \<and> list_all is_name (path_of (fst r)) \<and> path_str (path_of (fst r)) = fst r"

lemma parse_line_written:
  assumes "good_record (p, d)" "p \<notin> fst ` set records"
  shows "parse_line records (d @ ''  '' @ p) = Inr (records @ [(p, d)])"
proof -
  have g: "plain_name p" "length d = 64" "\<forall>c \<in> set d. hex_lower c" "p \<noteq> []" "\<forall>a \<in> set (path_of p). is_name a"
    "path_str (path_of p) = p"
    using assms(1) by (auto simp: good_record_def list_all_iff)
  obtain c cs where d: "d = c # cs" using g(2) by (cases d) auto
  have "split_two_spaces (d @ ''  '' @ p) = Some (d, p)" using g(3) hex_lower_plain by (intro split_two_spaces_at) auto
  moreover have "re_fullmatch DIGEST_RE d" using g(2,3) sha256_re_iff by (simp add: DIGEST_RE_def sha256_re_def)
  moreover have "\<not> is_absolute (path_of p)" using g(5) by (auto simp: is_absolute_def component_not_anchor is_name_def split: list.splits)
  moreover have "\<not> list_ex (\<lambda>part. part \<in> {'''', ''.'', ''..''}) (path_of p)"
    using g(5) by (auto simp: list_ex_iff is_name_def is_component_def)
  ultimately show ?thesis
    using g(1,3,4,6) assms(2) hex_lower_plain [of c]
    by (auto simp: parse_line_def Let_def d startswith_def plain_name_def list_all_iff)
qed

lemma parse_lines_written:
  "list_all good_record rs \<Longrightarrow> distinct (map fst (records @ rs)) \<Longrightarrow>
    parse_lines records (map (\<lambda>(p, d). d @ ''  '' @ p) rs) = Inr (records @ rs)"
proof (induction rs arbitrary: records)
  case (Cons r rs)
  obtain p d where r: "r = (p, d)" by (cases r)
  have "parse_line records (d @ ''  '' @ p) = Inr (records @ [(p, d)])"
    using Cons.prems r by (intro parse_line_written) auto
  then show ?case using Cons.IH [of "records @ [r]"] Cons.prems r by simp
qed simp

lemma header_plain: "\<forall>w \<in> set manifest_header. \<forall>c \<in> set w. \<not> is_line_break c"
  by code_simp

lemma parse_line_comment: "parse_line records (CHR ''#'' # l) = Inr records"
  by (simp add: parse_line_def startswith_def)

lemma parse_header: "parse_lines records (manifest_header @ ls) = parse_lines records ls"
  by (simp add: manifest_header_def parse_line_comment)

lemma record_line_plain:
  assumes "good_record (p, d)" "c \<in> set (d @ ''  '' @ p)" shows "\<not> is_line_break c"
proof -
  have g: "plain_name p" "list_all hex_lower d" using assms(1) by (simp_all add: good_record_def)
  consider "c \<in> set d" | "c = CHR '' ''" | "c \<in> set p" using assms(2) by auto
  then show ?thesis
  proof cases
    case 1
    then show ?thesis using g(2) hex_lower_plain by (simp add: list_all_iff)
  next
    case 2
    then show ?thesis by (simp add: is_line_break_def)
  next
    case 3
    then show ?thesis using g(1) by (simp add: plain_name_def list_all_iff)
  qed
qed

lemma parse_written:
  assumes "list_all good_record rs" "distinct (map fst rs)"
  shows "parse_lines [] (splitlines (universal_newlines (manifest_payload rs))) = Inr rs"
proof -
  let ?ls = "map (\<lambda>(p, d). d @ ''  '' @ p) rs"
  have "\<forall>w \<in> set ?ls. \<forall>c \<in> set w. \<not> is_line_break c"
    using assms(1) record_line_plain by (force simp: list_all_iff)
  then have ws: "\<forall>w \<in> set (manifest_header @ ?ls). \<forall>c \<in> set w. \<not> is_line_break c"
    using header_plain by auto
  have p: "manifest_payload rs = join_with [CHR 0x0A] ((manifest_header @ ?ls) @ [[]])" by (simp add: manifest_payload_def)
  have "CHR 0x0D \<notin> set (manifest_payload rs)"
  proof
    assume "CHR 0x0D \<in> set (manifest_payload rs)"
    from join_chars [OF this [unfolded p]] ws have "\<not> is_line_break (CHR 0x0D)" by auto
    then show False by (simp add: is_line_break_def)
  qed
  then have "universal_newlines (manifest_payload rs) = manifest_payload rs"
    by (simp add: universal_newlines_def newlines_plain)
  then show ?thesis
    unfolding p using parse_lines_written [of rs "[]"] assms parse_header splitlines_join [OF ws] by simp
qed

subsection \<open>The written manifest\<close>

lemma forall_sha256_quiet:
  assumes "\<forall>i. \<not> h_fault h i" "\<And>p. p \<in> set ps \<Longrightarrow> \<exists>n. look (root @ p) (w_tree w) = Some n \<and> is_regular n"
  shows "\<exists>w'. forall_sha256 h cr root ps w =
      (Inr (map (\<lambda>p. (path_str p, node_digest cr (the (look (root @ p) (w_tree w))))) ps), w') \<and> w_tree w' = w_tree w"
  using assms(2)
proof (induction ps arbitrary: w)
  case (Cons a ps)
  from Cons.prems [of a] obtain n where n: "look (root @ a) (w_tree w) = Some n" "is_regular n" by auto
  from file_sha256_quiet [where cr = cr, OF assms(1) n] obtain w1 where
    w1: "file_sha256 h cr (root @ a) w = (Inr (node_digest cr n), w1)" "w_tree w1 = w_tree w" by blast
  have "\<exists>w'. forall_sha256 h cr root ps w1 =
      (Inr (map (\<lambda>p. (path_str p, node_digest cr (the (look (root @ p) (w_tree w))))) ps), w') \<and> w_tree w' = w_tree w"
    using Cons.IH [of w1] Cons.prems w1(2) by simp
  then show ?case using w1 n(1) by (auto simp: bindA_def returnA_def)
qed simp

lemma write_text_quiet:
  assumes "\<forall>i. \<not> h_fault h i" "rooted p" "wf_node (w_tree w)" "dir_there (butlast p) (w_tree w)"
    and "\<And>m. look p (w_tree w) = Some m \<Longrightarrow> is_regular m"
  shows "\<exists>w' d m. write_text h p s w = (Inr (), w') \<and>
    w_tree w' = change_tree p (Some (FileN d m (utf8_encode s))) (change_tree p (Some (FileN d m [])) (w_tree w))"
proof -
  obtain d m where o: "open_write_tree (h_umask h) p (w_tree w) = Inr ((), change_tree p (Some (FileN d m [])) (w_tree w))"
    using assms(4,5) by (cases "look p (w_tree w)"; cases "the (look p (w_tree w))")
      (auto simp: open_write_tree_def create_file_tree_def)
  have "look p (change_tree p (Some (FileN d m [])) (w_tree w)) = Some (FileN d m [])"
    by (rule look_change_same [OF assms(2-4)])
  then show ?thesis using o assms(1) by (auto simp: write_text_def bindA_def os_call_def Let_def fill_tree_def)
qed

lemma same_tracked:
  assumes "wf_node n" "wf_node n'" "\<And>p. p \<noteq> [] \<Longrightarrow> \<not> ignored p \<Longrightarrow> get p n' = get p n"
  shows "tracked cr n' = tracked cr n" "linkless n' \<longleftrightarrow> linkless n"
proof -
  have "tracked cr n' q = Some d \<longleftrightarrow> tracked cr n q = Some d" for q d
    unfolding tracked_iff [OF assms(1)] tracked_iff [OF assms(2)] using assms(3) by metis
  then show "tracked cr n' = tracked cr n" by (intro ext) (metis not_None_eq)
  have "linkless r \<longleftrightarrow> (\<forall>p m. p \<noteq> [] \<and> \<not> ignored p \<and> get p r = Some m \<longrightarrow> \<not> is_link m)" if "wf_node r" for r
    unfolding linkless_def list_all_iff by (auto simp: listed_iff [OF that])
  then show "linkless n' \<longleftrightarrow> linkless n" using assms by metis
qed

lemma manifest_ignored: "ignored [''MANIFEST.sha256'']"
  by code_simp

lemma manifest_replaced:
  assumes "wf_node n" "\<And>k. get [''MANIFEST.sha256''] n = Some k \<Longrightarrow> is_regular k" "is_dir n" "p \<noteq> []" "\<not> ignored p"
  shows "get p (upd [''MANIFEST.sha256''] (Some (FileN d m c)) n) = get p n"
proof (cases "\<exists>q. p = ''MANIFEST.sha256'' # q")
  case True
  then obtain q where q: "p = [''MANIFEST.sha256''] @ q" "q \<noteq> []" using assms(5) manifest_ignored by auto
  have "dir_at (butlast [''MANIFEST.sha256'']) n" using assms(3) by (simp add: dir_at_def)
  then have "get p (upd [''MANIFEST.sha256''] (Some (FileN d m c)) n) = None"
    using get_upd_below [OF assms(1), of "[''MANIFEST.sha256'']" q] q by (cases q) simp_all
  moreover have "get p n = None"
  proof (cases "get [''MANIFEST.sha256''] n")
    case (Some k)
    then show ?thesis using get_below_file [OF Some _ q(2)] assms(2) [OF Some] q(1) by (cases k) auto
  qed (metis get_append option.simps(4) q(1))
  ultimately show ?thesis by simp
next
  case False
  then have "[''MANIFEST.sha256''] \<parallel> p" using assms(4) by (cases p) auto
  then show ?thesis using get_upd_other assms(1) by blast
qed

text \<open>A tree whose manifest can be written: no link, plain names, a place for the manifest\<close>

definition manifestable :: "crypto \<Rightarrow> node \<Rightarrow> bool" where
  "manifestable cr n \<longleftrightarrow> is_dir n \<and> linkless n \<and> (case get [''MANIFEST.sha256''] n of None \<Rightarrow> True | Some k \<Rightarrow> is_regular k) \<and>
     list_all (\<lambda>(p, m). ignored p \<or> \<not> is_regular m \<or> plain_name (path_str p)) (listing [] (kids n))"

lemma option_map_eqI: "(\<And>q x. f q = Some x \<longleftrightarrow> g q = Some x) \<Longrightarrow> f = g"
  by (rule ext) (metis option.exhaust)

lemma map_of_files:
  assumes "wf_node n" "repository_files n = Inr files" "distinct (map fst (map (\<lambda>p. (path_str p, D p)) files))"
    and "\<And>p. D p = node_digest cr (the (get p n))"
  shows "map_of (map (\<lambda>p. (path_str p, D p)) files) = tracked cr n"
proof -
  have "map_of (map (\<lambda>p. (path_str p, D p)) files) q = Some x \<longleftrightarrow> tracked cr n q = Some x" for q x
  proof -
    have "map_of (map (\<lambda>p. (path_str p, D p)) files) q = Some x \<longleftrightarrow>
        (\<exists>p. p \<in> set files \<and> q = path_str p \<and> x = node_digest cr (the (get p n)))"
      by (subst map_of_eq_Some_iff [OF assms(3)]) (auto simp: assms(4))
    also have "\<dots> \<longleftrightarrow> tracked cr n q = Some x"
      unfolding tracked_iff [OF assms(1)] repository_files_set(1) [OF assms(1,2)] by fastforce
    finally show ?thesis .
  qed
  then show ?thesis by (rule option_map_eqI)
qed

lemma written_agrees:
  assumes "wf_node (w_tree w)" "rooted root" "look root (w_tree w) = Some n" "\<forall>i. \<not> h_fault h i" "sha256_hex cr"
    and "manifestable cr n"
  shows "\<exists>s w' n'. write_manifest h cr root w = (Inr s, w') \<and> wf_node (w_tree w') \<and> look root (w_tree w') = Some n' \<and>
    tracked cr n' = tracked cr n \<and> manifest_agrees cr root (w_tree w') n'"
proof -
  have wf: "wf_node n" by (rule look_wf [OF assms(1,3)])
  have M: "is_dir n" "linkless n" "\<And>k. get [''MANIFEST.sha256''] n = Some k \<Longrightarrow> is_regular k"
    using assms(6) by (auto simp: manifestable_def)
  have rne: "root \<noteq> []" using assms(2) by (auto simp: rooted_def)
  obtain files where f: "repository_files n = Inr files" using M(2) wf by (simp add: repository_files_Inr)
  note F = repository_files_set [OF wf f]
  obtain w1 where w1: "repository_filesA h root w = (Inr files, w1)" "w_tree w1 = w_tree w"
    using repository_filesA_Inr(2) [OF assms(3,4)] f by metis
  have there: "\<exists>k. look (root @ p) (w_tree w1) = Some k \<and> is_regular k" if "p \<in> set files" for p
    using that F(1) w1(2) assms(3) rne by (auto simp: look_append)
  let ?rs = "map (\<lambda>p. (path_str p, node_digest cr (the (look (root @ p) (w_tree w1))))) files"
  obtain w2 where w2: "forall_sha256 h cr root files w1 = (Inr ?rs, w2)" "w_tree w2 = w_tree w"
    using forall_sha256_quiet [of h files root w1 cr, OF assms(4) there] w1(2) by auto
  let ?f = "manifest_file root"
  have rf: "rooted ?f" using assms(2) by (auto simp: manifest_file_def rooted_def is_name_def is_component_def split: list.splits)
  obtain w3 d m where w3: "write_text h ?f (manifest_payload ?rs) w2 = (Inr (), w3)"
    "w_tree w3 = change_tree ?f (Some (FileN d m (utf8_encode (manifest_payload ?rs)))) (change_tree ?f (Some (FileN d m [])) (w_tree w))"
  proof -
    have "dir_there (butlast ?f) (w_tree w2)" using w2(2) assms(3) M(1) by (simp add: manifest_file_def dir_there_def)
    moreover have "is_regular k" if "look ?f (w_tree w2) = Some k" for k
      using that w2(2) assms(3) M(3) rne by (simp add: manifest_file_def look_append)
    ultimately show ?thesis using write_text_quiet [OF assms(4) rf, of w2 "manifest_payload ?rs"] w2(2) assms(1) that by auto
  qed
  let ?n1 = "upd [''MANIFEST.sha256''] (Some (FileN d m [])) n"
  let ?n2 = "upd [''MANIFEST.sha256''] (Some (FileN d m (utf8_encode (manifest_payload ?rs)))) ?n1"
  let ?t1 = "change_tree ?f (Some (FileN d m [])) (w_tree w)"
  have dir: "dir_there (butlast ?f) (w_tree w)" "is_dir ?n1"
    using assms(3) M(1) by (cases n; simp add: manifest_file_def dir_there_def)+
  have t1: "wf_node ?t1" "look root ?t1 = Some ?n1"
    using wf_change [OF rf assms(1)] look_change_below [OF assms(2,1,3)] by (simp_all add: manifest_file_def)
  have dir1: "dir_there (butlast ?f) ?t1" using t1(2) dir(2) by (simp add: manifest_file_def dir_there_def)
  have t2: "wf_node (w_tree w3)" "look root (w_tree w3) = Some ?n2"
    "look ?f (w_tree w3) = Some (FileN d m (utf8_encode (manifest_payload ?rs)))"
    using wf_change [OF rf t1(1)] look_change_below [OF assms(2) t1] look_change_same [OF rf t1(1) dir1]
    by (simp_all add: w3(2) manifest_file_def)
  have wf1: "wf_node ?n1" and wf2: "wf_node ?n2" using look_wf t1 t2 by blast+
  have M1: "is_regular k" if "get [''MANIFEST.sha256''] ?n1 = Some k" for k
    using that get_upd_same [OF wf, of "[''MANIFEST.sha256'']"] M(1) by (auto simp: dir_at_def)
  have "get p ?n2 = get p n" if "p \<noteq> []" "\<not> ignored p" for p
    using manifest_replaced [OF wf1 M1 dir(2) that] manifest_replaced [OF wf M(3,1) that] by simp
  note S = same_tracked [OF wf wf2 this]
  have names: "\<forall>a \<in> set p. is_name a" if "p \<in> set files" for p using that F(1) get_wf [OF wf] by blast
  have good: "list_all good_record ?rs"
    unfolding list_all_iff
  proof (clarsimp)
    fix p assume p: "p \<in> set files"
    then obtain k where k: "p \<noteq> []" "get p n = Some k" "\<not> ignored p" "is_regular k" using F(1) by blast
    then have "plain_name (path_str p)" using assms(6) listed_iff [OF wf, of p k] by (auto simp: manifestable_def list_all_iff)
    moreover have "look (root @ p) (w_tree w1) = Some k" using k(2) w1(2) assms(3) rne by (simp add: look_append)
    moreover have "path_of [] = []" by code_simp
    then have "path_str p \<noteq> []" using F(4) [OF p] k(1) by metis
    ultimately show "good_record (path_str p, node_digest cr (the (look (root @ p) (w_tree w1))))"
      using F(4) [OF p] names [OF p] k(1,4) assms(5) by (cases k) (auto simp: good_record_def list_all_iff sha256_hex_def)
  qed
  have "inj_on path_str (set files)" using F(4) by (metis inj_on_inverseI)
  then have rs: "distinct (map fst ?rs)" using F(2) by (simp add: comp_def distinct_map)
  have "map_of ?rs = tracked cr n"
    by (rule map_of_files [OF wf f rs]) (use w1(2) assms(3) rne in \<open>simp add: look_append\<close>)
  moreover have "stored_manifest root (w_tree w3) = Some ?rs"
    using t2(3) parse_written [OF good rs] by (simp add: stored_manifest_def utf8_decode_encode)
  ultimately have "manifest_agrees cr root (w_tree w3) ?n2" using S M(2) by (simp add: manifest_agrees_def)
  moreover have "\<exists>s. write_manifest h cr root w = (Inr s, w3)"
    using w1(1) w2(1) w3(1) by (simp add: write_manifest_def bindA_def returnA_def)
  ultimately show ?thesis using t2(1,2) S(1) by blast
qed

subsection \<open>The properties\<close>

text \<open>
  C36. The repository manifest. When \<^verbatim>\<open>verify_manifest\<close> returns, the tree has no symbolic link outside the ignored names, and the
  manifest is exactly the map from the other regular files to their digests: no file is missing, none is listed that is not
  there, none has changed. Conversely it returns on such a tree when no call fails.
\<close>

theorem verify_repository_exact:
  assumes "wf_node (w_tree w)" and "root \<noteq> []" and "look root (w_tree w) = Some n"
  shows "(case verify_repository h cr root w of
      (Inl _, _) \<Rightarrow> True | (Inr _, w') \<Rightarrow> w_tree w' = w_tree w \<and> manifest_agrees cr root (w_tree w) n) \<and>
    ((\<forall>i. \<not> h_fault h i) \<and> manifest_agrees cr root (w_tree w) n \<longrightarrow>
      (\<exists>s w'. verify_repository h cr root w = (Inr s, w')))"
  using verify_repository_sound [OF assms] verify_repository_complete [OF assms] by (auto split: prod.splits sum.splits)

text \<open>
  C37. Round trip. In a tree without links whose file names hold no line break and no backslash, \<^verbatim>\<open>--write\<close> succeeds when no call
  fails, and the manifest it leaves verifies.
\<close>

theorem written_manifest_verifies:
  assumes "wf_node (w_tree w)" and "rooted root" and "look root (w_tree w) = Some n" and "\<forall>i. \<not> h_fault h i"
    and "sha256_hex cr" and "manifestable cr n"
  shows "\<exists>s w' s' w''. write_manifest h cr root w = (Inr s, w') \<and> verify_repository h cr root w' = (Inr s', w'')"
proof -
  obtain s w' n' where w: "write_manifest h cr root w = (Inr s, w')" "wf_node (w_tree w')" "look root (w_tree w') = Some n'"
    "manifest_agrees cr root (w_tree w') n'"
    using written_agrees [OF assms] by blast
  have "root \<noteq> []" using assms(2) by (auto simp: rooted_def)
  from verify_repository_complete [OF w(2) this w(3) assms(4) w(4)] w(1) show ?thesis by blast
qed

definition repo_world :: world where
  "repo_world = \<lparr>w_tree = DirN 1 493 [(''r'', DirN 1 493 [(''a'', FileN 1 420 ''x''), (''build'', LinkN 1 511 ''/''),
     (''d'', DirN 1 493 [(''b'', FileN 1 420 ''y'')])])], w_calls = 0, w_ticks = 0, w_draws = 0\<rparr>"

lemma repo_world_wf: "wf_node (w_tree repo_world)"
  by (simp add: repo_world_def is_name_def is_component_def less_char_def)

lemma repo_world_plain: "manifestable sample_crypto (the (look [''/'', ''r''] (w_tree repo_world)))"
  by code_simp

theorem written_manifest_verifies_witness:
  "\<exists>s w' s' w''. write_manifest quiet_host sample_crypto [''/'', ''r''] repo_world = (Inr s, w') \<and>
    verify_repository quiet_host sample_crypto [''/'', ''r''] w' = (Inr s', w'')"
  by (rule written_manifest_verifies [OF repo_world_wf _ _ _ sample_hex repo_world_plain])
    (simp_all add: rooted_def is_name_def is_component_def repo_world_def)

definition listed_record :: "string \<times> string" where
  "listed_record = (''a'', replicate 64 (CHR ''a''))"

definition listed_repo :: node where
  "listed_repo = DirN 1 493 [(''MANIFEST.sha256'', FileN 1 420 (utf8_encode (manifest_payload [listed_record]))),
     (''a'', FileN 1 420 ''x'')]"

definition listed_world :: world where
  "listed_world = \<lparr>w_tree = DirN 1 493 [(''r'', listed_repo)], w_calls = 0, w_ticks = 0, w_draws = 0\<rparr>"

lemma listed_world_wf: "wf_node (w_tree listed_world)"
  by (simp add: listed_world_def listed_repo_def is_name_def is_component_def less_char_def)

lemma listed_agrees: "manifest_agrees sample_crypto [''/'', ''r''] (w_tree listed_world) listed_repo"
proof -
  have "list_all good_record [listed_record]" by code_simp
  then have "stored_manifest [''/'', ''r''] (w_tree listed_world) = Some [listed_record]"
    by (simp add: stored_manifest_def manifest_file_def listed_world_def listed_repo_def utf8_decode_encode parse_written)
  moreover have names: "\<not> ignored [''a'']" "path_str [''a''] = ''a''" by code_simp+
  then have "linkless listed_repo" "tracked sample_crypto listed_repo = map_of [listed_record]"
    by (simp_all add: linkless_def tracked_def listed_repo_def manifest_ignored listed_record_def sample_crypto_def)
  ultimately show ?thesis by (simp add: manifest_agrees_def)
qed

theorem verify_repository_exact_witness:
  "\<exists>s w'. verify_repository quiet_host sample_crypto [''/'', ''r''] listed_world = (Inr s, w')"
proof -
  have "look [''/'', ''r''] (w_tree listed_world) = Some listed_repo" by (simp add: listed_world_def)
  from verify_repository_exact [OF listed_world_wf _ this, of sample_crypto quiet_host] listed_agrees
  show ?thesis by simp
qed

end
