(* ===== verification/ReleaseScripts.thy ===== *)
theory ReleaseScripts
  imports RepoManifest "HOL-Library.Word"
begin

text \<open>
  The checks of \<^verbatim>\<open>scripts/package_release.py\<close> on the archives it is about to publish, and the loop of
  \<^verbatim>\<open>scripts/run_replay.py\<close>. What \<^verbatim>\<open>zipfile\<close> lists is the argument of the first.
\<close>

subsection \<open>Archives\<close>

definition ARCHIVE_PREFIX :: string where
  "ARCHIVE_PREFIX = ''agent-workspace-guard''"

definition FORBIDDEN_ARCHIVE_PARTS :: "string list" where
  "FORBIDDEN_ARCHIVE_PARTS = [''.git'', ''.venv'', ''.awg-state'', ''__pycache__'', ''build'', ''dist'', ''release'']"

definition FORBIDDEN_ARCHIVE_NAMES :: "string list" where
  "FORBIDDEN_ARCHIVE_NAMES = [''secret.key'', ''.env'', ''.coverage'']"

text \<open>\<^verbatim>\<open>ZipInfo.filename\<close> and the unsigned 32 bits of \<^verbatim>\<open>ZipInfo.external_attr\<close>\<close>

record zip_member =
  z_filename :: string
  z_external_attr :: "32 word"

definition S_ISLNK :: "32 word \<Rightarrow> bool" where
  "S_ISLNK mode \<longleftrightarrow> mode AND 0xF000 = 0xA000"

definition check_zip_member :: "zip_member \<Rightarrow> unit result" where
  "check_zip_member member =
     (let name = z_filename member;
          pure = path_of name;
          unix_mode = drop_bit 16 (z_external_attr member)
      in checksE
        [requireE (\<not> (CHR 0x5C \<in> set name \<or> startswith name ''/'')) (runtime_error ''unsafe ZIP member name''),
         requireE (\<not> list_ex (\<lambda>part. part \<in> {'''', ''.'', ''..''}) pure) (runtime_error ''non-normalized ZIP member name''),
         requireE (\<not> (pure = [] \<or> hd pure \<noteq> ARCHIVE_PREFIX)) (runtime_error ''ZIP member is outside the release prefix''),
         requireE (\<not> list_ex (\<lambda>part. part \<in> set FORBIDDEN_ARCHIVE_PARTS) (tl pure)) (runtime_error ''generated state leaked into ZIP''),
         requireE (\<not> (path_name pure \<in> set FORBIDDEN_ARCHIVE_NAMES \<or> path_suffix pure \<in> {''.pyc'', ''.pyo''}))
           (runtime_error ''forbidden file leaked into ZIP''),
         requireE (\<not> (unix_mode \<noteq> 0 \<and> S_ISLNK unix_mode)) (runtime_error ''release ZIP may not contain symlinks'')])"

definition verify_zip_structure :: "zip_member list \<Rightarrow> unit result" where
  "verify_zip_structure members =
     bindE (requireE (members \<noteq> []) (runtime_error ''release ZIP is empty'')) (\<lambda>_. checksE (map check_zip_member members))"

definition check_wheel_member :: "zip_member \<Rightarrow> unit result" where
  "check_wheel_member member =
     (let name = z_filename member; pure = path_of name
      in checksE
        [requireE (\<not> (startswith name ''/'' \<or> CHR 0x5C \<in> set name \<or> list_ex (\<lambda>part. part \<in> {'''', ''.'', ''..''}) pure))
           (runtime_error ''unsafe wheel member''),
         requireE (path_name pure \<notin> set FORBIDDEN_ARCHIVE_NAMES) (runtime_error ''forbidden file leaked into wheel'')])"

definition verify_wheel_structure :: "zip_member list \<Rightarrow> unit result" where
  "verify_wheel_structure members = checksE (map check_wheel_member members)"

subsection \<open>Replaying the corpus\<close>

record replay_case =
  y_id :: string
  y_command :: string
  y_shell :: string
  y_expected :: string

definition replay_actual :: "crypto \<Rightarrow> replay_case \<Rightarrow> string" where
  "replay_actual cr y = decision_value (i_decision (inspect_shell_command cr (JStr (y_command y)) (y_shell y)))"

definition replay_line :: "crypto \<Rightarrow> replay_case \<Rightarrow> string" where
  "replay_line cr y =
     (if replay_actual cr y = y_expected y then ''PASS'' else ''FAIL'') @ '' '' @ y_id y @ '': expected='' @ y_expected y @
       '' actual='' @ replay_actual cr y @ [CHR 0x0A]"

definition replay_main :: "crypto \<Rightarrow> replay_case list \<Rightarrow> cli_result" where
  "replay_main cr cases =
     (let failed = length (filter (\<lambda>y. replay_actual cr y \<noteq> y_expected y) cases)
      in \<lparr>x_stdout = concat (map (replay_line cr) cases) @ [CHR 0x0A] @ nat_str (length cases - failed) @ ''/'' @
            nat_str (length cases) @ '' replay cases passed'' @ [CHR 0x0A],
          x_stderr = '''', x_status = (if failed \<noteq> 0 then 1 else 0)\<rparr>)"

subsection \<open>What an accepted archive holds\<close>

lemma checks_all: "checksE (map f xs) = Inr () \<longleftrightarrow> (\<forall>x \<in> set xs. f x = Inr ())"
  by (induction xs) (auto simp: checksE.simps bindE_Inr_iff)

lemma zip_member_Inr:
  assumes "check_zip_member m = Inr ()"
  shows "\<exists>rest. path_of (z_filename m) = ARCHIVE_PREFIX # rest \<and> \<not> list_ex (\<lambda>part. part = ''..'' \<or> part \<in> set FORBIDDEN_ARCHIVE_PARTS) rest"
    "path_name (path_of (z_filename m)) \<notin> set FORBIDDEN_ARCHIVE_NAMES" "\<not> S_ISLNK (drop_bit 16 (z_external_attr m))"
  using assms by (auto simp: check_zip_member_def Let_def checksE.simps bindE_Inr_iff requireE_Inr_iff neq_Nil_conv list_ex_iff S_ISLNK_def)


definition sample_members :: "zip_member list" where
  "sample_members = [\<lparr>z_filename = ''agent-workspace-guard/'', z_external_attr = 0x41ED0010\<rparr>,
     \<lparr>z_filename = ''agent-workspace-guard/src/a.py'', z_external_attr = 0x81A40000\<rparr>]"


end
