(* ===== verification/PackageRelease.thy ===== *)
theory PackageRelease
  imports ReleaseScripts "HOL-Library.AList"
begin

text \<open>
  \<^verbatim>\<open>scripts/package_release.py\<close> from its command line to the checksum file, and the demonstration in
  \<^verbatim>\<open>examples/demo.py\<close>. The programs they run (\<^verbatim>\<open>git\<close>, \<^verbatim>\<open>pip\<close>, \<^verbatim>\<open>python\<close>), \<^verbatim>\<open>zipfile\<close> and \<^verbatim>\<open>venv\<close> are parameters: each is
  an action on the world that may do anything and may fail.
\<close>

subsection \<open>What the scripts print\<close>

text \<open>A script's state is what it has printed and the world.\<close>

type_synonym 'a script = "(string \<times> world, 'a) comp"

definition on_world :: "'a act \<Rightarrow> 'a script" where
  "on_world m s = (case m (snd s) of (r, w') \<Rightarrow> (r, (fst s, w')))"

text \<open>\<^verbatim>\<open>print\<close> of arguments already turned into text\<close>

definition say :: "string list \<Rightarrow> unit script" where
  "say ts s = (Inr (), (fst s @ join_with '' '' ts @ [CHR 0x0A], snd s))"

subsection \<open>Files\<close>

definition unlink_missing_ok :: "host \<Rightarrow> path \<Rightarrow> unit act" where
  "unlink_missing_ok h p = ignore_missingA (os_call h (unlink_tree p))"

text \<open>\<^verbatim>\<open>shutil.copy2\<close> of a regular file: the content, then the mode\<close>

definition copy2A :: "host \<Rightarrow> path \<Rightarrow> path \<Rightarrow> unit act" where
  "copy2A h src dst =
     bindA (lstatA h src) (\<lambda>n.
       case n of
         FileN _ mode content \<Rightarrow>
           thenA (os_call h (open_write_tree (h_umask h) dst))
          (thenA (os_call h (fill_tree dst content)) (chmodA h mode dst))
       | _ \<Rightarrow> raiseA (OSError ''cannot copy the file''))"

text \<open>\<^verbatim>\<open>list(folder.glob("*.whl"))\<close>\<close>

definition glob_wheels :: "host \<Rightarrow> path \<Rightarrow> path list act" where
  "glob_wheels h folder = os_call h (\<lambda>t.
     case look folder t of
       Some (DirN _ _ ks) \<Rightarrow> Inr (map (\<lambda>k. folder @ [k]) (filter (\<lambda>k. endswith k ''.whl'') (map fst ks)), t)
     | _ \<Rightarrow> Inr ([], t))"

text \<open>\<^verbatim>\<open>with tempfile.TemporaryDirectory(prefix=pre) as folder\<close>: removed again whatever happens\<close>

definition with_temporary :: "host \<Rightarrow> path \<Rightarrow> string \<Rightarrow> (path \<Rightarrow> 'a script) \<Rightarrow> 'a script" where
  "with_temporary h tmp pre body =
     bindA (on_world (drawA h)) (\<lambda>name.
       let folder = tmp @ [pre @ name]
       in thenA (on_world (mkdirA h 448 folder))
            (finallyA (body folder) (on_world (os_call h (\<lambda>t.
                if look folder t = None then Inr ((), t) else rmtree_tree folder t)))))"

subsection \<open>The tools\<close>

type_synonym environ = "(string \<times> string) list"

text \<open>
  \<open>r_run\<close> is \<^verbatim>\<open>subprocess.run(check=True)\<close>: the standard output, or the \<^verbatim>\<open>CalledProcessError\<close> of another exit status
  than zero. \<open>r_version\<close> is the version in \<^verbatim>\<open>pyproject.toml\<close>, \<open>r_windows\<close> is \<^verbatim>\<open>os.name == "nt"\<close>.
\<close>

record release =
  r_run :: "string list \<Rightarrow> path \<Rightarrow> environ \<Rightarrow> string act"
  r_infolist :: "path \<Rightarrow> zip_member list act"
  r_extractall :: "path \<Rightarrow> path \<Rightarrow> unit act"
  r_create_venv :: "path \<Rightarrow> unit act"
  r_executable :: string
  r_environ :: environ
  r_root :: path
  r_version :: string
  r_windows :: bool
  r_tmp :: path
  r_cli :: cli_env

definition TAG :: "release \<Rightarrow> string" where
  "TAG p = ''v'' @ r_version p"

definition ZIP_NAME :: string where "ZIP_NAME = ''agent-workspace-guard-submission.zip''"

definition BUNDLE_NAME :: string where "BUNDLE_NAME = ''agent-workspace-guard.bundle''"

definition CHECKSUM_NAME :: string where "CHECKSUM_NAME = ''ARTIFACTS.sha256''"

definition run_in :: "release \<Rightarrow> path \<Rightarrow> environ \<Rightarrow> string list \<Rightarrow> string script" where
  "run_in p cwd env command =
     thenA (say [''+'', join_with '' '' command]) (on_world (r_run p command cwd env))"

text \<open>\<^verbatim>\<open>run(command)\<close>: in the root of the repository and in the script's own environment\<close>

definition run_here :: "release \<Rightarrow> string list \<Rightarrow> string script" where
  "run_here p command = run_in p (r_root p) (r_environ p) command"

definition python_environment :: "release \<Rightarrow> path \<Rightarrow> environ" where
  "python_environment p root =
     (let source = path_str (root @ [''src''])
      in AList.update ''PYTHONPATH''
           (case map_of (r_environ p) ''PYTHONPATH'' of
              None \<Rightarrow> source
            | Some old \<Rightarrow> if old = '''' then source else source @ (if r_windows p then '';'' else '':'') @ old)
           (r_environ p))"

text \<open>The commands of \<^verbatim>\<open>verify_source\<close> before the demonstration\<close>

definition source_checks :: "release \<Rightarrow> string list list" where
  "source_checks p =
     (let python = r_executable p
      in [[python, ''scripts/verify_manifest.py''],
          [python, ''-m'', ''compileall'', ''-q'', ''src'', ''tests'', ''scripts''],
          [python, ''-m'', ''unittest'', ''discover'', ''-s'', ''tests'', ''-v''],
          [python, ''scripts/run_replay.py''],
          [python, ''-m'', ''agent_workspace_guard'', ''--help'']])"

definition verify_source :: "release \<Rightarrow> path \<Rightarrow> bool \<Rightarrow> unit script" where
  "verify_source p root include_demo =
     (let env = python_environment p root
      in thenA (forA (\<lambda>command. thenA (run_in p root env command) (returnA ())) (source_checks p))
           (if include_demo then thenA (run_in p root env [r_executable p, ''examples/demo.py'']) (returnA ())
            else returnA ()))"

definition venv_python :: "release \<Rightarrow> path \<Rightarrow> path" where
  "venv_python p root = (if r_windows p then root @ [''Scripts'', ''python.exe''] else root @ [''bin'', ''python''])"

subsection \<open>The state of the repository\<close>

text \<open>\<^verbatim>\<open>str.isdigit\<close>, which the superscript digits pass too\<close>

definition is_digits :: "string \<Rightarrow> bool" where
  "is_digits s \<longleftrightarrow> s \<noteq> [] \<and> list_all (\<lambda>c. is_digit c \<or> c \<in> {CHR 0xB2, CHR 0xB3, CHR 0xB9}) s"

definition ensure_clean_release_commit :: "release \<Rightarrow> (string \<times> string) script" where
  "ensure_clean_release_commit p =
     bindA (run_here p [''git'', ''status'', ''--porcelain'', ''--untracked-files=all'']) (\<lambda>status.
     thenA (requireA (strip status = []) (runtime_error ''release packaging requires a clean Git working tree''))
    (bindA (run_here p [''git'', ''rev-parse'', ''HEAD'']) (\<lambda>commit_head.
     bindA (run_here p [''git'', ''rev-list'', ''-n'', ''1'', TAG p]) (\<lambda>tag_target.
     thenA (requireA (strip commit_head = strip tag_target) (runtime_error ''the tag must point at HEAD before packaging''))
    (bindA (run_here p [''git'', ''show'', ''-s'', ''--format=%ct'', ''HEAD'']) (\<lambda>commit_epoch.
     thenA (requireA (is_digits (strip commit_epoch)) (runtime_error ''could not obtain the release commit timestamp''))
       (returnA (strip commit_head, strip commit_epoch))))))))"

subsection \<open>The wheel\<close>

definition build_wheel :: "host \<Rightarrow> release \<Rightarrow> path \<Rightarrow> environ \<Rightarrow> path script" where
  "build_wheel h p destination build_env =
     thenA (on_world (mkdirsA h 511 destination))
    (thenA (run_in p (r_root p) build_env [r_executable p, ''-m'', ''pip'', ''wheel'', ''--no-deps'',
        ''--no-build-isolation'', ''--wheel-dir'', path_str destination, ''.''])
    (bindA (on_world (glob_wheels h destination)) (\<lambda>wheels.
     thenA (requireA (length wheels = 1) (runtime_error (''expected one wheel, found '' @ nat_str (length wheels)))) (returnA (hd wheels)))))"

definition smoke_command :: "release \<Rightarrow> path \<Rightarrow> string list" where
  "smoke_command p python =
     [path_str python, ''-m'', ''agent_workspace_guard'', ''inspect'', ''--shell'', ''bash'', ''--command-text'',
      ''rm -rf \"${TARGET:-/}\" # release-secret-marker'']"

definition verify_installed_wheel :: "release \<Rightarrow> path \<Rightarrow> path \<Rightarrow> unit script" where
  "verify_installed_wheel p wheel_path scratch =
     (let environment_root = scratch @ [''wheel-venv'']; isolated_python = venv_python p environment_root
      in thenA (on_world (r_create_venv p environment_root))
        (thenA (run_in p scratch (r_environ p)
            [path_str isolated_python, ''-m'', ''pip'', ''install'', ''--no-deps'', path_str wheel_path])
        (bindA (run_in p scratch (r_environ p) (smoke_command p isolated_python)) (\<lambda>stdout.
         thenA (requireA (contains stdout ''\"decision\": \"deny\"'')
           (runtime_error ''installed wheel failed the destructive-command smoke test''))
           (requireA (\<not> contains stdout ''release-secret-marker'')
             (runtime_error ''installed wheel echoed raw command content''))))))"

subsection \<open>\<^verbatim>\<open>main\<close>\<close>

text \<open>The archive and the bundle\<close>

definition make_archives :: "host \<Rightarrow> release \<Rightarrow> path \<Rightarrow> path \<Rightarrow> path \<Rightarrow> unit script" where
  "make_archives h p zip_path bundle_path checksum_path =
     thenA (on_world (forA (unlink_missing_ok h) [zip_path, bundle_path, checksum_path]))
    (thenA (run_here p [''git'', ''archive'', ''--format=zip'', ''--prefix='' @ ARCHIVE_PREFIX @ ''/'', ''-o'',
        path_str zip_path, TAG p])
    (thenA (bindA (on_world (r_infolist p zip_path)) (\<lambda>members. liftA (verify_zip_structure members)))
    (thenA (run_here p [''git'', ''bundle'', ''create'', path_str bundle_path, ''--all''])
    (thenA (run_here p [''git'', ''bundle'', ''verify'', path_str bundle_path]) (returnA ())))))"

text \<open>Two builds of the wheel, which must be the same\<close>

definition make_wheel :: "host \<Rightarrow> crypto \<Rightarrow> release \<Rightarrow> path \<Rightarrow> string \<Rightarrow> path script" where
  "make_wheel h cr p output commit_epoch =
     (let build_env = AList.update ''PYTHONHASHSEED'' ''0''
            (AList.update ''SOURCE_DATE_EPOCH'' commit_epoch (r_environ p))
      in with_temporary h (r_tmp p) ''awg-release-build-'' (\<lambda>build_root.
         bindA (build_wheel h p (build_root @ [''wheel-a'']) build_env) (\<lambda>first_wheel.
         bindA (build_wheel h p (build_root @ [''wheel-b'']) build_env) (\<lambda>second_wheel.
         bindA (on_world (file_sha256 h cr first_wheel)) (\<lambda>d.
         bindA (on_world (file_sha256 h cr second_wheel)) (\<lambda>e.
         thenA (requireA (d = e) (runtime_error ''two release wheel builds were not byte-for-byte reproducible''))
        (thenA (bindA (on_world (r_infolist p first_wheel)) (\<lambda>members. liftA (verify_wheel_structure members)))
           (let wheel_path = output @ [path_name first_wheel]
            in thenA (on_world (unlink_missing_ok h wheel_path))
              (thenA (on_world (copy2A h first_wheel wheel_path)) (returnA wheel_path))))))))))"

text \<open>The artefacts checked again from what was written\<close>

definition verify_artifacts :: "host \<Rightarrow> release \<Rightarrow> string \<Rightarrow> path \<Rightarrow> path \<Rightarrow> path \<Rightarrow> unit script" where
  "verify_artifacts h p source_head zip_path bundle_path wheel_path =
     with_temporary h (r_tmp p) ''awg-release-verify-'' (\<lambda>scratch.
       let extracted = scratch @ [''zip'']; cloned = scratch @ [''bundle-clone'']
       in thenA (on_world (mkdirA h 511 extracted))
         (thenA (on_world (r_extractall p zip_path extracted))
         (thenA (verify_source p (extracted @ [ARCHIVE_PREFIX]) True)
         (thenA (run_in p scratch (r_environ p)
             [''git'', ''clone'', ''--quiet'', path_str bundle_path, path_str cloned])
         (bindA (run_in p cloned (r_environ p) [''git'', ''rev-parse'', ''HEAD'']) (\<lambda>cloned_head.
          thenA (requireA (strip cloned_head = source_head)
            (runtime_error ''Git bundle clone does not match release HEAD''))
         (thenA (verify_source p cloned False) (verify_installed_wheel p wheel_path scratch))))))))"

definition checksum_line :: "path \<Rightarrow> string \<Rightarrow> string" where
  "checksum_line artifact d = d @ ''  '' @ path_name artifact @ [CHR 0x0A]"

fun sha256_all :: "host \<Rightarrow> crypto \<Rightarrow> path list \<Rightarrow> (path \<times> string) list act" where
  "sha256_all h cr [] = returnA []"
| "sha256_all h cr (p # ps) =
     bindA (file_sha256 h cr p) (\<lambda>d. bindA (sha256_all h cr ps) (\<lambda>rest. returnA ((p, d) # rest)))"

text \<open>The checksum file and the report\<close>

definition write_checksums :: "host \<Rightarrow> crypto \<Rightarrow> path \<Rightarrow> path list \<Rightarrow> unit script" where
  "write_checksums h cr checksum_path artifacts =
     bindA (on_world (sha256_all h cr artifacts)) (\<lambda>digests.
     thenA (on_world (write_text h checksum_path (concat (map (\<lambda>(a, d). checksum_line a d) digests))))
    (thenA (say [CHR 0x0A # ''Release artifacts verified:''])
    (thenA (forA (\<lambda>a. bindA (on_world (file_sha256 h cr a)) (\<lambda>d. say [''  '' @ d @ ''  '' @ path_str a])) artifacts)
       (say [''  checksums: '' @ path_str checksum_path]))))"

text \<open>The body of \<^verbatim>\<open>main\<close> inside its \<^verbatim>\<open>try\<close>\<close>

definition package :: "host \<Rightarrow> crypto \<Rightarrow> release \<Rightarrow> path \<Rightarrow> unit script" where
  "package h cr p output =
     bindA (ensure_clean_release_commit p) (\<lambda>(source_head, commit_epoch).
     thenA (verify_source p (r_root p) True)
       (let zip_path = output @ [ZIP_NAME]; bundle_path = output @ [BUNDLE_NAME];
            checksum_path = output @ [CHECKSUM_NAME]
        in thenA (make_archives h p zip_path bundle_path checksum_path)
          (bindA (make_wheel h cr p output commit_epoch) (\<lambda>wheel_path.
           thenA (verify_artifacts h p source_head zip_path bundle_path wheel_path)
             (write_checksums h cr checksum_path [zip_path, bundle_path, wheel_path])))))"

text \<open>\<^verbatim>\<open>except (OSError, RuntimeError, CalledProcessError, BadZipFile)\<close>; any other exception escapes\<close>

fun is_release_error :: "error \<Rightarrow> bool" where
  "is_release_error (OSError _) = True"
| "is_release_error (PyError t) =
     (prefix ''RuntimeError'' t \<or> prefix ''CalledProcessError'' t \<or> prefix ''BadZipFile'' t)"
| "is_release_error _ = False"

text \<open>\<open>option\<close> is the value of \<^verbatim>\<open>--output\<close>, if it was given.\<close>

definition release_main :: "host \<Rightarrow> crypto \<Rightarrow> release \<Rightarrow> string option \<Rightarrow> cli_result act" where
  "release_main h cr p output_option =
     bindA (case output_option of
         None \<Rightarrow> returnA (r_root p @ [''release''])
       | Some s \<Rightarrow> liftA (absolute_path h (r_cli p) s)) (\<lambda>chosen.
       let output = h_resolve h chosen
       in thenA (mkdirsA h 511 output)
            (\<lambda>w. case package h cr p output ([], w) of
               (Inr _, (printed, w')) \<Rightarrow> (Inr \<lparr>x_stdout = printed, x_stderr = '''', x_status = 0\<rparr>, w')
             | (Inl e, (printed, w')) \<Rightarrow>
                 if is_release_error e
                 then (Inr \<lparr>x_stdout = printed, x_stderr = ''release error: '' @ message e @ [CHR 0x0A], x_status = 1\<rparr>, w')
                 else (Inl e, w')))"

subsection \<open>The demonstration\<close>

text \<open>
  \<^verbatim>\<open>examples/demo.py\<close>: the texts it prints while one transaction is begun, edited, planned, approved if need be,
  committed and restored. It returns the number of audit events it verified.
\<close>

definition demo_in :: "host \<Rightarrow> crypto \<Rightarrow> path \<Rightarrow> nat script" where
  "demo_in h cr root =
     (let workspace = root @ [''project'']; state = root @ [''broker-state'']; hello = workspace @ [''hello.txt''];
          show_hello = (\<lambda>title. bindA (on_world (read_text h hello)) (\<lambda>s. say [title, strip s]))
      in thenA (on_world (mkdirA h 511 workspace))
        (thenA (on_world (mkdirA h 511 state))
        (thenA (on_world (write_text h hello (''before'' @ [CHR 0x0A])))
        (bindA (on_world (open_guard h cr state None DEFAULT_EXCLUDED_TOP_LEVEL)) (\<lambda>guard.
         bindA (on_world (begin_transaction guard workspace (JStr ''demo''))) (\<lambda>transaction.
           let staged = path_of (t_worktree_root transaction)
           in thenA (on_world (write_text h (staged @ [''hello.txt'']) (''after'' @ [CHR 0x0A])))
             (thenA (on_world (write_text h (staged @ [''new.txt'']) (''new'' @ [CHR 0x0A])))
             (thenA (show_hello ''Real file before commit:'')
             (bindA (on_world (plan_transaction guard (t_id transaction) (JInt 1800))) (\<lambda>plan.
              thenA (say [''Decision:'', decision_value (p_decision plan)])
             (thenA (say [''Summary:'', py_repr (JObj (map (map_prod id JInt) (p_summary plan)))])
             (thenA (say [''Fingerprint:'', p_fingerprint plan])
             (bindA (if p_decision plan = REQUIRE_APPROVAL
                then bindA (on_world (approve guard (p_id plan) (JStr ''demo-user'') (JInt 900)))
                  (\<lambda>token. on_world (commit guard (p_id plan) (Approval_id (a_token_id token))))
                else on_world (commit guard (p_id plan) No_approval)) (\<lambda>record.
              thenA (show_hello ''Real file after commit:'')
             (thenA (say [''Quarantine:'', r_quarantine_root record])
             (thenA (on_world (restore guard (r_commit_id record)))
             (thenA (show_hello ''Real file after restore:'')
             (bindA (on_world (verify_audit guard)) (\<lambda>count.
              thenA (say [''Audit events verified:'', nat_str count]) (returnA count))))))))))))))))))))"

definition demo_main :: "host \<Rightarrow> crypto \<Rightarrow> path \<Rightarrow> nat script" where
  "demo_main h cr tmp = with_temporary h tmp ''tmp'' (demo_in h cr)"

subsection \<open>No release without its checks\<close>

text \<open>A computation that never returns normally\<close>

definition aborts :: "('s, 'a) comp \<Rightarrow> bool" where
  "aborts m \<longleftrightarrow> (\<forall>s. \<exists>e s'. m s = (Inl e, s'))"

lemma abortsE: "aborts m \<Longrightarrow> (\<And>e s'. m s = (Inl e, s') \<Longrightarrow> Q) \<Longrightarrow> Q"
  by (auto simp: aborts_def)

lemma abortsI: "(\<And>s. \<exists>e s'. m s = (Inl e, s')) \<Longrightarrow> aborts m"
  by (simp add: aborts_def)

lemma aborts_first:
  assumes "aborts m"
  shows "aborts (bindA m f)"
proof (rule abortsI)
  fix s
  show "\<exists>e s'. bindA m f s = (Inl e, s')" by (rule abortsE [OF assms, of s]) (simp add: bindA_def)
qed

lemma aborts_later:
  assumes "\<And>x. aborts (f x)"
  shows "aborts (bindA m f)"
  unfolding aborts_def
proof
  fix s
  show "\<exists>e s'. bindA m f s = (Inl e, s')"
  proof (cases "m s")
    case (Pair r s1)
    then show ?thesis using assms by (cases r) (auto simp: bindA_def aborts_def)
  qed
qed

lemma aborts_finally:
  assumes "aborts m"
  shows "aborts (finallyA m final)"
  unfolding aborts_def
proof
  fix s
  obtain e s1 where "m s = (Inl e, s1)" by (rule abortsE [OF assms])
  moreover obtain r s2 where "final s1 = (r, s2)" by (metis surj_pair)
  ultimately show "\<exists>e s'. finallyA m final s = (Inl e, s')" by (cases r) (simp_all add: finallyA_def)
qed

lemma aborts_for: "x \<in> set xs \<Longrightarrow> aborts (f x) \<Longrightarrow> aborts (forA f xs)"
  by (induction xs) (auto intro: aborts_first aborts_later)

lemma aborts_temporary: "(\<And>folder. aborts (body folder)) \<Longrightarrow> aborts (with_temporary h tmp pre body)"
  unfolding with_temporary_def Let_def by (intro aborts_later aborts_finally)

text \<open>A command whose every run fails, wherever and in whatever environment it is started\<close>

definition failing :: "release \<Rightarrow> string list \<Rightarrow> bool" where
  "failing p command \<longleftrightarrow> (\<forall>cwd env. aborts (r_run p command cwd env))"

lemma aborts_on_world:
  assumes "aborts m"
  shows "aborts (on_world m)"
proof (rule abortsI)
  fix s :: "string \<times> world"
  show "\<exists>e s'. on_world m s = (Inl e, s')" by (rule abortsE [OF assms, of "snd s"]) (simp add: on_world_def)
qed

lemma aborts_run: "failing p command \<Longrightarrow> aborts (run_in p cwd env command)"
  unfolding run_in_def failing_def by (intro aborts_later aborts_on_world) simp

lemma aborts_run_here: "failing p command \<Longrightarrow> aborts (run_here p command)"
  unfolding run_here_def by (rule aborts_run)

text \<open>The smoke test fails when the installed wheel lets the command pass or repeats it.\<close>

definition leaking :: "release \<Rightarrow> string list \<Rightarrow> bool" where
  "leaking p command \<longleftrightarrow> (\<forall>cwd env w. case r_run p command cwd env w of
     (Inl _, _) \<Rightarrow> True
   | (Inr out, _) \<Rightarrow> \<not> contains out ''\"decision\": \"deny\"'' \<or> contains out ''release-secret-marker'')"

lemma aborts_smoke:
  assumes "\<And>python. leaking p (smoke_command p python)"
  shows "aborts (verify_installed_wheel p wheel scratch)"
proof -
  let ?python = "venv_python p (scratch @ [''wheel-venv''])"
  have "aborts (bindA (run_in p scratch (r_environ p) (smoke_command p ?python)) (\<lambda>stdout.
      thenA (requireA (contains stdout ''\"decision\": \"deny\"'') e1) (requireA (\<not> contains stdout ''release-secret-marker'') e2)))" for e1 e2
    unfolding aborts_def
  proof
    fix s :: "string \<times> world"
    obtain r w' where r: "r_run p (smoke_command p ?python) scratch (r_environ p) (snd s) = (r, w')" by (metis surj_pair)
    then show "\<exists>e s'. bindA (run_in p scratch (r_environ p) (smoke_command p ?python)) (\<lambda>stdout.
      thenA (requireA (contains stdout ''\"decision\": \"deny\"'') e1) (requireA (\<not> contains stdout ''release-secret-marker'') e2)) s = (Inl e, s')"
      using assms [of ?python, unfolded leaking_def, rule_format, of scratch "r_environ p" "snd s"]
      by (cases r) (auto simp: bindA_def run_in_def say_def on_world_def requireA_def)
  qed
  then show ?thesis unfolding verify_installed_wheel_def Let_def by (rule aborts_later [OF aborts_later])
qed

lemma aborts_source:
  assumes "failing p command" and "command \<in> set (source_checks p) \<or> demo \<and> command = [r_executable p, ''examples/demo.py'']"
  shows "aborts (verify_source p root demo)"
  using assms(2)
proof
  assume "command \<in> set (source_checks p)"
  then show ?thesis unfolding verify_source_def Let_def
    by (intro aborts_first aborts_for [of command] aborts_run assms(1))
next
  assume "demo \<and> command = [r_executable p, ''examples/demo.py'']"
  then show ?thesis using aborts_run [OF assms(1)] unfolding verify_source_def Let_def
    by (auto intro: aborts_later aborts_first)
qed

text \<open>The commands a release of \<open>output\<close> rests on\<close>

definition release_checks :: "release \<Rightarrow> path \<Rightarrow> string list list" where
  "release_checks p output = source_checks p @
     [[r_executable p, ''examples/demo.py''],
      [''git'', ''status'', ''--porcelain'', ''--untracked-files=all''], [''git'', ''rev-parse'', ''HEAD''],
      [''git'', ''rev-list'', ''-n'', ''1'', TAG p],
      [''git'', ''bundle'', ''verify'', path_str (output @ [BUNDLE_NAME])]]"

lemma aborts_clean:
  assumes "failing p c"
    and "c \<in> {[''git'', ''status'', ''--porcelain'', ''--untracked-files=all''], [''git'', ''rev-parse'', ''HEAD''],
      [''git'', ''rev-list'', ''-n'', ''1'', TAG p]}"
  shows "aborts (ensure_clean_release_commit p)"
proof -
  note run = aborts_run_here [OF assms(1)]
  consider "c = [''git'', ''status'', ''--porcelain'', ''--untracked-files=all'']" | "c = [''git'', ''rev-parse'', ''HEAD'']"
    | "c = [''git'', ''rev-list'', ''-n'', ''1'', TAG p]"
    using assms(2) by blast
  then show ?thesis
  proof cases
    case 1
    show ?thesis unfolding ensure_clean_release_commit_def by (rule aborts_first [OF run [unfolded 1]])
  next
    case 2
    show ?thesis unfolding ensure_clean_release_commit_def
      by (rule aborts_later [OF aborts_later [OF aborts_first [OF run [unfolded 2]]]])
  next
    case 3
    show ?thesis unfolding ensure_clean_release_commit_def
      by (rule aborts_later [OF aborts_later [OF aborts_later [OF aborts_first [OF run [unfolded 3]]]]])
  qed
qed

lemma aborts_prod: "(\<And>a b. aborts (f a b)) \<Longrightarrow> aborts (case x of (a, b) \<Rightarrow> f a b)"
  by (cases x) simp

lemma aborts_package:
  assumes "(\<exists>command \<in> set (release_checks p output). failing p command) \<or> (\<forall>python. leaking p (smoke_command p python))"
  shows "aborts (package h cr p output)"
proof -
  let ?verified = "[''git'', ''bundle'', ''verify'', path_str (output @ [BUNDLE_NAME])]"
  let ?demo = "[r_executable p, ''examples/demo.py'']"
  let ?git = "{[''git'', ''status'', ''--porcelain'', ''--untracked-files=all''], [''git'', ''rev-parse'', ''HEAD''],
    [''git'', ''rev-list'', ''-n'', ''1'', TAG p]}"
  have archives: "aborts (make_archives h p z (output @ [BUNDLE_NAME]) k)" if "failing p ?verified" for z k
    unfolding make_archives_def
    by (rule aborts_later [OF aborts_later [OF aborts_later [OF aborts_later [OF aborts_first [OF aborts_run_here [OF that]]]]]])
  have smoke: "aborts (verify_artifacts h p a b c d)" if "\<forall>python. leaking p (smoke_command p python)" for a b c d
    unfolding verify_artifacts_def Let_def
    by (intro aborts_temporary aborts_later aborts_smoke that [rule_format])
  have six: "set (xs @ [a, b, c, d, e]) = set xs \<union> {a} \<union> {b, c, d} \<union> {e}" for xs and a b c d e :: "string list" by auto
  have four: "(\<exists>c. F c \<and> c \<in> set xs) \<or> F a \<or> (\<exists>c. F c \<and> c \<in> G) \<or> F e \<or> Q"
    if "S = set xs \<union> {a} \<union> G \<union> {e}" "(\<exists>c \<in> S. F c) \<or> Q" for F xs a G e Q and S :: "string list set"
    using that by auto
  have "set (release_checks p output) = set (source_checks p) \<union> {?demo} \<union> ?git \<union> {?verified}"
    unfolding release_checks_def by (rule six)
  from four [OF this assms] show ?thesis
  proof (elim disjE exE conjE)
    fix c assume "failing p c" "c \<in> set (source_checks p)"
    then show ?thesis unfolding package_def
      by (intro aborts_later [OF aborts_prod [OF aborts_first [OF aborts_source]]] disjI1)
  next
    assume "failing p ?demo"
    then show ?thesis unfolding package_def
      by (rule aborts_later [OF aborts_prod [OF aborts_first [OF aborts_source]]]) simp
  next
    fix c assume 2: "failing p c" "c \<in> ?git"
    show ?thesis unfolding package_def by (rule aborts_first [OF aborts_clean [OF 2]])
  next
    assume 3: "failing p ?verified"
    show ?thesis unfolding package_def Let_def
      by (rule aborts_later [OF aborts_prod [OF aborts_later [OF aborts_first [OF archives [OF 3]]]]])
  next
    assume 4: "\<forall>python. leaking p (smoke_command p python)"
    show ?thesis unfolding package_def Let_def
      by (rule aborts_later [OF aborts_prod [OF aborts_later [OF aborts_later [OF aborts_later [OF aborts_first [OF smoke [OF 4]]]]]]])
  qed
qed



text \<open>Tools that do what they are asked, except that the replay of the corpus fails\<close>

definition sample_release :: release where
  "sample_release = \<lparr>r_run = (\<lambda>command cwd env.
       if command = [''python'', ''scripts/run_replay.py''] then raiseA (PyError ''CalledProcessError'') else returnA ''''),
     r_infolist = \<lambda>_. returnA sample_members, r_extractall = \<lambda>_ _. returnA (), r_create_venv = \<lambda>_. returnA (),
     r_executable = ''python'', r_environ = [], r_root = [''/'', ''w''], r_version = ''1'', r_windows = False,
     r_tmp = [''/'', ''t''], r_cli = \<lparr>e_state_root = None, e_cwd = [''/'', ''w''], e_user_home = \<lambda>_. None\<rparr>\<rparr>"


end
