(* ===== verification/JsonFuel.thy ===== *)
theory JsonFuel
  imports JsonParse
begin

text \<open>
  The fuel of the JSON reader is no bound: every scanner consumes input, so twice the length of the text is fuel enough for any
  text, and more fuel gives the same answer.
\<close>

subsection \<open>Scanners consume input\<close>

lemma skip_ws_length: "length (skip_ws s) \<le> length s"
  by (simp add: skip_ws_def length_dropWhile_le)

lemma skip_ws_Cons: "skip_ws s = c # cs \<Longrightarrow> length cs < length s"
  using skip_ws_length [of s] by simp

lemma prepend_Some: "prepend c r = Some (t, rest) \<longleftrightarrow> (\<exists>t'. r = Some (t', rest) \<and> t = c # t')"
  by (auto simp: prepend_def)

lemma scan_string_less: "scan_string s = Some (t, r) \<Longrightarrow> length r < length s"
proof (induction s arbitrary: t rule: scan_string.induct)
  case (2 c cs)
  then show ?case
    by (auto simp: prepend_Some split: if_splits list.splits option.splits) fastforce+
qed simp

lemma scan_digits_length: "length (snd (scan_digits s)) \<le> length s"
  by (simp add: scan_digits_def length_dropWhile_le)

lemma scan_int_less: "scan_int s = Some (t, r) \<Longrightarrow> length r < length s"
  using length_dropWhile_le [of is_digit]
  by (auto simp: scan_int_def scan_digits_def less_Suc_eq_le split: list.splits if_splits)

lemma scan_frac_length: "length (snd (scan_frac s)) \<le> length s"
  using scan_digits_length [of "tl s"] by (auto simp: scan_frac_def split: list.splits)

lemma scan_exp_length: "length (snd (scan_exp s)) \<le> length s"
  using scan_digits_length [of "tl s"] scan_digits_length [of "tl (tl s)"]
  by (auto simp: scan_exp_def split: list.splits)

lemma scan_number_less:
  assumes "scan_number s = Some (v, r)" shows "length r < length s"
proof -
  obtain ip q where i: "scan_int (snd (scan_sign s)) = Some (ip, q)" and
    r: "r = q \<or> r = snd (scan_exp (snd (scan_frac q)))"
    using assms by (auto simp: scan_number_def Let_def split: option.splits if_splits)
  have "length (snd (scan_sign s)) \<le> length s" by (auto simp: scan_sign_def split: list.splits)
  moreover have "length r \<le> length q" using r scan_exp_length [of "snd (scan_frac q)"] scan_frac_length [of q] by auto
  ultimately show ?thesis using scan_int_less [OF i] by simp
qed

lemma literal_less: "literal u v s = Some (x, r) \<Longrightarrow> u \<noteq> [] \<Longrightarrow> length r < length s"
  by (auto simp: literal_def prefix_def split: if_splits)

lemma scan_atom_less: "scan_atom s = Some (v, r) \<Longrightarrow> length r < length s"
  by (auto simp: scan_atom_def dest: literal_less scan_number_less split: option.splits)

text \<open>One level of each scanner, in terms of the scanners below\<close>

lemma scan_value_cases:
  assumes "scan_value (Suc n) s = Some (v, r)"
  obtains t where "\<exists>c cs. s = c # cs \<and> scan_string cs = Some (t, r)"
  | c cs d ds where "s = c # cs" "skip_ws cs = d # ds" "r = ds"
  | c cs d ds kvs where "s = c # cs" "skip_ws cs = d # ds" "scan_pairs n ds = Some (kvs, r)"
  | c cs d ds vs where "s = c # cs" "skip_ws cs = d # ds" "scan_items n (d # ds) = Some (vs, r)"
  | "scan_atom s = Some (v, r)"
  using assms by (auto split: list.splits if_splits)

lemma scan_items_cases:
  assumes "scan_items (Suc n) s = Some (vs, r)"
  obtains v r0 c cs where "scan_value n s = Some (v, r0)" "skip_ws r0 = c # cs" "r = cs"
  | v r0 c cs ws where "scan_value n s = Some (v, r0)" "skip_ws r0 = c # cs" "scan_items n (skip_ws cs) = Some (ws, r)"
  using assms by (auto split: option.splits list.splits if_splits)

lemma scan_pairs_cases:
  assumes "scan_pairs (Suc n) s = Some (kvs, r)"
  obtains k r0 c cs v r1 d ds where "scan_string s = Some (k, r0)" "skip_ws r0 = c # cs" "scan_value n (skip_ws cs) = Some (v, r1)"
      "skip_ws r1 = d # ds" "r = ds"
  | k r0 c cs v r1 d ds q qs ws where "scan_string s = Some (k, r0)" "skip_ws r0 = c # cs"
      "scan_value n (skip_ws cs) = Some (v, r1)" "skip_ws r1 = d # ds" "skip_ws ds = q # qs" "scan_pairs n qs = Some (ws, r)"
  using assms by (auto split: option.splits list.splits if_splits)

lemma scan_less:
  shows scan_value_less: "scan_value n s = Some (v, r) \<Longrightarrow> length r < length s"
    and scan_items_less: "scan_items n s = Some (vs, r) \<Longrightarrow> length r < length s"
    and scan_pairs_less: "scan_pairs n s = Some (kvs, r) \<Longrightarrow> length r < length s"
proof (induction n arbitrary: s v vs kvs r)
  case (Suc n)
  {
    case 1
    then show ?case
      by (cases rule: scan_value_cases)
        (use scan_string_less skip_ws_Cons Suc.IH(2,3) scan_atom_less in \<open>fastforce dest: less_trans\<close>)+
  next
    case 2
    then show ?case
    proof (cases rule: scan_items_cases)
      case (1 v r0 c cs)
      then show ?thesis using Suc.IH(1) [of s v r0] skip_ws_Cons [of r0 c cs] by simp
    next
      case (2 v r0 c cs ws)
      then show ?thesis using Suc.IH(1) [of s v r0] skip_ws_Cons [of r0 c cs] Suc.IH(2) [of "skip_ws cs" ws r] skip_ws_length [of cs] by simp
    qed
  next
    case 3
    then show ?case
    proof (cases rule: scan_pairs_cases)
      case (1 k r0 c cs v r1 d ds)
      then show ?thesis
        using scan_string_less [of s k r0] skip_ws_Cons [of r0 c cs] skip_ws_length [of cs] Suc.IH(1) [of "skip_ws cs" v r1]
          skip_ws_Cons [of r1 d ds] by simp
    next
      case (2 k r0 c cs v r1 d ds q qs ws)
      then show ?thesis
        using scan_string_less [of s k r0] skip_ws_Cons [of r0 c cs] skip_ws_length [of cs] Suc.IH(1) [of "skip_ws cs" v r1]
          skip_ws_Cons [of r1 d ds] skip_ws_Cons [of ds q qs] Suc.IH(3) [of qs ws r] by simp
    qed
  }
qed simp_all

subsection \<open>Enough fuel\<close>

lemma scan_fuel_step:
  shows scan_value_step: "2 * length s + 1 \<le> n \<Longrightarrow> scan_value (Suc n) s = scan_value n s"
    and scan_items_step: "2 * length s + 2 \<le> n \<Longrightarrow> scan_items (Suc n) s = scan_items n s"
    and scan_pairs_step: "2 * length s + 1 \<le> n \<Longrightarrow> scan_pairs (Suc n) s = scan_pairs n s"
proof (induction n arbitrary: s)
  case (Suc n)
  {
    case 1
    show ?case
    proof (cases s)
      case (Cons c cs)
      have "scan_pairs (Suc n) ds = scan_pairs n ds" "scan_items (Suc n) (d # ds) = scan_items n (d # ds)"
        if "skip_ws cs = d # ds" for d ds
        using skip_ws_Cons [OF that] 1 Cons by (intro Suc.IH(3) Suc.IH(2); simp)+
      then show ?thesis using Cons by (simp only: scan_value.simps) (simp split: list.splits)
    qed simp
  next
    case 2
    have v: "scan_value (Suc n) s = scan_value n s" using 2 by (intro Suc.IH(1)) simp
    have "scan_items (Suc n) (skip_ws cs) = scan_items n (skip_ws cs)" if "scan_value n s = Some (x, r)" "skip_ws r = c # cs" for x r c cs
      using scan_value_less [OF that(1)] skip_ws_Cons [OF that(2)] skip_ws_length [of cs] 2 by (intro Suc.IH(2)) linarith
    then show ?case unfolding scan_items.simps v by (auto split: option.splits list.splits)
  next
    case 3
    have "scan_value (Suc n) (skip_ws cs) = scan_value n (skip_ws cs)" if "scan_string s = Some (k, r)" "skip_ws r = c # cs" for k r c cs
      using scan_string_less [OF that(1)] skip_ws_Cons [OF that(2)] skip_ws_length [of cs] 3 by (intro Suc.IH(1)) linarith
    moreover have "scan_pairs (Suc n) qs = scan_pairs n qs"
      if "scan_string s = Some (k, r)" "skip_ws r = c # cs" "scan_value n (skip_ws cs) = Some (x, r1)" "skip_ws r1 = d # ds" "skip_ws ds = q # qs"
      for k r c cs x r1 d ds q qs
      using scan_string_less [OF that(1)] skip_ws_Cons [OF that(2)] skip_ws_length [of cs] scan_value_less [OF that(3)]
        skip_ws_Cons [OF that(4)] skip_ws_Cons [OF that(5)] 3 by (intro Suc.IH(3)) linarith
    ultimately show ?case unfolding scan_pairs.simps by (auto split: option.splits list.splits)
  }
qed simp_all

lemma scan_value_fuel:
  assumes "2 * length s + 1 \<le> n" "n \<le> m" shows "scan_value m s = scan_value n s"
  using assms(2)
proof (induction m rule: dec_induct)
  case (step m)
  then show ?case using scan_value_step [of s m] assms(1) by simp
qed simp



end
