(* ===== verification/Spec2Isabelle.thy ===== *)
theory Spec2Isabelle
  imports PolicyFacts ShellFacts WholeCommit Restoring Approvals CommandFacts RepoFacts PackageRelease JsonFuel
begin

text \<open>
  A verification library for Agent Workspace Guard, a broker that lets an untrusted agent work on a disposable copy of a
  directory and applies the result to the real directory only after a policy, and if need be a person, has approved it. This
  theory imports the others; it says what they model, what they show and what is left out.

  \<^bold>\<open>The program.\<close> \<^verbatim>\<open>WorkspaceGuard\<close> (\<^verbatim>\<open>src/agent_workspace_guard/broker.py\<close>) owns a state directory with transactions, plans,
  approvals, commit records, a quarantine, a lock per workspace, a signing key and an audit log. \<^verbatim>\<open>begin\<close> copies the workspace;
  \<^verbatim>\<open>plan\<close> scans both trees (\<^verbatim>\<open>manifest.py\<close>), takes their difference and has the policy (\<^verbatim>\<open>policy.py\<close>) decide on it; \<^verbatim>\<open>approve\<close> mints
  a token bound to one plan; \<^verbatim>\<open>commit\<close> checks all of it again, stages the new content, moves each changed entry to
  quarantine and its replacement into place, and rolls everything back when something fails; \<^verbatim>\<open>restore\<close> undoes a commit. Every
  record is signed (\<^verbatim>\<open>crypto.py\<close>) over canonical JSON (\<^verbatim>\<open>util.py\<close>, \<^verbatim>\<open>models.py\<close>), and every step is an event in a hash chain
  (\<^verbatim>\<open>audit.py\<close>). The shell gate (\<^verbatim>\<open>shell_gate.py\<close>) judges a command line by its text, \<^verbatim>\<open>cli.py\<close> is the command line, and the scripts
  keep the repository's manifest, replay the corpus of the gate and build releases.

  \<^bold>\<open>The model.\<close> Pure code is a HOL function; a failure is the left summand of \<open>result\<close>, with one constructor of \<open>error\<close> for
  each exception class. Code with effects is an action \<open>world \<Rightarrow> 'a result \<times> world\<close>, where \<open>world\<close> is a file tree with counters
  of the calls made, and \<open>host\<close> answers for the clock, the random source and which call fails. Since the failing calls are
  an arbitrary function of the number of the call, a theorem about all hosts is about a fault at any call. The commit record
  that \<^verbatim>\<open>commit\<close> mutates is threaded beside the world. SHA-256 and HMAC are parameters (\<open>crypto\<close>); where a theorem
  needs that digests identify their input, a collision is an explicit way out of its conclusion.

  \<^item> \<^bold>\<open>Ground.\<close> Prelude (results, collections), Errors (\<^verbatim>\<open>errors.py\<close>), PyStr, PyValue and Regex (what the source uses of Python's
    \<^verbatim>\<open>str\<close>, of values read from JSON, and of \<^verbatim>\<open>re\<close>).
  \<^item> \<^bold>\<open>JSON and records.\<close> Json (\<^verbatim>\<open>canonical_json\<close>), JsonParse (\<^verbatim>\<open>json.loads\<close>), JsonRoundtrip, JsonFuel; Models and ModelFacts
    (\<^verbatim>\<open>models.py\<close>); Util (validators and paths of \<^verbatim>\<open>util.py\<close>); Crypto (\<^verbatim>\<open>StateSigner\<close>). The locales \<open>json_codec\<close>, \<open>enum_codec\<close>
    and \<open>signer\<close> state what the broker relies on of the records, the enumerations and the signatures; they are interpreted for
    every record type, every enumeration and the key.
  \<^item> \<^bold>\<open>Trees.\<close> FileTree (nodes, lookup and update; the locale \<open>directory\<close> is the contract of one directory, met by sorted
    association lists), Manifest (\<^verbatim>\<open>manifest.py\<close>), ManifestFacts and DiffFacts: a scan lists exactly the tree, its digest
    determines the tree, the difference is exact, and replacing the subtrees at the operation roots turns one tree into the other.
  \<^item> \<^bold>\<open>Judgement.\<close> Policy and PolicyFacts (\<^verbatim>\<open>policy.py\<close>, the division of floats included), ShellGate and ShellFacts
    (\<^verbatim>\<open>shell_gate.py\<close>): what is denied, what is allowed outright, and the expected decision for every case of
    \<^verbatim>\<open>evals/destructive_replays.json\<close>.
  \<^item> \<^bold>\<open>Effects.\<close> FileSys (the calls of the operating system and the helpers of \<^verbatim>\<open>util.py\<close> and \<^verbatim>\<open>manifest.py\<close> that make them),
    FileSysFacts (the locale \<open>frame\<close>: a relation that every step of an action keeps, interpreted for what a path keeps, for
    reading, for sets of paths and for properties of the commit state), AuditLog and AuditFacts (\<^verbatim>\<open>audit.py\<close>).
  \<^item> \<^bold>\<open>The broker.\<close> Broker (opening, loading, saving and checking records), Lifecycle (\<^verbatim>\<open>begin\<close>, \<^verbatim>\<open>environment\<close>, \<^verbatim>\<open>discard\<close>, \<^verbatim>\<open>plan\<close>,
    \<^verbatim>\<open>approve\<close>), Commit (\<^verbatim>\<open>commit\<close>, its rollback, the lock, \<^verbatim>\<open>restore\<close>). BrokerFacts, Beginning and Approvals hold the facts on
    the records and on the operations before a commit. CommitFacts has a Hoare logic with an exceptional postcondition;
    RollbackFacts carries through it the invariant that the workspace is the baseline up to a stack of replaced subtrees whose
    old versions are in quarantine; CommitOutcome, PrepareFacts and CommitSafety follow the record on disk, the payloads and the
    whole operation; CommitTheorems states the results, SampleCommit has the broker they are applied to. Completion is the
    total side: on a host where no call fails, the apply loop runs to its end; ScanAlike shows that the tree it leaves has the
    digest of the worktree, WholeCommit that the whole \<^verbatim>\<open>commit\<close> returns. Restoring, Confinement: \<^verbatim>\<open>restore\<close> and the lock,
    and what any sequence of operations can touch.
  \<^item> \<^bold>\<open>Command line and scripts.\<close> CommandLine and CommandFacts (\<^verbatim>\<open>cli.py\<close>); RepoManifest and RepoFacts
    (\<^verbatim>\<open>scripts/verify_manifest.py\<close>); ReleaseScripts and PackageRelease (\<^verbatim>\<open>scripts/run_replay.py\<close>, \<^verbatim>\<open>scripts/package_release.py\<close>,
    \<^verbatim>\<open>examples/demo.py\<close>), where every program they start is a parameter that may do anything.

  \<^bold>\<open>Fuel and bounds.\<close> The JSON reader is the only definition with fuel, twice the length of the text and two more: JsonFuel
    shows that more fuel never changes the answer. The other recursions end by their measures. Integers are unbounded, as in
    Python; file modes use the bit operations on integers, the attributes of a ZIP member are 32-bit words. Floats are dyadic
    rationals with the one division of the policy rounded to 53 bits.

  \<^bold>\<open>Not modelled.\<close> Code points above 255 and surrogates (UTF-8 is decoded up to \<^verbatim>\<open>U+00FF\<close>). Symbolic links inside the paths the
    broker itself opens: such a path fails here; links as entries of a workspace are modelled. Other processes changing files
    during an operation, and a crash of the broker in the middle of one; a call either takes effect or fails. Temporary files of
    an atomic replacement, which are gone when it fails. The interpolated values of error messages, and the text of floats, which
    JSON carries as read. The depth at which Python gives up recursion. The tokenising, usage and help texts of \<^verbatim>\<open>argparse\<close>. What \<^verbatim>\<open>git\<close>,
    \<^verbatim>\<open>pip\<close>, \<^verbatim>\<open>python\<close>, \<^verbatim>\<open>zipfile\<close> and \<^verbatim>\<open>venv\<close> do, and what a child process prints directly to the terminal.
\<close>

end
